(* ===== verification/Prelude.thy ===== *)
theory Prelude
  imports Complex_Main "HOL-Library.AList" "HOL-Library.List_Lexorder" "HOL-Library.Char_ord"
begin

text \<open>
  The vocabulary every component shares.

  \<^item> Numbers. Python floats are modelled as exact rationals (\<open>rat\<close>); a float that the code
    lets become Not-a-Number is a \<open>rat option\<close> with \<open>None\<close> for NaN. Python integers are \<open>int\<close>.
  \<^item> Timestamps (\<open>pd.Timestamp\<close>) are nanoseconds since the epoch, as \<open>int\<close>.
  \<^item> Dictionaries are association lists in insertion order, with \<open>map_of\<close>, \<open>AList.update\<close>
    (which overwrites in place or appends, as a Python dictionary does) and \<open>AList.delete\<close>.
  \<^item> A method that mutates its object and may raise is a function to an \<open>outcome\<close>: the state
    it leaves behind and the exception that propagates, if any. A raise after a partial update
    is therefore visible in the model.
\<close>

section \<open>Types\<close>

type_synonym symbol = string
type_synonym timestamp = int
type_synonym nan_rat = "rat option"
type_synonym ('k, 'v) dict = "('k \<times> 'v) list"

text \<open>
  The exceptions the program raises or lets through. Those whose text is read again (it is
  written into the order ledger) carry it, or the operands of the format string it is made
  from. \<open>Interrupted\<close> stands for what is not an \<^verbatim>\<open>Exception\<close> (\<^verbatim>\<open>KeyboardInterrupt\<close>,
  \<^verbatim>\<open>SystemExit\<close>), which no handler of the program catches: it ends the thread it is raised on, and
  with the main thread the process.
\<close>

datatype limit_breach =
    OrderValue symbol int rat rat rat
  | SessionOrders nat symbol

datatype exn =
    ValueError
  | KeyError
  | IndexError
  | TypeError
  | AttributeError
  | ZeroDivisionError
  | OverflowError
  | RuntimeError
  | KillSwitchEngaged string
  | TradingHalted string
  | OrderLimitExceeded limit_breach
  | Misrouted
  | MailboxClosed
  | PriceUnavailable
  | LedgerIdentityConflict
  | KisParseError
  | FileNotFoundError
  | HolidayServiceUnavailable
  | IntegrityError
  | VenueFailure string
  | Interrupted

section \<open>Outcomes: state and exception\<close>

type_synonym 's outcome = "'s \<times> exn option"

definition ok :: "'s \<Rightarrow> 's outcome" where
  "ok s = (s, None)"

definition raise :: "exn \<Rightarrow> 's \<Rightarrow> 's outcome" where
  "raise e s = (s, Some e)"

definition then_do :: "'s outcome \<Rightarrow> ('s \<Rightarrow> 's outcome) \<Rightarrow> 's outcome" where
  "then_do r f = (case snd r of None \<Rightarrow> f (fst r) | Some e \<Rightarrow> r)"

text \<open>An outcome of a part of the state, put back into the whole.\<close>

definition map_outcome :: "('s \<Rightarrow> 't) \<Rightarrow> 's outcome \<Rightarrow> 't outcome" where
  "map_outcome f r = (f (fst r), snd r)"

text \<open>A \<^verbatim>\<open>for\<close> loop over a list: the first exception ends it.\<close>

fun for_each :: "('a \<Rightarrow> 's \<Rightarrow> 's outcome) \<Rightarrow> 'a list \<Rightarrow> 's \<Rightarrow> 's outcome" where
  "for_each f [] s = ok s"
| "for_each f (x # xs) s = then_do (f x s) (for_each f xs)"

named_theorems outcome_simps \<open>evaluation of outcomes\<close>

lemma fst_ok [simp]: "fst (ok s) = s" and snd_ok [simp]: "snd (ok s) = None"
  by (simp_all add: ok_def)

lemma fst_raise [simp]: "fst (raise e s) = s" and snd_raise [simp]: "snd (raise e s) = Some e"
  by (simp_all add: raise_def)

lemma then_do_ok [simp]: "then_do (ok s) f = f s"
  by (simp add: then_do_def)

lemma then_do_raise [simp]: "then_do (raise e s) f = raise e s"
  by (simp add: then_do_def raise_def)

lemma ok_neq_raise [simp]: "ok s \<noteq> raise e t" "raise e t \<noteq> ok s"
  by (simp_all add: ok_def raise_def)

lemma ok_inject [simp]: "ok s = ok t \<longleftrightarrow> s = t"
  by (simp add: ok_def)

lemma raise_inject [simp]: "raise e s = raise e' t \<longleftrightarrow> e = e' \<and> s = t"
  by (auto simp: raise_def)

lemma map_outcome_ok [simp]: "map_outcome f (ok s) = ok (f s)"
  and map_outcome_raise [simp]: "map_outcome f (raise e s) = raise e (f s)"
  and fst_map_outcome [simp]: "fst (map_outcome f r) = f (fst r)"
  and snd_map_outcome [simp]: "snd (map_outcome f r) = snd r"
  by (simp_all add: map_outcome_def ok_def raise_def)

lemma outcome_cases [case_names ok raise]:
  obtains s where "r = ok s" | e s where "r = raise e s"
  by (cases r; cases "snd r") (auto simp: ok_def raise_def)

lemma outcome_eq_okI: "snd r = None \<Longrightarrow> r = ok (fst r)"
  by (cases r) (auto simp: ok_def)

lemma then_do_assoc: "then_do (then_do r f) g = then_do r (\<lambda>s. then_do (f s) g)"
  by (cases r rule: outcome_cases) simp_all

lemma then_do_ok_right [simp]: "then_do r ok = r"
  by (cases r rule: outcome_cases) simp_all

lemma then_do_eq_ok: "then_do r f = ok t \<longleftrightarrow> (\<exists>s. r = ok s \<and> f s = ok t)"
  by (cases r rule: outcome_cases) auto

lemma map_outcome_eq_ok: "map_outcome f r = ok t \<longleftrightarrow> (\<exists>s. r = ok s \<and> t = f s)"
  by (cases r rule: outcome_cases) auto

lemma for_each_Nil_fun [simp]: "for_each f [] = ok"
  by (rule ext) simp

lemma for_each_append: "for_each f (xs @ ys) s = then_do (for_each f xs s) (for_each f ys)"
proof (induction xs arbitrary: s)
  case (Cons x xs)
  then have "for_each f xs = (\<lambda>s. for_each f xs s)"
    "(\<lambda>s. for_each f (xs @ ys) s) = (\<lambda>s. then_do (for_each f xs s) (for_each f ys))"
    by auto
  then show ?case by (simp add: then_do_assoc)
qed simp

text \<open>What every iteration keeps, the loop keeps, whether it ends normally or by a raise.\<close>

lemma then_do_inv:
  assumes "P (fst r)" and "\<And>s. P s \<Longrightarrow> P (fst (f s))"
  shows "P (fst (then_do r f))"
  using assms by (cases r rule: outcome_cases) auto

lemma for_each_inv:
  assumes "P s" and "\<And>x s. x \<in> set xs \<Longrightarrow> P s \<Longrightarrow> P (fst (f x s))"
  shows "P (fst (for_each f xs s))"
  using assms
proof (induction xs arbitrary: s)
  case (Cons x xs)
  have "P (fst (f x s))" using Cons.prems by simp
  moreover have "\<And>t. P t \<Longrightarrow> P (fst (for_each f xs t))"
    using Cons.IH Cons.prems(2) by simp
  ultimately show ?case by (simp add: then_do_inv)
qed simp

text \<open>The same for a relation between the state before and the state after.\<close>

lemma for_each_rel:
  assumes refl: "\<And>s. R s s" and trans: "\<And>s t u. R s t \<Longrightarrow> R t u \<Longrightarrow> R s u"
    and step: "\<And>x s. x \<in> set xs \<Longrightarrow> R s (fst (f x s))"
  shows "R s (fst (for_each f xs s))"
  by (rule for_each_inv [where P = "R s"]) (auto intro: refl trans step)

lemma for_each_eq_ok_Cons:
  "for_each f (x # xs) s = ok t \<longleftrightarrow> (\<exists>u. f x s = ok u \<and> for_each f xs u = ok t)"
  by (simp add: then_do_eq_ok)

text \<open>A loop that raises did so in one iteration, after those before it went through.\<close>

lemma for_each_eq_raise:
  "for_each f xs s = raise e t \<Longrightarrow>
   \<exists>ys x zs u. xs = ys @ x # zs \<and> for_each f ys s = ok u \<and> f x u = raise e t"
proof (induction xs arbitrary: s)
  case (Cons x xs)
  show ?case
  proof (cases "f x s" rule: outcome_cases)
    case (ok u)
    then obtain ys y zs v where "xs = ys @ y # zs" "for_each f ys u = Prelude.ok v" "f y v = raise e t"
      using Cons.IH [of u] Cons.prems by auto
    with ok show ?thesis by (intro exI [of _ "x # ys"] exI [of _ y] exI [of _ zs] exI [of _ v]) simp
  next
    case (raise e' u)
    with Cons.prems have "f x s = Prelude.raise e t" by simp
    then show ?thesis
      by (intro exI [of _ "[]"] exI [of _ x] exI [of _ xs] exI [of _ s]) simp
  qed
qed simp

section \<open>Results: value or exception\<close>

text \<open>A function that returns a value or raises, without touching any state.\<close>

definition and_then :: "exn + 'a \<Rightarrow> ('a \<Rightarrow> exn + 'b) \<Rightarrow> exn + 'b" where
  "and_then r f = (case r of Inl e \<Rightarrow> Inl e | Inr x \<Rightarrow> f x)"

lemma and_then_simps [simp]: "and_then (Inl e) f = Inl e" "and_then (Inr x) f = f x"
  by (simp_all add: and_then_def)

lemma and_then_eq_Inr: "and_then r f = Inr y \<longleftrightarrow> (\<exists>x. r = Inr x \<and> f x = Inr y)"
  by (cases r) simp_all

text \<open>A method of an object that returns a value or raises, used for its effect on a state.\<close>

definition with_result :: "exn + 'a \<Rightarrow> ('a \<Rightarrow> 's outcome) \<Rightarrow> 's \<Rightarrow> 's outcome" where
  "with_result r f s = (case r of Inl e \<Rightarrow> raise e s | Inr x \<Rightarrow> f x)"

lemma with_result_simps [simp]:
  "with_result (Inl e) f s = raise e s" "with_result (Inr x) f s = f x"
  by (simp_all add: with_result_def)

lemma with_result_eq_ok: "with_result r f s = ok t \<longleftrightarrow> (\<exists>x. r = Inr x \<and> f x = ok t)"
  by (cases r) simp_all

lemmas outcome_defs = ok_def raise_def then_do_def

section \<open>Dictionaries in insertion order\<close>

abbreviation dict_keys :: "('k, 'v) dict \<Rightarrow> 'k list" where
  "dict_keys d \<equiv> map fst d"

definition wf_dict :: "('k, 'v) dict \<Rightarrow> bool" where
  "wf_dict d \<longleftrightarrow> distinct (dict_keys d)"

text \<open>\<^verbatim>\<open>{**a, **b}\<close> and \<^verbatim>\<open>a.update(b)\<close>: the entries of \<open>b\<close>, in order, put into \<open>a\<close>.\<close>

fun dict_update :: "('k, 'v) dict \<Rightarrow> ('k, 'v) dict \<Rightarrow> ('k, 'v) dict" where
  "dict_update a [] = a"
| "dict_update a ((k, v) # b) = dict_update (AList.update k v a) b"

lemma wf_dict_Nil [simp]: "wf_dict []"
  by (simp add: wf_dict_def)

lemma wf_dict_update [simp]: "wf_dict d \<Longrightarrow> wf_dict (AList.update k v d)"
  by (simp add: wf_dict_def distinct_update)

lemma wf_dict_delete [simp]: "wf_dict d \<Longrightarrow> wf_dict (AList.delete k d)"
  by (simp add: wf_dict_def distinct_delete)

lemma map_of_AList_update [simp]: "map_of (AList.update k v d) = (map_of d)(k \<mapsto> v)"
  by (rule update_conv')

lemma map_of_AList_delete [simp]: "map_of (AList.delete k d) = (map_of d)(k := None)"
  by (rule delete_conv')

lemma wf_dict_dict_update: "wf_dict a \<Longrightarrow> wf_dict (dict_update a b)"
  by (induction a b rule: dict_update.induct) auto

lemma map_of_dict_update:
  "distinct (map fst b) \<Longrightarrow>
   map_of (dict_update a b) k = (case map_of b k of Some v \<Rightarrow> Some v | None \<Rightarrow> map_of a k)"
proof (induction a b rule: dict_update.induct)
  case (2 a k' v b)
  then have "map_of b k' = None" by (simp add: map_of_eq_None_iff)
  with 2 show ?case by (cases "map_of b k") auto
qed simp

lemma update_new: "map_of d k = None \<Longrightarrow> AList.update k v d = d @ [(k, v)]"
  by (induction d) auto

lemma dict_keys_update: "map_of d k = Some v \<Longrightarrow> dict_keys (AList.update k w d) = dict_keys d"
  by (induction d) auto

lemma set_dict_eq: "wf_dict d \<Longrightarrow> (k, v) \<in> set d \<longleftrightarrow> map_of d k = Some v"
  by (simp add: wf_dict_def)

text \<open>Sums over the values of a dictionary, before and after an update or a deletion.\<close>

definition dict_sum :: "('v \<Rightarrow> 'n::comm_monoid_add) \<Rightarrow> ('k, 'v) dict \<Rightarrow> 'n" where
  "dict_sum f d = sum_list (map (\<lambda>(k, v). f v) d)"

lemma dict_sum_Nil [simp]: "dict_sum f [] = 0"
  and dict_sum_Cons [simp]: "dict_sum f ((k, v) # d) = f v + dict_sum f d"
  and dict_sum_append [simp]: "dict_sum f (d @ d') = dict_sum f d + dict_sum f d'"
  by (simp_all add: dict_sum_def)

lemma dict_sum_update:
  fixes f :: "'v \<Rightarrow> 'n::ab_group_add"
  assumes "wf_dict d"
  shows "dict_sum f (AList.update k v d) =
    dict_sum f d - (case map_of d k of None \<Rightarrow> 0 | Some w \<Rightarrow> f w) + f v"
  using assms
proof (induction d)
  case (Cons a d)
  obtain k' w where a: "a = (k', w)" by (cases a)
  have wf: "wf_dict d" using Cons.prems by (simp add: wf_dict_def)
  show ?case
    using Cons.IH [OF wf] by (cases "map_of d k") (auto simp: a algebra_simps)
qed simp

lemma dict_sum_delete:
  fixes f :: "'v \<Rightarrow> 'n::ab_group_add"
  assumes "wf_dict d"
  shows "dict_sum f (AList.delete k d) =
    dict_sum f d - (case map_of d k of None \<Rightarrow> 0 | Some w \<Rightarrow> f w)"
  using assms
proof (induction d)
  case (Cons a d)
  obtain k' w where a: "a = (k', w)" by (cases a)
  have none: "map_of d k' = None" and wf: "wf_dict d"
    using Cons.prems by (auto simp: a wf_dict_def map_of_eq_None_iff)
  show ?case
    using Cons.IH [OF wf] none by (cases "map_of d k") (auto simp: a algebra_simps)
qed simp

section \<open>Rounding\<close>

text \<open>
  Python's \<^verbatim>\<open>round(x)\<close> and \<^verbatim>\<open>round(x, 2)\<close>: to the nearest, ties to even.
\<close>

definition py_round :: "rat \<Rightarrow> int" where
  "py_round x = (let f = \<lfloor>x\<rfloor>; d = x - of_int f in
     if d < 1/2 then f else if 1/2 < d then f + 1 else if even f then f else f + 1)"

definition py_round2 :: "rat \<Rightarrow> rat" where
  "py_round2 x = of_int (py_round (x * 100)) / 100"

text \<open>Python's \<^verbatim>\<open>int(x)\<close> on a float truncates towards zero.\<close>

definition py_int :: "rat \<Rightarrow> int" where
  "py_int x = (if 0 \<le> x then \<lfloor>x\<rfloor> else \<lceil>x\<rceil>)"

text \<open>Evaluation on numerals.\<close>

lemma floor_rat_numerals [simp]:
  "\<lfloor>numeral a / numeral b :: rat\<rfloor> = numeral a div numeral b"
  "\<lfloor>- (numeral a / numeral b) :: rat\<rfloor> = - numeral a div numeral b"
  "\<lfloor>1 / numeral b :: rat\<rfloor> = 1 div numeral b"
  using floor_divide_of_int_eq [of "numeral a" "numeral b", where ?'a = rat]
    floor_divide_of_int_eq [of "- numeral a" "numeral b", where ?'a = rat]
    floor_divide_of_int_eq [of 1 "numeral b", where ?'a = rat]
  by simp_all

lemma py_round_of_int [simp]: "py_round (of_int n) = n"
  by (simp add: py_round_def)

lemma py_round_near: "\<bar>x - of_int (py_round x)\<bar> \<le> 1/2"
proof -
  have "of_int \<lfloor>x\<rfloor> \<le> x" and "x < of_int \<lfloor>x\<rfloor> + 1" by linarith+
  then show ?thesis by (simp add: py_round_def Let_def)
qed

lemma py_int_of_int [simp]: "py_int (of_int n) = n"
  by (simp add: py_int_def)

text \<open>\<^verbatim>\<open>np.copysign(1, q)\<close> and \<^verbatim>\<open>np.sign(q)\<close>.\<close>

definition copysign1 :: "rat \<Rightarrow> int" where
  "copysign1 q = (if q < 0 then -1 else 1)"

text \<open>\<^verbatim>\<open>np.isclose(x, 0.0)\<close> with numpy's default absolute tolerance \<open>1e-8\<close>.\<close>

definition isclose_zero :: "rat \<Rightarrow> bool" where
  "isclose_zero x \<longleftrightarrow> \<bar>x\<bar> \<le> 1 / 100000000"

lemma isclose_zero_0 [simp]: "isclose_zero 0"
  by (simp add: isclose_zero_def)

lemma not_isclose_zero_neq: "\<not> isclose_zero x \<Longrightarrow> x \<noteq> 0"
  by auto

section \<open>Text\<close>

text \<open>\<^verbatim>\<open>str.upper()\<close> on ASCII text.\<close>

definition upper_char :: "char \<Rightarrow> char" where
  "upper_char c = (let n = of_char c :: nat in
     if 97 \<le> n \<and> n \<le> 122 then char_of (n - 32) else c)"

definition upper :: "string \<Rightarrow> string" where
  "upper s = map upper_char s"

section \<open>Not-a-Number\<close>

text \<open>Arithmetic on floats that may be NaN: NaN is absorbing.\<close>

definition nan_add :: "nan_rat \<Rightarrow> nan_rat \<Rightarrow> nan_rat" where
  "nan_add x y = (case (x, y) of (Some a, Some b) \<Rightarrow> Some (a + b) | _ \<Rightarrow> None)"

fun nan_sum :: "nan_rat list \<Rightarrow> nan_rat" where
  "nan_sum [] = Some 0"
| "nan_sum (x # xs) = nan_add x (nan_sum xs)"

lemma nan_add_Some [simp]: "nan_add (Some a) (Some b) = Some (a + b)"
  and nan_add_None [simp]: "nan_add None y = None" "nan_add x None = None"
  by (simp_all add: nan_add_def split: option.splits)

lemma nan_sum_map_Some [simp]: "nan_sum (map (\<lambda>x. Some (f x)) xs) = Some (sum_list (map f xs))"
  by (induction xs) auto

lemma nan_sum_None: "None \<in> set xs \<Longrightarrow> nan_sum xs = None"
  by (induction xs) auto

end
