(* ===== verification/Py_Text.thy ===== *)
theory Py_Text
  imports Prelude
begin

text \<open>
  The methods of Python's \<^verbatim>\<open>str\<close> that the parsers use. The text is Latin-1, one \<open>char\<close> a code point.
\<close>

section \<open>White space and case\<close>

definition is_space :: "char \<Rightarrow> bool" where
  "is_space c \<longleftrightarrow> of_char c \<in> {9, 10, 11, 12, 13, 28, 29, 30, 31, 32, 133, 160 :: nat}"

definition strip_by :: "(char \<Rightarrow> bool) \<Rightarrow> string \<Rightarrow> string" where
  "strip_by P s = rev (dropWhile P (rev (dropWhile P s)))"

abbreviation strip :: "string \<Rightarrow> string" where
  "strip \<equiv> strip_by is_space"

definition ascii_lower :: "string \<Rightarrow> string" where
  "ascii_lower s = map (\<lambda>c. if 65 \<le> (of_char c :: nat) \<and> (of_char c :: nat) \<le> 90
     then char_of (of_char c + 32 :: nat) else c) s"

section \<open>Pieces\<close>

text \<open>\<^verbatim>\<open>sep.join(pieces)\<close> and \<^verbatim>\<open>text.split(sep)\<close>, \<open>sep\<close> one character in the latter.\<close>

fun join_by :: "string \<Rightarrow> string list \<Rightarrow> string" where
  "join_by s [] = ''''"
| "join_by s [x] = x"
| "join_by s (x # y # xs) = x @ s @ join_by s (y # xs)"

fun split_on :: "char \<Rightarrow> string \<Rightarrow> string list" where
  "split_on c [] = [[]]"
| "split_on c (x # xs) =
    (if x = c then [] # split_on c xs else (x # hd (split_on c xs)) # tl (split_on c xs))"

lemma split_on_ne [simp]: "split_on c s \<noteq> []"
  by (cases s) auto

lemma split_on_none: "c \<notin> set s \<Longrightarrow> split_on c s = [s]"
  by (induction s) auto

lemma split_on_append: "c \<notin> set s \<Longrightarrow> split_on c (s @ c # t) = s # split_on c t"
  by (induction s) auto

lemma split_on_pieces: "p \<in> set (split_on c s) \<Longrightarrow> c \<notin> set p"
proof (induction s arbitrary: p)
  case (Cons x s)
  have "hd (split_on c s) \<in> set (split_on c s)" by simp
  with Cons show ?case by (auto split: if_splits dest: list.set_sel(2) [OF split_on_ne])
qed simp

section \<open>Stripping\<close>

lemma strip_by_idle: "s = [] \<or> (\<not> P (hd s) \<and> \<not> P (last s)) \<Longrightarrow> strip_by P s = s"
proof -
  assume s: "s = [] \<or> (\<not> P (hd s) \<and> \<not> P (last s))"
  then have "dropWhile P s = s" and "dropWhile P (rev s) = rev s"
    by (auto simp: dropWhile_eq_self_iff hd_rev)
  then show ?thesis by (simp add: strip_by_def)
qed

lemma strip_by_hd: "strip_by P s \<noteq> [] \<Longrightarrow> \<not> P (hd (strip_by P s))"
proof -
  assume ne: "strip_by P s \<noteq> []"
  define t where "t = dropWhile P s"
  have t: "t \<noteq> []" using ne by (auto simp: strip_by_def t_def dest: set_dropWhileD)
  then have "\<not> P (hd t)" unfolding t_def by (rule hd_dropWhile)
  have split: "rev t = takeWhile P (rev t) @ dropWhile P (rev t)" by simp
  then have "t = rev (dropWhile P (rev t)) @ rev (takeWhile P (rev t))"
    by (metis rev_append rev_rev_ident)
  moreover have "rev (dropWhile P (rev t)) \<noteq> []" using ne by (simp add: strip_by_def t_def)
  ultimately have "hd t = hd (rev (dropWhile P (rev t)))" by (metis hd_append2)
  with \<open>\<not> P (hd t)\<close> show ?thesis by (simp add: strip_by_def t_def)
qed

lemma strip_by_last: "strip_by P s \<noteq> [] \<Longrightarrow> \<not> P (last (strip_by P s))"
  unfolding strip_by_def by (simp only: last_rev rev_is_Nil_conv) (rule hd_dropWhile)

lemma strip_by_strip [simp]: "strip_by P (strip_by P s) = strip_by P s"
  by (rule strip_by_idle) (auto dest: strip_by_hd strip_by_last)

lemma strip_prefix: "strip_by P s \<noteq> [] \<Longrightarrow> x \<noteq> [] \<Longrightarrow> \<not> P (hd x) \<Longrightarrow>
    strip_by P (x @ strip_by P s) = x @ strip_by P s"
  by (rule strip_by_idle) (simp add: strip_by_last)

lemma strip_padded: "list_all P x \<Longrightarrow> list_all P y \<Longrightarrow> strip_by P (x @ s @ y) = strip_by P s"
proof -
  assume x: "list_all P x" and y: "list_all P y"
  have "dropWhile P (x @ s @ y) = dropWhile P (s @ y)"
    using x by (simp add: dropWhile_append2 list_all_iff)
  moreover have "rev (dropWhile P (rev (dropWhile P (s @ y)))) = rev (dropWhile P (rev (dropWhile P s)))"
  proof (cases "dropWhile P s = []")
    case True
    then have "list_all P s" by (simp add: list_all_iff)
    with y have "dropWhile P (s @ y) = []" by (simp add: list_all_iff)
    with True show ?thesis by (simp only:)
  next
    case False
    then obtain c where "c \<in> set s" "\<not> P c" by (auto dest: set_dropWhileD)
    then have "dropWhile P (s @ y) = dropWhile P s @ y" by (rule dropWhile_append1)
    moreover have "dropWhile P (rev y @ rev (dropWhile P s)) = dropWhile P (rev (dropWhile P s))"
      using y by (intro dropWhile_append2) (simp add: list_all_iff)
    ultimately show ?thesis by simp
  qed
  ultimately show ?thesis by (simp add: strip_by_def)
qed

end
