(* ===== verification/Fee_Model.thy ===== *)
theory Fee_Model
  imports Prelude
begin

text \<open>
  The commission and tax schedules of \<^verbatim>\<open>vmtrader/broker/fee_model\<close>: one constructor per
  subclass of \<^verbatim>\<open>FeeModel\<close>, its two protected methods, and \<^verbatim>\<open>calc_total_cost\<close>. The locale
  \<open>fee_schedule\<close> is what the sizers and the brokers rely on.
\<close>

datatype fee_model =
    ZeroFeeModel
  | PercentFeeModel (percent_commission: rat) (percent_tax: rat)
  | FixedFeeModel (fixed_commission: rat) (fixed_tax: rat)
  | KoreaStockFeeModel (korea_commission: rat) (korea_tax: rat) (tax_exempt_assets: "symbol list")

section \<open>The schedules\<close>

definition zero_calc_commission :: "symbol \<Rightarrow> rat \<Rightarrow> rat \<Rightarrow> rat" where
  [simp]: "zero_calc_commission asset quantity consideration = 0"

definition zero_calc_tax :: "symbol \<Rightarrow> rat \<Rightarrow> rat \<Rightarrow> rat" where
  [simp]: "zero_calc_tax asset quantity consideration = 0"

definition percent_calc_commission :: "rat \<Rightarrow> symbol \<Rightarrow> rat \<Rightarrow> rat \<Rightarrow> rat" where
  [simp]: "percent_calc_commission pct asset quantity consideration = pct * \<bar>consideration\<bar>"

definition percent_calc_tax :: "rat \<Rightarrow> symbol \<Rightarrow> rat \<Rightarrow> rat \<Rightarrow> rat" where
  [simp]: "percent_calc_tax pct asset quantity consideration = pct * \<bar>consideration\<bar>"

definition fixed_calc_commission :: "rat \<Rightarrow> symbol \<Rightarrow> rat \<Rightarrow> rat \<Rightarrow> rat" where
  [simp]: "fixed_calc_commission fee asset quantity consideration =
    (if consideration = 0 then 0 else fee)"

definition fixed_calc_tax :: "rat \<Rightarrow> symbol \<Rightarrow> rat \<Rightarrow> rat \<Rightarrow> rat" where
  [simp]: "fixed_calc_tax fee asset quantity consideration =
    (if consideration = 0 then 0 else fee)"

definition korea_calc_commission :: "rat \<Rightarrow> symbol \<Rightarrow> rat \<Rightarrow> rat \<Rightarrow> rat" where
  [simp]: "korea_calc_commission pct asset quantity consideration = pct * \<bar>consideration\<bar>"

definition korea_calc_tax :: "rat \<Rightarrow> symbol list \<Rightarrow> symbol \<Rightarrow> rat \<Rightarrow> rat \<Rightarrow> rat" where
  [simp]: "korea_calc_tax pct exempt asset quantity consideration =
    (if 0 \<le> quantity then 0
     else if asset \<in> set exempt then 0
     else pct * \<bar>consideration\<bar>)"

text \<open>The call on the instance, by its class.\<close>

fun calc_commission :: "fee_model \<Rightarrow> symbol \<Rightarrow> rat \<Rightarrow> rat \<Rightarrow> rat" where
  "calc_commission ZeroFeeModel = zero_calc_commission"
| "calc_commission (PercentFeeModel c t) = percent_calc_commission c"
| "calc_commission (FixedFeeModel c t) = fixed_calc_commission c"
| "calc_commission (KoreaStockFeeModel c t ex) = korea_calc_commission c"

fun calc_tax :: "fee_model \<Rightarrow> symbol \<Rightarrow> rat \<Rightarrow> rat \<Rightarrow> rat" where
  "calc_tax ZeroFeeModel = zero_calc_tax"
| "calc_tax (PercentFeeModel c t) = percent_calc_tax t"
| "calc_tax (FixedFeeModel c t) = fixed_calc_tax t"
| "calc_tax (KoreaStockFeeModel c t ex) = korea_calc_tax t ex"

definition calc_total_cost :: "fee_model \<Rightarrow> symbol \<Rightarrow> rat \<Rightarrow> rat \<Rightarrow> rat" where
  "calc_total_cost m asset quantity consideration =
     calc_commission m asset quantity consideration + calc_tax m asset quantity consideration"

section \<open>What the callers rely on\<close>

text \<open>
  A schedule never pays the trader, charges nothing for no trade, and never makes a sale
  cheaper than the purchase of the same size.
\<close>

locale fee_schedule =
  fixes cost :: "symbol \<Rightarrow> rat \<Rightarrow> rat \<Rightarrow> rat"
  assumes nonneg: "0 \<le> cost a q c"
    and no_trade: "cost a 0 0 = 0"
    and sale_dearer: "0 \<le> q \<Longrightarrow> cost a q c \<le> cost a (- q) (- c)"
begin

lemma purchase_exceeds_consideration: "c \<le> c + cost a q c"
  using nonneg by simp

lemma proceeds_below_consideration: "- c - cost a q c \<le> - c"
  using nonneg by simp

text \<open>Buying and selling the same quantity at one price loses at least twice the purchase fee.\<close>

lemma round_trip_loses:
  assumes "0 \<le> q"
  shows "2 * cost a q c \<le> (c + cost a q c) + (- c + cost a (- q) (- c))"
  using sale_dearer [OF assms, of a c] by simp

end

text \<open>Non-negative rates give a schedule.\<close>

fun wf_fee_model :: "fee_model \<Rightarrow> bool" where
  "wf_fee_model ZeroFeeModel = True"
| "wf_fee_model (PercentFeeModel c t) = (0 \<le> c \<and> 0 \<le> t)"
| "wf_fee_model (FixedFeeModel c t) = (0 \<le> c \<and> 0 \<le> t)"
| "wf_fee_model (KoreaStockFeeModel c t ex) = (0 \<le> c \<and> 0 \<le> t)"

lemma fee_schedule_calc_total_cost:
  assumes "wf_fee_model m"
  shows "fee_schedule (calc_total_cost m)"
  using assms by (unfold_locales; cases m) (auto simp: calc_total_cost_def)

interpretation zero_fee: fee_schedule "calc_total_cost ZeroFeeModel"
  by (rule fee_schedule_calc_total_cost) simp

lemma zero_fee_is_free [simp]: "calc_total_cost ZeroFeeModel a q c = 0"
  by (simp add: calc_total_cost_def)

text \<open>
  A flat schedule charges a split order more than the whole; a proportional one does not
  tell the two apart.
\<close>

lemma fixed_fee_split:
  assumes "c1 \<noteq> 0" and "c2 \<noteq> 0" and "c1 + c2 \<noteq> 0"
  shows "calc_total_cost (FixedFeeModel f t) a q1 c1 + calc_total_cost (FixedFeeModel f t) a q2 c2 =
    calc_total_cost (FixedFeeModel f t) a (q1 + q2) (c1 + c2) + (f + t)"
  using assms by (simp add: calc_total_cost_def)

lemma percent_fee_split:
  assumes "0 \<le> c1" and "0 \<le> c2"
  shows "calc_total_cost (PercentFeeModel f t) a q1 c1 + calc_total_cost (PercentFeeModel f t) a q2 c2 =
    calc_total_cost (PercentFeeModel f t) a (q1 + q2) (c1 + c2)"
  using assms by (simp add: calc_total_cost_def algebra_simps)

section \<open>Properties\<close>

text \<open>
  Every fee model with non-negative rates charges a non-negative amount, charges nothing
  for an empty trade, and makes the round trip of buying and selling one quantity at one price
  cost at least twice the fee of the purchase: the Korean sale tax and its exemptions never
  make a sale the cheaper side.
\<close>

theorem fee_models_are_schedules:
  assumes "wf_fee_model m" and "0 \<le> q"
  shows "0 \<le> calc_total_cost m a q c \<and> calc_total_cost m a 0 0 = 0 \<and>
    2 * calc_total_cost m a q c \<le>
      (c + calc_total_cost m a q c) + (- c + calc_total_cost m a (- q) (- c))"
proof -
  note sched = fee_schedule_calc_total_cost [OF assms(1)]
  show ?thesis
    using fee_schedule.nonneg [OF sched] fee_schedule.no_trade [OF sched]
      fee_schedule.round_trip_loses [OF sched assms(2)] by blast
qed

theorem fee_models_are_schedules_witness:
  "0 \<le> calc_total_cost (KoreaStockFeeModel (1/1000) (2/1000) [''EQ:069500'']) ''EQ:005930'' 10 1000 \<and>
   calc_total_cost (KoreaStockFeeModel (1/1000) (2/1000) [''EQ:069500'']) ''EQ:005930'' 0 0 = 0 \<and>
   2 * calc_total_cost (KoreaStockFeeModel (1/1000) (2/1000) [''EQ:069500'']) ''EQ:005930'' 10 1000 \<le>
     (1000 + calc_total_cost (KoreaStockFeeModel (1/1000) (2/1000) [''EQ:069500'']) ''EQ:005930'' 10 1000)
     + (- 1000 + calc_total_cost (KoreaStockFeeModel (1/1000) (2/1000) [''EQ:069500'']) ''EQ:005930'' (- 10) (- 1000))"
  by (rule fee_models_are_schedules) simp_all

end
