(* ===== verification/Position.thy ===== *)
theory Position
  imports Prelude
begin

text \<open>
  \<^verbatim>\<open>vmtrader/broker/transaction/transaction.py\<close> and
  \<^verbatim>\<open>vmtrader/broker/portfolio/position.py\<close>: a transaction, and the accounting of one asset's
  position, which keeps its long and its short leg apart. The lemmas show what the two legs
  mean (totals of the trades that were booked) and that the profit and loss the position
  reports is the one those trades imply.
\<close>

section \<open>Transaction\<close>

record transaction =
  txn_asset :: symbol
  txn_quantity :: rat
  txn_dt :: timestamp
  txn_price :: rat
  txn_order_id :: string
  txn_commission :: rat

definition txn_direction :: "transaction \<Rightarrow> int" where
  "txn_direction t = copysign1 (txn_quantity t)"

definition cost_without_commission :: "transaction \<Rightarrow> rat" where
  "cost_without_commission t = txn_quantity t * txn_price t"

definition cost_with_commission :: "transaction \<Rightarrow> rat" where
  "cost_with_commission t = cost_without_commission t + txn_commission t"

section \<open>Position\<close>

record position =
  pos_asset :: symbol
  current_price :: nan_rat
  pos_dt :: timestamp
  buy_quantity :: rat
  sell_quantity :: rat
  avg_bought :: rat
  avg_sold :: rat
  buy_commission :: rat
  sell_commission :: rat

definition open_from_transaction :: "transaction \<Rightarrow> position" where
  "open_from_transaction t =
    (if 0 < txn_quantity t then
       \<lparr>pos_asset = txn_asset t, current_price = Some (txn_price t), pos_dt = txn_dt t,
        buy_quantity = txn_quantity t, sell_quantity = 0,
        avg_bought = txn_price t, avg_sold = 0,
        buy_commission = txn_commission t, sell_commission = 0\<rparr>
     else
       \<lparr>pos_asset = txn_asset t, current_price = Some (txn_price t), pos_dt = txn_dt t,
        buy_quantity = 0, sell_quantity = - 1 * txn_quantity t,
        avg_bought = 0, avg_sold = txn_price t,
        buy_commission = 0, sell_commission = txn_commission t\<rparr>)"

definition check_set_dt :: "timestamp option \<Rightarrow> position \<Rightarrow> position outcome" where
  "check_set_dt dt p =
    (case dt of
       None \<Rightarrow> ok p
     | Some d \<Rightarrow> if d < pos_dt p then raise ValueError p else ok (p\<lparr>pos_dt := d\<rparr>))"

definition net_quantity :: "position \<Rightarrow> rat" where
  "net_quantity p = buy_quantity p - sell_quantity p"

definition direction :: "position \<Rightarrow> int" where
  "direction p = (if net_quantity p = 0 then 0 else copysign1 (net_quantity p))"

definition market_value :: "position \<Rightarrow> nan_rat" where
  "market_value p = map_option (\<lambda>c. c * net_quantity p) (current_price p)"

definition avg_price :: "position \<Rightarrow> rat" where
  "avg_price p =
    (if net_quantity p = 0 then 0
     else if 0 < net_quantity p then
       (avg_bought p * buy_quantity p + buy_commission p) / buy_quantity p
     else (avg_sold p * sell_quantity p - sell_commission p) / sell_quantity p)"

definition total_bought :: "position \<Rightarrow> rat" where
  "total_bought p = avg_bought p * buy_quantity p"

definition total_sold :: "position \<Rightarrow> rat" where
  "total_sold p = avg_sold p * sell_quantity p"

definition net_total :: "position \<Rightarrow> rat" where
  "net_total p = total_sold p - total_bought p"

definition commission :: "position \<Rightarrow> rat" where
  "commission p = buy_commission p + sell_commission p"

definition net_incl_commission :: "position \<Rightarrow> rat" where
  "net_incl_commission p = net_total p - commission p"

definition realised_pnl :: "position \<Rightarrow> rat" where
  "realised_pnl p =
    (if direction p = 1 then
       if sell_quantity p = 0 then 0
       else (avg_sold p - avg_bought p) * sell_quantity p
            - (sell_quantity p / buy_quantity p) * buy_commission p - sell_commission p
     else if direction p = - 1 then
       if buy_quantity p = 0 then 0
       else (avg_sold p - avg_bought p) * buy_quantity p
            - (buy_quantity p / sell_quantity p) * sell_commission p - buy_commission p
     else net_incl_commission p)"

definition unrealised_pnl :: "position \<Rightarrow> nan_rat" where
  "unrealised_pnl p = map_option (\<lambda>c. (c - avg_price p) * net_quantity p) (current_price p)"

definition total_pnl :: "position \<Rightarrow> nan_rat" where
  "total_pnl p = nan_add (Some (realised_pnl p)) (unrealised_pnl p)"

text \<open>A NaN price passes the test \<^verbatim>\<open>market_price <= 0.0\<close>, since every comparison with NaN is false.\<close>

definition update_current_price :: "nan_rat \<Rightarrow> timestamp option \<Rightarrow> position \<Rightarrow> position outcome" where
  "update_current_price market_price dt p =
    then_do (check_set_dt dt p)
      (\<lambda>p. case market_price of
         Some m \<Rightarrow> if m \<le> 0 then raise ValueError p else ok (p\<lparr>current_price := Some m\<rparr>)
       | None \<Rightarrow> ok (p\<lparr>current_price := None\<rparr>))"

definition transact_buy :: "rat \<Rightarrow> rat \<Rightarrow> rat \<Rightarrow> position \<Rightarrow> position outcome" where
  "transact_buy q price comm p =
    (if buy_quantity p + q = 0 then raise ZeroDivisionError p
     else ok (p\<lparr>avg_bought := (avg_bought p * buy_quantity p + q * price) / (buy_quantity p + q),
                buy_quantity := buy_quantity p + q,
                buy_commission := buy_commission p + comm\<rparr>))"

definition transact_sell :: "rat \<Rightarrow> rat \<Rightarrow> rat \<Rightarrow> position \<Rightarrow> position outcome" where
  "transact_sell q price comm p =
    (if sell_quantity p + q = 0 then raise ZeroDivisionError p
     else ok (p\<lparr>avg_sold := (avg_sold p * sell_quantity p + q * price) / (sell_quantity p + q),
                sell_quantity := sell_quantity p + q,
                sell_commission := sell_commission p + comm\<rparr>))"

definition transact :: "transaction \<Rightarrow> position \<Rightarrow> position outcome" where
  "transact t p =
    (if pos_asset p \<noteq> txn_asset t then raise ValueError p
     else if \<lfloor>txn_quantity t\<rfloor> = 0 then ok p
     else
       then_do
         (if 0 < txn_quantity t
          then transact_buy (txn_quantity t) (txn_price t) (txn_commission t) p
          else transact_sell (- 1 * txn_quantity t) (txn_price t) (txn_commission t) p)
         (\<lambda>p. then_do (update_current_price (Some (txn_price t)) (Some (txn_dt t)) p)
           (\<lambda>p. ok (p\<lparr>pos_dt := txn_dt t\<rparr>))))"

lemmas position_defs =
  net_quantity_def direction_def market_value_def avg_price_def total_bought_def total_sold_def
  net_total_def commission_def net_incl_commission_def realised_pnl_def unrealised_pnl_def
  total_pnl_def copysign1_def

section \<open>The invariant of a position\<close>

text \<open>
  Both legs are non-negative, and a leg that never traded carries no commission. Under it
  every divisor above is positive where it is used (\<open>avg_price_divisors\<close>), so the plain
  division of the model and the one of Python agree.
\<close>

definition pos_inv :: "position \<Rightarrow> bool" where
  "pos_inv p \<longleftrightarrow> 0 \<le> buy_quantity p \<and> 0 \<le> sell_quantity p \<and>
    (buy_quantity p = 0 \<longrightarrow> buy_commission p = 0) \<and>
    (sell_quantity p = 0 \<longrightarrow> sell_commission p = 0)"

lemma avg_price_divisors:
  assumes "pos_inv p"
  shows "0 < net_quantity p \<longrightarrow> 0 < buy_quantity p"
    and "net_quantity p < 0 \<longrightarrow> 0 < sell_quantity p"
  using assms by (auto simp: pos_inv_def net_quantity_def)

lemma pos_inv_open: "txn_quantity t \<noteq> 0 \<Longrightarrow> pos_inv (open_from_transaction t)"
  by (auto simp: pos_inv_def open_from_transaction_def)

lemma net_quantity_open: "net_quantity (open_from_transaction t) = txn_quantity t"
  by (simp add: net_quantity_def open_from_transaction_def)

lemma net_incl_commission_open:
  "net_incl_commission (open_from_transaction t) = - cost_with_commission t"
  by (simp add: position_defs open_from_transaction_def cost_with_commission_def
      cost_without_commission_def)

lemma pos_asset_open [simp]: "pos_asset (open_from_transaction t) = txn_asset t"
  and current_price_open [simp]: "current_price (open_from_transaction t) = Some (txn_price t)"
  by (simp_all add: open_from_transaction_def)

lemma update_current_price_frame:
  "let p' = fst (update_current_price m dt p) in
     pos_asset p' = pos_asset p \<and> buy_quantity p' = buy_quantity p \<and>
     sell_quantity p' = sell_quantity p \<and> avg_bought p' = avg_bought p \<and> avg_sold p' = avg_sold p \<and>
     buy_commission p' = buy_commission p \<and> sell_commission p' = sell_commission p"
  by (auto simp: update_current_price_def check_set_dt_def Let_def split: option.splits)

lemma pos_inv_update_current_price: "pos_inv p \<Longrightarrow> pos_inv (fst (update_current_price m dt p))"
  using update_current_price_frame [of m dt p] by (simp add: pos_inv_def Let_def)

lemma net_update_current_price:
  "net_quantity (fst (update_current_price m dt p)) = net_quantity p"
  "net_incl_commission (fst (update_current_price m dt p)) = net_incl_commission p"
  using update_current_price_frame [of m dt p] by (simp_all add: position_defs Let_def)

section \<open>What a transaction does to a position\<close>

text \<open>The two legs after a purchase or a sale, as totals.\<close>

lemma transact_buy_ok:
  assumes "transact_buy q m c p = ok p'"
  shows "total_bought p' = total_bought p + q * m" and "buy_quantity p' = buy_quantity p + q"
    and "net_incl_commission p' = net_incl_commission p - (q * m + c)"
    and "net_quantity p' = net_quantity p + q"
  using assms by (auto simp: transact_buy_def position_defs split: if_splits)

lemma transact_sell_ok:
  assumes "transact_sell q m c p = ok p'"
  shows "total_sold p' = total_sold p + q * m" and "sell_quantity p' = sell_quantity p + q"
    and "net_incl_commission p' = net_incl_commission p + q * m - c"
    and "net_quantity p' = net_quantity p - q"
  using assms by (auto simp: transact_sell_def position_defs split: if_splits)

lemma pos_inv_transact_buy: "pos_inv p \<Longrightarrow> 0 < q \<Longrightarrow> pos_inv (fst (transact_buy q m c p))"
  by (auto simp: transact_buy_def pos_inv_def)

lemma pos_inv_transact_sell: "pos_inv p \<Longrightarrow> 0 < q \<Longrightarrow> pos_inv (fst (transact_sell q m c p))"
  by (auto simp: transact_sell_def pos_inv_def)

lemma floor_zero_cases:
  fixes q :: rat
  assumes "\<lfloor>q\<rfloor> \<noteq> 0"
  obtains "0 < q" | "0 < - 1 * q"
proof -
  have "q \<noteq> 0" using assms by auto
  then consider "0 < q" | "q < 0" by linarith
  then show ?thesis by cases (auto intro: that)
qed

lemma floor_nonzero_neg: "\<lfloor>q\<rfloor> \<noteq> 0 \<Longrightarrow> \<not> 0 < q \<Longrightarrow> q < 0" for q :: rat
  by (cases "q = 0") auto

lemma pos_inv_transact: "pos_inv p \<Longrightarrow> pos_inv (fst (transact t p))"
proof (cases "pos_asset p \<noteq> txn_asset t \<or> \<lfloor>txn_quantity t\<rfloor> = 0")
  case False
  assume inv: "pos_inv p"
  have "pos_inv (fst (if 0 < txn_quantity t
          then transact_buy (txn_quantity t) (txn_price t) (txn_commission t) p
          else transact_sell (- 1 * txn_quantity t) (txn_price t) (txn_commission t) p))"
    using False inv floor_nonzero_neg [of "txn_quantity t"]
    by (auto intro: pos_inv_transact_buy pos_inv_transact_sell)
  moreover have "pos_inv q \<Longrightarrow> pos_inv (q\<lparr>pos_dt := d\<rparr>)" for q :: position and d
    by (simp add: pos_inv_def)
  ultimately show ?thesis
    using False by (auto simp: transact_def intro!: then_do_inv [where P = pos_inv]
        pos_inv_update_current_price)
qed (auto simp: transact_def)

text \<open>
  A transaction that goes through moves the net quantity by its own quantity and the net
  total by its own cost, unless it is one the guard \<^verbatim>\<open>int(floor(quantity)) == 0\<close> ignores.
\<close>

lemma transact_ok:
  assumes "transact t p = ok p'" and "\<lfloor>txn_quantity t\<rfloor> \<noteq> 0"
  shows "net_quantity p' = net_quantity p + txn_quantity t"
    and "net_incl_commission p' = net_incl_commission p - cost_with_commission t"
    and "pos_dt p' = txn_dt t" and "current_price p' = Some (txn_price t)" and "0 < txn_price t"
    and "pos_dt p \<le> txn_dt t" and "pos_asset p' = pos_asset p"
proof -
  from assms obtain p1 where p1: "(if 0 < txn_quantity t
          then transact_buy (txn_quantity t) (txn_price t) (txn_commission t) p
          else transact_sell (- 1 * txn_quantity t) (txn_price t) (txn_commission t) p) = ok p1"
    and asset: "pos_asset p = txn_asset t"
    and rest: "then_do (update_current_price (Some (txn_price t)) (Some (txn_dt t)) p1)
           (\<lambda>p. ok (p\<lparr>pos_dt := txn_dt t\<rparr>)) = ok p'"
    by (auto simp: transact_def then_do_eq_ok split: if_splits)
  have nq: "net_quantity p1 = net_quantity p + txn_quantity t"
    and nic: "net_incl_commission p1 = net_incl_commission p - cost_with_commission t"
    using p1 transact_buy_ok [of "txn_quantity t" "txn_price t" "txn_commission t" p p1]
      transact_sell_ok [of "- 1 * txn_quantity t" "txn_price t" "txn_commission t" p p1]
    by (auto simp: cost_with_commission_def cost_without_commission_def split: if_splits)
  have frame: "pos_asset p1 = pos_asset p" "pos_dt p1 = pos_dt p"
    using p1 by (auto simp: transact_buy_def transact_sell_def split: if_splits)
  have p': "p' = p1\<lparr>current_price := Some (txn_price t), pos_dt := txn_dt t\<rparr>"
    and "0 < txn_price t" and "pos_dt p1 \<le> txn_dt t"
    using rest by (auto simp: update_current_price_def check_set_dt_def then_do_eq_ok split: if_splits)
  with nq nic frame show "net_quantity p' = net_quantity p + txn_quantity t"
    and "net_incl_commission p' = net_incl_commission p - cost_with_commission t"
    and "pos_dt p' = txn_dt t" and "current_price p' = Some (txn_price t)" and "0 < txn_price t"
    and "pos_dt p \<le> txn_dt t" and "pos_asset p' = pos_asset p"
    by (simp_all add: position_defs)
qed

lemma transact_ignored: "pos_asset p = txn_asset t \<Longrightarrow> \<lfloor>txn_quantity t\<rfloor> = 0 \<Longrightarrow> transact t p = ok p"
  by (simp add: transact_def)

text \<open>Under the invariant a transaction raises for one of three reasons only.\<close>

lemma transact_ok_iff:
  assumes "pos_inv p" and "pos_asset p = txn_asset t" and "\<lfloor>txn_quantity t\<rfloor> \<noteq> 0"
  shows "(\<exists>p'. transact t p = ok p') \<longleftrightarrow> 0 < txn_price t \<and> pos_dt p \<le> txn_dt t"
  using assms(2,3)
proof (rule_tac floor_zero_cases [OF assms(3)], goal_cases)
  case 1
  then show ?case using assms(1)
    by (auto simp: transact_def transact_buy_def update_current_price_def check_set_dt_def pos_inv_def
        then_do_eq_ok)
next
  case 2
  then show ?case using assms(1)
    by (auto simp: transact_def transact_sell_def update_current_price_def check_set_dt_def pos_inv_def
        then_do_eq_ok)
qed

section \<open>Profit and loss\<close>

text \<open>
  The realised and the unrealised part, computed by different formulas on the long side, on
  the short side and when flat, always add up to the market value plus everything the trades
  brought in.
\<close>

lemma total_pnl_eq:
  assumes "pos_inv p" and "current_price p = Some m"
  shows "total_pnl p = Some (m * net_quantity p + net_incl_commission p)"
proof -
  consider (flat) "net_quantity p = 0" | (long) "0 < net_quantity p" | (short) "net_quantity p < 0"
    by linarith
  then show ?thesis
  proof cases
    case flat
    with assms show ?thesis by (simp add: position_defs)
  next
    case long
    then have "0 < buy_quantity p" using avg_price_divisors [OF assms(1)] by simp
    with long assms show ?thesis
      by (auto simp: position_defs pos_inv_def field_simps)
  next
    case short
    then have "0 < sell_quantity p" using avg_price_divisors [OF assms(1)] by simp
    with short assms show ?thesis
      by (auto simp: position_defs pos_inv_def field_simps)
  qed
qed

section \<open>Properties\<close>

text \<open>The quantities and the costs of a list of trades.\<close>

definition traded_quantity :: "transaction list \<Rightarrow> rat" where
  "traded_quantity ts = sum_list (map txn_quantity ts)"

definition traded_cost :: "transaction list \<Rightarrow> rat" where
  "traded_cost ts = sum_list (map cost_with_commission ts)"

lemma for_each_transact_ok:
  assumes "for_each transact ts p = ok p'" and "\<forall>t \<in> set ts. \<lfloor>txn_quantity t\<rfloor> \<noteq> 0"
    and "pos_inv p"
  shows "net_quantity p' = net_quantity p + traded_quantity ts \<and>
    net_incl_commission p' = net_incl_commission p - traded_cost ts \<and> pos_inv p' \<and>
    current_price p' = (if ts = [] then current_price p else Some (txn_price (last ts)))"
  using assms
proof (induction ts arbitrary: p)
  case (Cons t ts)
  then obtain p1 where p1: "transact t p = ok p1" and rest: "for_each transact ts p1 = ok p'"
    by (auto simp: for_each_eq_ok_Cons simp del: for_each.simps)
  have inv: "pos_inv p1" using pos_inv_transact [OF Cons.prems(3), of t] p1 by simp
  show ?case
    using Cons.IH [OF rest _ inv] transact_ok [OF p1] Cons.prems(2)
    by (auto simp: traded_quantity_def traded_cost_def)
qed (simp add: traded_quantity_def traded_cost_def)

text \<open>
  C12. A position refines the log of its trades: opened by one trade and moved by any
  further ones that go through, its net quantity is the sum of the signed quantities, its
  cost basis including commission is minus the sum of the costs, and the profit and loss it
  reports (realised plus unrealised, whichever of the long, short or flat formulas applied)
  is exactly the value of the net quantity at the last price less everything that was paid.
\<close>

theorem position_refines_trade_log:
  assumes "for_each transact ts (open_from_transaction t) = ok p"
    and "\<forall>u \<in> set (t # ts). \<lfloor>txn_quantity u\<rfloor> \<noteq> 0"
  shows "net_quantity p = traded_quantity (t # ts) \<and>
    net_incl_commission p = - traded_cost (t # ts) \<and>
    total_pnl p = Some (txn_price (last (t # ts)) * traded_quantity (t # ts) - traded_cost (t # ts))"
proof -
  have inv: "pos_inv (open_from_transaction t)"
    using assms(2) by (intro pos_inv_open) auto
  have moved: "net_quantity p = traded_quantity (t # ts)"
    "net_incl_commission p = - traded_cost (t # ts)" "pos_inv p"
    "current_price p = Some (txn_price (last (t # ts)))"
    using for_each_transact_ok [OF assms(1) _ inv] assms(2)
    by (auto simp: net_quantity_open net_incl_commission_open traded_quantity_def traded_cost_def)
  then show ?thesis using total_pnl_eq [OF moved(3,4)] by simp
qed

text \<open>A long position that is partly sold and then turned short.\<close>

definition demo_trade :: "rat \<Rightarrow> rat \<Rightarrow> timestamp \<Rightarrow> transaction" where
  "demo_trade q m d = \<lparr>txn_asset = ''EQ:SPY'', txn_quantity = q, txn_dt = d, txn_price = m,
     txn_order_id = ''o'', txn_commission = 1\<rparr>"

theorem position_refines_trade_log_witness:
  "\<exists>p. for_each transact [demo_trade (- 4) 12 2, demo_trade (- 8) 11 3]
        (open_from_transaction (demo_trade 10 10 1)) = ok p \<and>
     net_quantity p = - 2 \<and> total_pnl p = Some 11"
proof -
  obtain p where p: "for_each transact [demo_trade (- 4) 12 2, demo_trade (- 8) 11 3]
      (open_from_transaction (demo_trade 10 10 1)) = ok p"
    by (simp add: demo_trade_def open_from_transaction_def transact_def transact_sell_def
        update_current_price_def check_set_dt_def)
  show ?thesis
    using p position_refines_trade_log [OF p]
    by (simp add: demo_trade_def traded_quantity_def traded_cost_def cost_with_commission_def
        cost_without_commission_def)
qed

end
