(* ===== verification/Portfolio.thy ===== *)
theory Portfolio
  imports Position
begin

text \<open>
  \<^verbatim>\<open>vmtrader/broker/portfolio\<close>: the position handler, the event trail and the portfolio with
  its cash account. The lemmas show what the operations keep (well-formed books, an audit
  trail that ends at the cash balance) and that money is conserved: what the portfolio is
  worth is what was paid in plus what its trades earned.
\<close>

section \<open>Position handler\<close>

type_synonym positions = "(symbol, position) dict"

definition transact_position :: "transaction \<Rightarrow> positions \<Rightarrow> positions outcome" where
  "transact_position t ps =
    then_do
      (case map_of ps (txn_asset t) of
         Some p \<Rightarrow> map_outcome (\<lambda>p'. AList.update (txn_asset t) p' ps) (transact t p)
       | None \<Rightarrow> ok (AList.update (txn_asset t) (open_from_transaction t) ps))
      (\<lambda>ps. case map_of ps (txn_asset t) of
         Some p \<Rightarrow> if net_quantity p = 0 then ok (AList.delete (txn_asset t) ps) else ok ps
       | None \<Rightarrow> raise KeyError ps)"

definition positions_market_value :: "positions \<Rightarrow> nan_rat" where
  "positions_market_value ps = nan_sum (map (\<lambda>(a, p). market_value p) ps)"

definition positions_unrealised_pnl :: "positions \<Rightarrow> nan_rat" where
  "positions_unrealised_pnl ps = nan_sum (map (\<lambda>(a, p). unrealised_pnl p) ps)"

definition positions_realised_pnl :: "positions \<Rightarrow> rat" where
  "positions_realised_pnl ps = sum_list (map (\<lambda>(a, p). realised_pnl p) ps)"

definition positions_total_pnl :: "positions \<Rightarrow> nan_rat" where
  "positions_total_pnl ps = nan_sum (map (\<lambda>(a, p). total_pnl p) ps)"

section \<open>Portfolio events\<close>

text \<open>
  The description of a trade holds the operands of the format string
  \<^verbatim>\<open>"%s %s %s %0.2f %s"\<close>: long or short, quantity, symbol, price and date.
\<close>

datatype ev_type = SubscriptionEvent | WithdrawalEvent | AssetTransactionEvent

datatype ev_description =
    SUBSCRIPTION
  | WITHDRAWAL
  | TradeDescription bool rat symbol rat timestamp

record portfolio_event =
  ev_dt :: timestamp
  ev_type :: ev_type
  ev_description :: ev_description
  ev_debit :: rat
  ev_credit :: rat
  ev_balance :: rat

definition create_subscription :: "timestamp \<Rightarrow> rat \<Rightarrow> rat \<Rightarrow> portfolio_event" where
  "create_subscription dt credit balance =
    \<lparr>ev_dt = dt, ev_type = SubscriptionEvent, ev_description = SUBSCRIPTION,
     ev_debit = 0, ev_credit = py_round2 credit, ev_balance = py_round2 balance\<rparr>"

definition create_withdrawal :: "timestamp \<Rightarrow> rat \<Rightarrow> rat \<Rightarrow> portfolio_event" where
  "create_withdrawal dt debit balance =
    \<lparr>ev_dt = dt, ev_type = WithdrawalEvent, ev_description = WITHDRAWAL,
     ev_debit = py_round2 debit, ev_credit = 0, ev_balance = py_round2 balance\<rparr>"

section \<open>Portfolio\<close>

record portfolio =
  pf_start_dt :: timestamp
  pf_dt :: timestamp
  pf_starting_cash :: rat
  pf_currency :: string
  pf_id :: string
  pf_name :: "string option"
  pf_cash :: rat
  pf_positions :: positions
  pf_history :: "portfolio_event list"

definition init_portfolio ::
  "timestamp \<Rightarrow> rat \<Rightarrow> string \<Rightarrow> string \<Rightarrow> string option \<Rightarrow> portfolio" where
  "init_portfolio dt starting_cash currency pid name =
    \<lparr>pf_start_dt = dt, pf_dt = dt, pf_starting_cash = starting_cash, pf_currency = currency,
     pf_id = pid, pf_name = name, pf_cash = starting_cash, pf_positions = [],
     pf_history = (if 0 < starting_cash
       then [create_subscription dt starting_cash starting_cash] else [])\<rparr>"

lemma init_portfolio_fields [simp]:
  "pf_dt (init_portfolio dt c cur pid name) = dt"
  "pf_cash (init_portfolio dt c cur pid name) = c"
  "pf_positions (init_portfolio dt c cur pid name) = []"
  "pf_id (init_portfolio dt c cur pid name) = pid"
  by (simp_all add: init_portfolio_def)

definition total_market_value :: "portfolio \<Rightarrow> nan_rat" where
  "total_market_value p = positions_market_value (pf_positions p)"

definition total_equity :: "portfolio \<Rightarrow> nan_rat" where
  "total_equity p = nan_add (total_market_value p) (Some (pf_cash p))"

definition subscribe_funds :: "timestamp \<Rightarrow> rat \<Rightarrow> portfolio \<Rightarrow> portfolio outcome" where
  "subscribe_funds dt amount p =
    (if dt < pf_dt p then raise ValueError p
     else let p = p\<lparr>pf_dt := dt\<rparr> in
       if amount < 0 then raise ValueError p
       else let p = p\<lparr>pf_cash := pf_cash p + amount\<rparr> in
         ok (p\<lparr>pf_history := pf_history p @ [create_subscription (pf_dt p) amount (pf_cash p)]\<rparr>))"

definition withdraw_funds :: "timestamp \<Rightarrow> rat \<Rightarrow> portfolio \<Rightarrow> portfolio outcome" where
  "withdraw_funds dt amount p =
    (if dt < pf_dt p then raise ValueError p
     else let p = p\<lparr>pf_dt := dt\<rparr> in
       if amount < 0 then raise ValueError p
       else if pf_cash p < amount then raise ValueError p
       else let p = p\<lparr>pf_cash := pf_cash p - amount\<rparr> in
         ok (p\<lparr>pf_history := pf_history p @ [create_withdrawal (pf_dt p) amount (pf_cash p)]\<rparr>))"

definition trade_event :: "transaction \<Rightarrow> rat \<Rightarrow> portfolio_event" where
  "trade_event t cash =
    (let long = 0 < txn_direction t; cost = py_round2 (cost_with_commission t) in
     \<lparr>ev_dt = txn_dt t, ev_type = AssetTransactionEvent,
      ev_description = TradeDescription long (txn_quantity t) (upper (txn_asset t)) (txn_price t) (txn_dt t),
      ev_debit = (if long then cost else 0),
      ev_credit = (if long then 0 else - 1 * cost),
      ev_balance = py_round2 cash\<rparr>)"

text \<open>
  A cost above the cash balance only prints a warning, so it has no branch here: the cash
  balance may turn negative.
\<close>

definition transact_asset :: "transaction \<Rightarrow> portfolio \<Rightarrow> portfolio outcome" where
  "transact_asset t p =
    (if txn_dt t < pf_dt p then raise ValueError p
     else let p = p\<lparr>pf_dt := txn_dt t\<rparr> in
       then_do (map_outcome (\<lambda>ps. p\<lparr>pf_positions := ps\<rparr>) (transact_position t (pf_positions p)))
         (\<lambda>p. let p = p\<lparr>pf_cash := pf_cash p - cost_with_commission t\<rparr> in
           ok (p\<lparr>pf_history := pf_history p @ [trade_event t (pf_cash p)]\<rparr>)))"

definition update_market_value_of_asset ::
  "symbol \<Rightarrow> nan_rat \<Rightarrow> timestamp \<Rightarrow> portfolio \<Rightarrow> portfolio outcome" where
  "update_market_value_of_asset asset price dt p =
    (case map_of (pf_positions p) asset of
       None \<Rightarrow> ok p
     | Some pos \<Rightarrow>
         if (case price of Some m \<Rightarrow> m < 0 | None \<Rightarrow> False) then raise ValueError p
         else if dt < pf_dt p then raise ValueError p
         else map_outcome (\<lambda>pos'. p\<lparr>pf_positions := AList.update asset pos' (pf_positions p)\<rparr>)
           (update_current_price price (Some dt) pos))"

record holding =
  h_quantity :: rat
  h_market_value :: nan_rat
  h_unrealised_pnl :: nan_rat
  h_realised_pnl :: rat
  h_total_pnl :: nan_rat

definition portfolio_to_dict :: "portfolio \<Rightarrow> (symbol, holding) dict" where
  "portfolio_to_dict p = map (\<lambda>(a, pos). (a,
     \<lparr>h_quantity = net_quantity pos, h_market_value = market_value pos,
      h_unrealised_pnl = unrealised_pnl pos, h_realised_pnl = realised_pnl pos,
      h_total_pnl = total_pnl pos\<rparr>)) (pf_positions p)"

section \<open>Well-formed books\<close>

text \<open>
  \<open>pf_wf\<close> survives every operation, also one that raises half way. \<open>pf_live\<close> adds that no
  flat position is kept and that the last event records the balance; it survives every
  operation that goes through.
\<close>

definition wf_positions :: "positions \<Rightarrow> bool" where
  "wf_positions ps \<longleftrightarrow> wf_dict ps \<and>
    (\<forall>a p. map_of ps a = Some p \<longrightarrow> pos_asset p = a \<and> pos_inv p)"

definition pf_wf :: "portfolio \<Rightarrow> bool" where
  "pf_wf p \<longleftrightarrow> wf_positions (pf_positions p)"

definition live_positions :: "positions \<Rightarrow> bool" where
  "live_positions ps \<longleftrightarrow> wf_positions ps \<and> (\<forall>a p. map_of ps a = Some p \<longrightarrow> net_quantity p \<noteq> 0)"

definition audited :: "portfolio \<Rightarrow> bool" where
  "audited p \<longleftrightarrow> (if pf_history p = [] then pf_cash p \<le> 0
     else ev_balance (last (pf_history p)) = py_round2 (pf_cash p))"

definition pf_live :: "portfolio \<Rightarrow> bool" where
  "pf_live p \<longleftrightarrow> live_positions (pf_positions p) \<and> audited p"

lemma pf_live_wf: "pf_live p \<Longrightarrow> pf_wf p"
  by (simp add: pf_live_def pf_wf_def live_positions_def)

lemma wf_positions_Nil [simp]: "wf_positions []"
  by (simp add: wf_positions_def)

lemma wf_positions_update:
  "wf_positions ps \<Longrightarrow> pos_asset p = a \<Longrightarrow> pos_inv p \<Longrightarrow> wf_positions (AList.update a p ps)"
  by (auto simp: wf_positions_def)

lemma wf_positions_delete: "wf_positions ps \<Longrightarrow> wf_positions (AList.delete a ps)"
  by (auto simp: wf_positions_def)

lemma transact_asset_frame: "pos_asset (fst (transact t p)) = pos_asset p"
  using update_current_price_frame
  by (auto simp: transact_def transact_buy_def transact_sell_def Let_def outcome_defs
      update_current_price_def check_set_dt_def)

lemma wf_transact_position:
  assumes "wf_positions ps"
  shows "wf_positions (fst (transact_position t ps))"
proof (cases "map_of ps (txn_asset t)")
  case (Some p)
  then have "pos_asset p = txn_asset t" "pos_inv p" using assms by (auto simp: wf_positions_def)
  then have "wf_positions (AList.update (txn_asset t) (fst (transact t p)) ps)"
    using assms by (intro wf_positions_update pos_inv_transact) (simp_all add: transact_asset_frame)
  with Some show ?thesis
    by (auto simp: transact_position_def intro!: then_do_inv [where P = wf_positions]
        wf_positions_delete split: option.splits)
next
  case None
  show ?thesis
  proof (cases "txn_quantity t = 0")
    case True
    have "wf_positions (AList.delete (txn_asset t) (AList.update (txn_asset t) p ps))" for p
      using assms by (auto simp: wf_positions_def)
    with True None show ?thesis by (simp add: transact_position_def net_quantity_open)
  next
    case False
    with None assms show ?thesis
      by (simp add: transact_position_def net_quantity_open pos_inv_open wf_positions_update)
  qed
qed

section \<open>One operation\<close>

text \<open>The profit a trade realises for good: that of the position it closes, if it closes one.\<close>

definition closed_pnl :: "transaction \<Rightarrow> positions \<Rightarrow> rat" where
  "closed_pnl t ps =
    (case map_of ps (txn_asset t) of
       Some p \<Rightarrow> if net_quantity p + txn_quantity t = 0
         then net_incl_commission p - cost_with_commission t else 0
     | None \<Rightarrow> 0)"

abbreviation cost_basis :: "positions \<Rightarrow> rat" where
  "cost_basis ps \<equiv> dict_sum net_incl_commission ps"

text \<open>
  A trade that goes through puts one position into the book, or takes it out; the rest of the
  book is untouched.
\<close>

lemma transact_position_ok_cases:
  assumes "transact_position t ps = ok ps'" and "live_positions ps" and "\<lfloor>txn_quantity t\<rfloor> \<noteq> 0"
  obtains (changed) q where "ps' = AList.update (txn_asset t) q ps" and "net_quantity q \<noteq> 0"
      and "pos_inv q" and "pos_asset q = txn_asset t" and "current_price q = Some (txn_price t)"
      and "net_quantity q =
        (case map_of ps (txn_asset t) of None \<Rightarrow> 0 | Some p \<Rightarrow> net_quantity p) + txn_quantity t"
      and "net_incl_commission q =
        (case map_of ps (txn_asset t) of None \<Rightarrow> 0 | Some p \<Rightarrow> net_incl_commission p)
          - cost_with_commission t"
  | (closed) p where "map_of ps (txn_asset t) = Some p"
      and "ps' = AList.delete (txn_asset t) ps" and "net_quantity p + txn_quantity t = 0"
proof (cases "map_of ps (txn_asset t)")
  case None
  have "txn_quantity t \<noteq> 0" using assms(3) by auto
  with None assms(1) show ?thesis
    by (intro changed [of "open_from_transaction t"])
      (auto simp: transact_position_def net_quantity_open net_incl_commission_open pos_inv_open)
next
  case (Some p)
  then have p: "pos_inv p" "pos_asset p = txn_asset t"
    using assms(2) by (auto simp: live_positions_def wf_positions_def)
  from assms(1) Some obtain q where q: "transact t p = ok q"
    and ps': "ps' = (if net_quantity q = 0 then AList.delete (txn_asset t) (AList.update (txn_asset t) q ps)
      else AList.update (txn_asset t) q ps)"
    by (auto simp: transact_position_def then_do_eq_ok map_outcome_eq_ok split: if_splits)
  note moved = transact_ok [OF q assms(3)]
  have inv: "pos_inv q" using pos_inv_transact [OF p(1), of t] q by simp
  have del: "AList.delete (txn_asset t) (AList.update (txn_asset t) q ps) = AList.delete (txn_asset t) ps"
    by (induction ps) auto
  show ?thesis
  proof (cases "net_quantity q = 0")
    case True
    with Some ps' del moved show ?thesis by (intro closed [of p]) auto
  next
    case False
    with Some ps' moved p inv show ?thesis by (intro changed [of q]) auto
  qed
qed

lemma live_transact_position:
  assumes "transact_position t ps = ok ps'" and "live_positions ps" and "\<lfloor>txn_quantity t\<rfloor> \<noteq> 0"
  shows "live_positions ps'"
  using assms
proof (cases rule: transact_position_ok_cases)
  case (changed q)
  then show ?thesis using assms(2)
    by (auto simp: live_positions_def intro!: wf_positions_update split: if_splits)
next
  case (closed p)
  then show ?thesis using assms(2)
    by (auto simp: live_positions_def intro!: wf_positions_delete split: if_splits)
qed

lemma cost_basis_transact_position:
  assumes "transact_position t ps = ok ps'" and "live_positions ps" and "\<lfloor>txn_quantity t\<rfloor> \<noteq> 0"
  shows "cost_basis ps' + closed_pnl t ps = cost_basis ps - cost_with_commission t"
proof -
  have wf: "wf_dict ps" using assms(2) by (simp add: live_positions_def wf_positions_def)
  from assms show ?thesis
  proof (cases rule: transact_position_ok_cases)
    case (changed q)
    then show ?thesis using wf
      by (auto simp: dict_sum_update closed_pnl_def split: option.splits)
  next
    case (closed p)
    then show ?thesis using wf by (simp add: dict_sum_delete closed_pnl_def)
  qed
qed

text \<open>Market value, as a number, when every position has a price.\<close>

definition priced :: "positions \<Rightarrow> bool" where
  "priced ps \<longleftrightarrow> (\<forall>(a, p) \<in> set ps. current_price p \<noteq> None)"

definition marked_value :: "position \<Rightarrow> rat" where
  "marked_value p = the (current_price p) * net_quantity p"

lemma positions_market_value_priced:
  "priced ps \<Longrightarrow> positions_market_value ps = Some (dict_sum marked_value ps)"
  unfolding positions_market_value_def
  by (induction ps) (auto simp: priced_def marked_value_def market_value_def)

lemma positions_total_pnl_priced:
  assumes "priced ps" and "\<forall>(a, p) \<in> set ps. pos_inv p"
  shows "positions_total_pnl ps = Some (dict_sum marked_value ps + cost_basis ps)"
  using assms unfolding positions_total_pnl_def
  by (induction ps) (auto simp: priced_def marked_value_def total_pnl_eq)

lemma priced_lookup: "wf_dict ps \<Longrightarrow> priced ps \<longleftrightarrow> (\<forall>a p. map_of ps a = Some p \<longrightarrow> current_price p \<noteq> None)"
  using set_dict_eq [of ps] by (fastforce simp: priced_def)

lemma marked_value_transact_position:
  assumes "transact_position t ps = ok ps'" and "live_positions ps" and "\<lfloor>txn_quantity t\<rfloor> \<noteq> 0"
  shows "dict_sum marked_value ps' = dict_sum marked_value ps
    - (case map_of ps (txn_asset t) of None \<Rightarrow> 0 | Some p \<Rightarrow> marked_value p)
    + txn_price t * ((case map_of ps (txn_asset t) of None \<Rightarrow> 0 | Some p \<Rightarrow> net_quantity p)
        + txn_quantity t)"
proof -
  have wf: "wf_dict ps" using assms(2) by (simp add: live_positions_def wf_positions_def)
  from assms show ?thesis
  proof (cases rule: transact_position_ok_cases)
    case (changed q)
    then show ?thesis using wf
      by (auto simp: dict_sum_update marked_value_def split: option.splits)
  next
    case (closed p)
    then show ?thesis using wf by (simp add: dict_sum_delete)
  qed
qed

lemma priced_transact_position:
  assumes "transact_position t ps = ok ps'" and "live_positions ps" and "\<lfloor>txn_quantity t\<rfloor> \<noteq> 0"
    and "priced ps"
  shows "priced ps'"
proof -
  have wf: "wf_dict ps" using assms(2) by (simp add: live_positions_def wf_positions_def)
  from assms(1-3) show ?thesis
  proof (cases rule: transact_position_ok_cases)
    case (changed q)
    then show ?thesis using wf assms(4) by (auto simp: priced_lookup)
  next
    case (closed p)
    then show ?thesis using wf assms(4) by (auto simp: priced_lookup)
  qed
qed

text \<open>The portfolio's operations keep the books, also when they raise.\<close>

lemma pf_wf_transact_asset: "pf_wf p \<Longrightarrow> pf_wf (fst (transact_asset t p))"
  by (auto simp: transact_asset_def pf_wf_def Let_def wf_transact_position
      intro!: then_do_inv [where P = pf_wf, unfolded pf_wf_def])

lemma pf_wf_update_market_value:
  assumes "pf_wf p"
  shows "pf_wf (fst (update_market_value_of_asset a m dt p))"
proof (cases "map_of (pf_positions p) a")
  case (Some pos)
  then have "wf_positions (AList.update a (fst (update_current_price m (Some dt) pos)) (pf_positions p))"
    using assms update_current_price_frame [of m "Some dt" pos]
    by (intro wf_positions_update pos_inv_update_current_price)
      (auto simp: pf_wf_def wf_positions_def Let_def)
  with Some assms show ?thesis by (auto simp: update_market_value_of_asset_def pf_wf_def)
qed (use assms in \<open>simp add: update_market_value_of_asset_def\<close>)

lemma pf_wf_subscribe: "pf_wf p \<Longrightarrow> pf_wf (fst (subscribe_funds dt x p))"
  and pf_wf_withdraw: "pf_wf p \<Longrightarrow> pf_wf (fst (withdraw_funds dt x p))"
  by (auto simp: pf_wf_def subscribe_funds_def withdraw_funds_def Let_def)

text \<open>Their clock never runs backwards, also when they raise.\<close>

lemma pf_dt_mono:
  "pf_dt p \<le> pf_dt (fst (subscribe_funds dt x p))"
  "pf_dt p \<le> pf_dt (fst (withdraw_funds dt x p))"
  "pf_dt p \<le> pf_dt (fst (transact_asset t p))"
  "pf_dt p \<le> pf_dt (fst (update_market_value_of_asset a m dt p))"
  by (auto simp: subscribe_funds_def withdraw_funds_def transact_asset_def
      update_market_value_of_asset_def Let_def then_do_def split: option.splits)

text \<open>The successful branches.\<close>

lemma subscribe_funds_ok:
  "subscribe_funds dt x p = ok p' \<longleftrightarrow> pf_dt p \<le> dt \<and> 0 \<le> x \<and>
     p' = p\<lparr>pf_dt := dt, pf_cash := pf_cash p + x,
       pf_history := pf_history p @ [create_subscription dt x (pf_cash p + x)]\<rparr>"
  by (auto simp: subscribe_funds_def Let_def)

lemma withdraw_funds_ok:
  "withdraw_funds dt x p = ok p' \<longleftrightarrow> pf_dt p \<le> dt \<and> 0 \<le> x \<and> x \<le> pf_cash p \<and>
     p' = p\<lparr>pf_dt := dt, pf_cash := pf_cash p - x,
       pf_history := pf_history p @ [create_withdrawal dt x (pf_cash p - x)]\<rparr>"
  by (auto simp: withdraw_funds_def Let_def)

lemma transact_asset_ok:
  "transact_asset t p = ok p' \<longleftrightarrow> pf_dt p \<le> txn_dt t \<and>
     (\<exists>ps. transact_position t (pf_positions p) = ok ps \<and>
       p' = p\<lparr>pf_dt := txn_dt t, pf_positions := ps, pf_cash := pf_cash p - cost_with_commission t,
         pf_history := pf_history p @ [trade_event t (pf_cash p - cost_with_commission t)]\<rparr>)"
  by (auto simp: transact_asset_def Let_def then_do_eq_ok map_outcome_eq_ok)

text \<open>A trade at the mark (or in an asset not held) costs its commission.\<close>

lemma transact_at_mark:
  assumes "transact_asset t p = ok p'" and "pf_live p" and "priced (pf_positions p)"
    and "\<lfloor>txn_quantity t\<rfloor> \<noteq> 0" and "total_equity p = Some e"
    and mark: "\<And>q. map_of (pf_positions p) (txn_asset t) = Some q \<Longrightarrow> current_price q = Some (txn_price t)"
  shows "pf_live p' \<and> priced (pf_positions p') \<and> total_equity p' = Some (e - txn_commission t)"
    and "map_of (pf_positions p') a = Some q \<Longrightarrow>
      if a = txn_asset t then current_price q = Some (txn_price t)
      else map_of (pf_positions p) a = Some q"
proof -
  obtain ps where ps: "transact_position t (pf_positions p) = ok ps"
    and p': "pf_positions p' = ps" "pf_cash p' = pf_cash p - cost_with_commission t" "audited p'"
    using assms(1) by (auto simp: transact_asset_ok audited_def trade_event_def Let_def)
  have live: "live_positions (pf_positions p)" using assms(2) by (simp add: pf_live_def)
  note priced' = priced_transact_position [OF ps live assms(4,3)]
  show "pf_live p' \<and> priced (pf_positions p') \<and> total_equity p' = Some (e - txn_commission t)"
    using assms(5) positions_market_value_priced [OF assms(3)] positions_market_value_priced [OF priced']
      marked_value_transact_position [OF ps live assms(4)] live_transact_position [OF ps live assms(4)]
      priced' p' mark
    by (auto simp: pf_live_def total_equity_def total_market_value_def cost_with_commission_def
        cost_without_commission_def marked_value_def algebra_simps split: option.splits)
  show "map_of (pf_positions p') a = Some q \<Longrightarrow>
      if a = txn_asset t then current_price q = Some (txn_price t)
      else map_of (pf_positions p) a = Some q"
    using ps live assms(4) unfolding p'(1)
    by (cases rule: transact_position_ok_cases) (auto split: if_splits)
qed

lemma update_market_value_ok:
  assumes "update_market_value_of_asset a m dt p = ok p'"
  shows "p' = p \<or> (\<exists>pos pos'. map_of (pf_positions p) a = Some pos \<and>
     update_current_price m (Some dt) pos = ok pos' \<and>
     p' = p\<lparr>pf_positions := AList.update a pos' (pf_positions p)\<rparr>)"
  using assms
  by (auto simp: update_market_value_of_asset_def map_outcome_eq_ok split: option.splits if_splits)

section \<open>Runs\<close>

datatype pf_op =
    SubscribeFunds timestamp rat
  | WithdrawFunds timestamp rat
  | TransactAsset transaction
  | MarkAsset symbol nan_rat timestamp

fun pf_step :: "pf_op \<Rightarrow> portfolio \<Rightarrow> portfolio outcome" where
  "pf_step (SubscribeFunds dt x) p = subscribe_funds dt x p"
| "pf_step (WithdrawFunds dt x) p = withdraw_funds dt x p"
| "pf_step (TransactAsset t) p = transact_asset t p"
| "pf_step (MarkAsset a m dt) p = update_market_value_of_asset a m dt p"

lemma pf_wf_step: "pf_wf p \<Longrightarrow> pf_wf (fst (pf_step x p))"
  by (cases x) (simp_all add: pf_wf_subscribe pf_wf_withdraw pf_wf_transact_asset
      pf_wf_update_market_value)

text \<open>A trade of at least one whole unit, which the guard of \<open>transact\<close> does not ignore.\<close>

fun whole_op :: "pf_op \<Rightarrow> bool" where
  "whole_op (TransactAsset t) = (\<lfloor>txn_quantity t\<rfloor> \<noteq> 0)"
| "whole_op _ = True"

fun funding :: "pf_op \<Rightarrow> rat" where
  "funding (SubscribeFunds dt x) = x"
| "funding (WithdrawFunds dt x) = - x"
| "funding _ = 0"

fun closed_by :: "pf_op \<Rightarrow> portfolio \<Rightarrow> rat" where
  "closed_by (TransactAsset t) p = closed_pnl t (pf_positions p)"
| "closed_by _ p = 0"

fun banked :: "pf_op list \<Rightarrow> portfolio \<Rightarrow> rat" where
  "banked [] p = 0"
| "banked (x # xs) p = closed_by x p + banked xs (fst (pf_step x p))"

lemma net_mark:
  assumes "update_current_price m dt pos = ok pos'"
  shows "net_quantity pos' = net_quantity pos" and "net_incl_commission pos' = net_incl_commission pos"
    and "pos_asset pos' = pos_asset pos" and "pos_inv pos \<Longrightarrow> pos_inv pos'"
  using assms net_update_current_price [of m dt pos] update_current_price_frame [of m dt pos]
    pos_inv_update_current_price [of pos m dt]
  by (auto simp: Let_def)

lemma current_price_mark: "update_current_price m dt pos = ok pos' \<Longrightarrow> current_price pos' = m"
  by (cases m) (auto simp: update_current_price_def then_do_eq_ok split: if_splits)

lemma pf_live_mark:
  assumes "update_market_value_of_asset a m dt p = ok p'" and "pf_live p"
  shows "pf_live p' \<and> cost_basis (pf_positions p') = cost_basis (pf_positions p) \<and>
    pf_cash p' = pf_cash p"
  using update_market_value_ok [OF assms(1)]
proof (elim disjE exE conjE)
  fix pos pos'
  assume pos: "map_of (pf_positions p) a = Some pos" "update_current_price m (Some dt) pos = ok pos'"
    and p': "p' = p\<lparr>pf_positions := AList.update a pos' (pf_positions p)\<rparr>"
  have live: "live_positions (pf_positions p)" using assms(2) by (simp add: pf_live_def)
  then have old: "pos_asset pos = a" "pos_inv pos" "net_quantity pos \<noteq> 0" "wf_dict (pf_positions p)"
    using pos(1) by (auto simp: live_positions_def wf_positions_def)
  note new = net_mark [OF pos(2)]
  have "live_positions (AList.update a pos' (pf_positions p))"
    using live old new by (auto simp: live_positions_def intro!: wf_positions_update split: if_splits)
  with p' assms(2) old new pos(1) show ?thesis
    by (auto simp: pf_live_def audited_def dict_sum_update)
qed (use assms(2) in simp)

text \<open>One successful step keeps the live books and conserves cash plus cost basis.\<close>

lemma pf_step_conserves:
  assumes "pf_step x p = ok p'" and "pf_live p" and "whole_op x"
  shows "pf_live p' \<and> pf_cash p' - cost_basis (pf_positions p') =
    pf_cash p - cost_basis (pf_positions p) + funding x + closed_by x p"
proof (cases x)
  case (TransactAsset t)
  with assms obtain ps where ps: "transact_position t (pf_positions p) = ok ps"
    and p': "p' = p\<lparr>pf_dt := txn_dt t, pf_positions := ps, pf_cash := pf_cash p - cost_with_commission t,
         pf_history := pf_history p @ [trade_event t (pf_cash p - cost_with_commission t)]\<rparr>"
    by (auto simp: transact_asset_ok)
  have live: "live_positions (pf_positions p)" using assms(2) by (simp add: pf_live_def)
  have whole: "\<lfloor>txn_quantity t\<rfloor> \<noteq> 0" using assms(3) TransactAsset by simp
  show ?thesis
    using live_transact_position [OF ps live whole] cost_basis_transact_position [OF ps live whole]
    by (simp add: p' TransactAsset pf_live_def audited_def trade_event_def Let_def)
next
  case (MarkAsset a m dt)
  then show ?thesis using pf_live_mark assms by simp
qed (use assms in \<open>auto simp: subscribe_funds_ok withdraw_funds_ok pf_live_def audited_def
      create_subscription_def create_withdrawal_def\<close>)

lemma pf_run_conserves:
  assumes "for_each pf_step xs p = ok p'" and "pf_live p" and "\<forall>x \<in> set xs. whole_op x"
  shows "pf_live p' \<and> pf_cash p' - cost_basis (pf_positions p') =
    pf_cash p - cost_basis (pf_positions p) + sum_list (map funding xs) + banked xs p"
  using assms
proof (induction xs arbitrary: p)
  case (Cons x xs)
  then obtain p1 where p1: "pf_step x p = ok p1" and rest: "for_each pf_step xs p1 = ok p'"
    by (auto simp: for_each_eq_ok_Cons simp del: for_each.simps)
  show ?case
    using pf_step_conserves [OF p1] Cons.IH [OF rest] Cons.prems(2,3) p1 by auto
qed simp

lemma pf_live_init [simp]: "pf_live (init_portfolio dt c cur pid name)"
  by (simp add: pf_live_def live_positions_def audited_def init_portfolio_def create_subscription_def)

section \<open>Properties\<close>

text \<open>
  C8. Money is conserved. After any run of subscriptions, withdrawals, trades and marks that
  goes through, started from a fresh portfolio, the cash is what was paid in and out, plus the
  profit of the positions closed on the way, plus the (negative) cost basis of the open ones;
  and once every open position has a price, the total equity is the money put in plus the
  profit banked plus the total profit and loss the open positions report.
\<close>

theorem portfolio_conserves_money:
  assumes "for_each pf_step xs (init_portfolio dt c cur pid name) = ok p"
    and "\<forall>x \<in> set xs. whole_op x"
  shows "pf_cash p = c + sum_list (map funding xs)
      + banked xs (init_portfolio dt c cur pid name) + cost_basis (pf_positions p) \<and>
    (priced (pf_positions p) \<longrightarrow> (\<exists>pnl. positions_total_pnl (pf_positions p) = Some pnl \<and>
      total_equity p = Some (c + sum_list (map funding xs)
        + banked xs (init_portfolio dt c cur pid name) + pnl)))"
proof -
  let ?init = "init_portfolio dt c cur pid name"
  have run: "pf_live p" "pf_cash p - cost_basis (pf_positions p) =
      c + sum_list (map funding xs) + banked xs ?init"
    using pf_run_conserves [OF assms(1) _ assms(2)] by simp_all
  have "\<forall>(a, q) \<in> set (pf_positions p). pos_inv q"
    using run(1) set_dict_eq by (fastforce simp: pf_live_def live_positions_def wf_positions_def)
  then show ?thesis
    using run(2) positions_total_pnl_priced positions_market_value_priced
    by (auto simp: total_equity_def total_market_value_def)
qed

definition demo_run :: "pf_op list" where
  "demo_run =
    [SubscribeFunds 1 1000, TransactAsset (demo_trade 10 20 2),
     TransactAsset (demo_trade (- 4) 25 3), MarkAsset ''EQ:SPY'' (Some 30) 4, WithdrawFunds 5 100]"

theorem portfolio_conserves_money_witness:
  "\<exists>p. for_each pf_step demo_run (init_portfolio 0 500 ''USD'' ''000001'' None) = ok p \<and>
     pf_cash p = 500 + sum_list (map funding demo_run)
      + banked demo_run (init_portfolio 0 500 ''USD'' ''000001'' None) + cost_basis (pf_positions p)"
proof -
  obtain p where p: "for_each pf_step demo_run (init_portfolio 0 500 ''USD'' ''000001'' None) = ok p"
    by (simp add: demo_run_def init_portfolio_def subscribe_funds_def transact_asset_def
        transact_position_def open_from_transaction_def demo_trade_def transact_def
        transact_sell_def update_current_price_def check_set_dt_def net_quantity_def
        update_market_value_of_asset_def withdraw_funds_def cost_with_commission_def
        cost_without_commission_def Let_def)
  show ?thesis
    using p portfolio_conserves_money [OF p] by (simp add: demo_run_def demo_trade_def)
qed

text \<open>
  Trading at the mark costs the commission and nothing else: a trade of at least one unit
  that goes through changes the total equity by the revaluation of the old holding to the
  trade price, less the commission. In particular a trade at the current mark (or in an asset
  not yet held) changes it by minus the commission.
\<close>

theorem trade_moves_equity_by_mark_and_commission:
  assumes "transact_asset t p = ok p'" and "pf_live p" and "priced (pf_positions p)"
    and "\<lfloor>txn_quantity t\<rfloor> \<noteq> 0" and "total_equity p = Some e"
  shows "total_equity p' = Some (e - txn_commission t +
    (case map_of (pf_positions p) (txn_asset t) of None \<Rightarrow> 0
     | Some q \<Rightarrow> (txn_price t - the (current_price q)) * net_quantity q))"
proof -
  obtain ps where ps: "transact_position t (pf_positions p) = ok ps"
    and p': "pf_positions p' = ps" "pf_cash p' = pf_cash p - cost_with_commission t"
    using assms(1) by (auto simp: transact_asset_ok)
  have live: "live_positions (pf_positions p)" using assms(2) by (simp add: pf_live_def)
  note priced' = priced_transact_position [OF ps live assms(4,3)]
  show ?thesis
    using assms(5) positions_market_value_priced [OF assms(3)] positions_market_value_priced [OF priced']
      marked_value_transact_position [OF ps live assms(4)]
    by (auto simp: total_equity_def total_market_value_def p' cost_with_commission_def
        cost_without_commission_def marked_value_def algebra_simps split: option.splits)
qed

theorem trade_moves_equity_by_mark_and_commission_witness:
  "\<exists>p'. transact_asset (demo_trade 10 20 2) (init_portfolio 0 500 ''USD'' ''000001'' None) = ok p' \<and>
     total_equity p' = Some 499"
proof -
  obtain p' where p': "transact_asset (demo_trade 10 20 2)
      (init_portfolio 0 500 ''USD'' ''000001'' None) = ok p'"
    by (simp add: init_portfolio_def transact_asset_def transact_position_def
        open_from_transaction_def demo_trade_def net_quantity_def Let_def)
  have "total_equity (init_portfolio 0 500 ''USD'' ''000001'' None) = Some 500"
    by (simp add: total_equity_def total_market_value_def positions_market_value_def)
  then show ?thesis
    using p' trade_moves_equity_by_mark_and_commission [OF p', of 500]
    by (simp add: priced_def demo_trade_def)
qed

definition pf_attempt :: "pf_op list \<Rightarrow> portfolio \<Rightarrow> portfolio" where
  "pf_attempt xs p = fold (\<lambda>x p. fst (pf_step x p)) xs p"

text \<open>
  Whatever the sequence of operations, also when some of them raise and are caught, the
  books stay well formed (one entry per asset, under its own symbol, with non-negative legs)
  and the portfolio's clock never runs backwards.
\<close>

theorem portfolio_books_survive_errors:
  "pf_wf (pf_attempt xs (init_portfolio dt c cur pid name)) \<and>
   pf_dt (pf_attempt xs (init_portfolio dt c cur pid name))
     \<le> pf_dt (pf_attempt (xs @ ys) (init_portfolio dt c cur pid name))"
proof -
  have wf: "pf_wf (pf_attempt xs p)" if "pf_wf p" for xs p
    using that by (induction xs arbitrary: p) (simp_all add: pf_attempt_def pf_wf_step)
  have step: "pf_dt p \<le> pf_dt (fst (pf_step x p))" for x p
    by (cases x) (simp_all add: pf_dt_mono)
  have mono: "pf_dt p \<le> pf_dt (pf_attempt ys p)" for ys p
    by (induction ys arbitrary: p) (auto simp: pf_attempt_def intro: order_trans [OF step])
  show ?thesis
    using wf [of "init_portfolio dt c cur pid name" xs] mono [of "pf_attempt xs (init_portfolio dt c cur pid name)" ys]
    by (simp add: pf_attempt_def pf_live_wf)
qed

text \<open>
  A trade that raises is not atomic. On a held asset, a trade of at least one unit at a
  non-positive price raises \<^verbatim>\<open>ValueError\<close> after the position has booked it and before the cash
  is debited: the quantity has moved, the cash and the event trail have not.
\<close>

theorem failed_trade_is_half_booked:
  assumes "pf_live p" and "map_of (pf_positions p) (txn_asset t) = Some q"
    and "\<lfloor>txn_quantity t\<rfloor> \<noteq> 0" and "txn_price t \<le> 0"
    and "pf_dt p \<le> txn_dt t" and "pos_dt q \<le> txn_dt t"
  shows "\<exists>q' p'. transact_asset t p = raise ValueError p' \<and>
    map_of (pf_positions p') (txn_asset t) = Some q' \<and>
    net_quantity q' = net_quantity q + txn_quantity t \<and>
    pf_cash p' = pf_cash p \<and> pf_history p' = pf_history p"
proof -
  have q: "pos_inv q" "pos_asset q = txn_asset t"
    using assms(1,2) by (auto simp: pf_live_def live_positions_def wf_positions_def)
  have "\<exists>q'. transact t q = raise ValueError q' \<and> net_quantity q' = net_quantity q + txn_quantity t"
  proof (cases "0 < txn_quantity t")
    case True
    with q assms(3-6) show ?thesis
      by (auto simp: transact_def transact_buy_def update_current_price_def check_set_dt_def
          pos_inv_def net_quantity_def)
  next
    case False
    then have "txn_quantity t < 0" using floor_nonzero_neg [OF assms(3)] by simp
    with q assms(3-6) show ?thesis
      by (auto simp: transact_def transact_sell_def update_current_price_def check_set_dt_def
          pos_inv_def net_quantity_def)
  qed
  then obtain q' where "transact t q = raise ValueError q'"
    and "net_quantity q' = net_quantity q + txn_quantity t" by blast
  with assms(2,5) show ?thesis
    by (auto simp: transact_asset_def transact_position_def Let_def)
qed

definition demo_held :: portfolio where
  "demo_held = fst (transact_asset (demo_trade 10 20 2) (init_portfolio 0 500 ''USD'' ''000001'' None))"

theorem failed_trade_is_half_booked_witness:
  "\<exists>q' p'. transact_asset (demo_trade 5 0 3) demo_held = raise ValueError p' \<and>
    map_of (pf_positions p') ''EQ:SPY'' = Some q' \<and> net_quantity q' = 15 \<and>
    pf_cash p' = pf_cash demo_held"
proof -
  let ?q = "open_from_transaction (demo_trade 10 20 2)"
  have ok: "transact_asset (demo_trade 10 20 2) (init_portfolio 0 500 ''USD'' ''000001'' None)
      = ok demo_held"
    unfolding demo_held_def
    by (rule outcome_eq_okI) (simp add: transact_asset_def transact_position_def
        open_from_transaction_def demo_trade_def net_quantity_def Let_def)
  have "pf_live demo_held"
    using pf_step_conserves [of "TransactAsset (demo_trade 10 20 2)"] ok
    by (simp add: demo_trade_def)
  moreover have "map_of (pf_positions demo_held) ''EQ:SPY'' = Some ?q" and "pf_dt demo_held = 2"
    by (simp_all add: demo_held_def init_portfolio_def transact_asset_def transact_position_def
        open_from_transaction_def demo_trade_def net_quantity_def Let_def)
  ultimately show ?thesis
    using failed_trade_is_half_booked [of demo_held "demo_trade 5 0 3" ?q]
    by (auto simp: demo_trade_def open_from_transaction_def net_quantity_def)
qed

text \<open>
  The event trail ends at the balance: after any run that goes through, the last event
  records the portfolio's cash rounded to cents, and a portfolio without events was given no
  cash.
\<close>

theorem event_trail_ends_at_balance:
  assumes "for_each pf_step xs (init_portfolio dt c cur pid name) = ok p"
    and "\<forall>x \<in> set xs. whole_op x"
  shows "if pf_history p = [] then pf_cash p \<le> 0
    else ev_balance (last (pf_history p)) = py_round2 (pf_cash p)"
proof -
  have "audited p"
    using pf_run_conserves [OF assms(1) pf_live_init assms(2)] by (simp add: pf_live_def)
  then show ?thesis by (simp add: audited_def)
qed

theorem event_trail_ends_at_balance_witness:
  "\<exists>p. for_each pf_step [SubscribeFunds 1 (1/3)] (init_portfolio 0 500 ''USD'' ''000001'' None) = ok p \<and>
     ev_balance (last (pf_history p)) = 50033 / 100"
proof -
  obtain p where p: "for_each pf_step [SubscribeFunds 1 (1/3)]
      (init_portfolio 0 500 ''USD'' ''000001'' None) = ok p" and cash: "pf_cash p = 1501/3"
    by (simp add: init_portfolio_def subscribe_funds_def)
  have "pf_history p \<noteq> []" using p by (auto simp: init_portfolio_def subscribe_funds_def)
  then show ?thesis
    using p event_trail_ends_at_balance [OF p]
    by (intro exI [of _ p]) (simp add: cash py_round2_def py_round_def Let_def)
qed

end
