(* ===== verification/Calendar.thy ===== *)
theory Calendar
  imports Prelude
begin

text \<open>
  Dates and market hours: \<^verbatim>\<open>vmtrader/exchange\<close> and the clock part of the simulation
  (\<^verbatim>\<open>vmtrader/simulation/daily_bday.py\<close>, \<^verbatim>\<open>vmtrader/system/rebalance\<close>). A date is the number
  of days since 1970-01-01, which was a Thursday.
\<close>

section \<open>Dates and times of day\<close>

abbreviation ns_per_day :: int where
  "ns_per_day \<equiv> 86400000000000"

definition date_of :: "timestamp \<Rightarrow> int" where
  "date_of dt = dt div ns_per_day"

definition time_of :: "timestamp \<Rightarrow> int" where
  "time_of dt = dt mod ns_per_day"

text \<open>\<^verbatim>\<open>weekday()\<close>: Monday is 0.\<close>

definition weekday :: "int \<Rightarrow> int" where
  "weekday d = (d + 3) mod 7"

definition hm :: "int \<Rightarrow> int \<Rightarrow> int" where
  "hm h m = (h * 3600 + m * 60) * 1000000000"

definition combine :: "int \<Rightarrow> int \<Rightarrow> timestamp" where
  "combine d t = d * ns_per_day + t"

lemma date_of_combine: "0 \<le> t \<Longrightarrow> t < ns_per_day \<Longrightarrow> date_of (combine d t) = d"
  by (simp add: date_of_def combine_def)

lemma time_of_combine: "0 \<le> t \<Longrightarrow> t < ns_per_day \<Longrightarrow> time_of (combine d t) = t"
  by (simp add: time_of_def combine_def)

lemma weekday_range: "0 \<le> weekday d" "weekday d \<le> 6"
  by (simp_all add: weekday_def)

definition is_business_day :: "int \<Rightarrow> bool" where
  "is_business_day d \<longleftrightarrow> weekday d \<le> 4"

section \<open>Trading venues\<close>

text \<open>What a broker relies on: a venue that is open is open on a weekday.\<close>

locale venue_hours =
  fixes is_open :: "timestamp \<Rightarrow> bool"
    and local_date :: "timestamp \<Rightarrow> int"
  assumes open_weekday: "is_open dt \<Longrightarrow> weekday (local_date dt) \<le> 4"
begin

lemma closed_at_weekend: "weekday (local_date dt) = 5 \<or> weekday (local_date dt) = 6 \<Longrightarrow> \<not> is_open dt"
  using open_weekday by fastforce

end

definition sim_is_open :: "timestamp \<Rightarrow> bool" where
  "sim_is_open dt =
    (if 4 < weekday (date_of dt) then False
     else hm 14 30 \<le> time_of dt \<and> time_of dt < hm 21 0)"

interpretation sim_hours: venue_hours sim_is_open date_of
  by unfold_locales (auto simp: sim_is_open_def split: if_splits)

text \<open>
  KRX. A timestamp is naive (taken to be Korean local time) or aware; the conversion of an
  instant to the \<^verbatim>\<open>Asia/Seoul\<close> wall clock is the time-zone library's and is the parameter
  \<open>tz_convert\<close>.
\<close>

datatype stamp = Naive timestamp | Aware timestamp

record krx_exchange =
  krx_holidays :: "int list"
  krx_open_time :: int
  krx_close_time :: int

text \<open>The constructor: a missing calendar is empty, missing hours are 09:00 to 15:30.\<close>

definition init_krx :: "int list option \<Rightarrow> int option \<Rightarrow> int option \<Rightarrow> krx_exchange" where
  "init_krx holidays open_time close_time =
    \<lparr>krx_holidays = (case holidays of Some h \<Rightarrow> h | None \<Rightarrow> []),
     krx_open_time = (case open_time of Some t \<Rightarrow> t | None \<Rightarrow> hm 9 0),
     krx_close_time = (case close_time of Some t \<Rightarrow> t | None \<Rightarrow> hm 15 30)\<rparr>"

fun to_local :: "(timestamp \<Rightarrow> timestamp) \<Rightarrow> stamp \<Rightarrow> timestamp" where
  "to_local tz_convert (Naive dt) = dt"
| "to_local tz_convert (Aware dt) = tz_convert dt"

definition krx_is_trading_day :: "(timestamp \<Rightarrow> timestamp) \<Rightarrow> krx_exchange \<Rightarrow> stamp \<Rightarrow> bool" where
  "krx_is_trading_day tz_convert x dt =
    (let local_dt = to_local tz_convert dt in
     if 4 < weekday (date_of local_dt) then False
     else date_of local_dt \<notin> set (krx_holidays x))"

definition krx_is_open :: "(timestamp \<Rightarrow> timestamp) \<Rightarrow> krx_exchange \<Rightarrow> stamp \<Rightarrow> bool" where
  "krx_is_open tz_convert x dt =
    (let local_dt = to_local tz_convert dt in
     if \<not> krx_is_trading_day tz_convert x (Naive local_dt) then False
     else krx_open_time x \<le> time_of local_dt \<and> time_of local_dt < krx_close_time x)"

text \<open>
  A holiday calendar speaks for a date only inside the fetched range; a file without both
  ends speaks for none.
\<close>

definition holiday_range_covers :: "int option \<Rightarrow> int option \<Rightarrow> int \<Rightarrow> bool" where
  "holiday_range_covers start end d =
    (case (start, end) of (Some s, Some e) \<Rightarrow> s \<le> d \<and> d \<le> e | _ \<Rightarrow> False)"

interpretation krx_hours: venue_hours "\<lambda>dt. krx_is_open tz x (Naive dt)" date_of for tz x
  by unfold_locales (auto simp: krx_is_open_def krx_is_trading_day_def Let_def split: if_splits)

section \<open>Schedules\<close>

text \<open>
  \<^verbatim>\<open>pd.date_range(start, end, freq=...)\<close> with a day-based frequency keeps the time of day of
  \<open>start\<close>: it takes the dates on the frequency whose timestamp at that time lies in the
  range. This is pandas from 2.2 on, the least version the project asks for and the first to know
  \<^verbatim>\<open>BME\<close>: a start off the frequency is rolled forward, an end is compared as it is (up to 2.1 it was
  rolled back first when the start was on the frequency). \<^verbatim>\<open>pd.bdate_range\<close> first sets both ends to midnight.
\<close>

definition date_range :: "(int \<Rightarrow> bool) \<Rightarrow> timestamp \<Rightarrow> timestamp \<Rightarrow> int list" where
  "date_range on start end =
    filter (\<lambda>d. on d \<and> combine d (time_of start) \<le> end) [date_of start..date_of end]"

definition normalize :: "timestamp \<Rightarrow> timestamp" where
  "normalize dt = combine (date_of dt) 0"

definition bdate_range :: "timestamp \<Rightarrow> timestamp \<Rightarrow> int list" where
  "bdate_range start end = date_range is_business_day (normalize start) (normalize end)"

text \<open>The events of the simulation engine.\<close>

datatype event_type = PreMarket | MarketOpen | MarketClose | PostMarket

type_synonym sim_event = "timestamp \<times> event_type"

definition day_events :: "bool \<Rightarrow> bool \<Rightarrow> int \<Rightarrow> sim_event list" where
  "day_events pre_market post_market d =
    (if pre_market then [(combine d 0, PreMarket)] else []) @
    [(combine d (hm 14 30), MarketOpen), (combine d (hm 21 0), MarketClose)] @
    (if post_market then [(combine d (hm 23 59), PostMarket)] else [])"

definition sim_engine :: "timestamp \<Rightarrow> timestamp \<Rightarrow> bool \<Rightarrow> bool \<Rightarrow> exn + sim_event list" where
  "sim_engine starting_day ending_day pre_market post_market =
    (if ending_day < starting_day then Inl ValueError
     else Inr (concat (map (day_events pre_market post_market)
       (date_range is_business_day starting_day ending_day))))"

text \<open>The rebalance schedules; \<open>market_time\<close> is \<^verbatim>\<open>_set_market_time\<close>.\<close>

definition market_time :: "bool \<Rightarrow> int" where
  "market_time pre_market = (if pre_market then hm 14 30 else hm 21 0)"

definition daily_rebalances :: "timestamp \<Rightarrow> timestamp \<Rightarrow> bool \<Rightarrow> timestamp list" where
  "daily_rebalances start end pre_market =
    map (\<lambda>d. combine d (market_time pre_market)) (bdate_range start end)"

definition set_weekday :: "string \<Rightarrow> exn + int" where
  "set_weekday w =
    (case map_of [(''MON'', 0), (''TUE'', 1), (''WED'', 2), (''THU'', 3), (''FRI'', 4)] (upper w) of
       None \<Rightarrow> Inl ValueError
     | Some i \<Rightarrow> Inr i)"

text \<open>\<^verbatim>\<open>freq='W-MON'\<close> and so on: the dates that fall on the weekday.\<close>

definition weekly_rebalances :: "timestamp \<Rightarrow> timestamp \<Rightarrow> string \<Rightarrow> bool \<Rightarrow> exn + timestamp list" where
  "weekly_rebalances start end w pre_market =
    (case set_weekday w of
       Inl e \<Rightarrow> Inl e
     | Inr i \<Rightarrow> Inr (map (\<lambda>d. combine d (market_time pre_market))
         (date_range (\<lambda>d. weekday d = i) start end)))"

text \<open>Buy and hold: the start if it is a business day, else one \<^verbatim>\<open>BusinessDay\<close> later.\<close>

definition add_business_day :: "timestamp \<Rightarrow> timestamp" where
  "add_business_day dt = dt + ns_per_day *
    (let w = weekday (date_of dt) in if w = 4 then 3 else if w = 5 then 2 else 1)"

definition buy_and_hold_rebalances :: "timestamp \<Rightarrow> timestamp list" where
  "buy_and_hold_rebalances start_dt =
    (if bdate_range start_dt start_dt = [] then [add_business_day start_dt] else [start_dt])"

text \<open>
  End of month: the dates on \<^verbatim>\<open>freq='BME'\<close>, the last business day of each month. \<open>civil_month\<close> is
  the year and month of a date in the Gregorian calendar: eras of 400 years that start in March,
  so that the leap day is the last day of a year.
\<close>

definition civil_month :: "int \<Rightarrow> int \<times> int" where
  "civil_month d =
    (let z = d + 719468; era = z div 146097; doe = z mod 146097;
         yoe = (doe - doe div 1460 + doe div 36524 - doe div 146096) div 365;
         doy = doe - (365 * yoe + yoe div 4 - yoe div 100);
         mp = (5 * doy + 2) div 153;
         m = (if mp < 10 then mp + 3 else mp - 9) in
     (yoe + era * 400 + (if m \<le> 2 then 1 else 0), m))"

text \<open>The day of the first of January of a year.\<close>

definition jan_first :: "int \<Rightarrow> int" where
  "jan_first y = 365 * (y - 1970) + (y - 1) div 4 - (y - 1) div 100 + (y - 1) div 400 - 477"

definition last_business_day :: "int \<Rightarrow> bool" where
  "last_business_day d \<longleftrightarrow> is_business_day d \<and>
    civil_month (d + (if weekday d = 4 then 3 else 1)) \<noteq> civil_month d"

definition end_of_month_rebalances :: "timestamp \<Rightarrow> timestamp \<Rightarrow> bool \<Rightarrow> timestamp list" where
  "end_of_month_rebalances start end pre_market =
    map (\<lambda>d. combine d (market_time pre_market)) (date_range last_business_day start end)"

section \<open>Lemmas\<close>

lemma hm_values: "hm 14 30 = 52200000000000" "hm 21 0 = 75600000000000" "hm 23 59 = 86340000000000"
  "hm 9 0 = 32400000000000" "hm 15 30 = 55800000000000"
  by (simp_all add: hm_def)

lemma market_time_range: "0 \<le> market_time b" "market_time b < ns_per_day"
  by (simp_all add: market_time_def hm_values)

lemma set_date_range: "d \<in> set (date_range on s e) \<longleftrightarrow>
  on d \<and> date_of s \<le> d \<and> d \<le> date_of e \<and> combine d (time_of s) \<le> e"
  by (auto simp: date_range_def)

lemma sorted_date_range: "sorted_wrt (<) (date_range on s e)"
  unfolding date_range_def by (intro sorted_wrt_filter sorted_wrt_upto)

lemma combine_less: "d < d' \<Longrightarrow> t < ns_per_day \<Longrightarrow> 0 \<le> t' \<Longrightarrow> combine d t < combine d' t'"
proof -
  assume d: "d < d'" and t: "t < ns_per_day" "0 \<le> t'"
  have "d * ns_per_day + ns_per_day \<le> d' * ns_per_day" using d by (simp add: algebra_simps)
  with t show ?thesis unfolding combine_def by linarith
qed

lemma normalize_parts [simp]: "date_of (normalize dt) = date_of dt" "time_of (normalize dt) = 0"
  by (simp_all add: normalize_def date_of_combine time_of_combine)

lemma combine_mono: "d \<le> d' \<Longrightarrow> combine d t \<le> combine d' t"
  by (simp add: combine_def)

lemma set_bdate_range: "d \<in> set (bdate_range s e) \<longleftrightarrow> weekday d \<le> 4 \<and> date_of s \<le> d \<and> d \<le> date_of e"
  by (auto simp: bdate_range_def set_date_range is_business_day_def combine_mono
      date_of_combine normalize_def [of e])

text \<open>The timestamps of one day come in order, within the day.\<close>

lemma day_events_times: "(dt, k) \<in> set (day_events pre post d) \<Longrightarrow> date_of dt = d"
  by (auto simp: day_events_def hm_values date_of_combine split: if_splits)

lemma day_events_bounds:
  "(dt, k) \<in> set (day_events pre post d) \<Longrightarrow> combine d 0 \<le> dt \<and> dt < combine (d + 1) 0"
  by (auto simp: day_events_def hm_values combine_def split: if_splits)

lemma sorted_day_events: "sorted_wrt (\<lambda>x y. fst x < fst y) (day_events pre post d)"
  by (auto simp: day_events_def hm_values combine_def)

lemma sorted_sim_events:
  assumes "sorted_wrt (<) ds"
  shows "sorted_wrt (\<lambda>x y. fst x < fst y) (concat (map (day_events pre post) ds))"
  using assms
proof (induction ds)
  case (Cons d ds)
  have "fst x < fst y" if x: "x \<in> set (day_events pre post d)"
    and y: "y \<in> set (day_events pre post d')" and d': "d' \<in> set ds" for x y d'
  proof -
    have "fst x < combine (d + 1) 0"
      using day_events_bounds [of "fst x" "snd x" pre post d] x by simp
    also have "\<dots> \<le> combine d' 0"
      using Cons.prems d' by (intro combine_mono) auto
    also have "\<dots> \<le> fst y"
      using day_events_bounds [of "fst y" "snd y" pre post d'] y by simp
    finally show ?thesis .
  qed
  with Cons show ?case by (fastforce simp: sorted_wrt_append sorted_day_events)
qed simp

text \<open>The last business days of March to May 2020, from a start in the middle of a month.\<close>

lemma end_of_month_spring:
  "end_of_month_rebalances (combine 18332 0) (combine 18411 0) False =
    map (\<lambda>d. combine d (hm 21 0)) [18352, 18382, 18411]"
proof -
  have "filter (\<lambda>d. last_business_day d \<and> combine d 0 \<le> combine 18411 0) [18332..18411] =
      [18352, 18382, 18411]"
    by code_simp
  then show ?thesis
    by (simp add: end_of_month_rebalances_def date_range_def market_time_def date_of_combine time_of_combine)
qed

section \<open>Properties\<close>

text \<open>The events of the engine: in time order, on weekdays, the exchange open at the opens only.\<close>

lemma sim_engine_events:
  assumes "sim_engine s e pre post = Inr evs"
  shows "sorted_wrt (\<lambda>x y. fst x < fst y) evs"
    and "(dt, k) \<in> set evs \<Longrightarrow> weekday (date_of dt) \<le> 4 \<and> (sim_is_open dt \<longleftrightarrow> k = MarketOpen)"
proof -
  have evs: "evs = concat (map (day_events pre post) (date_range is_business_day s e))"
    using assms by (auto simp: sim_engine_def split: if_splits)
  then show "sorted_wrt (\<lambda>x y. fst x < fst y) evs"
    by (simp add: sorted_sim_events sorted_date_range)
  show "weekday (date_of dt) \<le> 4 \<and> (sim_is_open dt \<longleftrightarrow> k = MarketOpen)" if "(dt, k) \<in> set evs"
    using that by (auto simp: evs set_date_range is_business_day_def day_events_def sim_is_open_def hm_values
        date_of_combine time_of_combine split: if_splits)
qed

text \<open>
  The simulation engine yields its events in strictly increasing time order, on weekdays
  only, and the market-open event is the only kind for which the simulated exchange is open.
\<close>

theorem simulation_events_ordered_and_hours:
  assumes "sim_engine s e pre post = Inr evs"
  shows "sorted_wrt (\<lambda>x y. fst x < fst y) evs \<and>
    (\<forall>(dt, k) \<in> set evs. weekday (date_of dt) \<le> 4 \<and> (sim_is_open dt \<longleftrightarrow> k = MarketOpen))"
  using sim_engine_events [OF assms] by blast

theorem simulation_events_ordered_and_hours_witness:
  "\<exists>evs. sim_engine (combine 8 (hm 14 30)) (combine 11 (hm 23 59)) False True = Inr evs \<and>
     length evs = 6 \<and> sorted_wrt (\<lambda>x y. fst x < fst y) evs"
proof -
  have "date_range is_business_day (combine 8 (hm 14 30)) (combine 11 (hm 23 59)) = [8, 11]"
    by (simp add: date_range_def hm_values date_of_def time_of_def is_business_day_def
        weekday_def combine_def)
  then obtain evs where evs: "sim_engine (combine 8 (hm 14 30)) (combine 11 (hm 23 59)) False True = Inr evs"
    and "length evs = 6"
    by (simp add: sim_engine_def hm_values combine_def day_events_def)
  with simulation_events_ordered_and_hours [OF evs] show ?thesis by auto
qed

text \<open>
  A rebalance at the market close never trades on the spot. Every timestamp of the daily
  schedule at market close falls on an event of the simulation (when the range ends no
  earlier in the day than it starts), and the simulated exchange is already closed at it, so
  the orders wait for the next open; at market open it is open.
\<close>

theorem daily_rebalances_meet_the_venue:
  assumes "dt \<in> set (daily_rebalances s e pre_market)" and "time_of s \<le> time_of e"
    and "sim_engine s e pre post = Inr evs"
  shows "(dt, if pre_market then MarketOpen else MarketClose) \<in> set evs \<and>
    (sim_is_open dt \<longleftrightarrow> pre_market)"
proof -
  from assms(1) obtain d where d: "weekday d \<le> 4" "date_of s \<le> d" "d \<le> date_of e"
    and dt: "dt = combine d (market_time pre_market)"
    by (auto simp: daily_rebalances_def set_bdate_range)
  have "combine d (time_of s) \<le> combine (date_of e) (time_of e)"
    using d(3) assms(2) by (simp add: combine_def)
  also have "\<dots> = e" by (simp add: combine_def date_of_def time_of_def)
  finally have "d \<in> set (date_range is_business_day s e)"
    using d by (simp add: set_date_range is_business_day_def)
  moreover have "evs = concat (map (day_events pre post) (date_range is_business_day s e))"
    using assms(3) by (auto simp: sim_engine_def split: if_splits)
  ultimately have "(dt, if pre_market then MarketOpen else MarketClose) \<in> set evs"
    by (auto simp: dt day_events_def market_time_def intro!: bexI [of _ d])
  with sim_engine_events(2) [OF assms(3)] show ?thesis
    by (cases pre_market) fastforce+
qed

theorem daily_rebalances_meet_the_venue_witness:
  "\<exists>evs. sim_engine (combine 8 0) (combine 11 0) False False = Inr evs \<and>
     (combine 11 (hm 21 0), MarketClose) \<in> set evs \<and> \<not> sim_is_open (combine 11 (hm 21 0))"
proof -
  obtain evs where evs: "sim_engine (combine 8 0) (combine 11 0) False False = Inr evs"
    by (simp add: sim_engine_def combine_def)
  have "combine 11 (hm 21 0) \<in> set (daily_rebalances (combine 8 0) (combine 11 0) False)"
    by (auto simp: daily_rebalances_def set_bdate_range market_time_def date_of_combine weekday_def
        intro!: image_eqI [of _ _ 11])
  from daily_rebalances_meet_the_venue [OF this _ evs] evs show ?thesis
    by (simp add: time_of_combine)
qed

end
