(* ===== verification/Data_Handler.thy ===== *)
theory Data_Handler
  imports Calendar
begin

text \<open>
  Prices for a backtest: \<^verbatim>\<open>vmtrader/data/daily_bar.py\<close> turns daily bars into a series of
  timestamped quotes and answers point-in-time queries, and
  \<^verbatim>\<open>vmtrader/data/backtest_data_handler.py\<close> asks a list of data sources in turn. The frames of
  pandas are lists of rows; a missing value is NaN. The lemmas show that no query looks into
  the future.
\<close>

section \<open>Daily bars\<close>

record bar =
  bar_ts :: timestamp
  bar_open :: nan_rat
  bar_close :: nan_rat
  bar_adj_close :: nan_rat

record bar_frame =
  has_adj_close :: bool
  frame_bars :: "bar list"

type_synonym quote_rows = "(timestamp \<times> nan_rat) list"

text \<open>
  \<^verbatim>\<open>(Adj Close / Close) * Open\<close>, with NaN absorbing. Bars have no close of zero: in pandas it gives an
  infinite opening price, which no rational is and which is outside the model; here it gives NaN.
\<close>

definition adj_open :: "bar \<Rightarrow> nan_rat" where
  "adj_open b = (case (bar_adj_close b, bar_close b, bar_open b) of
     (Some a, Some c, Some p) \<Rightarrow> if c = 0 then None else Some (a / c * p)
   | _ \<Rightarrow> None)"

definition bar_rows :: "bool \<Rightarrow> bar \<Rightarrow> quote_rows" where
  "bar_rows adjust_prices b =
    [(bar_ts b + hm 14 30, if adjust_prices then adj_open b else bar_open b),
     (bar_ts b + hm 21 0, if adjust_prices then bar_adj_close b else bar_close b)]"

text \<open>\<^verbatim>\<open>DataFrame.ffill\<close>: a missing value takes the last one seen.\<close>

fun ffill :: "nan_rat \<Rightarrow> quote_rows \<Rightarrow> quote_rows" where
  "ffill prev [] = []"
| "ffill prev ((t, v) # rows) =
     (let v' = (case v of None \<Rightarrow> prev | Some x \<Rightarrow> Some x) in (t, v') # ffill v' rows)"

definition convert_bar_frame :: "bool \<Rightarrow> bar_frame \<Rightarrow> exn + quote_rows" where
  "convert_bar_frame adjust_prices f =
    (if adjust_prices \<and> \<not> has_adj_close f then Inl ValueError
     else Inr (sort_key fst (ffill None
       (concat (map (bar_rows adjust_prices) (sort_key bar_ts (frame_bars f)))))))"

text \<open>\<^verbatim>\<open>get_indexer([dt], method='pad')\<close>: the last row not after \<open>dt\<close>, NaN before the first.\<close>

definition pad_price :: "quote_rows \<Rightarrow> timestamp \<Rightarrow> nan_rat" where
  "pad_price rows dt =
    (case filter (\<lambda>(t, v). t \<le> dt) rows of [] \<Rightarrow> None | r # rs \<Rightarrow> snd (last (r # rs)))"

text \<open>\<^verbatim>\<open>get_bid\<close> and \<^verbatim>\<open>get_ask\<close>: both columns hold the one price.\<close>

definition get_bid :: "(symbol, quote_rows) dict \<Rightarrow> timestamp \<Rightarrow> symbol \<Rightarrow> exn + nan_rat" where
  "get_bid frames dt asset =
    (case map_of frames asset of None \<Rightarrow> Inl KeyError | Some rows \<Rightarrow> Inr (pad_price rows dt))"

definition get_ask :: "(symbol, quote_rows) dict \<Rightarrow> timestamp \<Rightarrow> symbol \<Rightarrow> exn + nan_rat" where
  "get_ask frames dt asset =
    (case map_of frames asset of None \<Rightarrow> Inl KeyError | Some rows \<Rightarrow> Inr (pad_price rows dt))"

section \<open>The data handler\<close>

text \<open>A data source answers a query or raises; the handler treats a raise as NaN.\<close>

record data_source =
  ds_bid :: "timestamp \<Rightarrow> symbol \<Rightarrow> exn + nan_rat"
  ds_ask :: "timestamp \<Rightarrow> symbol \<Rightarrow> exn + nan_rat"

definition daily_bar_source :: "(symbol, quote_rows) dict \<Rightarrow> data_source" where
  "daily_bar_source frames = \<lparr>ds_bid = get_bid frames, ds_ask = get_ask frames\<rparr>"

fun latest_bid :: "data_source list \<Rightarrow> timestamp \<Rightarrow> symbol \<Rightarrow> nan_rat" where
  "latest_bid [] dt a = None"
| "latest_bid (d # ds) dt a =
     (case ds_bid d dt a of Inr (Some b) \<Rightarrow> Some b | _ \<Rightarrow> latest_bid ds dt a)"

fun latest_ask :: "data_source list \<Rightarrow> timestamp \<Rightarrow> symbol \<Rightarrow> nan_rat" where
  "latest_ask [] dt a = None"
| "latest_ask (d # ds) dt a =
     (case ds_ask d dt a of Inr (Some b) \<Rightarrow> Some b | _ \<Rightarrow> latest_ask ds dt a)"

definition latest_bid_ask :: "data_source list \<Rightarrow> timestamp \<Rightarrow> symbol \<Rightarrow> nan_rat \<times> nan_rat" where
  "latest_bid_ask ds dt a = (let bid = latest_bid ds dt a in (bid, bid))"

definition latest_mid :: "data_source list \<Rightarrow> timestamp \<Rightarrow> symbol \<Rightarrow> nan_rat" where
  "latest_mid ds dt a =
    (let (bid, ask) = latest_bid_ask ds dt a in map_option (\<lambda>x. x / 2) (nan_add bid ask))"

text \<open>What the brokers and the sizers use of a data handler.\<close>

record price_feed =
  feed_bid_ask :: "timestamp \<Rightarrow> symbol \<Rightarrow> nan_rat \<times> nan_rat"
  feed_mid :: "timestamp \<Rightarrow> symbol \<Rightarrow> nan_rat"
  feed_ask :: "timestamp \<Rightarrow> symbol \<Rightarrow> nan_rat"

definition backtest_feed :: "data_source list \<Rightarrow> price_feed" where
  "backtest_feed ds =
    \<lparr>feed_bid_ask = latest_bid_ask ds, feed_mid = latest_mid ds, feed_ask = latest_ask ds\<rparr>"

text \<open>Both sides of a quote are the mid price, so an execution trades at the mark.\<close>

locale quote_feed =
  fixes bid_ask :: "timestamp \<Rightarrow> symbol \<Rightarrow> nan_rat \<times> nan_rat"
    and mid :: "timestamp \<Rightarrow> symbol \<Rightarrow> nan_rat"
  assumes bid_is_mid: "fst (bid_ask dt a) = mid dt a"
    and ask_is_mid: "snd (bid_ask dt a) = mid dt a"
begin

lemma quote_eq: "bid_ask dt a = (mid dt a, mid dt a)"
  using bid_is_mid [of dt a] ask_is_mid [of dt a] by (simp add: prod_eq_iff)

text \<open>The side an order takes does not matter to the price it gets.\<close>

lemma execution_price: "(if P then snd (bid_ask dt a) else fst (bid_ask dt a)) = mid dt a"
  by (simp add: quote_eq)

end

interpretation backtest: quote_feed "feed_bid_ask (backtest_feed ds)" "feed_mid (backtest_feed ds)" for ds
proof unfold_locales
  fix dt a
  show "fst (feed_bid_ask (backtest_feed ds) dt a) = feed_mid (backtest_feed ds) dt a"
    and "snd (feed_bid_ask (backtest_feed ds) dt a) = feed_mid (backtest_feed ds) dt a"
    by (cases "latest_bid ds dt a"; simp add: backtest_feed_def latest_bid_ask_def latest_mid_def Let_def)+
qed

text \<open>An answer of the handler is the answer of some source that did not raise.\<close>

lemma latest_bid_from_source:
  "latest_bid ds dt a = Some b \<Longrightarrow> \<exists>d \<in> set ds. ds_bid d dt a = Inr (Some b)"
  by (induction ds) (auto split: sum.splits option.splits)

section \<open>No look-ahead\<close>

lemma ffill_append:
  "\<exists>v'. ffill v (xs @ ys) = ffill v xs @ ffill v' ys"
proof (induction xs arbitrary: v)
  case (Cons x xs)
  obtain t w where x: "x = (t, w)" by (cases x)
  obtain v' where "ffill (case w of None \<Rightarrow> v | Some x \<Rightarrow> Some x) (xs @ ys) =
      ffill (case w of None \<Rightarrow> v | Some x \<Rightarrow> Some x) xs @ ffill v' ys"
    using Cons.IH by blast
  then show ?case by (auto simp: x Let_def)
qed auto

lemma fst_ffill: "map fst (ffill v rows) = map fst rows"
  by (induction v rows rule: ffill.induct) (auto simp: Let_def)

lemma filter_ffill_late:
  assumes "\<forall>r \<in> set rows. dt < fst r"
  shows "filter (\<lambda>(t, v). t \<le> dt) (ffill v rows) = []"
proof -
  have "fst ` set (ffill v rows) = fst ` set rows"
    using fst_ffill [of v rows] by (metis list.set_map)
  then have "dt < t" if "(t, w) \<in> set (ffill v rows)" for t w
    using assms that by (metis (no_types, lifting) fst_conv image_iff)
  then show ?thesis by (fastforce simp: filter_empty_conv)
qed

lemma sorted_key_prefix:
  assumes "sorted (map bar_ts bs)"
  shows "bs = filter (\<lambda>b. bar_ts b \<le> dt) bs @ filter (\<lambda>b. dt < bar_ts b) bs"
  using assms
proof (induction bs)
  case (Cons b bs)
  then have IH: "bs = filter (\<lambda>b. bar_ts b \<le> dt) bs @ filter (\<lambda>b. dt < bar_ts b) bs" by simp
  show ?case
  proof (cases "bar_ts b \<le> dt")
    case True
    then show ?thesis using IH by simp
  next
    case False
    with Cons.prems have "\<forall>c \<in> set bs. dt < bar_ts c" by auto
    with False show ?thesis by (auto simp: filter_empty_conv filter_id_conv)
  qed
qed simp

lemma pad_price_past:
  assumes "convert_bar_frame adjust f = Inr rows"
  shows "filter (\<lambda>(t, v). t \<le> dt) rows =
    sort_key fst (filter (\<lambda>(t, v). t \<le> dt) (ffill None (concat (map (bar_rows adjust)
      (sort_key bar_ts (filter (\<lambda>b. bar_ts b \<le> dt) (frame_bars f)))))))"
proof -
  let ?bs = "sort_key bar_ts (frame_bars f)"
  let ?early = "concat (map (bar_rows adjust) (filter (\<lambda>b. bar_ts b \<le> dt) ?bs))"
  let ?late = "concat (map (bar_rows adjust) (filter (\<lambda>b. dt < bar_ts b) ?bs))"
  have "?bs = filter (\<lambda>b. bar_ts b \<le> dt) ?bs @ filter (\<lambda>b. dt < bar_ts b) ?bs"
    by (rule sorted_key_prefix) simp
  then have split: "concat (map (bar_rows adjust) ?bs) = ?early @ ?late"
    by (metis concat_append map_append)
  obtain v where v: "ffill None (?early @ ?late) = ffill None ?early @ ffill v ?late"
    using ffill_append by blast
  have "filter (\<lambda>(t, v). t \<le> dt) (ffill v ?late) = []"
    by (rule filter_ffill_late) (auto simp: bar_rows_def hm_values)
  then have "filter (\<lambda>(t, v). t \<le> dt) (ffill None (concat (map (bar_rows adjust) ?bs))) =
      filter (\<lambda>(t, v). t \<le> dt) (ffill None ?early)"
    using split v by simp
  moreover have "rows = sort_key fst (ffill None (concat (map (bar_rows adjust) ?bs)))"
    using assms by (auto simp: convert_bar_frame_def split: if_splits)
  ultimately show ?thesis by (simp add: filter_sort)
qed

text \<open>
  A backtest never sees the future. The price the data source answers at a timestamp is
  determined by the bars dated no later than it: two bar frames that agree on those bars give
  the same bid, whatever they hold afterwards.
\<close>

theorem bar_prices_have_no_look_ahead:
  assumes "convert_bar_frame adjust f = Inr rows" and "convert_bar_frame adjust f' = Inr rows'"
    and "filter (\<lambda>b. bar_ts b \<le> dt) (frame_bars f) = filter (\<lambda>b. bar_ts b \<le> dt) (frame_bars f')"
  shows "get_bid [(a, rows)] dt a = get_bid [(a, rows')] dt a"
  using pad_price_past [OF assms(1), of dt] pad_price_past [OF assms(2), of dt] assms(3)
  by (simp add: get_bid_def pad_price_def)

definition demo_bar :: "int \<Rightarrow> rat \<Rightarrow> bar" where
  "demo_bar d x = \<lparr>bar_ts = combine d 0, bar_open = Some x, bar_close = Some (x + 1),
     bar_adj_close = Some (x + 1)\<rparr>"

theorem bar_prices_have_no_look_ahead_witness:
  "\<exists>rows rows'.
     convert_bar_frame True \<lparr>has_adj_close = True, frame_bars = [demo_bar 8 10]\<rparr> = Inr rows \<and>
     convert_bar_frame True \<lparr>has_adj_close = True, frame_bars = [demo_bar 11 99, demo_bar 8 10]\<rparr>
       = Inr rows' \<and>
     get_bid [(''EQ:SPY'', rows)] (combine 8 (hm 21 0)) ''EQ:SPY'' =
       get_bid [(''EQ:SPY'', rows')] (combine 8 (hm 21 0)) ''EQ:SPY''"
proof -
  obtain rows rows' where
    "convert_bar_frame True \<lparr>has_adj_close = True, frame_bars = [demo_bar 8 10]\<rparr> = Inr rows" and
    "convert_bar_frame True \<lparr>has_adj_close = True, frame_bars = [demo_bar 11 99, demo_bar 8 10]\<rparr>
       = Inr rows'"
    by (simp add: convert_bar_frame_def)
  moreover from this have "get_bid [(''EQ:SPY'', rows)] (combine 8 (hm 21 0)) ''EQ:SPY'' =
      get_bid [(''EQ:SPY'', rows')] (combine 8 (hm 21 0)) ''EQ:SPY''"
    by (rule bar_prices_have_no_look_ahead) (simp add: demo_bar_def combine_def hm_values)
  ultimately show ?thesis by blast
qed

end
