(* ===== verification/Simulated_Broker.thy ===== *)
theory Simulated_Broker
  imports Portfolio Fee_Model Data_Handler
begin

text \<open>
  \<^verbatim>\<open>vmtrader/execution/order.py\<close> and \<^verbatim>\<open>vmtrader/broker/simulated_broker.py\<close>: orders, and the
  broker of a backtest with its master cash account, its portfolios and one order queue per
  portfolio. The exchange enters as the predicate \<open>is_open\<close>, the data handler as a
  \<open>price_feed\<close>. The lemmas show that transfers between the accounts are all-or-nothing, what
  one call of \<^verbatim>\<open>update\<close> does to the queues, and that filling an order costs its commission.
\<close>

section \<open>Orders\<close>

record order =
  ord_id :: string
  ord_created_dt :: timestamp
  ord_cur_dt :: timestamp
  ord_asset :: symbol
  ord_quantity :: rat
  ord_commission :: rat

definition new_order :: "string \<Rightarrow> timestamp \<Rightarrow> symbol \<Rightarrow> rat \<Rightarrow> order" where
  "new_order oid dt asset quantity =
    \<lparr>ord_id = oid, ord_created_dt = dt, ord_cur_dt = dt, ord_asset = asset,
     ord_quantity = quantity, ord_commission = 0\<rparr>"

definition ord_direction :: "order \<Rightarrow> int" where
  "ord_direction o' = copysign1 (ord_quantity o')"

definition order_attribs_equal :: "order \<Rightarrow> order \<Rightarrow> bool" where
  "order_attribs_equal x y \<longleftrightarrow>
    (if ord_created_dt x \<noteq> ord_created_dt y then False
     else if ord_cur_dt x \<noteq> ord_cur_dt y then False
     else if ord_asset x \<noteq> ord_asset y then False
     else if ord_quantity x \<noteq> ord_quantity y then False
     else if ord_commission x \<noteq> ord_commission y then False
     else ord_direction x = ord_direction y)"

lemma ord_direction_cases: "ord_direction x = - 1 \<and> ord_quantity x < 0 \<or>
    ord_direction x = 1 \<and> 0 \<le> ord_quantity x"
  by (auto simp: ord_direction_def copysign1_def)

section \<open>The broker\<close>

definition supported_currencies :: "string list" where
  "supported_currencies = [''USD'', ''GBP'', ''EUR'', ''KRW'']"

record sim_broker =
  sb_start_dt :: timestamp
  sb_dt :: timestamp
  sb_account_id :: "string option"
  sb_currency :: string
  sb_fee_model :: fee_model
  sb_cash :: "(string, rat) dict"
  sb_portfolios :: "(string, portfolio) dict"
  sb_open_orders :: "(string, order list) dict"

definition set_base_currency :: "string \<Rightarrow> exn + string" where
  "set_base_currency currency =
    (if currency \<notin> set supported_currencies then Inl ValueError else Inr currency)"

definition set_initial_funds :: "rat \<Rightarrow> exn + rat" where
  "set_initial_funds funds = (if funds < 0 then Inl ValueError else Inr funds)"

definition set_cash_balances :: "string \<Rightarrow> rat \<Rightarrow> (string, rat) dict" where
  "set_cash_balances currency funds =
    (let d = map (\<lambda>c. (c, 0)) supported_currencies in
     if 0 < funds then AList.update currency funds d else d)"

definition init_sim_broker ::
  "timestamp \<Rightarrow> string option \<Rightarrow> string \<Rightarrow> rat \<Rightarrow> fee_model \<Rightarrow> exn + sim_broker" where
  "init_sim_broker dt account_id currency funds fee =
    (case set_base_currency currency of
       Inl e \<Rightarrow> Inl e
     | Inr cur \<Rightarrow>
         (case set_initial_funds funds of
            Inl e \<Rightarrow> Inl e
          | Inr f \<Rightarrow> Inr \<lparr>sb_start_dt = dt, sb_dt = dt, sb_account_id = account_id,
              sb_currency = cur, sb_fee_model = fee, sb_cash = set_cash_balances cur f,
              sb_portfolios = [], sb_open_orders = []\<rparr>))"

text \<open>
  \<^verbatim>\<open>self.cash_balances[self.base_currency]\<close>; the base currency is always a key, since it is
  checked against the same list the dictionary is built from.
\<close>

definition master_cash :: "sim_broker \<Rightarrow> rat" where
  "master_cash b = the (map_of (sb_cash b) (sb_currency b))"

definition set_master_cash :: "rat \<Rightarrow> sim_broker \<Rightarrow> sim_broker" where
  "set_master_cash x b = b\<lparr>sb_cash := AList.update (sb_currency b) x (sb_cash b)\<rparr>"

section \<open>Accounts\<close>

definition subscribe_funds_to_account :: "rat \<Rightarrow> sim_broker \<Rightarrow> sim_broker outcome" where
  "subscribe_funds_to_account amount b =
    (if amount < 0 then raise ValueError b
     else ok (set_master_cash (master_cash b + amount) b))"

definition withdraw_funds_from_account :: "rat \<Rightarrow> sim_broker \<Rightarrow> sim_broker outcome" where
  "withdraw_funds_from_account amount b =
    (if amount < 0 then raise ValueError b
     else if master_cash b < amount then raise ValueError b
     else ok (set_master_cash (master_cash b - amount) b))"

definition get_account_cash_balance :: "string \<Rightarrow> sim_broker \<Rightarrow> exn + rat" where
  "get_account_cash_balance currency b =
    (case map_of (sb_cash b) currency of None \<Rightarrow> Inl ValueError | Some x \<Rightarrow> Inr x)"

definition create_portfolio :: "string \<Rightarrow> string option \<Rightarrow> sim_broker \<Rightarrow> sim_broker outcome" where
  "create_portfolio pid name b =
    (if pid \<in> set (dict_keys (sb_portfolios b)) then raise ValueError b
     else ok (b\<lparr>sb_portfolios := AList.update pid
                  (init_portfolio (sb_dt b) 0 (sb_currency b) pid name) (sb_portfolios b),
                sb_open_orders := AList.update pid [] (sb_open_orders b)\<rparr>))"

definition list_all_portfolios :: "sim_broker \<Rightarrow> portfolio list" where
  "list_all_portfolios b =
    (if sb_portfolios b = [] then [] else sort_key pf_id (map snd (sb_portfolios b)))"

text \<open>A call on \<^verbatim>\<open>self.portfolios[portfolio_id]\<close>.\<close>

definition on_portfolio ::
  "string \<Rightarrow> (portfolio \<Rightarrow> portfolio outcome) \<Rightarrow> sim_broker \<Rightarrow> sim_broker outcome" where
  "on_portfolio pid f b =
    (case map_of (sb_portfolios b) pid of
       None \<Rightarrow> raise KeyError b
     | Some p \<Rightarrow> map_outcome (\<lambda>p'. b\<lparr>sb_portfolios := AList.update pid p' (sb_portfolios b)\<rparr>) (f p))"

definition subscribe_funds_to_portfolio :: "string \<Rightarrow> rat \<Rightarrow> sim_broker \<Rightarrow> sim_broker outcome" where
  "subscribe_funds_to_portfolio pid amount b =
    (if amount < 0 then raise ValueError b
     else if pid \<notin> set (dict_keys (sb_portfolios b)) then raise KeyError b
     else if master_cash b < amount then raise ValueError b
     else then_do (on_portfolio pid (subscribe_funds (sb_dt b) amount) b)
       (\<lambda>b. ok (set_master_cash (master_cash b - amount) b)))"

definition withdraw_funds_from_portfolio :: "string \<Rightarrow> rat \<Rightarrow> sim_broker \<Rightarrow> sim_broker outcome" where
  "withdraw_funds_from_portfolio pid amount b =
    (if amount < 0 then raise ValueError b
     else (case map_of (sb_portfolios b) pid of
         None \<Rightarrow> raise KeyError b
       | Some p \<Rightarrow>
           if pf_cash p < amount then raise ValueError b
           else then_do (on_portfolio pid (withdraw_funds (sb_dt b) amount) b)
             (\<lambda>b. ok (set_master_cash (master_cash b + amount) b))))"

definition get_portfolio_cash_balance :: "string \<Rightarrow> sim_broker \<Rightarrow> exn + rat" where
  "get_portfolio_cash_balance pid b =
    (case map_of (sb_portfolios b) pid of None \<Rightarrow> Inl ValueError | Some p \<Rightarrow> Inr (pf_cash p))"

definition get_portfolio_total_market_value :: "string \<Rightarrow> sim_broker \<Rightarrow> exn + nan_rat" where
  "get_portfolio_total_market_value pid b =
    (case map_of (sb_portfolios b) pid of None \<Rightarrow> Inl KeyError | Some p \<Rightarrow> Inr (total_market_value p))"

definition get_portfolio_total_equity :: "string \<Rightarrow> sim_broker \<Rightarrow> exn + nan_rat" where
  "get_portfolio_total_equity pid b =
    (case map_of (sb_portfolios b) pid of None \<Rightarrow> Inl KeyError | Some p \<Rightarrow> Inr (total_equity p))"

definition get_portfolio_as_dict :: "string \<Rightarrow> sim_broker \<Rightarrow> exn + (symbol, holding) dict" where
  "get_portfolio_as_dict pid b =
    (case map_of (sb_portfolios b) pid of None \<Rightarrow> Inl KeyError | Some p \<Rightarrow> Inr (portfolio_to_dict p))"

text \<open>
  \<^verbatim>\<open>get_account_total_market_value\<close> calls the method \<^verbatim>\<open>get_portfolio_market_value\<close>, which no
  class defines: with at least one portfolio the call raises \<^verbatim>\<open>AttributeError\<close>.
\<close>

definition get_account_total_market_value :: "sim_broker \<Rightarrow> exn + (string, nan_rat) dict" where
  "get_account_total_market_value b =
    (case sb_portfolios b of
       [] \<Rightarrow> Inr [(''master'', Some 0)]
     | _ # _ \<Rightarrow> Inl AttributeError)"

fun account_equity_loop :: "sim_broker \<Rightarrow> portfolio list \<Rightarrow> (string, nan_rat) dict \<Rightarrow> nan_rat
    \<Rightarrow> exn + (string, nan_rat) dict" where
  "account_equity_loop b [] d master = Inr (AList.update ''master'' master d)"
| "account_equity_loop b (p # ps) d master =
    (case get_portfolio_total_equity (pf_id p) b of
       Inl e \<Rightarrow> Inl e
     | Inr eq \<Rightarrow> account_equity_loop b ps (AList.update (pf_id p) eq d) (nan_add master eq))"

definition get_account_total_equity :: "sim_broker \<Rightarrow> exn + (string, nan_rat) dict" where
  "get_account_total_equity b = account_equity_loop b (map snd (sb_portfolios b)) [] (Some 0)"

section \<open>Orders and the clock\<close>

text \<open>
  The test \<^verbatim>\<open>bid_ask == (np.nan, np.nan)\<close> and \<^verbatim>\<open>round(price * quantity)\<close> on a NaN price both
  raise \<^verbatim>\<open>ValueError\<close> before anything is booked, so one branch stands for the two. A cost above
  the cash balance only prints a warning.
\<close>

definition execute_order ::
  "price_feed \<Rightarrow> timestamp \<Rightarrow> string \<Rightarrow> order \<Rightarrow> sim_broker \<Rightarrow> sim_broker outcome" where
  "execute_order feed dt pid o' b =
    (let bid_ask = feed_bid_ask feed dt (ord_asset o') in
     case (if 0 < ord_direction o' then snd bid_ask else fst bid_ask) of
       None \<Rightarrow> raise ValueError b
     | Some price \<Rightarrow>
         (let consideration = of_int (py_round (price * ord_quantity o'));
              total_commission = calc_total_cost (sb_fee_model b) (ord_asset o') (ord_quantity o')
                consideration in
          on_portfolio pid (transact_asset
            \<lparr>txn_asset = ord_asset o', txn_quantity = ord_quantity o', txn_dt = sb_dt b,
             txn_price = price, txn_order_id = ord_id o', txn_commission = total_commission\<rparr>) b))"

definition sim_submit_order :: "string \<Rightarrow> order \<Rightarrow> sim_broker \<Rightarrow> sim_broker outcome" where
  "sim_submit_order pid o' b =
    (if pid \<notin> set (dict_keys (sb_portfolios b)) then raise KeyError b
     else (case map_of (sb_open_orders b) pid of
         None \<Rightarrow> raise KeyError b
       | Some q \<Rightarrow> ok (b\<lparr>sb_open_orders := AList.update pid (q @ [o']) (sb_open_orders b)\<rparr>)))"

text \<open>The marks of one portfolio: its positions in insertion order.\<close>

definition mark_portfolio :: "price_feed \<Rightarrow> timestamp \<Rightarrow> string \<Rightarrow> sim_broker \<Rightarrow> sim_broker outcome" where
  "mark_portfolio feed dt pid b =
    on_portfolio pid
      (\<lambda>p. for_each (\<lambda>a. update_market_value_of_asset a (feed_mid feed dt a) (sb_dt b))
             (dict_keys (pf_positions p)) p) b"

definition mark_all :: "price_feed \<Rightarrow> timestamp \<Rightarrow> sim_broker \<Rightarrow> sim_broker outcome" where
  "mark_all feed dt b = for_each (mark_portfolio feed dt) (dict_keys (sb_portfolios b)) b"

text \<open>
  The \<^verbatim>\<open>while not empty: get\<close> loops over the portfolios' queues, which leave them empty, and
  the stable sort by direction.
\<close>

definition queued_orders :: "sim_broker \<Rightarrow> (string \<times> order) list" where
  "queued_orders b = concat (map (\<lambda>pid.
     map (Pair pid) (case map_of (sb_open_orders b) pid of None \<Rightarrow> [] | Some q \<Rightarrow> q))
       (dict_keys (sb_portfolios b)))"

definition drain_queues :: "sim_broker \<Rightarrow> sim_broker" where
  "drain_queues b = b\<lparr>sb_open_orders :=
     map (\<lambda>(pid, q). (pid, if pid \<in> set (dict_keys (sb_portfolios b)) then [] else q))
       (sb_open_orders b)\<rparr>"

definition sim_update ::
  "(timestamp \<Rightarrow> bool) \<Rightarrow> price_feed \<Rightarrow> timestamp \<Rightarrow> sim_broker \<Rightarrow> sim_broker outcome" where
  "sim_update is_open feed dt b =
    (let b = b\<lparr>sb_dt := dt\<rparr> in
     then_do (mark_all feed dt b)
       (\<lambda>b. if is_open (sb_dt b) then
              (let sorted_orders = sort_key (\<lambda>x. ord_direction (snd x)) (queued_orders b) in
               for_each (\<lambda>(pid, o'). execute_order feed dt pid o') sorted_orders (drain_queues b))
            else ok b))"

section \<open>Well-formed accounts\<close>

text \<open>
  One queue per portfolio, every portfolio under its own identifier with well-formed books, and
  a master account in the base currency. \<open>live_broker\<close> adds that no trade failed half way.
\<close>

definition wf_sim_broker :: "sim_broker \<Rightarrow> bool" where
  "wf_sim_broker b \<longleftrightarrow>
    wf_dict (sb_portfolios b) \<and> dict_keys (sb_open_orders b) = dict_keys (sb_portfolios b) \<and>
    (\<forall>pid p. map_of (sb_portfolios b) pid = Some p \<longrightarrow> pf_id p = pid \<and> pf_wf p) \<and>
    map_of (sb_cash b) (sb_currency b) \<noteq> None"

text \<open>Everything a broker does to a portfolio keeps its identifier and its well-formed books.\<close>

definition keeps_portfolio :: "(portfolio \<Rightarrow> portfolio outcome) \<Rightarrow> bool" where
  "keeps_portfolio f \<longleftrightarrow> (\<forall>p. pf_wf p \<longrightarrow> pf_wf (fst (f p)) \<and> pf_id (fst (f p)) = pf_id p)"

lemma pf_id_frame:
  "pf_id (fst (subscribe_funds dt x p)) = pf_id p"
  "pf_id (fst (withdraw_funds dt x p)) = pf_id p"
  "pf_id (fst (transact_asset t p)) = pf_id p"
  "pf_id (fst (update_market_value_of_asset a m dt p)) = pf_id p"
  by (auto simp: subscribe_funds_def withdraw_funds_def transact_asset_def
      update_market_value_of_asset_def Let_def then_do_def split: option.splits)

lemma keeps_portfolio_ops:
  "keeps_portfolio (subscribe_funds dt x)"
  "keeps_portfolio (withdraw_funds dt x)"
  "keeps_portfolio (transact_asset t)"
  "keeps_portfolio (update_market_value_of_asset a m dt)"
  by (simp_all add: keeps_portfolio_def pf_id_frame pf_wf_subscribe pf_wf_withdraw
      pf_wf_transact_asset pf_wf_update_market_value)

lemma keeps_portfolio_for_each:
  assumes "\<And>x. keeps_portfolio (f x)"
  shows "keeps_portfolio (\<lambda>p. for_each f (xs p) p)"
  unfolding keeps_portfolio_def
proof (intro allI impI)
  fix p assume wf: "pf_wf p"
  have step: "pf_wf (fst (f x q)) \<and> pf_id (fst (f x q)) = pf_id q" if "pf_wf q" for x q
    using assms that by (simp add: keeps_portfolio_def)
  show "pf_wf (fst (for_each f (xs p) p)) \<and> pf_id (fst (for_each f (xs p) p)) = pf_id p"
    by (rule for_each_inv [where P = "\<lambda>q. pf_wf q \<and> pf_id q = pf_id p"]) (use wf step in simp_all)
qed

lemma wf_on_portfolio:
  assumes "wf_sim_broker b" and "keeps_portfolio f"
  shows "wf_sim_broker (fst (on_portfolio pid f b))"
proof (cases "map_of (sb_portfolios b) pid")
  case (Some p)
  with assms show ?thesis
    by (auto simp: on_portfolio_def wf_sim_broker_def keeps_portfolio_def dict_keys_update)
qed (use assms in \<open>simp add: on_portfolio_def\<close>)

lemma on_portfolio_frame [simp]:
  "sb_cash (fst (on_portfolio pid f b)) = sb_cash b"
  "sb_currency (fst (on_portfolio pid f b)) = sb_currency b"
  "sb_open_orders (fst (on_portfolio pid f b)) = sb_open_orders b"
  "sb_dt (fst (on_portfolio pid f b)) = sb_dt b"
  "sb_fee_model (fst (on_portfolio pid f b)) = sb_fee_model b"
  "dict_keys (sb_portfolios (fst (on_portfolio pid f b))) = dict_keys (sb_portfolios b)"
  by (auto simp: on_portfolio_def dict_keys_update split: option.splits)

lemma wf_execute_order:
  "wf_sim_broker b \<Longrightarrow> wf_sim_broker (fst (execute_order feed dt pid o' b))"
  by (auto simp: execute_order_def Let_def wf_on_portfolio keeps_portfolio_ops split: option.splits)

lemma execute_order_frame [simp]:
  "sb_cash (fst (execute_order feed dt pid o' b)) = sb_cash b"
  "sb_currency (fst (execute_order feed dt pid o' b)) = sb_currency b"
  "sb_open_orders (fst (execute_order feed dt pid o' b)) = sb_open_orders b"
  "sb_dt (fst (execute_order feed dt pid o' b)) = sb_dt b"
  "sb_fee_model (fst (execute_order feed dt pid o' b)) = sb_fee_model b"
  "dict_keys (sb_portfolios (fst (execute_order feed dt pid o' b))) = dict_keys (sb_portfolios b)"
  by (simp_all add: execute_order_def Let_def split: option.splits)

lemma wf_mark_portfolio: "wf_sim_broker b \<Longrightarrow> wf_sim_broker (fst (mark_portfolio feed dt pid b))"
  by (auto simp: mark_portfolio_def intro!: wf_on_portfolio keeps_portfolio_for_each keeps_portfolio_ops)

lemma mark_all_frame:
  "sb_cash (fst (mark_all feed dt b)) = sb_cash b \<and>
   sb_currency (fst (mark_all feed dt b)) = sb_currency b \<and>
   sb_open_orders (fst (mark_all feed dt b)) = sb_open_orders b \<and>
   sb_dt (fst (mark_all feed dt b)) = sb_dt b \<and>
   sb_fee_model (fst (mark_all feed dt b)) = sb_fee_model b \<and>
   dict_keys (sb_portfolios (fst (mark_all feed dt b))) = dict_keys (sb_portfolios b)"
  unfolding mark_all_def
  by (rule for_each_inv [where P = "\<lambda>c. sb_cash c = sb_cash b \<and> sb_currency c = sb_currency b \<and>
      sb_open_orders c = sb_open_orders b \<and> sb_dt c = sb_dt b \<and> sb_fee_model c = sb_fee_model b \<and>
      dict_keys (sb_portfolios c) = dict_keys (sb_portfolios b)"])
    (simp_all add: mark_portfolio_def)

lemma wf_mark_all: "wf_sim_broker b \<Longrightarrow> wf_sim_broker (fst (mark_all feed dt b))"
  unfolding mark_all_def by (rule for_each_inv) (simp_all add: wf_mark_portfolio)

lemma drain_queues_frame [simp]:
  "sb_cash (drain_queues b) = sb_cash b" "sb_currency (drain_queues b) = sb_currency b"
  "sb_dt (drain_queues b) = sb_dt b" "sb_portfolios (drain_queues b) = sb_portfolios b"
  "sb_fee_model (drain_queues b) = sb_fee_model b"
  by (simp_all add: drain_queues_def)

lemma wf_drain_queues: "wf_sim_broker b \<Longrightarrow> wf_sim_broker (drain_queues b)"
  by (simp add: wf_sim_broker_def) (simp add: drain_queues_def case_prod_unfold comp_def)

section \<open>Runs of operations\<close>

datatype sb_op =
    SubscribeAccount rat
  | WithdrawAccount rat
  | CreatePortfolio string "string option"
  | SubscribePortfolio string rat
  | WithdrawPortfolio string rat
  | SubmitOrder string order
  | Update "timestamp \<Rightarrow> bool" price_feed timestamp

fun sb_step :: "sb_op \<Rightarrow> sim_broker \<Rightarrow> sim_broker outcome" where
  "sb_step (SubscribeAccount x) b = subscribe_funds_to_account x b"
| "sb_step (WithdrawAccount x) b = withdraw_funds_from_account x b"
| "sb_step (CreatePortfolio pid name) b = create_portfolio pid name b"
| "sb_step (SubscribePortfolio pid x) b = subscribe_funds_to_portfolio pid x b"
| "sb_step (WithdrawPortfolio pid x) b = withdraw_funds_from_portfolio pid x b"
| "sb_step (SubmitOrder pid o') b = sim_submit_order pid o' b"
| "sb_step (Update is_open feed dt) b = sim_update is_open feed dt b"

definition sb_attempt :: "sb_op list \<Rightarrow> sim_broker \<Rightarrow> sim_broker" where
  "sb_attempt xs b = fold (\<lambda>x b. fst (sb_step x b)) xs b"

definition solvent_account :: "sim_broker \<Rightarrow> bool" where
  "solvent_account b \<longleftrightarrow> wf_sim_broker b \<and> 0 \<le> master_cash b"

lemma master_cash_set [simp]: "master_cash (set_master_cash x b) = x"
  by (simp add: master_cash_def set_master_cash_def)

lemma wf_set_master_cash: "wf_sim_broker b \<Longrightarrow> wf_sim_broker (set_master_cash x b)"
  by (simp add: wf_sim_broker_def set_master_cash_def)

lemma master_cash_cong: "sb_cash c = sb_cash b \<Longrightarrow> sb_currency c = sb_currency b \<Longrightarrow>
    master_cash c = master_cash b"
  by (simp add: master_cash_def)

lemma wf_create: "wf_sim_broker b \<Longrightarrow> wf_sim_broker (fst (create_portfolio pid name b))"
proof (cases "pid \<in> set (dict_keys (sb_portfolios b))")
  case False
  assume wf: "wf_sim_broker b"
  then have "set (dict_keys (sb_open_orders b)) = set (dict_keys (sb_portfolios b))"
    by (simp add: wf_sim_broker_def)
  with False have "map_of (sb_portfolios b) pid = None" "map_of (sb_open_orders b) pid = None"
    by (metis map_of_eq_None_iff list.set_map)+
  with wf False show ?thesis
    by (auto simp: create_portfolio_def wf_sim_broker_def update_new pf_live_wf split: if_splits)
      (auto simp: wf_dict_def)
qed (simp add: create_portfolio_def)

lemma wf_submit: "wf_sim_broker b \<Longrightarrow> wf_sim_broker (fst (sim_submit_order pid o' b))"
  by (auto simp: sim_submit_order_def wf_sim_broker_def dict_keys_update split: option.splits)

lemma update_invariant:
  assumes wf: "wf_sim_broker b"
  shows "wf_sim_broker (fst (sim_update is_open feed dt b)) \<and>
    master_cash (fst (sim_update is_open feed dt b)) = master_cash b"
proof -
  let ?P = "\<lambda>c. wf_sim_broker c \<and> master_cash c = master_cash b"
  have start: "?P (fst (mark_all feed dt (b\<lparr>sb_dt := dt\<rparr>)))"
    using wf mark_all_frame [of feed dt "b\<lparr>sb_dt := dt\<rparr>"]
    by (auto simp: wf_sim_broker_def [of "b\<lparr>sb_dt := dt\<rparr>"] intro!: wf_mark_all master_cash_cong)
      (simp_all add: wf_sim_broker_def)
  have "?P (fst (for_each (\<lambda>(pid, o'). execute_order feed dt pid o') xs (drain_queues c)))"
    if "?P c" for xs c
    by (rule for_each_inv)
      (use that in \<open>auto simp: wf_drain_queues wf_execute_order master_cash_def\<close>)
  with start show ?thesis
    unfolding sim_update_def Let_def by (intro then_do_inv [where P = ?P]) auto
qed

lemma solvent_transfer:
  assumes "solvent_account b" and "keeps_portfolio f" and "0 \<le> g (master_cash b)"
  shows "solvent_account (fst (then_do (on_portfolio pid f b)
    (\<lambda>b. ok (set_master_cash (g (master_cash b)) b))))"
proof -
  have wf: "wf_sim_broker (fst (on_portfolio pid f b))"
    using assms by (simp add: wf_on_portfolio solvent_account_def)
  moreover have "master_cash (fst (on_portfolio pid f b)) = master_cash b"
    by (rule master_cash_cong) simp_all
  ultimately show ?thesis
    using assms(1,3) by (cases "on_portfolio pid f b" rule: outcome_cases)
      (simp_all add: solvent_account_def wf_set_master_cash)
qed

lemma solvent_subscribe_portfolio:
  "solvent_account b \<Longrightarrow> solvent_account (fst (subscribe_funds_to_portfolio pid x b))"
  unfolding subscribe_funds_to_portfolio_def
  using solvent_transfer [of b "subscribe_funds (sb_dt b) x" "\<lambda>c. c - x" pid]
  by (simp add: keeps_portfolio_ops)

lemma solvent_withdraw_portfolio:
  "solvent_account b \<Longrightarrow> solvent_account (fst (withdraw_funds_from_portfolio pid x b))"
  unfolding withdraw_funds_from_portfolio_def
  using solvent_transfer [of b "withdraw_funds (sb_dt b) x" "\<lambda>c. c + x" pid]
  by (simp add: keeps_portfolio_ops solvent_account_def split: option.split)

lemma solvent_step:
  assumes "solvent_account b"
  shows "solvent_account (fst (sb_step x b))"
proof (cases x)
  case (Update is_open feed dt)
  then show ?thesis
    using assms update_invariant [of b is_open feed dt] by (simp add: solvent_account_def)
next
  case (SubmitOrder pid o')
  have "master_cash (fst (sim_submit_order pid o' b)) = master_cash b"
    by (simp add: sim_submit_order_def master_cash_def split: option.split)
  with SubmitOrder assms show ?thesis by (simp add: solvent_account_def wf_submit)
next
  case (CreatePortfolio pid name)
  have "master_cash (fst (create_portfolio pid name b)) = master_cash b"
    by (simp add: create_portfolio_def master_cash_def)
  with CreatePortfolio assms show ?thesis by (simp add: solvent_account_def wf_create)
next
  case (SubscribePortfolio pid y)
  then show ?thesis using assms by (simp add: solvent_subscribe_portfolio)
next
  case (WithdrawPortfolio pid y)
  then show ?thesis using assms by (simp add: solvent_withdraw_portfolio)
qed (use assms in \<open>auto simp: solvent_account_def wf_set_master_cash
    subscribe_funds_to_account_def withdraw_funds_from_account_def\<close>)

section \<open>Marking\<close>

text \<open>What a portfolio holds, without the prices: no mark changes it.\<close>

definition holdings :: "positions \<Rightarrow> (symbol, rat) dict" where
  "holdings ps = map (\<lambda>(a, q). (a, net_quantity q)) ps"

definition books :: "portfolio \<Rightarrow> rat \<times> portfolio_event list \<times> (symbol, rat) dict" where
  "books p = (pf_cash p, pf_history p, holdings (pf_positions p))"

lemma holdings_update_same:
  "map_of ps a = Some q \<Longrightarrow> net_quantity q' = net_quantity q \<Longrightarrow>
   holdings (AList.update a q' ps) = holdings ps"
  by (induction ps) (auto simp: holdings_def)

lemma books_mark: "books (fst (update_market_value_of_asset a m dt p)) = books p"
  by (auto simp: update_market_value_of_asset_def books_def holdings_update_same
      net_update_current_price split: option.splits)

lemma books_mark_each:
  "books (fst (for_each (\<lambda>a. update_market_value_of_asset a (m a) dt) as p)) = books p"
  by (rule for_each_inv [where P = "\<lambda>q. books q = books p"]) (simp_all add: books_mark)

text \<open>A portfolio field no call changes.\<close>

abbreviation field_of :: "(portfolio \<Rightarrow> 'a) \<Rightarrow> string \<Rightarrow> sim_broker \<Rightarrow> 'a option" where
  "field_of g pid b \<equiv> map_option g (map_of (sb_portfolios b) pid)"

lemma field_on_portfolio:
  "(\<And>p. g (fst (f p)) = g p) \<Longrightarrow> field_of g pid' (fst (on_portfolio pid f b)) = field_of g pid' b"
  by (auto simp: on_portfolio_def split: option.splits)

lemma books_mark_all: "field_of books pid (fst (mark_all feed dt b)) = field_of books pid b"
  unfolding mark_all_def mark_portfolio_def
  by (rule for_each_inv [where P = "\<lambda>c. field_of books pid c = field_of books pid b"])
    (simp_all add: field_on_portfolio books_mark_each)

text \<open>A mark that goes through leaves the asset at the price it was given.\<close>

lemma update_market_value_held:
  assumes "update_market_value_of_asset a m dt p = ok p'"
  shows "map_of (pf_positions p') b = (case map_of (pf_positions p) b of
    None \<Rightarrow> None
  | Some q \<Rightarrow> Some (if b = a then fst (update_current_price m (Some dt) q) else q))"
  using assms by (auto simp: update_market_value_of_asset_def map_outcome_eq_ok split: option.splits if_splits)

lemma update_market_value_price:
  assumes "update_market_value_of_asset a m dt p = ok p'" and "map_of (pf_positions p') a = Some q"
  shows "current_price q = m"
proof -
  obtain q0 where q0: "map_of (pf_positions p) a = Some q0"
    using assms update_market_value_held [OF assms(1), of a] by (auto split: option.splits)
  with assms(1) obtain q1 where "update_current_price m (Some dt) q0 = ok q1"
    by (auto simp: update_market_value_of_asset_def map_outcome_eq_ok split: if_splits option.splits)
  then show ?thesis
    using q0 assms(2) update_market_value_held [OF assms(1), of a] current_price_mark by auto
qed

lemma mark_each_prices:
  assumes "for_each (\<lambda>a. update_market_value_of_asset a (m a) dt) as p = ok p'" and "pf_live p"
  shows "pf_live p' \<and> (\<forall>a q. map_of (pf_positions p') a = Some q \<longrightarrow>
    a \<in> set as \<or> (\<exists>q0. map_of (pf_positions p) a = Some q0 \<and> current_price q0 = m a) \<longrightarrow>
    current_price q = m a)"
  using assms
proof (induction as arbitrary: p)
  case (Cons x xs)
  then obtain p1 where p1: "update_market_value_of_asset x (m x) dt p = ok p1"
    and rest: "for_each (\<lambda>a. update_market_value_of_asset a (m a) dt) xs p1 = ok p'"
    by (auto simp: for_each_eq_ok_Cons simp del: for_each.simps)
  have live: "pf_live p1" using pf_live_mark [OF p1 Cons.prems(2)] by simp
  have now: "current_price q = m a"
    if "map_of (pf_positions p1) a = Some q"
      and "a = x \<or> (\<exists>q0. map_of (pf_positions p) a = Some q0 \<and> current_price q0 = m a)" for a q
    using that update_market_value_held [OF p1, of a] update_market_value_price [OF p1]
    by (cases "a = x") (auto split: option.splits)
  have keys: "\<exists>q0. map_of (pf_positions p1) a = Some q0" if "map_of (pf_positions p') a = Some q" for a q
  proof -
    have "holdings (pf_positions p') = holdings (pf_positions p1)"
      using books_mark_each [of m dt xs p1] rest by (simp add: books_def)
    then have "map fst (holdings (pf_positions p')) = map fst (holdings (pf_positions p1))" by simp
    then have "dict_keys (pf_positions p') = dict_keys (pf_positions p1)"
      by (simp add: holdings_def comp_def case_prod_unfold)
    with that show ?thesis by (metis map_of_eq_None_iff not_None_eq list.set_map)
  qed
  show ?case
    using Cons.IH [OF rest live] now keys by (metis set_ConsD)
qed auto

text \<open>Marking all portfolios marks each of them once.\<close>

lemma mark_each_portfolio:
  assumes "for_each (mark_portfolio feed dt) pids b = ok c" and "distinct pids"
    and "map_of (sb_portfolios b) pid = Some p"
  shows "\<exists>p'. map_of (sb_portfolios c) pid = Some p' \<and>
    (if pid \<in> set pids then for_each (\<lambda>a. update_market_value_of_asset a (feed_mid feed dt a) (sb_dt b))
       (dict_keys (pf_positions p)) p = ok p' else p' = p)"
  using assms
proof (induction pids arbitrary: b p)
  case (Cons x xs)
  then obtain b1 where b1: "mark_portfolio feed dt x b = ok b1"
    and rest: "for_each (mark_portfolio feed dt) xs b1 = ok c"
    by (auto simp: for_each_eq_ok_Cons simp del: for_each.simps)
  have "sb_dt (fst (mark_portfolio feed dt x b)) = sb_dt b" by (simp add: mark_portfolio_def)
  with b1 have dt: "sb_dt b1 = sb_dt b" by simp
  from b1 obtain px px' where px: "map_of (sb_portfolios b) x = Some px"
    and run: "for_each (\<lambda>a. update_market_value_of_asset a (feed_mid feed dt a) (sb_dt b))
      (dict_keys (pf_positions px)) px = ok px'"
    and b1': "sb_portfolios b1 = AList.update x px' (sb_portfolios b)"
    by (auto simp: mark_portfolio_def on_portfolio_def map_outcome_eq_ok split: option.splits)
  show ?case
    using Cons.IH [OF rest, of "if pid = x then px' else p"] Cons.prems(2,3) run px b1' dt
    by (cases "pid = x") (auto split: if_splits)
qed simp

section \<open>Fills\<close>

text \<open>The fee an order pays when it fills at the feed's mid price.\<close>

definition order_fee :: "price_feed \<Rightarrow> timestamp \<Rightarrow> fee_model \<Rightarrow> order \<Rightarrow> rat" where
  "order_fee feed dt fee o' = calc_total_cost fee (ord_asset o') (ord_quantity o')
     (of_int (py_round (the (feed_mid feed dt (ord_asset o')) * ord_quantity o')))"

text \<open>An execution that goes through is one transaction in one portfolio.\<close>

definition fill_of :: "price_feed \<Rightarrow> timestamp \<Rightarrow> fee_model \<Rightarrow> timestamp \<Rightarrow> order \<Rightarrow> transaction" where
  "fill_of feed dt fee now o' =
    (let (bid, ask) = feed_bid_ask feed dt (ord_asset o');
         price = the (if 0 < ord_direction o' then ask else bid) in
     \<lparr>txn_asset = ord_asset o', txn_quantity = ord_quantity o', txn_dt = now, txn_price = price,
      txn_order_id = ord_id o', txn_commission = calc_total_cost fee (ord_asset o')
        (ord_quantity o') (of_int (py_round (price * ord_quantity o')))\<rparr>)"

lemma fill_of_fields [simp]:
  "txn_asset (fill_of feed dt fee now o') = ord_asset o'"
  "txn_quantity (fill_of feed dt fee now o') = ord_quantity o'"
  "txn_dt (fill_of feed dt fee now o') = now"
  by (simp_all add: fill_of_def Let_def case_prod_unfold)

lemma execute_order_ok:
  assumes "execute_order feed dt pid o' b = ok b'"
  obtains p p' where "map_of (sb_portfolios b) pid = Some p"
    and "transact_asset (fill_of feed dt (sb_fee_model b) (sb_dt b) o') p = ok p'"
    and "b' = b\<lparr>sb_portfolios := AList.update pid p' (sb_portfolios b)\<rparr>"
    and "(if 0 < ord_direction o' then snd (feed_bid_ask feed dt (ord_asset o'))
          else fst (feed_bid_ask feed dt (ord_asset o'))) \<noteq> None"
proof -
  from assms obtain price where price: "(if 0 < ord_direction o'
      then snd (feed_bid_ask feed dt (ord_asset o')) else fst (feed_bid_ask feed dt (ord_asset o')))
      = Some price"
    by (auto simp: execute_order_def Let_def split: option.splits)
  with assms have "on_portfolio pid (transact_asset (fill_of feed dt (sb_fee_model b) (sb_dt b) o')) b
      = ok b'"
    by (simp add: execute_order_def fill_of_def Let_def case_prod_unfold)
  with price that show ?thesis
    by (auto simp: on_portfolio_def map_outcome_eq_ok split: option.splits)
qed

text \<open>What a trade event says was traded.\<close>

definition traded :: "portfolio_event \<Rightarrow> (symbol \<times> rat \<times> timestamp) option" where
  "traded e = (case ev_description e of
     TradeDescription long q a price dt \<Rightarrow> Some (a, q, dt) | _ \<Rightarrow> None)"

lemma transact_asset_history:
  "transact_asset t p = ok p' \<Longrightarrow> \<exists>e. pf_history p' = pf_history p @ [e] \<and>
     traded e = Some (upper (txn_asset t), txn_quantity t, txn_dt t)"
  by (auto simp: transact_asset_ok trade_event_def traded_def Let_def)

abbreviation execute_all :: "price_feed \<Rightarrow> timestamp \<Rightarrow> (string \<times> order) list \<Rightarrow> sim_broker
    \<Rightarrow> sim_broker outcome" where
  "execute_all feed dt \<equiv> for_each (\<lambda>(pid, o'). execute_order feed dt pid o')"

lemma execute_all_frame:
  "sb_open_orders (fst (execute_all feed dt xs b)) = sb_open_orders b \<and>
   sb_dt (fst (execute_all feed dt xs b)) = sb_dt b \<and>
   sb_fee_model (fst (execute_all feed dt xs b)) = sb_fee_model b"
  by (rule for_each_inv [where P = "\<lambda>c. sb_open_orders c = sb_open_orders b \<and> sb_dt c = sb_dt b \<and>
      sb_fee_model c = sb_fee_model b"]) auto

lemma execute_all_queues:
  assumes "execute_all feed dt xs b = ok b'"
  shows "sb_open_orders b' = sb_open_orders b"
  using execute_all_frame [where xs = xs and b = b and feed = feed and dt = dt] assms by simp

lemma execute_all_history:
  assumes "execute_all feed dt xs b = ok b'" and "map_of (sb_portfolios b) pid = Some p"
  shows "\<exists>p' evs. map_of (sb_portfolios b') pid = Some p' \<and> pf_history p' = pf_history p @ evs \<and>
    map traded evs = map (\<lambda>(_, o'). Some (upper (ord_asset o'), ord_quantity o', sb_dt b))
      (filter (\<lambda>x. fst x = pid) xs)"
  using assms
proof (induction xs arbitrary: b p)
  case (Cons x xs)
  obtain pid1 o1 where x: "x = (pid1, o1)" by (cases x)
  from Cons.prems(1) obtain b1 where b1: "execute_order feed dt pid1 o1 b = ok b1"
    and rest: "execute_all feed dt xs b1 = ok b'"
    by (auto simp: x for_each_eq_ok_Cons simp del: for_each.simps)
  from b1 obtain q q' where q: "map_of (sb_portfolios b) pid1 = Some q"
      "transact_asset (fill_of feed dt (sb_fee_model b) (sb_dt b) o1) q = ok q'"
      "b1 = b\<lparr>sb_portfolios := AList.update pid1 q' (sb_portfolios b)\<rparr>"
    by (rule execute_order_ok)
  obtain e where e: "pf_history q' = pf_history q @ [e]"
      "traded e = Some (upper (ord_asset o1), ord_quantity o1, sb_dt b)"
    using transact_asset_history [OF q(2)] by auto
  show ?case
  proof (cases "pid1 = pid")
    case True
    with q Cons.prems(2) obtain p' evs where "map_of (sb_portfolios b') pid = Some p'"
        "pf_history p' = pf_history q' @ evs"
        "map traded evs = map (\<lambda>(_, o'). Some (upper (ord_asset o'), ord_quantity o', sb_dt b))
          (filter (\<lambda>x. fst x = pid) xs)"
      using Cons.IH [OF rest, of q'] by auto
    with e q Cons.prems(2) True show ?thesis
      by (intro exI [of _ p'] exI [of _ "e # evs"]) (auto simp: x)
  next
    case False
    with q Cons.prems(2) Cons.IH [OF rest, of p] show ?thesis by (auto simp: x)
  qed
qed simp

text \<open>Splitting the sorted queue: the sales first, then the purchases, each in queue order.\<close>

lemma sort_by_direction:
  "sort_key (\<lambda>x. ord_direction (snd x)) xs =
    filter (\<lambda>x. ord_quantity (snd x) < 0) xs @ filter (\<lambda>x. 0 \<le> ord_quantity (snd x)) xs"
proof (induction xs)
  case (Cons x xs)
  have direction: "ord_direction o' = (if ord_quantity o' < 0 then - 1 else 1)" for o'
    by (simp add: ord_direction_def copysign1_def)
  have late: "insort_key (\<lambda>x. ord_direction (snd x)) x (us @ vs) = us @ x # vs"
    if late: "0 \<le> ord_quantity (snd x)" and us: "\<forall>u \<in> set us. ord_quantity (snd u) < 0"
      and vs: "\<forall>v \<in> set vs. 0 \<le> ord_quantity (snd v)" for us vs
    using us
  proof (induction us)
    case Nil
    show ?case using late vs by (cases vs) (auto simp: direction)
  qed (use late in \<open>simp add: direction\<close>)
  have early: "insort_key (\<lambda>x. ord_direction (snd x)) x us = x # us"
    if "ord_quantity (snd x) < 0" for us
    using that by (cases us) (simp_all add: direction)
  have unfold: "sort_key (\<lambda>x. ord_direction (snd x)) (x # xs) =
      insort_key (\<lambda>x. ord_direction (snd x)) x (sort_key (\<lambda>x. ord_direction (snd x)) xs)"
    by simp
  show ?case
  proof (cases "ord_quantity (snd x) < 0")
    case True
    then show ?thesis unfolding unfold Cons.IH early [OF True] by simp
  next
    case False
    then have "0 \<le> ord_quantity (snd x)" by simp
    then show ?thesis unfolding unfold Cons.IH by (subst late) simp_all
  qed
qed simp

text \<open>
  Fills through a feed whose two sides are the mid price: they happen at the mark, so the
  equity falls by the fees and the marks stay.
\<close>

definition marked_at :: "(symbol \<Rightarrow> nan_rat) \<Rightarrow> portfolio \<Rightarrow> bool" where
  "marked_at m p \<longleftrightarrow> (\<forall>a q. map_of (pf_positions p) a = Some q \<longrightarrow>
     m a \<noteq> None \<and> current_price q = m a)"

lemma priced_marked_at: "pf_live p \<Longrightarrow> marked_at m p \<Longrightarrow> priced (pf_positions p)"
  using set_dict_eq [of "pf_positions p"]
  by (fastforce simp: priced_def marked_at_def pf_live_def live_positions_def wf_positions_def)

context quote_feed begin

lemma execute_all_equity:
  assumes feed: "\<And>dt a. feed_bid_ask feed dt a = bid_ask dt a" "\<And>dt a. feed_mid feed dt a = mid dt a"
    and "execute_all feed dt xs b = ok b'" and "map_of (sb_portfolios b) pid = Some p"
    and "pf_live p" and "marked_at (mid dt) p" and "total_equity p = Some e"
    and "\<forall>(i, o') \<in> set xs. i = pid \<longrightarrow> \<lfloor>ord_quantity o'\<rfloor> \<noteq> 0"
  shows "\<exists>p'. map_of (sb_portfolios b') pid = Some p' \<and> pf_live p' \<and> marked_at (mid dt) p' \<and>
    total_equity p' = Some (e - sum_list (map (\<lambda>(_, o'). order_fee feed dt (sb_fee_model b) o')
       (filter (\<lambda>x. fst x = pid) xs)))"
  using assms(3-)
proof (induction xs arbitrary: b p e)
  case (Cons x xs)
  obtain i o1 where x: "x = (i, o1)" by (cases x)
  from Cons.prems(1) obtain b1 where b1: "execute_order feed dt i o1 b = ok b1"
    and rest: "execute_all feed dt xs b1 = ok b'"
    by (auto simp: x for_each_eq_ok_Cons simp del: for_each.simps)
  let ?t = "fill_of feed dt (sb_fee_model b) (sb_dt b) o1"
  from b1 obtain q q' where q: "map_of (sb_portfolios b) i = Some q" "transact_asset ?t q = ok q'"
      "b1 = b\<lparr>sb_portfolios := AList.update i q' (sb_portfolios b)\<rparr>"
      "mid dt (ord_asset o1) \<noteq> None"
    by (auto elim!: execute_order_ok simp: feed quote_eq split: if_splits)
  then have t: "Some (txn_price ?t) = mid dt (ord_asset o1)"
      "txn_commission ?t = order_fee feed dt (sb_fee_model b) o1"
    by (auto simp: fill_of_def feed quote_eq order_fee_def Let_def)
  show ?case
  proof (cases "i = pid")
    case True
    with q Cons.prems(2) have pq: "p = q" by simp
    have mark: "\<And>r. map_of (pf_positions q) (txn_asset ?t) = Some r \<Longrightarrow>
        current_price r = Some (txn_price ?t)"
      using Cons.prems(4) t(1) by (simp add: pq marked_at_def)
    have whole: "\<lfloor>txn_quantity ?t\<rfloor> \<noteq> 0" using Cons.prems(6) True by (simp add: x)
    note done' = transact_at_mark [OF q(2) Cons.prems(3)[unfolded pq]
        priced_marked_at [OF Cons.prems(3,4), unfolded pq] whole Cons.prems(5)[unfolded pq] mark]
    have "marked_at (mid dt) q'"
      unfolding marked_at_def
    proof (intro allI impI)
      fix a r assume "map_of (pf_positions q') a = Some r"
      then show "mid dt a \<noteq> None \<and> current_price r = mid dt a"
        using done'(2) [of a r] Cons.prems(4) t(1) q(4)
        by (cases "a = ord_asset o1") (auto simp: marked_at_def pq)
    qed
    then show ?thesis
      using Cons.IH [OF rest, of q' "e - txn_commission ?t"] done'(1) q Cons.prems(6) True t(2)
      by (auto simp: x)
  next
    case False
    with q Cons.prems Cons.IH [OF rest, of p e] show ?thesis by (auto simp: x)
  qed
qed simp

end

lemma sum_filter_by_sign:
  fixes f :: "string \<times> order \<Rightarrow> rat"
  shows "sum_list (map f (filter P (filter (\<lambda>x. ord_quantity (snd x) < 0) xs @
      filter (\<lambda>x. 0 \<le> ord_quantity (snd x)) xs))) = sum_list (map f (filter P xs))"
  by (induction xs) auto

section \<open>One update\<close>

definition queue_of :: "string \<Rightarrow> sim_broker \<Rightarrow> order list" where
  "queue_of pid b = (case map_of (sb_open_orders b) pid of None \<Rightarrow> [] | Some q \<Rightarrow> q)"

lemma queued_orders_of:
  assumes "wf_sim_broker b" and "map_of (sb_portfolios b) pid = Some p"
  shows "filter (\<lambda>x. fst x = pid) (queued_orders b) = map (Pair pid) (queue_of pid b)"
proof -
  have one: "filter (\<lambda>x. fst x = pid) (concat (map (\<lambda>i. map (Pair i) (f i)) is)) =
      (if pid \<in> set is then map (Pair pid) (f pid) else [])"
    if "distinct is" for "is" and f :: "string \<Rightarrow> order list"
    using that by (induction "is") (auto simp: filter_map comp_def filter_empty_conv)
  have "pid \<in> set (dict_keys (sb_portfolios b))"
    using map_of_SomeD [OF assms(2)] by force
  then show ?thesis
    using assms(1) one [of "dict_keys (sb_portfolios b)"]
    by (simp add: queued_orders_def queue_of_def wf_sim_broker_def wf_dict_def)
qed

lemma queued_orders_cong:
  "sb_open_orders c = sb_open_orders b \<Longrightarrow> dict_keys (sb_portfolios c) = dict_keys (sb_portfolios b) \<Longrightarrow>
   queued_orders c = queued_orders b"
  by (simp add: queued_orders_def)

lemma queue_of_drained:
  assumes "wf_sim_broker b" and "sb_open_orders c = sb_open_orders (drain_queues b)"
  shows "queue_of pid c = []"
proof -
  have "set (dict_keys (sb_open_orders b)) = set (dict_keys (sb_portfolios b))"
    using assms(1) by (simp add: wf_sim_broker_def)
  then have "q = []" if "(pid, q) \<in> set (sb_open_orders c)" for q
    using that assms(2) by (force simp: drain_queues_def)
  then show ?thesis
    using map_of_SomeD by (fastforce simp: queue_of_def split: option.splits)
qed

lemma sim_update_open:
  assumes "is_open dt" and "wf_sim_broker b" and "mark_all feed dt (b\<lparr>sb_dt := dt\<rparr>) = ok c"
  shows "sim_update is_open feed dt b = execute_all feed dt
      (filter (\<lambda>x. ord_quantity (snd x) < 0) (queued_orders b) @
       filter (\<lambda>x. 0 \<le> ord_quantity (snd x)) (queued_orders b)) (drain_queues c)"
    and "wf_sim_broker c" and "sb_open_orders c = sb_open_orders b" and "sb_dt c = dt"
    and "sb_fee_model c = sb_fee_model b" and "queued_orders c = queued_orders b"
proof -
  have "wf_sim_broker (b\<lparr>sb_dt := dt\<rparr>)" using assms(2) by (simp add: wf_sim_broker_def)
  then show "wf_sim_broker c" using wf_mark_all [of "b\<lparr>sb_dt := dt\<rparr>" feed dt] assms(3) by simp
  show frame: "sb_open_orders c = sb_open_orders b" "sb_dt c = dt" "sb_fee_model c = sb_fee_model b"
    using mark_all_frame [of feed dt "b\<lparr>sb_dt := dt\<rparr>"] assms(3) by simp_all
  show same: "queued_orders c = queued_orders b"
    by (rule queued_orders_cong)
      (use mark_all_frame [of feed dt "b\<lparr>sb_dt := dt\<rparr>"] assms(3) in simp_all)
  show "sim_update is_open feed dt b = execute_all feed dt
      (filter (\<lambda>x. ord_quantity (snd x) < 0) (queued_orders b) @
       filter (\<lambda>x. 0 \<le> ord_quantity (snd x)) (queued_orders b)) (drain_queues c)"
    using assms(1,3) same frame(2) by (simp add: sim_update_def sort_by_direction)
qed

lemma sim_update_ok_marks:
  "sim_update is_open feed dt b = ok b' \<Longrightarrow> \<exists>c. mark_all feed dt (b\<lparr>sb_dt := dt\<rparr>) = ok c"
  by (auto simp: sim_update_def Let_def then_do_eq_ok)

lemma live_in_update:
  assumes "mark_all feed dt (b\<lparr>sb_dt := dt\<rparr>) = ok c" and "wf_sim_broker b"
    and "map_of (sb_portfolios b) pid = Some p" and "pf_live p"
  obtains q where "map_of (sb_portfolios c) pid = Some q" and "pf_live q" and "books q = books p"
    and "for_each (\<lambda>a. update_market_value_of_asset a (feed_mid feed dt a) dt)
      (dict_keys (pf_positions p)) p = ok q"
proof -
  have keys: "distinct (dict_keys (sb_portfolios b))" "pid \<in> set (dict_keys (sb_portfolios b))"
    using assms(2) map_of_SomeD [OF assms(3)] by (force simp: wf_sim_broker_def wf_dict_def)+
  then obtain q where q: "map_of (sb_portfolios c) pid = Some q"
    and run: "for_each (\<lambda>a. update_market_value_of_asset a (feed_mid feed dt a) dt)
      (dict_keys (pf_positions p)) p = ok q"
    using mark_each_portfolio [OF assms(1)[unfolded mark_all_def], of pid p] assms(3) by auto
  have "books q = books p"
    using books_mark_each [of "feed_mid feed dt" dt "dict_keys (pf_positions p)" p] run by simp
  with q run mark_each_prices [OF run assms(4)] that show ?thesis by blast
qed

lemma marked_in_update:
  assumes "mark_all feed dt (b\<lparr>sb_dt := dt\<rparr>) = ok c" and "wf_sim_broker b"
    and "map_of (sb_portfolios b) pid = Some p" and "pf_live p"
    and "\<forall>a \<in> set (dict_keys (pf_positions p)). feed_mid feed dt a \<noteq> None"
  obtains q where "map_of (sb_portfolios c) pid = Some q" and "pf_live q"
    and "marked_at (feed_mid feed dt) q" and "books q = books p"
proof -
  obtain q where q: "map_of (sb_portfolios c) pid = Some q" and same: "books q = books p"
    and run: "for_each (\<lambda>a. update_market_value_of_asset a (feed_mid feed dt a) dt)
      (dict_keys (pf_positions p)) p = ok q"
    by (rule live_in_update [OF assms(1-4)])
  from same have "dict_keys (holdings (pf_positions q)) = dict_keys (holdings (pf_positions p))"
    by (simp add: books_def)
  then have same_keys: "dict_keys (pf_positions q) = dict_keys (pf_positions p)"
    by (simp add: holdings_def comp_def case_prod_unfold)
  have "marked_at (feed_mid feed dt) q"
    unfolding marked_at_def
  proof (intro allI impI)
    fix a r assume r: "map_of (pf_positions q) a = Some r"
    have "a \<in> set (dict_keys (pf_positions q))" using map_of_SomeD [OF r] by force
    then have "a \<in> set (dict_keys (pf_positions p))" unfolding same_keys .
    with mark_each_prices [OF run assms(4)] r assms(5)
    show "feed_mid feed dt a \<noteq> None \<and> current_price r = feed_mid feed dt a" by blast
  qed
  with q same mark_each_prices [OF run assms(4)] that show ?thesis by blast
qed

text \<open>A portfolio marked at given prices is worth its cash and what it holds at those prices.\<close>

lemma total_equity_marked:
  assumes "pf_live p" and "marked_at m p"
  shows "total_equity p = Some (pf_cash p +
    sum_list (map (\<lambda>(a, n). the (m a) * n) (holdings (pf_positions p))))"
proof -
  have "dict_sum marked_value (pf_positions p) =
      sum_list (map (\<lambda>(a, n). the (m a) * n) (holdings (pf_positions p)))"
    unfolding dict_sum_def holdings_def map_map
  proof (intro arg_cong [of _ _ sum_list] map_cong refl)
    fix x assume "x \<in> set (pf_positions p)"
    with assms show "(case x of (a, q) \<Rightarrow> marked_value q) =
        ((\<lambda>(a, n). the (m a) * n) \<circ> (\<lambda>(a, q). (a, net_quantity q))) x"
      using set_dict_eq [of "pf_positions p"]
      by (cases x) (auto simp: marked_value_def marked_at_def pf_live_def live_positions_def wf_positions_def)
  qed
  then show ?thesis
    using positions_market_value_priced [OF priced_marked_at [OF assms]]
    by (simp add: total_equity_def total_market_value_def)
qed

section \<open>Properties\<close>

text \<open>
  C10. One update of an open market fills every queued order exactly once: to the event trail of
  each portfolio it appends one trade per order of that portfolio's queue, in that order's
  asset (in capitals, as the trail writes it) and quantity, the sales before the purchases and each kind in the order it was
  submitted; and every queue is empty afterwards.
\<close>

theorem open_market_fills_every_order_once:
  assumes "sim_update is_open feed dt b = ok b'" and "is_open dt" and "wf_sim_broker b"
    and "map_of (sb_portfolios b) pid = Some p"
  shows "\<exists>p' evs. map_of (sb_portfolios b') pid = Some p' \<and> pf_history p' = pf_history p @ evs \<and>
    map traded evs = map (\<lambda>o'. Some (upper (ord_asset o'), ord_quantity o', dt))
      (filter (\<lambda>o'. ord_quantity o' < 0) (queue_of pid b) @
       filter (\<lambda>o'. 0 \<le> ord_quantity o') (queue_of pid b)) \<and>
    queue_of pid b' = []"
proof -
  obtain c where c: "mark_all feed dt (b\<lparr>sb_dt := dt\<rparr>) = ok c"
    using sim_update_ok_marks [OF assms(1)] by blast
  note open' = sim_update_open [where is_open = is_open, OF assms(2,3) c]
  obtain q where q: "map_of (sb_portfolios c) pid = Some q" "pf_history q = pf_history p"
    using books_mark_all [where pid = pid and feed = feed and dt = dt and b = "b\<lparr>sb_dt := dt\<rparr>"] c assms(4) by (auto simp: books_def)
  have run: "execute_all feed dt (filter (\<lambda>x. ord_quantity (snd x) < 0) (queued_orders b) @
      filter (\<lambda>x. 0 \<le> ord_quantity (snd x)) (queued_orders b)) (drain_queues c) = ok b'"
    using assms(1) open'(1) by simp
  have "queue_of pid b' = []"
    by (rule queue_of_drained [OF open'(2) execute_all_queues [OF run]])
  moreover have "filter (\<lambda>x. fst x = pid) (filter P (queued_orders b)) =
      map (Pair pid) (filter (\<lambda>o'. P (pid, o')) (queue_of pid b))" for P
  proof -
    have "filter (\<lambda>x. fst x = pid) (filter P (queued_orders b)) =
        filter P (filter (\<lambda>x. fst x = pid) (queued_orders b))"
      by (simp add: conj_commute)
    then show ?thesis
      unfolding queued_orders_of [OF assms(3,4)] by (simp add: filter_map comp_def)
  qed
  ultimately show ?thesis
    using execute_all_history [OF run, of pid q] q open'(4)
    by (simp add: comp_def)
qed

definition demo_source :: data_source where
  "demo_source = \<lparr>ds_bid = \<lambda>dt a. Inr (Some 20), ds_ask = \<lambda>dt a. Inr (Some 20)\<rparr>"

definition demo_feed :: price_feed where
  "demo_feed = backtest_feed [demo_source]"

definition demo_order :: "string \<Rightarrow> symbol \<Rightarrow> rat \<Rightarrow> order" where
  "demo_order i a q = new_order i 1 a q"

definition demo_broker :: sim_broker where
  "demo_broker = sb_attempt [CreatePortfolio ''000001'' None, SubscribePortfolio ''000001'' 500,
     SubmitOrder ''000001'' (demo_order ''a'' ''EQ:SPY'' 10),
     SubmitOrder ''000001'' (demo_order ''b'' ''EQ:AGG'' (- 5))]
     \<lparr>sb_start_dt = 0, sb_dt = 0, sb_account_id = None, sb_currency = ''USD'',
      sb_fee_model = PercentFeeModel (1/100) 0, sb_cash = set_cash_balances ''USD'' 1000,
      sb_portfolios = [], sb_open_orders = []\<rparr>"

lemmas demo_broker_simps = demo_broker_def sb_attempt_def create_portfolio_def
  subscribe_funds_to_portfolio_def sim_submit_order_def on_portfolio_def subscribe_funds_def
  init_portfolio_def set_cash_balances_def supported_currencies_def master_cash_def
  set_master_cash_def Let_def demo_order_def new_order_def create_subscription_def

lemma demo_broker_eval:
  "map_of (sb_portfolios demo_broker) ''000001'' = Some \<lparr>pf_start_dt = 0, pf_dt = 0,
     pf_starting_cash = 0, pf_currency = ''USD'', pf_id = ''000001'', pf_name = None,
     pf_cash = 500, pf_positions = [], pf_history = [create_subscription 0 500 500]\<rparr>"
  "dict_keys (sb_portfolios demo_broker) = [''000001'']"
  "sb_open_orders demo_broker = [(''000001'', [demo_order ''a'' ''EQ:SPY'' 10, demo_order ''b'' ''EQ:AGG'' (- 5)])]"
  "sb_fee_model demo_broker = PercentFeeModel (1/100) 0"
  "master_cash demo_broker = 500"
  by (simp_all add: demo_broker_simps)

lemma wf_demo_broker: "wf_sim_broker demo_broker"
  by (simp add: demo_broker_simps wf_sim_broker_def wf_dict_def pf_wf_def)

lemma demo_feed_eval:
  "feed_bid_ask demo_feed dt a = (Some 20, Some 20)" "feed_mid demo_feed dt a = Some 20"
  by (simp_all add: demo_feed_def backtest_feed_def demo_source_def latest_bid_ask_def
      latest_mid_def Let_def)

lemma demo_symbols_upper: "upper ''EQ:AGG'' = ''EQ:AGG''" "upper ''EQ:SPY'' = ''EQ:SPY''"
  by code_simp+

lemma demo_update_fills: "\<exists>b'. sim_update (\<lambda>_. True) demo_feed 2 demo_broker = ok b'"
  by (simp add: demo_broker_simps sim_update_def mark_all_def mark_portfolio_def queued_orders_def
      drain_queues_def execute_order_def demo_feed_eval ord_direction_def copysign1_def
      transact_asset_def transact_position_def open_from_transaction_def net_quantity_def)

theorem open_market_fills_every_order_once_witness:
  "\<exists>b' p' evs. sim_update (\<lambda>_. True) demo_feed 2 demo_broker = ok b' \<and>
    map_of (sb_portfolios b') ''000001'' = Some p' \<and>
    pf_history p' = create_subscription 0 500 500 # evs \<and>
    map traded evs = [Some (''EQ:AGG'', - 5, 2), Some (''EQ:SPY'', 10, 2)]"
proof -
  obtain b' where b': "sim_update (\<lambda>_. True) demo_feed 2 demo_broker = ok b'"
    using demo_update_fills by blast
  then show ?thesis
    using open_market_fills_every_order_once [OF b' _ wf_demo_broker demo_broker_eval(1)]
    by (auto simp: demo_broker_eval queue_of_def demo_order_def new_order_def demo_symbols_upper)
qed

text \<open>
  C9. Filling orders costs the fees and nothing else. After an update of an open market that
  goes through, on the data handler of a backtest, a portfolio whose held assets all have a
  price and whose orders are for at least one unit is worth its cash and its holdings at the
  prices of the update, less the fees of its filled orders; the amounts traded do not matter.
\<close>

theorem fills_cost_only_fees:
  assumes "sim_update is_open (backtest_feed ds) dt b = ok b'" and "is_open dt"
    and "wf_sim_broker b" and "map_of (sb_portfolios b) pid = Some p" and "pf_live p"
    and "\<forall>a \<in> set (dict_keys (pf_positions p)). feed_mid (backtest_feed ds) dt a \<noteq> None"
    and "\<forall>o' \<in> set (queue_of pid b). \<lfloor>ord_quantity o'\<rfloor> \<noteq> 0"
  shows "\<exists>p'. map_of (sb_portfolios b') pid = Some p' \<and> total_equity p' = Some (pf_cash p
    + sum_list (map (\<lambda>(a, n). the (feed_mid (backtest_feed ds) dt a) * n) (holdings (pf_positions p)))
    - sum_list (map (order_fee (backtest_feed ds) dt (sb_fee_model b)) (queue_of pid b)))"
proof -
  let ?feed = "backtest_feed ds"
  let ?late = "filter (\<lambda>x. ord_quantity (snd x) < 0) (queued_orders b) @
      filter (\<lambda>x. 0 \<le> ord_quantity (snd x)) (queued_orders b)"
  obtain c where c: "mark_all ?feed dt (b\<lparr>sb_dt := dt\<rparr>) = ok c"
    using sim_update_ok_marks [OF assms(1)] by blast
  note open' = sim_update_open [where is_open = is_open, OF assms(2,3) c]
  obtain q where q: "map_of (sb_portfolios c) pid = Some q" "pf_live q"
      "marked_at (feed_mid ?feed dt) q" "books q = books p"
    by (rule marked_in_update [OF c assms(3-6)])
  have mine: "(pid, o') \<in> set (queued_orders b) \<longleftrightarrow> o' \<in> set (queue_of pid b)" for o'
    using arg_cong [OF queued_orders_of [OF assms(3,4)], of set] by auto
  have run: "execute_all ?feed dt ?late (drain_queues c) = ok b'"
    using assms(1) open'(1) by simp
  have whole: "\<forall>(i, o') \<in> set ?late. i = pid \<longrightarrow> \<lfloor>ord_quantity o'\<rfloor> \<noteq> 0"
    using mine assms(7) by auto
  have fees: "sum_list (map f (filter (\<lambda>x. fst x = pid) ?late)) =
      sum_list (map f (filter (\<lambda>x. fst x = pid) (queued_orders b)))" for f :: "_ \<Rightarrow> rat"
    by (rule sum_filter_by_sign)
  obtain p' where "map_of (sb_portfolios b') pid = Some p'"
    and "total_equity p' = Some (pf_cash q + sum_list (map (\<lambda>(a, n).
        the (feed_mid ?feed dt a) * n) (holdings (pf_positions q)))
      - sum_list (map (\<lambda>(_, o'). order_fee ?feed dt (sb_fee_model c) o')
          (filter (\<lambda>x. fst x = pid) ?late)))"
    using backtest.execute_all_equity [OF refl refl run _ q(2,3) total_equity_marked [OF q(2,3)] whole]
      q(1) by auto
  moreover have "pf_cash q = pf_cash p" "holdings (pf_positions q) = holdings (pf_positions p)"
    using q(4) by (simp_all add: books_def)
  ultimately show ?thesis
    unfolding fees queued_orders_of [OF assms(3,4)] open'(5) by (simp add: comp_def)
qed

theorem fills_cost_only_fees_witness:
  "\<exists>b' p'. sim_update (\<lambda>_. True) demo_feed 2 demo_broker = ok b' \<and>
    map_of (sb_portfolios b') ''000001'' = Some p' \<and> total_equity p' = Some 497"
proof -
  obtain b' where b': "sim_update (\<lambda>_. True) (backtest_feed [demo_source]) 2 demo_broker = ok b'"
    using demo_update_fills by (auto simp: demo_feed_def)
  have "feed_mid (backtest_feed [demo_source]) 2 a = Some 20" for a
    using demo_feed_eval(2) [of 2 a] by (simp add: demo_feed_def)
  then show ?thesis
    using b' fills_cost_only_fees [OF b' _ wf_demo_broker demo_broker_eval(1)]
    by (simp add: demo_feed_def demo_broker_eval queue_of_def demo_order_def new_order_def
        pf_live_def live_positions_def audited_def create_subscription_def holdings_def order_fee_def
        calc_total_cost_def py_round_def)
qed

definition account_cash :: "sim_broker \<Rightarrow> rat" where
  "account_cash b = master_cash b + dict_sum pf_cash (sb_portfolios b)"

definition moved :: "sim_broker \<Rightarrow> string \<Rightarrow> rat \<Rightarrow> sim_broker \<Rightarrow> bool" where
  "moved b pid x b' \<longleftrightarrow> master_cash b' = master_cash b - x \<and> account_cash b' = account_cash b \<and>
    (\<exists>p p'. map_of (sb_portfolios b) pid = Some p \<and> map_of (sb_portfolios b') pid = Some p' \<and>
       pf_cash p' = pf_cash p + x) \<and>
    (\<forall>i. i \<noteq> pid \<longrightarrow> map_of (sb_portfolios b') i = map_of (sb_portfolios b) i)"

lemma update_same: "map_of d k = Some v \<Longrightarrow> AList.update k v d = d"
  by (induction d) auto

lemma transfer_moves:
  assumes "wf_dict (sb_portfolios b)" and "map_of (sb_portfolios b) pid = Some p"
    and "pf_cash p' = pf_cash p + x"
  shows "moved b pid x (set_master_cash (master_cash b - x)
    (b\<lparr>sb_portfolios := AList.update pid p' (sb_portfolios b)\<rparr>))"
  using assms dict_sum_update [OF assms(1), of pf_cash pid p']
  by (simp add: moved_def account_cash_def) (simp add: set_master_cash_def)

text \<open>
  A transfer between the master account and a portfolio is all-or-nothing. Subscribing
  either raises and leaves the broker exactly as it was, or moves the amount from the master
  account, which held it, to that portfolio; withdrawing the same way back; the other
  portfolios are not touched, and the cash of the whole account never changes.
\<close>

theorem account_transfers_are_atomic:
  assumes "wf_sim_broker b"
  shows "(case subscribe_funds_to_portfolio pid x b of
      (b', Some e) \<Rightarrow> b' = b
    | (b', None) \<Rightarrow> 0 \<le> x \<and> x \<le> master_cash b \<and> moved b pid x b') \<and>
    (case withdraw_funds_from_portfolio pid x b of
      (b', Some e) \<Rightarrow> b' = b
    | (b', None) \<Rightarrow> 0 \<le> x \<and> moved b pid (- x) b')"
proof -
  have wf: "wf_dict (sb_portfolios b)" using assms by (simp add: wf_sim_broker_def)
  show ?thesis
  proof (cases "map_of (sb_portfolios b) pid")
    case None
    then have "pid \<notin> set (dict_keys (sb_portfolios b))" by (simp add: map_of_eq_None_iff)
    with None show ?thesis
      by (simp add: subscribe_funds_to_portfolio_def withdraw_funds_from_portfolio_def raise_def)
  next
    case (Some p)
    have key: "pid \<in> set (dict_keys (sb_portfolios b))"
      using map_of_SomeD [OF Some] by force
    have stay: "b\<lparr>sb_portfolios := AList.update pid p (sb_portfolios b)\<rparr> = b"
      using Some by (simp add: update_same)
    have "subscribe_funds_to_portfolio pid x b = raise ValueError b \<or>
      (\<exists>b'. subscribe_funds_to_portfolio pid x b = ok b' \<and> 0 \<le> x \<and> x \<le> master_cash b \<and> moved b pid x b')"
      using key Some stay transfer_moves [OF wf Some]
      by (auto simp: subscribe_funds_to_portfolio_def on_portfolio_def subscribe_funds_def Let_def
          master_cash_def)
    moreover have "withdraw_funds_from_portfolio pid x b = raise ValueError b \<or>
      (\<exists>b'. withdraw_funds_from_portfolio pid x b = ok b' \<and> 0 \<le> x \<and> moved b pid (- x) b')"
      using key Some stay transfer_moves [OF wf Some, of _ "- x"]
      by (auto simp: withdraw_funds_from_portfolio_def on_portfolio_def withdraw_funds_def Let_def
          master_cash_def)
    ultimately show ?thesis by (auto simp: ok_def raise_def)
  qed
qed

theorem account_transfers_are_atomic_witness:
  "\<exists>b'. subscribe_funds_to_portfolio ''000001'' 200 demo_broker = ok b' \<and>
     moved demo_broker ''000001'' 200 b' \<and>
     fst (withdraw_funds_from_portfolio ''000001'' 900 demo_broker) = demo_broker"
proof -
  have "\<exists>b'. subscribe_funds_to_portfolio ''000001'' 200 demo_broker = ok b'"
    by (simp add: demo_broker_simps)
  moreover have "\<exists>b'. withdraw_funds_from_portfolio ''000001'' 900 demo_broker = raise ValueError b'"
    using demo_broker_eval(1) by (simp add: withdraw_funds_from_portfolio_def)
  ultimately show ?thesis
    using account_transfers_are_atomic [OF wf_demo_broker, where pid = "''000001''" and x = 200]
      account_transfers_are_atomic [OF wf_demo_broker, where pid = "''000001''" and x = 900]
    by (auto simp: ok_def raise_def)
qed

text \<open>
  Whatever is asked of the broker, in whatever order, and whether or not some calls raise
  and are caught: the accounts stay well formed (one queue and one well-formed portfolio per
  identifier) and the master account is never overdrawn.
\<close>

theorem master_account_stays_solvent:
  assumes "init_sim_broker dt account cur funds fee = Inr b"
  shows "wf_sim_broker (sb_attempt xs b) \<and> 0 \<le> master_cash (sb_attempt xs b)"
proof -
  have "cur \<in> set supported_currencies" and b: "sb_portfolios b = []" "sb_open_orders b = []"
    "sb_currency b = cur" "sb_cash b = set_cash_balances cur funds"
    using assms by (auto simp: init_sim_broker_def set_base_currency_def set_initial_funds_def
        split: if_splits)
  then have "solvent_account b"
    by (auto simp: solvent_account_def wf_sim_broker_def master_cash_def set_cash_balances_def
        supported_currencies_def Let_def)
  then have "solvent_account (sb_attempt xs b)"
    by (induction xs arbitrary: b) (simp_all add: sb_attempt_def solvent_step)
  then show ?thesis by (simp add: solvent_account_def)
qed

theorem master_account_stays_solvent_witness:
  "\<exists>b. init_sim_broker 0 None ''USD'' 1000 ZeroFeeModel = Inr b \<and>
     0 \<le> master_cash (sb_attempt [WithdrawAccount 5000, SubscribeAccount (- 1)] b)"
proof -
  obtain b where b: "init_sim_broker 0 None ''USD'' 1000 ZeroFeeModel = Inr b"
    by (simp add: init_sim_broker_def set_base_currency_def supported_currencies_def
        set_initial_funds_def)
  then show ?thesis using master_account_stays_solvent [OF b] by blast
qed

text \<open>
  C13. An order that cannot be filled takes the rest of the batch with it. If a queued order's
  asset has no price when the market opens, the update raises; by then every queue has been
  emptied, and only the orders sorted before the failing one have been booked: the failing one
  and all after it are in no queue and were never executed.
\<close>

theorem unpriced_order_discards_the_rest:
  assumes "wf_sim_broker b" and "is_open dt"
    and "mark_all feed dt (b\<lparr>sb_dt := dt\<rparr>) = ok c"
    and "(i, o1) \<in> set (queued_orders b)" and "feed_bid_ask feed dt (ord_asset o1) = (None, None)"
  shows "\<exists>e b' done failed lost d. sim_update is_open feed dt b = raise e b' \<and>
    done @ failed # lost = filter (\<lambda>x. ord_quantity (snd x) < 0) (queued_orders b) @
      filter (\<lambda>x. 0 \<le> ord_quantity (snd x)) (queued_orders b) \<and>
    execute_all feed dt done (drain_queues c) = ok d \<and>
    execute_order feed dt (fst failed) (snd failed) d = raise e b' \<and>
    (\<forall>pid. queue_of pid b' = [])"
proof -
  let ?xs = "filter (\<lambda>x. ord_quantity (snd x) < 0) (queued_orders b) @
      filter (\<lambda>x. 0 \<le> ord_quantity (snd x)) (queued_orders b)"
  note open' = sim_update_open [where is_open = is_open, OF assms(2,1,3)]
  have one: "(i, o1) \<in> set ?xs" using assms(4) by auto
  have "execute_all feed dt xs d \<noteq> ok d'" if "(i, o1) \<in> set xs" for xs d d'
    using that
  proof (induction xs arbitrary: d)
    case (Cons x xs)
    have "execute_order feed dt i o1 d \<noteq> ok d1" for d1
      using assms(5) by (simp add: execute_order_def Let_def)
    with Cons show ?case by (auto simp: for_each_eq_ok_Cons simp del: for_each.simps)
  qed simp
  then obtain e b' where raised: "execute_all feed dt ?xs (drain_queues c) = raise e b'"
    using one by (metis outcome_cases)
  then obtain ys x zs d where "?xs = ys @ x # zs" "execute_all feed dt ys (drain_queues c) = ok d"
      "(\<lambda>(pid, o'). execute_order feed dt pid o') x d = raise e b'"
    using for_each_eq_raise [OF raised] by blast
  moreover have "sb_open_orders b' = sb_open_orders (drain_queues c)"
    using execute_all_frame [where xs = ?xs and b = "drain_queues c" and feed = feed and dt = dt] raised
    by simp
  ultimately show ?thesis
    using open'(1,2) raised queue_of_drained
    by (intro exI [of _ e] exI [of _ b'] exI [of _ ys] exI [of _ x] exI [of _ zs] exI [of _ d])
      (auto simp: case_prod_unfold)
qed

definition demo_dark_feed :: price_feed where
  "demo_dark_feed = \<lparr>feed_bid_ask = (\<lambda>dt a. if a = ''EQ:AGG'' then (None, None) else (Some 20, Some 20)),
     feed_mid = (\<lambda>dt a. Some 20), feed_ask = (\<lambda>dt a. Some 20)\<rparr>"

theorem unpriced_order_discards_the_rest_witness:
  "\<exists>e b'. sim_update (\<lambda>_. True) demo_dark_feed 2 demo_broker = raise e b' \<and>
    queue_of ''000001'' b' = []"
proof -
  obtain c where c: "mark_all demo_dark_feed 2 (demo_broker\<lparr>sb_dt := 2\<rparr>) = ok c"
    using demo_broker_eval by (simp add: mark_all_def mark_portfolio_def on_portfolio_def)
  have queued: "(''000001'', demo_order ''b'' ''EQ:AGG'' (- 5)) \<in> set (queued_orders demo_broker)"
    using demo_broker_eval by (simp add: queued_orders_def)
  have dark: "feed_bid_ask demo_dark_feed 2 (ord_asset (demo_order ''b'' ''EQ:AGG'' (- 5))) = (None, None)"
    by (simp add: demo_dark_feed_def demo_order_def new_order_def)
  show ?thesis
    using unpriced_order_discards_the_rest [where is_open = "\<lambda>_. True", OF wf_demo_broker _ c queued dark]
    by auto
qed

text \<open>
  A closed market only marks. Updating the broker at a time the exchange is closed leaves
  every queue, the master account, and of every portfolio the cash, the event trail and the
  quantities held as they were, whether the marks go through or raise.
\<close>

theorem closed_market_only_marks:
  assumes "\<not> is_open dt"
  shows "sb_open_orders (fst (sim_update is_open feed dt b)) = sb_open_orders b \<and>
    sb_cash (fst (sim_update is_open feed dt b)) = sb_cash b \<and>
    map_option books (map_of (sb_portfolios (fst (sim_update is_open feed dt b))) pid) =
      map_option books (map_of (sb_portfolios b) pid)"
proof -
  let ?c = "mark_all feed dt (b\<lparr>sb_dt := dt\<rparr>)"
  have "sb_dt (fst ?c) = dt"
    using mark_all_frame [where feed = feed and dt = dt and b = "b\<lparr>sb_dt := dt\<rparr>"] by simp
  then have "sim_update is_open feed dt b = ?c"
    using assms by (cases ?c rule: outcome_cases) (simp_all add: sim_update_def)
  then show ?thesis
    using mark_all_frame [where feed = feed and dt = dt and b = "b\<lparr>sb_dt := dt\<rparr>"]
      books_mark_all [where feed = feed and dt = dt and b = "b\<lparr>sb_dt := dt\<rparr>" and pid = pid] by simp
qed

theorem closed_market_only_marks_witness:
  "queue_of ''000001'' (fst (sim_update (\<lambda>_. False) demo_feed 2 demo_broker)) =
    [demo_order ''a'' ''EQ:SPY'' 10, demo_order ''b'' ''EQ:AGG'' (- 5)]"
  using closed_market_only_marks [where is_open = "\<lambda>_. False" and dt = 2 and feed = demo_feed
      and b = demo_broker and pid = "''000001''"] demo_broker_eval
  by (simp add: queue_of_def)

lemma account_equity_loop_eq:
  assumes "\<forall>p \<in> set ps. map_of (sb_portfolios b) (pf_id p) = Some p" and "distinct (map pf_id ps)"
  shows "\<exists>d'. account_equity_loop b ps d m = Inr d' \<and>
    (\<forall>i. map_of d' i =
      (if i = ''master'' then Some (nan_add m (nan_sum (map total_equity ps)))
       else case map_of (map (\<lambda>p. (pf_id p, total_equity p)) ps) i of Some e \<Rightarrow> Some e | None \<Rightarrow> map_of d i))"
  using assms
proof (induction ps arbitrary: d m)
  case Nil
  have "nan_add m (Some 0) = m" by (cases m) auto
  then show ?case by simp
next
  case (Cons p ps)
  have assoc: "nan_add (nan_add m (total_equity p)) x = nan_add m (nan_add (total_equity p) x)" for x
    by (auto simp: nan_add_def split: option.splits)
  have eq: "get_portfolio_total_equity (pf_id p) b = Inr (total_equity p)"
    using Cons.prems by (simp add: get_portfolio_total_equity_def)
  let ?ids = "\<lambda>ps. map (\<lambda>p. (pf_id p, total_equity p)) ps"
  have none: "map_of (?ids ps) (pf_id p) = None"
    using Cons.prems(2) by (auto simp: map_of_eq_None_iff)
  obtain d' where d': "account_equity_loop b ps (AList.update (pf_id p) (total_equity p) d)
        (nan_add m (total_equity p)) = Inr d'"
    and look: "\<And>i. map_of d' i =
      (if i = ''master'' then Some (nan_add (nan_add m (total_equity p)) (nan_sum (map total_equity ps)))
       else case map_of (?ids ps) i of Some e \<Rightarrow> Some e
         | None \<Rightarrow> map_of (AList.update (pf_id p) (total_equity p) d) i)"
    using Cons.IH [of "AList.update (pf_id p) (total_equity p) d" "nan_add m (total_equity p)"]
      Cons.prems by auto
  have "map_of d' i = (if i = ''master'' then Some (nan_add m (nan_sum (map total_equity (p # ps))))
       else case map_of (?ids (p # ps)) i of Some e \<Rightarrow> Some e | None \<Rightarrow> map_of d i)" for i
    unfolding look [of i] assoc using none by (cases "i = pf_id p") (auto split: option.splits)
  with d' show ?case by (simp add: eq)
qed

text \<open>
  The account's equity report is the portfolios' equities under their identifiers and,
  under \<^verbatim>\<open>master\<close>, their sum (NaN as soon as one portfolio has an unpriced position), so
  cash kept in the master account is not part of it. A portfolio that is itself called
  \<^verbatim>\<open>master\<close> is shadowed by the sum.
\<close>

theorem account_equity_report:
  assumes "wf_sim_broker b"
  shows "\<exists>d. get_account_total_equity b = Inr d \<and>
    map_of d ''master'' = Some (nan_sum (map (\<lambda>(pid, p). total_equity p) (sb_portfolios b))) \<and>
    (\<forall>pid. pid \<noteq> ''master'' \<longrightarrow> map_of d pid = map_option total_equity (map_of (sb_portfolios b) pid))"
proof -
  let ?ps = "map snd (sb_portfolios b)"
  have wf: "wf_dict (sb_portfolios b)"
    and named: "\<And>pid p. map_of (sb_portfolios b) pid = Some p \<Longrightarrow> pf_id p = pid"
    using assms by (auto simp: wf_sim_broker_def)
  then have ids: "pf_id p = pid" if "(pid, p) \<in> set (sb_portfolios b)" for pid p
    using that set_dict_eq [OF wf] by blast
  then have keys: "map pf_id ?ps = dict_keys (sb_portfolios b)" by simp
  have lookup: "\<forall>p \<in> set ?ps. map_of (sb_portfolios b) (pf_id p) = Some p"
    using ids set_dict_eq [OF wf] by fastforce
  have flat: "map (\<lambda>p. (pf_id p, total_equity p)) ?ps =
      map (\<lambda>(pid, p). (pid, total_equity p)) (sb_portfolios b)"
    using ids by auto
  have "map_of (map (\<lambda>(pid, p). (pid, total_equity p)) d) i = map_option total_equity (map_of d i)"
    for d :: "(string, portfolio) dict" and i by (induction d) auto
  then have fields: "map_of (map (\<lambda>p. (pf_id p, total_equity p)) ?ps) i =
      map_option total_equity (map_of (sb_portfolios b) i)" for i
    unfolding flat .
  have "distinct (map pf_id ?ps)" unfolding keys using wf by (simp add: wf_dict_def)
  from account_equity_loop_eq [OF lookup this, of "[]" "Some 0"]
  obtain d where d: "get_account_total_equity b = Inr d"
    and look: "\<And>i. map_of d i = (if i = ''master'' then Some (nan_add (Some 0) (nan_sum (map total_equity ?ps)))
       else case map_option total_equity (map_of (sb_portfolios b) i) of None \<Rightarrow> map_of [] i | Some e \<Rightarrow> Some e)"
    unfolding fields get_account_total_equity_def by blast
  have "nan_add (Some 0) x = x" for x by (cases x) auto
  with d look show ?thesis
    by (intro exI [of _ d]) (auto simp: comp_def case_prod_unfold split: option.splits)
qed

theorem account_equity_report_witness:
  "\<exists>d. get_account_total_equity demo_broker = Inr d \<and> map_of d ''000001'' = Some (Some 500)"
  using account_equity_report [OF wf_demo_broker] demo_broker_eval
  by (auto simp: total_equity_def total_market_value_def positions_market_value_def)

end
