(* ===== verification/Portfolio_Construction.thy ===== *)
theory Portfolio_Construction
  imports Simulated_Broker "HOL-Library.Multiset"
begin

text \<open>
  From signals to orders: the universes of \<^verbatim>\<open>vmtrader/asset/universe\<close>, the alpha models of
  \<^verbatim>\<open>vmtrader/alpha_model\<close>, the optimisers and order sizers of \<^verbatim>\<open>vmtrader/portcon\<close> and the
  portfolio construction model. Everything here returns a value or raises; the account enters
  as a \<open>broker_view\<close>, what the code reads of the broker. The lemmas bound what the sizers
  spend and show what orders the construction model emits.
\<close>

type_synonym weights = "(symbol, rat) dict"

section \<open>Universes and alpha models\<close>

datatype asset_universe =
    StaticUniverse "symbol list"
  | DynamicUniverse "(symbol, timestamp option) dict"

fun get_assets :: "asset_universe \<Rightarrow> timestamp \<Rightarrow> symbol list" where
  "get_assets (StaticUniverse asset_list) dt = asset_list"
| "get_assets (DynamicUniverse asset_dates) dt =
     map fst (filter (\<lambda>(a, d). case d of None \<Rightarrow> False | Some d' \<Rightarrow> d' \<le> dt) asset_dates)"

type_synonym alpha_model = "timestamp \<Rightarrow> exn + weights"
type_synonym risk_model = "timestamp \<Rightarrow> weights \<Rightarrow> exn + weights"

text \<open>\<^verbatim>\<open>{asset: w for asset in assets}\<close>: a repeated key keeps its first place.\<close>

definition constant_weights :: "rat \<Rightarrow> symbol list \<Rightarrow> weights" where
  "constant_weights w as = map (\<lambda>a. (a, w)) (rev (remdups (rev as)))"

definition fixed_signals :: "weights \<Rightarrow> alpha_model" where
  "fixed_signals signal_weights dt = Inr signal_weights"

definition single_signal :: "asset_universe \<Rightarrow> rat \<Rightarrow> alpha_model" where
  "single_signal u signal dt = Inr (constant_weights signal (get_assets u dt))"

section \<open>Optimisers\<close>

datatype optimiser = EqualWeight rat | FixedWeight

fun optimise :: "optimiser \<Rightarrow> timestamp \<Rightarrow> weights \<Rightarrow> exn + weights" where
  "optimise (EqualWeight scale) dt ws =
     (if length ws = 0 then Inl ZeroDivisionError
      else Inr (map (\<lambda>(a, w). (a, scale * (1 / of_nat (length ws)))) ws))"
| "optimise FixedWeight dt ws = Inr ws"

section \<open>Order sizers\<close>

text \<open>What a sizer and the construction model read of the broker.\<close>

record broker_view =
  bv_equity :: nan_rat
  bv_holdings :: "(symbol, holding) dict"
  bv_cost :: "symbol \<Rightarrow> rat \<Rightarrow> rat \<Rightarrow> rat"

definition sim_view :: "string \<Rightarrow> sim_broker \<Rightarrow> exn + broker_view" where
  "sim_view pid b =
    and_then (get_portfolio_total_equity pid b) (\<lambda>e.
    and_then (get_portfolio_as_dict pid b) (\<lambda>h.
      Inr \<lparr>bv_equity = e, bv_holdings = h, bv_cost = calc_total_cost (sb_fee_model b)\<rparr>))"

definition check_set_cash_buffer :: "rat \<Rightarrow> exn + rat" where
  "check_set_cash_buffer pct = (if pct < 0 \<or> 1 < pct then Inl ValueError else Inr pct)"

definition check_set_gross_leverage :: "rat \<Rightarrow> exn + rat" where
  "check_set_gross_leverage lev = (if lev \<le> 0 then Inl ValueError else Inr lev)"

definition dw_normalise_weights :: "weights \<Rightarrow> exn + weights" where
  "dw_normalise_weights ws =
    (if \<exists>w \<in> set (map snd ws). w < 0 then Inl ValueError
     else let weight_sum = sum_list (map snd ws) in
       if isclose_zero weight_sum then Inr ws
       else Inr (map (\<lambda>(a, w). (a, w / weight_sum)) ws))"

definition ls_normalise_weights :: "rat \<Rightarrow> weights \<Rightarrow> weights" where
  "ls_normalise_weights gross_leverage ws =
    (let gross_exposure = sum_list (map (\<lambda>(a, w). \<bar>w\<bar>) ws) in
     if isclose_zero gross_exposure then ws
     else let gross_ratio = gross_leverage / gross_exposure in
       map (\<lambda>(a, w). (a, w * gross_ratio)) ws)"

text \<open>
  The prices are numpy floats: dividing by a zero price gives an infinity (or, for no trade at
  all, NaN), and \<^verbatim>\<open>int\<close> of those raises.
\<close>

definition estimate_trade_costs ::
  "(symbol \<Rightarrow> rat \<Rightarrow> rat \<Rightarrow> rat) \<Rightarrow> symbol \<Rightarrow> rat \<Rightarrow> rat \<Rightarrow> rat \<Rightarrow> exn + rat" where
  "estimate_trade_costs cost asset target_dollars current_quantity asset_price =
    (let trade_dollars = target_dollars - current_quantity * asset_price;
         direction = (if 0 \<le> trade_dollars then 1 else - 1) in
     if asset_price = 0 then Inl (if trade_dollars = 0 then ValueError else OverflowError)
     else let trade_quantity = direction * \<lfloor>\<bar>trade_dollars\<bar> / asset_price\<rfloor> in
       Inr (cost asset (of_int trade_quantity) trade_dollars))"

definition current_quantity_of :: "(symbol, holding) dict \<Rightarrow> symbol \<Rightarrow> rat" where
  "current_quantity_of h a = (case map_of h a of None \<Rightarrow> 0 | Some x \<Rightarrow> h_quantity x)"

text \<open>The loops over the sorted weights: a quantity per asset, or the first exception.\<close>

fun size_each :: "(symbol \<Rightarrow> rat \<Rightarrow> exn + int) \<Rightarrow> weights \<Rightarrow> exn + (symbol, rat) dict" where
  "size_each f [] = Inr []"
| "size_each f ((a, w) # ws) =
     and_then (f a w) (\<lambda>q. and_then (size_each f ws) (\<lambda>rest. Inr ((a, of_int q) # rest)))"

definition dw_quantity :: "broker_view \<Rightarrow> price_feed \<Rightarrow> timestamp \<Rightarrow> rat \<Rightarrow> symbol \<Rightarrow> rat \<Rightarrow> exn + int" where
  "dw_quantity v feed dt buffered_equity asset weight =
    (let pre_cost_dollar_weight = buffered_equity * weight in
     case feed_ask feed dt asset of
       None \<Rightarrow> Inl ValueError
     | Some asset_price \<Rightarrow>
         and_then (estimate_trade_costs (bv_cost v) asset pre_cost_dollar_weight
             (current_quantity_of (bv_holdings v) asset) asset_price)
           (\<lambda>est_costs.
             let after_cost_dollar_weight = pre_cost_dollar_weight - est_costs in
             Inr \<lfloor>after_cost_dollar_weight / asset_price\<rfloor>))"

definition ls_quantity :: "broker_view \<Rightarrow> price_feed \<Rightarrow> timestamp \<Rightarrow> rat \<Rightarrow> symbol \<Rightarrow> rat \<Rightarrow> exn + int" where
  "ls_quantity v feed dt equity asset weight =
    (let pre_cost_dollar_weight = equity * weight in
     case feed_ask feed dt asset of
       None \<Rightarrow> Inl ValueError
     | Some asset_price \<Rightarrow>
         and_then (estimate_trade_costs (bv_cost v) asset pre_cost_dollar_weight
             (current_quantity_of (bv_holdings v) asset) asset_price)
           (\<lambda>est_costs.
             let after_cost_dollar_weight = pre_cost_dollar_weight - est_costs;
                 truncated = (if 0 \<le> after_cost_dollar_weight then \<lfloor>after_cost_dollar_weight\<rfloor>
                   else \<lceil>after_cost_dollar_weight\<rceil>) in
             Inr (py_int (of_int truncated / asset_price))))"

text \<open>A NaN equity reaches \<^verbatim>\<open>int\<close> in the first iteration, which raises \<^verbatim>\<open>ValueError\<close>.\<close>

datatype order_sizer = DollarWeighted rat | LongShort rat

fun size_portfolio :: "order_sizer \<Rightarrow> broker_view \<Rightarrow> price_feed \<Rightarrow> timestamp \<Rightarrow> weights
    \<Rightarrow> exn + (symbol, rat) dict" where
  "size_portfolio (DollarWeighted cash_buffer) v feed dt ws =
     (if ws = [] then Inr []
      else and_then (dw_normalise_weights ws) (\<lambda>ns.
        case bv_equity v of
          None \<Rightarrow> Inl ValueError
        | Some equity \<Rightarrow>
            size_each (dw_quantity v feed dt (equity * (1 - cash_buffer))) (sort_key fst ns)))"
| "size_portfolio (LongShort gross_leverage) v feed dt ws =
     (if ws = [] then Inr []
      else case bv_equity v of
          None \<Rightarrow> Inl ValueError
        | Some equity \<Rightarrow>
            size_each (ls_quantity v feed dt equity)
              (sort_key fst (ls_normalise_weights gross_leverage ws)))"

section \<open>Portfolio construction\<close>

definition obtain_full_asset_list :: "asset_universe \<Rightarrow> broker_view \<Rightarrow> timestamp \<Rightarrow> symbol list" where
  "obtain_full_asset_list u v dt = sort (remdups (dict_keys (bv_holdings v) @ get_assets u dt))"

definition full_asset_weights :: "symbol list \<Rightarrow> weights \<Rightarrow> weights" where
  "full_asset_weights full_assets ws = dict_update (constant_weights 0 full_assets) ws"

text \<open>
  The second loop of \<^verbatim>\<open>_generate_rebalance_orders\<close> only treats keys that are not strings, and
  every key is one, so it does nothing. The identifier of a new order is drawn from the
  parameter \<open>uid\<close> (\<^verbatim>\<open>uuid4\<close> in the code).
\<close>

definition generate_rebalance_orders ::
  "(timestamp \<Rightarrow> symbol \<Rightarrow> string) \<Rightarrow> timestamp \<Rightarrow> (symbol, rat) dict \<Rightarrow> (symbol, rat) dict
    \<Rightarrow> order list" where
  "generate_rebalance_orders uid dt target current =
    (let current' = fold (\<lambda>a c. if a \<in> set (dict_keys c) then c else AList.update a 0 c)
           (dict_keys target) current;
         rebalance = map (\<lambda>(a, t). (a, t - the (map_of current' a))) target in
     map (\<lambda>(a, q). new_order (uid dt a) dt a q)
       (filter (\<lambda>(a, q). q \<noteq> 0) (sort_key fst rebalance)))"

record construction_model =
  pcm_universe :: asset_universe
  pcm_sizer :: order_sizer
  pcm_optimiser :: optimiser
  pcm_alpha :: "alpha_model option"
  pcm_risk :: "risk_model option"

definition decide_weights :: "construction_model \<Rightarrow> timestamp \<Rightarrow> exn + weights" where
  "decide_weights m dt =
    and_then (case pcm_alpha m of
        Some alpha \<Rightarrow> alpha dt
      | None \<Rightarrow> Inr (constant_weights 0 (get_assets (pcm_universe m) dt))) (\<lambda>ws.
    and_then (case pcm_risk m of Some risk \<Rightarrow> risk dt ws | None \<Rightarrow> Inr ws) (\<lambda>ws.
      optimise (pcm_optimiser m) dt ws))"

definition build_orders :: "(timestamp \<Rightarrow> symbol \<Rightarrow> string) \<Rightarrow> construction_model \<Rightarrow> price_feed
    \<Rightarrow> broker_view \<Rightarrow> timestamp \<Rightarrow> weights \<Rightarrow> exn + order list" where
  "build_orders uid m feed v dt optimised =
    and_then (size_portfolio (pcm_sizer m) v feed dt
        (full_asset_weights (obtain_full_asset_list (pcm_universe m) v dt) optimised)) (\<lambda>target.
      Inr (generate_rebalance_orders uid dt target (map (\<lambda>(a, h). (a, h_quantity h)) (bv_holdings v))))"

section \<open>What the sizers give\<close>

lemma size_each_ok:
  "size_each f ws = Inr t \<Longrightarrow> map fst t = map fst ws \<and>
   (\<forall>a q. (a, q) \<in> set t \<longrightarrow> (\<exists>w n. (a, w) \<in> set ws \<and> f a w = Inr n \<and> q = of_int n))"
proof (induction ws arbitrary: t)
  case (Cons x ws)
  obtain a w where x: "x = (a, w)" by (cases x)
  then obtain q rest where "f a w = Inr q" "size_each f ws = Inr rest" "t = (a, of_int q) # rest"
    using Cons.prems by (auto simp: and_then_eq_Inr)
  with Cons.IH x show ?case by fastforce
qed simp

text \<open>A bound on each quantity bounds the sum of what the quantities cost.\<close>

lemma size_each_sum:
  assumes "size_each f ws = Inr t" and "\<And>a w n. f a w = Inr n \<Longrightarrow> g a * of_int n \<le> h w"
  shows "sum_list (map (\<lambda>(a, q). g a * q) t) \<le> sum_list (map (\<lambda>(a, w). h w) ws)"
  using assms(1)
proof (induction ws arbitrary: t)
  case (Cons x ws)
  obtain a w where x: "x = (a, w)" by (cases x)
  then obtain q rest where "f a w = Inr q" "size_each f ws = Inr rest" "t = (a, of_int q) # rest"
    using Cons.prems by (auto simp: and_then_eq_Inr)
  with Cons.IH [of rest] assms(2) [of a w q] x show ?case by simp
qed simp

lemma sum_list_sort_key:
  fixes g :: "'a \<Rightarrow> rat"
  shows "sum_list (map g (sort_key k xs)) = sum_list (map g xs)"
  by (metis mset_map mset_sort sum_mset_sum_list)

lemma sum_list_divide:
  "sum_list (map (\<lambda>(a, w). (w :: rat) / s) ws) = sum_list (map snd ws) / s"
  by (induction ws) (auto simp: add_divide_distrib)

text \<open>Normalised long-only weights are non-negative and sum to at most one.\<close>

lemma dw_normalised:
  assumes "dw_normalise_weights ws = Inr ns"
  shows "map fst ns = map fst ws" and "\<forall>w \<in> set (map snd ns). 0 \<le> w"
    and "sum_list (map snd ns) \<le> 1"
proof -
  let ?s = "sum_list (map snd ws)"
  have nonneg: "\<forall>w \<in> set (map snd ws). 0 \<le> w"
    and ns: "ns = (if isclose_zero ?s then ws else map (\<lambda>(a, w). (a, w / ?s)) ws)"
    using assms by (auto simp: dw_normalise_weights_def Let_def split: if_splits)
  have s: "0 \<le> ?s" using nonneg by (intro sum_list_nonneg) auto
  show "map fst ns = map fst ws" using ns by (auto split: if_splits)
  show "\<forall>w \<in> set (map snd ns). 0 \<le> w" using ns nonneg s by (auto split: if_splits)
  have "sum_list (map snd (map (\<lambda>(a, w). (a, w / ?s)) ws)) = ?s / ?s"
    using sum_list_divide [of ?s ws] by (simp add: comp_def case_prod_unfold)
  then show "sum_list (map snd ns) \<le> 1"
    using ns s by (cases "isclose_zero ?s") (auto simp: isclose_zero_def)
qed

lemma dw_quantity_bounds:
  assumes "dw_quantity v feed dt e a w = Inr n" and "feed_ask feed dt a = Some price" and "0 < price"
    and "\<And>a q c. 0 \<le> bv_cost v a q c"
  shows "price * of_int n \<le> e * w"
    and "\<exists>cost. estimate_trade_costs (bv_cost v) a (e * w) (current_quantity_of (bv_holdings v) a) price
        = Inr cost \<and> e * w - cost - price < price * of_int n \<and> 0 \<le> cost"
proof -
  obtain cost where cost: "estimate_trade_costs (bv_cost v) a (e * w)
      (current_quantity_of (bv_holdings v) a) price = Inr cost"
    and n: "n = \<lfloor>(e * w - cost) / price\<rfloor>"
    using assms(1,2) by (auto simp: dw_quantity_def and_then_eq_Inr Let_def)
  have nonneg: "0 \<le> cost"
    using cost assms(4) by (auto simp: estimate_trade_costs_def Let_def split: if_splits)
  have "of_int n \<le> (e * w - cost) / price" "(e * w - cost) / price < of_int n + 1"
    unfolding n by linarith+
  then have "price * of_int n \<le> e * w - cost" "e * w - cost < price * (of_int n + 1)"
    using assms(3) by (simp_all add: field_simps)
  then show "price * of_int n \<le> e * w" and "\<exists>cost. estimate_trade_costs (bv_cost v) a (e * w)
      (current_quantity_of (bv_holdings v) a) price = Inr cost \<and>
      e * w - cost - price < price * of_int n \<and> 0 \<le> cost"
    using nonneg cost by (auto simp: algebra_simps)
qed

section \<open>What the construction model emits\<close>

lemma fold_default_lookup:
  "map_of (fold (\<lambda>a c. if a \<in> set (dict_keys c) then c else AList.update a 0 c) as d) a =
    (case map_of d a of Some x \<Rightarrow> Some x | None \<Rightarrow> if a \<in> set as then Some (0 :: rat) else None)"
proof (induction as arbitrary: d)
  case (Cons b as)
  show ?case
  proof (cases "b \<in> set (dict_keys d)")
    case True
    then have "map_of d b \<noteq> None" by (simp add: map_of_eq_None_iff)
    with True Cons show ?thesis by (auto split: option.splits)
  next
    case False
    then have "map_of d b = None" by (simp add: map_of_eq_None_iff)
    with False Cons show ?thesis by (auto split: option.splits)
  qed
qed (simp split: option.splits)

definition quantity_in :: "(symbol, rat) dict \<Rightarrow> symbol \<Rightarrow> rat" where
  "quantity_in d a = (case map_of d a of None \<Rightarrow> 0 | Some q \<Rightarrow> q)"

lemma rebalance_orders_eq:
  "generate_rebalance_orders uid dt target current =
    map (\<lambda>(a, t). new_order (uid dt a) dt a (t - quantity_in current a))
      (filter (\<lambda>(a, t). t \<noteq> quantity_in current a) (sort_key fst target))"
proof -
  let ?cur = "fold (\<lambda>a c. if a \<in> set (dict_keys c) then c else AList.update a 0 c)
     (dict_keys target) current"
  have diff: "map (\<lambda>(a, t). (a, t - the (map_of ?cur a))) target =
      map (\<lambda>(a, t). (a, t - quantity_in current a)) target"
  proof (rule map_cong [OF refl])
    fix x assume x: "x \<in> set target"
    obtain a t where at: "x = (a, t)" by (cases x)
    with x have "a \<in> set (dict_keys target)" by force
    then have "the (map_of ?cur a) = quantity_in current a"
      unfolding fold_default_lookup quantity_in_def by (simp split: option.splits)
    then show "(case x of (a, t) \<Rightarrow> (a, t - the (map_of ?cur a))) =
        (case x of (a, t) \<Rightarrow> (a, t - quantity_in current a))"
      unfolding at prod.case by (rule arg_cong)
  qed
  have sort: "sort_key fst (map (\<lambda>(a, t). (a, f a t)) xs) = map (\<lambda>(a, t). (a, f a t)) (sort_key fst xs)"
    for f and xs :: "(symbol \<times> rat) list"
  proof (induction xs)
    case (Cons x xs)
    have "insort_key fst ((\<lambda>(a, t). (a, f a t)) x) (map (\<lambda>(a, t). (a, f a t)) ys) =
        map (\<lambda>(a, t). (a, f a t)) (insort_key fst x ys)" for ys
      by (cases x; induction ys) auto
    with Cons show ?case by simp
  qed simp
  show ?thesis
    unfolding generate_rebalance_orders_def Let_def
    unfolding diff
    unfolding sort
    by (simp add: filter_map comp_def case_prod_unfold)
qed

lemma dict_lookup_quantity: "wf_dict d \<Longrightarrow> (a, q) \<in> set d \<Longrightarrow> quantity_in d a = q"
  using set_dict_eq [of d a q] by (simp add: quantity_in_def)

lemma distinct_filtered_keys: "distinct (map fst xs) \<Longrightarrow> distinct (map fst (filter P xs))"
  by (rule distinct_map_filter)

text \<open>The long-only sizer plans within its budget.\<close>

lemma long_only_budget:
  assumes "size_portfolio (DollarWeighted buffer) v feed dt ws = Inr target"
    and "check_set_cash_buffer buffer = Inr buffer" and "bv_equity v = Some e" and "0 \<le> e"
    and "\<And>a q c. 0 \<le> bv_cost v a q c" and "\<And>a p. feed_ask feed dt a = Some p \<Longrightarrow> 0 < p"
  shows "sum_list (map (\<lambda>(a, q). the (feed_ask feed dt a) * q) target) \<le> e * (1 - buffer)"
proof (cases "ws = []")
  case True
  then show ?thesis
    using assms(1-4) by (auto simp: check_set_cash_buffer_def split: if_splits)
next
  case False
  let ?e = "e * (1 - buffer)"
  obtain ns where ns: "dw_normalise_weights ws = Inr ns"
    and run: "size_each (dw_quantity v feed dt ?e) (sort_key fst ns) = Inr target"
    using assms(1,3) False by (auto simp: and_then_eq_Inr)
  have e: "0 \<le> ?e" using assms(2,4) by (auto simp: check_set_cash_buffer_def split: if_splits)
  have "the (feed_ask feed dt a) * of_int n \<le> ?e * w" if n: "dw_quantity v feed dt ?e a w = Inr n" for a w n
  proof -
    obtain p where "feed_ask feed dt a = Some p"
      using n by (cases "feed_ask feed dt a") (simp_all add: dw_quantity_def Let_def)
    then show ?thesis using dw_quantity_bounds(1) [OF n] assms(5,6) by simp
  qed
  from size_each_sum [OF run, of "\<lambda>a. the (feed_ask feed dt a)" "\<lambda>w. ?e * w", OF this]
  have "sum_list (map (\<lambda>(a, q). the (feed_ask feed dt a) * q) target) \<le>
      sum_list (map (\<lambda>(a, w). ?e * w) (sort_key fst ns))" by simp
  also have "\<dots> = ?e * sum_list (map snd ns)"
    unfolding sum_list_sort_key by (simp add: sum_list_const_mult case_prod_unfold)
  also have "\<dots> \<le> ?e"
    using mult_left_mono [OF dw_normalised(3) [OF ns] e] by simp
  finally show ?thesis .
qed

section \<open>Properties\<close>

text \<open>
  C11. The long-only sizer never plans to spend more than the equity less the cash buffer. With
  a non-negative equity, positive prices and a fee model that never pays the trader, the
  quantities it returns are worth, at the prices it asked for, at most the cash-buffered
  equity, whatever the weights were.
\<close>

theorem long_only_sizing_within_budget:
  assumes "size_portfolio (DollarWeighted buffer) v feed dt ws = Inr target"
    and "check_set_cash_buffer buffer = Inr buffer" and "bv_equity v = Some e" and "0 \<le> e"
    and "\<And>a q c. 0 \<le> bv_cost v a q c" and "\<And>a p. feed_ask feed dt a = Some p \<Longrightarrow> 0 < p"
  shows "sum_list (map (\<lambda>(a, q). the (feed_ask feed dt a) * q) target) \<le> e * (1 - buffer)"
  by (rule long_only_budget [OF assms])

definition demo_view :: "fee_model \<Rightarrow> rat \<Rightarrow> broker_view" where
  "demo_view fee held = \<lparr>bv_equity = Some 1000,
     bv_holdings = [(''EQ:SPY'', \<lparr>h_quantity = held, h_market_value = Some (20 * held),
       h_unrealised_pnl = Some 0, h_realised_pnl = 0, h_total_pnl = Some 0\<rparr>)],
     bv_cost = calc_total_cost fee\<rparr>"

definition demo_ask_feed :: price_feed where
  "demo_ask_feed = \<lparr>feed_bid_ask = (\<lambda>dt a. (Some 20, Some 20)), feed_mid = (\<lambda>dt a. Some 20),
     feed_ask = (\<lambda>dt a. Some 20)\<rparr>"

theorem long_only_sizing_within_budget_witness:
  "\<exists>target. size_portfolio (DollarWeighted (1/20)) (demo_view (PercentFeeModel (1/100) 0) 0)
      demo_ask_feed 1 [(''EQ:SPY'', 3), (''EQ:AGG'', 1)] = Inr target \<and>
    sum_list (map (\<lambda>(a, q). the (feed_ask demo_ask_feed 1 a) * q) target) \<le> 950"
proof -
  obtain target where t: "size_portfolio (DollarWeighted (1/20)) (demo_view (PercentFeeModel (1/100) 0) 0)
      demo_ask_feed 1 [(''EQ:SPY'', 3), (''EQ:AGG'', 1)] = Inr target"
    by (simp add: dw_normalise_weights_def demo_view_def demo_ask_feed_def dw_quantity_def
        estimate_trade_costs_def isclose_zero_def Let_def)
  have "wf_fee_model (PercentFeeModel (1/100) 0)" by simp
  note sched = fee_schedule.nonneg [OF fee_schedule_calc_total_cost [OF this]]
  have "sum_list (map (\<lambda>(a, q). the (feed_ask demo_ask_feed 1 a) * q) target) \<le> 1000 * (1 - 1/20)"
    by (rule long_only_sizing_within_budget [OF t])
      (use sched in \<open>simp_all add: demo_view_def demo_ask_feed_def check_set_cash_buffer_def\<close>)
  with t show ?thesis by simp
qed

text \<open>
  Selling an asset out under a fee sells too much. When the target weight of a held asset
  is zero and the fee of selling it is positive, the long-only sizer subtracts the estimated
  fee from a target of zero dollars and rounds down, so the target quantity is negative: the
  order for a long-only portfolio is larger than the holding.
\<close>

theorem long_only_liquidation_oversells:
  assumes "feed_ask feed dt a = Some p" and "0 < p"
    and "map_of (bv_holdings v) a = Some h" and "0 < h_quantity h"
    and "0 < bv_cost v a (- of_int \<lfloor>h_quantity h\<rfloor>) (- (h_quantity h * p))"
  shows "\<exists>n. dw_quantity v feed dt e a 0 = Inr n \<and> n < 0"
proof -
  let ?x = "h_quantity h"
  have "\<bar>- (?x * p)\<bar> / p = ?x" using assms(2,4) by simp
  moreover have "- (?x * p) < 0" using assms(2,4) by simp
  ultimately have cost: "estimate_trade_costs (bv_cost v) a 0 ?x p =
      Inr (bv_cost v a (- of_int \<lfloor>?x\<rfloor>) (- (?x * p)))"
    using assms(2) by (simp add: estimate_trade_costs_def Let_def)
  have "- bv_cost v a (- of_int \<lfloor>?x\<rfloor>) (- (?x * p)) / p < 0"
    using assms(2,5) by (simp add: divide_neg_pos)
  then have "\<lfloor>- bv_cost v a (- of_int \<lfloor>?x\<rfloor>) (- (?x * p)) / p\<rfloor> < 0" by linarith
  with cost assms(1,3) show ?thesis
    by (simp add: dw_quantity_def current_quantity_of_def)
qed

theorem long_only_liquidation_oversells_witness:
  "\<exists>n. dw_quantity (demo_view (PercentFeeModel (1/100) 0) 10) demo_ask_feed 1 950 ''EQ:SPY'' 0 = Inr n \<and>
     n < 0"
  by (rule long_only_liquidation_oversells [where p = 20
        and h = "the (map_of (bv_holdings (demo_view (PercentFeeModel (1/100) 0) 10)) ''EQ:SPY'')"])
    (simp_all add: demo_view_def demo_ask_feed_def calc_total_cost_def)

text \<open>
  The construction model orders exactly the differences. For a target and a current
  portfolio without repeated assets it emits one order per asset whose target differs from
  what is held, in the order of the symbols, for exactly the difference; an asset already on
  target gets no order.
\<close>

theorem rebalance_orders_are_the_differences:
  assumes "wf_dict target" and "wf_dict current"
  shows "sorted (map ord_asset (generate_rebalance_orders uid dt target current)) \<and>
    distinct (map ord_asset (generate_rebalance_orders uid dt target current)) \<and>
    {(ord_asset o', ord_quantity o') |o'. o' \<in> set (generate_rebalance_orders uid dt target current)} =
      {(a, t - quantity_in current a) |a t. map_of target a = Some t \<and> t \<noteq> quantity_in current a}"
proof -
  let ?xs = "filter (\<lambda>(a, t). t \<noteq> quantity_in current a) (sort_key fst target)"
  let ?orders = "generate_rebalance_orders uid dt target current"
  have assets: "map ord_asset ?orders = map fst ?xs"
    by (simp add: rebalance_orders_eq new_order_def comp_def case_prod_unfold)
  have "distinct (map fst (sort_key fst target))"
    using assms(1) by (simp add: wf_dict_def distinct_map)
  then have distinct: "distinct (map fst ?xs)" by (rule distinct_filtered_keys)
  have "sorted (map fst ?xs)" by (rule sorted_filter) simp
  moreover have "{(ord_asset o', ord_quantity o') |o'. o' \<in> set ?orders} =
      {(a, t - quantity_in current a) |a t. (a, t) \<in> set target \<and> t \<noteq> quantity_in current a}"
    by (force simp: rebalance_orders_eq new_order_def)
  ultimately show ?thesis
    using distinct assets set_dict_eq [OF assms(1)] by simp
qed

theorem rebalance_orders_are_the_differences_witness:
  "map ord_asset (generate_rebalance_orders (\<lambda>_ a. a) 1 [(''EQ:SPY'', 5), (''EQ:AGG'', 2)] [(''EQ:SPY'', 5)])
     = [''EQ:AGG''] \<and>
   distinct (map ord_asset (generate_rebalance_orders (\<lambda>_ a. a) 1 [(''EQ:SPY'', 5), (''EQ:AGG'', 2)]
     [(''EQ:SPY'', 5)]))"
  using rebalance_orders_are_the_differences [where target = "[(''EQ:SPY'', 5), (''EQ:AGG'', 2)]"
      and current = "[(''EQ:SPY'', 5)]" and uid = "\<lambda>_ a. a" and dt = 1]
  by (simp add: wf_dict_def rebalance_orders_eq quantity_in_def new_order_def)

end
