(* ===== verification/Trading_System.thy ===== *)
theory Trading_System
  imports Portfolio_Construction
begin

text \<open>
  \<^verbatim>\<open>vmtrader/execution/execution_handler.py\<close>, \<^verbatim>\<open>vmtrader/messaging/command.py\<close> and
  \<^verbatim>\<open>vmtrader/system/qts.py\<close> on the simulated broker: a rebalance decides weights, carries them
  over as a command, sizes them against the account and submits the orders. The lemmas follow
  one order through the broker; the properties are about the whole rebalance.
\<close>

section \<open>The command\<close>

record target_weights =
  tw_dt :: timestamp
  tw_weights :: "(symbol \<times> rat) list"

definition as_dict :: "target_weights \<Rightarrow> weights" where
  "as_dict cmd = dict_update [] (tw_weights cmd)"

section \<open>Execution\<close>

type_synonym execution_algo = "timestamp \<Rightarrow> order list \<Rightarrow> order list"

definition market_order :: execution_algo where
  "market_order dt initial_orders = initial_orders"

definition submit_and_update :: "(timestamp \<Rightarrow> bool) \<Rightarrow> price_feed \<Rightarrow> string \<Rightarrow> timestamp \<Rightarrow> order
    \<Rightarrow> sim_broker \<Rightarrow> sim_broker outcome" where
  "submit_and_update is_open feed pid dt o' b =
    then_do (sim_submit_order pid o' b) (sim_update is_open feed dt)"

definition execution_handler :: "execution_algo \<Rightarrow> bool \<Rightarrow> (timestamp \<Rightarrow> bool) \<Rightarrow> price_feed \<Rightarrow> string
    \<Rightarrow> timestamp \<Rightarrow> order list \<Rightarrow> sim_broker \<Rightarrow> sim_broker outcome" where
  "execution_handler algo submit_orders is_open feed pid dt rebalance_orders b =
    (let final_orders = algo dt rebalance_orders in
     if submit_orders then for_each (submit_and_update is_open feed pid dt) final_orders b else ok b)"

section \<open>The trading system\<close>

definition create_order_sizer :: "bool \<Rightarrow> rat option \<Rightarrow> rat option \<Rightarrow> exn + order_sizer" where
  "create_order_sizer long_only cash_buffer_percentage gross_leverage =
    (if long_only then
       (case cash_buffer_percentage of
          None \<Rightarrow> Inl ValueError
        | Some pct \<Rightarrow> and_then (check_set_cash_buffer pct) (\<lambda>x. Inr (DollarWeighted x)))
     else
       (case gross_leverage of
          None \<Rightarrow> Inl ValueError
        | Some lev \<Rightarrow> and_then (check_set_gross_leverage lev) (\<lambda>x. Inr (LongShort x))))"

record trading_system =
  qts_portfolio :: string
  qts_model :: construction_model
  qts_algo :: execution_algo
  qts_submit :: bool

definition init_trading_system :: "asset_universe \<Rightarrow> string \<Rightarrow> alpha_model option \<Rightarrow> risk_model option
    \<Rightarrow> bool \<Rightarrow> rat option \<Rightarrow> rat option \<Rightarrow> optimiser option \<Rightarrow> execution_algo option \<Rightarrow> bool
    \<Rightarrow> exn + trading_system" where
  "init_trading_system u pid alpha risk long_only cash_buffer gross_leverage opt algo submit =
    and_then (create_order_sizer long_only cash_buffer gross_leverage) (\<lambda>sizer.
      Inr \<lparr>qts_portfolio = pid,
        qts_model = \<lparr>pcm_universe = u, pcm_sizer = sizer,
          pcm_optimiser = (case opt of None \<Rightarrow> FixedWeight | Some x \<Rightarrow> x),
          pcm_alpha = alpha, pcm_risk = risk\<rparr>,
        qts_algo = (case algo of None \<Rightarrow> market_order | Some x \<Rightarrow> x),
        qts_submit = submit\<rparr>)"

definition qts_decide_weights :: "trading_system \<Rightarrow> timestamp \<Rightarrow> exn + target_weights" where
  "qts_decide_weights sys dt =
    and_then (decide_weights (qts_model sys) dt) (\<lambda>ws.
      Inr \<lparr>tw_dt = dt, tw_weights = sort_key fst ws\<rparr>)"

definition size_and_submit :: "(timestamp \<Rightarrow> symbol \<Rightarrow> string) \<Rightarrow> trading_system
    \<Rightarrow> (timestamp \<Rightarrow> bool) \<Rightarrow> price_feed \<Rightarrow> target_weights \<Rightarrow> sim_broker \<Rightarrow> sim_broker outcome" where
  "size_and_submit uid sys is_open feed cmd b =
    with_result (and_then (sim_view (qts_portfolio sys) b) (\<lambda>v.
        build_orders uid (qts_model sys) feed v (tw_dt cmd) (as_dict cmd)))
      (\<lambda>orders. execution_handler (qts_algo sys) (qts_submit sys) is_open feed (qts_portfolio sys)
        (tw_dt cmd) orders b) b"

definition qts_call :: "(timestamp \<Rightarrow> symbol \<Rightarrow> string) \<Rightarrow> trading_system
    \<Rightarrow> (timestamp \<Rightarrow> bool) \<Rightarrow> price_feed \<Rightarrow> timestamp \<Rightarrow> sim_broker \<Rightarrow> sim_broker outcome" where
  "qts_call uid sys is_open feed dt b =
    with_result (qts_decide_weights sys dt) (\<lambda>cmd. size_and_submit uid sys is_open feed cmd b) b"

section \<open>One order through the broker\<close>

definition held :: "portfolio \<Rightarrow> symbol \<Rightarrow> rat" where
  "held p a = quantity_in (holdings (pf_positions p)) a"

lemma held_lookup: "held p a = (case map_of (pf_positions p) a of None \<Rightarrow> 0 | Some q \<Rightarrow> net_quantity q)"
proof -
  have "map_of (holdings ps) a = map_option net_quantity (map_of ps a)" for ps
    unfolding holdings_def by (induction ps) auto
  then show ?thesis by (simp add: held_def quantity_in_def split: option.split)
qed

lemma held_transact:
  assumes "transact_asset t p = ok p'" and "pf_live p" and "\<lfloor>txn_quantity t\<rfloor> \<noteq> 0"
  shows "held p' a = held p a + (if a = txn_asset t then txn_quantity t else 0)" and "pf_live p'"
proof -
  obtain ps where ps: "transact_position t (pf_positions p) = ok ps"
    and p': "pf_positions p' = ps" "audited p'"
    using assms(1) by (auto simp: transact_asset_ok audited_def trade_event_def Let_def)
  have live: "live_positions (pf_positions p)" using assms(2) by (simp add: pf_live_def)
  show "held p' a = held p a + (if a = txn_asset t then txn_quantity t else 0)"
    using ps live assms(3) unfolding held_lookup p'(1)
    by (cases rule: transact_position_ok_cases) (auto split: option.splits)
  show "pf_live p'"
    using live_transact_position [OF ps live assms(3)] p' by (simp add: pf_live_def)
qed

abbreviation idle :: "sim_broker \<Rightarrow> bool" where
  "idle b \<equiv> \<forall>pid. queue_of pid b = []"

lemma queued_orders_one:
  assumes "wf_sim_broker b" and "map_of (sb_portfolios b) pid = Some p"
    and "queue_of pid b = [o']" and "\<And>i. i \<noteq> pid \<Longrightarrow> queue_of i b = []"
  shows "queued_orders b = [(pid, o')]"
proof -
  have one: "concat (map (\<lambda>i. map (Pair i) (queue_of i b)) is) = (if pid \<in> set is then [(pid, o')] else [])"
    if "distinct is" for "is"
    using that assms(3) by (induction "is") (auto intro!: assms(4))
  have "pid \<in> set (dict_keys (sb_portfolios b))" using map_of_SomeD [OF assms(2)] by force
  moreover have "queued_orders b = concat (map (\<lambda>i. map (Pair i) (queue_of i b)) (dict_keys (sb_portfolios b)))"
    by (simp add: queued_orders_def queue_of_def)
  ultimately show ?thesis
    using one [of "dict_keys (sb_portfolios b)"] assms(1) by (simp add: wf_sim_broker_def wf_dict_def)
qed

lemma submit_queues:
  assumes "sim_submit_order pid o' b = ok b'"
  shows "queue_of pid b' = queue_of pid b @ [o']" and "i \<noteq> pid \<Longrightarrow> queue_of i b' = queue_of i b"
    and "sb_portfolios b' = sb_portfolios b" and "sb_fee_model b' = sb_fee_model b"
  using assms by (auto simp: sim_submit_order_def queue_of_def split: if_splits option.splits)

text \<open>
  In an open market an order is filled by the update that follows its submission: the holding
  moves by its quantity.
\<close>

lemma submit_and_update_fills:
  assumes run: "submit_and_update is_open feed pid dt o' b = ok b'" and "is_open dt"
    and "wf_sim_broker b" and "idle b" and "map_of (sb_portfolios b) pid = Some p" and "pf_live p"
    and "\<lfloor>ord_quantity o'\<rfloor> \<noteq> 0"
  shows "wf_sim_broker b' \<and> idle b' \<and> sb_fee_model b' = sb_fee_model b \<and>
    (\<exists>p'. map_of (sb_portfolios b') pid = Some p' \<and> pf_live p' \<and>
      (\<forall>a. held p' a = held p a + (if a = ord_asset o' then ord_quantity o' else 0)) \<and>
      (\<forall>ds e. feed = backtest_feed ds \<longrightarrow> marked_at (feed_mid feed dt) p \<longrightarrow> total_equity p = Some e \<longrightarrow>
         marked_at (feed_mid feed dt) p' \<and>
         total_equity p' = Some (e - order_fee feed dt (sb_fee_model b) o')))"
proof -
  obtain b1 where sub: "sim_submit_order pid o' b = ok b1" and upd: "sim_update is_open feed dt b1 = ok b'"
    using run by (auto simp: submit_and_update_def then_do_eq_ok)
  note q1 = submit_queues [OF sub]
  have wf1: "wf_sim_broker b1" using wf_submit [OF assms(3), of pid o'] sub by simp
  have wf': "wf_sim_broker b'" using update_invariant [OF wf1, of is_open feed dt] upd by simp
  have p1: "map_of (sb_portfolios b1) pid = Some p" using q1(3) assms(5) by simp
  have queued: "queued_orders b1 = [(pid, o')]"
    by (rule queued_orders_one [OF wf1 p1]) (use q1 assms(4) in auto)
  obtain c where c: "mark_all feed dt (b1\<lparr>sb_dt := dt\<rparr>) = ok c"
    using sim_update_ok_marks [OF upd] by blast
  note open' = sim_update_open [where is_open = is_open, OF assms(2) wf1 c]
  have exec: "execute_all feed dt [(pid, o')] (drain_queues c) = ok b'"
  proof (cases "ord_quantity o' < 0")
    case True
    then show ?thesis using upd open'(1) queued by simp
  next
    case False
    then have "0 \<le> ord_quantity o'" by simp
    with False show ?thesis using upd open'(1) queued by simp
  qed
  obtain q where q: "map_of (sb_portfolios c) pid = Some q" "pf_live q" "books q = books p"
    and marks: "for_each (\<lambda>a. update_market_value_of_asset a (feed_mid feed dt a) dt)
      (dict_keys (pf_positions p)) p = ok q"
    by (rule live_in_update [OF c wf1 p1 assms(6)])
  have "execute_order feed dt pid o' (drain_queues c) = ok b'" using exec by simp
  then obtain p' where p': "transact_asset (fill_of feed dt (sb_fee_model c) (sb_dt c) o') q = ok p'"
      "b' = (drain_queues c)\<lparr>sb_portfolios := AList.update pid p' (sb_portfolios c)\<rparr>"
    using q(1) by (auto elim!: execute_order_ok)
  have moved: "held p' a = held p a + (if a = ord_asset o' then ord_quantity o' else 0)" for a
    using held_transact(1) [OF p'(1) q(2), of a] assms(7) q(3) by (simp add: held_def books_def)
  have live': "pf_live p'" using held_transact(2) [OF p'(1) q(2)] assms(7) by simp
  have "idle b'"
    using queue_of_drained [OF open'(2) execute_all_queues [OF exec]] by simp
  moreover have "sb_fee_model b' = sb_fee_model b" using p'(2) open'(5) q1(4) by simp
  moreover have "marked_at (feed_mid feed dt) p' \<and>
      total_equity p' = Some (e - order_fee feed dt (sb_fee_model b) o')"
    if ds: "feed = backtest_feed ds" and mark: "marked_at (feed_mid feed dt) p"
      and e: "total_equity p = Some e" for ds e
  proof -
    have priced: "\<forall>a \<in> set (dict_keys (pf_positions p)). feed_mid feed dt a \<noteq> None"
    proof
      fix a assume "a \<in> set (dict_keys (pf_positions p))"
      then obtain r where "map_of (pf_positions p) a = Some r"
        by (metis list.set_map map_of_eq_None_iff not_None_eq)
      with mark show "feed_mid feed dt a \<noteq> None" by (simp add: marked_at_def)
    qed
    obtain q2 where "map_of (sb_portfolios c) pid = Some q2" "marked_at (feed_mid feed dt) q2"
      by (rule marked_in_update [OF c wf1 p1 assms(6) priced])
    with q(1) have mq: "marked_at (feed_mid feed dt) q" by simp
    have "total_equity q = Some e"
      using total_equity_marked [OF q(2) mq] total_equity_marked [OF assms(6) mark] q(3) e
      by (simp add: books_def)
    then obtain p2 where "map_of (sb_portfolios b') pid = Some p2" "marked_at (feed_mid feed dt) p2"
        "total_equity p2 = Some (e - order_fee feed dt (sb_fee_model c) o')"
      using backtest.execute_all_equity [OF refl refl exec[unfolded ds], of pid q e] q(1,2) mq assms(7)
      by (auto simp: ds)
    then show ?thesis using p'(2) open'(5) q1(4) by simp
  qed
  ultimately show ?thesis using wf' p'(2) live' moved by auto
qed

section \<open>The whole rebalance\<close>

lemma submit_all_fills:
  assumes "for_each (submit_and_update is_open feed pid dt) os b = ok b'" and "is_open dt"
    and "wf_sim_broker b" and "idle b" and "map_of (sb_portfolios b) pid = Some p" and "pf_live p"
    and "\<forall>o' \<in> set os. \<lfloor>ord_quantity o'\<rfloor> \<noteq> 0"
  shows "\<exists>p'. map_of (sb_portfolios b') pid = Some p' \<and> pf_live p' \<and>
      (\<forall>a. held p' a = held p a + sum_list (map ord_quantity (filter (\<lambda>o'. ord_asset o' = a) os))) \<and>
      (\<forall>ds e. feed = backtest_feed ds \<longrightarrow> marked_at (feed_mid feed dt) p \<longrightarrow> total_equity p = Some e \<longrightarrow>
         marked_at (feed_mid feed dt) p' \<and>
         total_equity p' = Some (e - sum_list (map (order_fee feed dt (sb_fee_model b)) os)))"
  using assms
proof (induction os arbitrary: b p)
  case (Cons x os)
  obtain b1 where first: "submit_and_update is_open feed pid dt x b = ok b1"
    and rest: "for_each (submit_and_update is_open feed pid dt) os b1 = ok b'"
    using Cons.prems(1) by (auto simp: for_each_eq_ok_Cons simp del: for_each.simps)
  have x: "\<lfloor>ord_quantity x\<rfloor> \<noteq> 0" using Cons.prems(7) by simp
  note step = submit_and_update_fills [where is_open = is_open, OF first Cons.prems(2-6) x]
  obtain p1 where p1: "map_of (sb_portfolios b1) pid = Some p1" "pf_live p1"
      "\<And>a. held p1 a = held p a + (if a = ord_asset x then ord_quantity x else 0)"
      "\<And>ds e. feed = backtest_feed ds \<Longrightarrow> marked_at (feed_mid feed dt) p \<Longrightarrow> total_equity p = Some e \<Longrightarrow>
         marked_at (feed_mid feed dt) p1 \<and>
         total_equity p1 = Some (e - order_fee feed dt (sb_fee_model b) x)"
    using step by blast
  have b1: "wf_sim_broker b1" "idle b1" "sb_fee_model b1 = sb_fee_model b" using step by blast+
  have whole: "\<forall>o' \<in> set os. \<lfloor>ord_quantity o'\<rfloor> \<noteq> 0" using Cons.prems(7) by simp
  obtain p' where p': "map_of (sb_portfolios b') pid = Some p'" "pf_live p'"
      "\<And>a. held p' a = held p1 a + sum_list (map ord_quantity (filter (\<lambda>o'. ord_asset o' = a) os))"
      "\<And>ds e. feed = backtest_feed ds \<Longrightarrow> marked_at (feed_mid feed dt) p1 \<Longrightarrow> total_equity p1 = Some e \<Longrightarrow>
         marked_at (feed_mid feed dt) p' \<and>
         total_equity p' = Some (e - sum_list (map (order_fee feed dt (sb_fee_model b1)) os))"
    using Cons.IH [OF rest Cons.prems(2) b1(1,2) p1(1,2) whole] by blast
  have "held p' a = held p a + sum_list (map ord_quantity (filter (\<lambda>o'. ord_asset o' = a) (x # os)))" for a
    using p'(3) p1(3) by simp
  moreover have "marked_at (feed_mid feed dt) p' \<and>
      total_equity p' = Some (e - sum_list (map (order_fee feed dt (sb_fee_model b)) (x # os)))"
    if "feed = backtest_feed ds" "marked_at (feed_mid feed dt) p" "total_equity p = Some e" for ds e
    using p'(4) [OF that(1), of "e - order_fee feed dt (sb_fee_model b) x"] p1(4) [OF that] b1(3)
    by (simp add: diff_diff_eq)
  ultimately show ?case using p'(1,2) by blast
qed simp

text \<open>The holdings a rebalance starts from, as the construction model reads them.\<close>

lemma sim_view_holdings:
  assumes "sim_view pid b = Inr v" and "map_of (sb_portfolios b) pid = Some p"
  shows "map (\<lambda>(a, h). (a, h_quantity h)) (bv_holdings v) = holdings (pf_positions p)"
    and "bv_equity v = total_equity p" and "bv_cost v = calc_total_cost (sb_fee_model b)"
  using assms
  by (auto simp: sim_view_def get_portfolio_total_equity_def get_portfolio_as_dict_def
      portfolio_to_dict_def holdings_def)

lemma wf_constant_weights: "wf_dict (constant_weights w as)"
  by (simp add: constant_weights_def wf_dict_def comp_def)

lemma keys_constant_weights: "set (dict_keys (constant_weights w as)) = set as"
  by (simp add: constant_weights_def comp_def image_image)

lemma keys_dict_update: "set (dict_keys (dict_update a b)) = set (dict_keys a) \<union> set (dict_keys b)"
  by (induction a b rule: dict_update.induct) (auto simp: dom_update)

lemma size_portfolio_keys:
  assumes "size_portfolio sizer v feed dt ws = Inr target"
  shows "sorted (map fst target) \<and> set (map fst target) = set (map fst ws) \<and>
    (wf_dict ws \<longrightarrow> wf_dict target) \<and> (\<forall>q \<in> set (map snd target). q \<in> \<int>)"
proof -
  have main: "sorted (map fst target) \<and> set (map fst target) = set (map fst ws) \<and>
      (wf_dict ws \<longrightarrow> wf_dict target) \<and> (\<forall>q \<in> set (map snd target). q \<in> \<int>)"
    if run: "size_each f (sort_key fst ns) = Inr target" and keys: "map fst ns = map fst ws" for f ns
  proof -
    note t = size_each_ok [OF run]
    have "sorted (map fst target)" using t by simp
    moreover have "set (map fst target) = set (map fst ns)" using t by simp
    moreover have "distinct (map fst target)" if "distinct (map fst ns)"
      using t that by (simp add: distinct_map)
    moreover have "\<forall>q \<in> set (map snd target). q \<in> \<int>" using t by fastforce
    ultimately show ?thesis using keys by (auto simp: wf_dict_def)
  qed
  show ?thesis
  proof (cases "ws = []")
    case True
    with assms show ?thesis by (cases sizer) auto
  next
    case False
    show ?thesis
    proof (cases sizer)
      case (DollarWeighted x)
      with assms False obtain ns e where "dw_normalise_weights ws = Inr ns"
          "size_each (dw_quantity v feed dt (e * (1 - x))) (sort_key fst ns) = Inr target"
        by (auto simp: and_then_eq_Inr split: option.splits)
      then show ?thesis using main dw_normalised(1) by blast
    next
      case (LongShort x)
      have "map fst (ls_normalise_weights x ws) = map fst ws"
        by (auto simp: ls_normalise_weights_def Let_def)
      moreover obtain e where
          "size_each (ls_quantity v feed dt e) (sort_key fst (ls_normalise_weights x ws)) = Inr target"
        using LongShort assms False by (auto split: option.splits)
      ultimately show ?thesis using main by blast
    qed
  qed
qed

lemma rebalance_sum:
  assumes "wf_dict target"
  shows "sum_list (map ord_quantity (filter (\<lambda>o'. ord_asset o' = a)
      (generate_rebalance_orders uid dt target current))) =
    (case map_of target a of None \<Rightarrow> 0 | Some t \<Rightarrow> t - quantity_in current a)"
proof -
  let ?order = "\<lambda>(a, t). new_order (uid dt a) dt a (t - quantity_in current a)"
  have sum: "sum_list (map ord_quantity (filter (\<lambda>o'. ord_asset o' = a)
      (map ?order (filter (\<lambda>(a, t). t \<noteq> quantity_in current a) xs)))) =
      (case map_of xs a of None \<Rightarrow> 0 | Some t \<Rightarrow> t - quantity_in current a)"
    if "wf_dict xs" for xs
    using that
  proof (induction xs)
    case (Cons x xs)
    obtain b t where x: "x = (b, t)" by (cases x)
    with Cons.prems have "map_of xs b = None" by (auto simp: wf_dict_def map_of_eq_None_iff)
    moreover have "wf_dict xs" using Cons.prems by (simp add: wf_dict_def)
    ultimately show ?case using Cons.IH by (auto simp: x new_order_def split: option.splits)
  qed simp
  have wf: "wf_dict (sort_key fst target)" using assms by (simp add: wf_dict_def distinct_map)
  have "map_of (sort_key fst target) a = map_of target a"
    using set_dict_eq [OF wf, of a] set_dict_eq [OF assms, of a]
    by (cases "map_of (sort_key fst target) a"; cases "map_of target a") auto
  with sum [OF wf] show ?thesis by (simp add: rebalance_orders_eq)
qed

lemma Ints_floor_nonzero: "x \<in> \<int> \<Longrightarrow> x \<noteq> 0 \<Longrightarrow> \<lfloor>x :: rat\<rfloor> \<noteq> 0"
  by (auto elim!: Ints_cases)

text \<open>A rebalance that goes through, opened up: the target, the orders and their submission.\<close>

lemma size_and_submit_ok:
  assumes "size_and_submit uid sys is_open feed cmd b = ok b'" and "qts_submit sys"
    and "qts_algo sys = market_order"
  obtains v target where "sim_view (qts_portfolio sys) b = Inr v"
    and "size_portfolio (pcm_sizer (qts_model sys)) v feed (tw_dt cmd)
      (full_asset_weights (obtain_full_asset_list (pcm_universe (qts_model sys)) v (tw_dt cmd))
        (as_dict cmd)) = Inr target"
    and "for_each (submit_and_update is_open feed (qts_portfolio sys) (tw_dt cmd))
      (generate_rebalance_orders uid (tw_dt cmd) target
        (map (\<lambda>(a, h). (a, h_quantity h)) (bv_holdings v))) b = ok b'"
  using assms
  by (auto simp: size_and_submit_def with_result_eq_ok and_then_eq_Inr build_orders_def
      execution_handler_def market_order_def)

lemma wf_full_asset_weights: "wf_dict (full_asset_weights as ws)"
  by (simp add: full_asset_weights_def wf_dict_dict_update wf_constant_weights)

lemma held_in_target:
  assumes "sim_view pid b = Inr v" and "map_of (sb_portfolios b) pid = Some p"
    and "size_portfolio sizer v feed dt (full_asset_weights (obtain_full_asset_list u v dt) ws) = Inr target"
    and "map_of target a = None"
  shows "held p a = 0"
proof -
  have "a \<notin> set (dict_keys (bv_holdings v))"
    using size_portfolio_keys [OF assms(3)] assms(4)
    by (auto simp: map_of_eq_None_iff full_asset_weights_def keys_dict_update [unfolded set_map]
        keys_constant_weights [unfolded set_map] obtain_full_asset_list_def)
  moreover have "set (dict_keys (holdings (pf_positions p))) = set (dict_keys (bv_holdings v))"
    unfolding sim_view_holdings(1) [OF assms(1,2), symmetric] by (force simp: image_iff)
  ultimately have "a \<notin> set (dict_keys (holdings (pf_positions p)))" by blast
  then have "map_of (holdings (pf_positions p)) a = None" by (simp add: map_of_eq_None_iff)
  then show ?thesis by (simp add: held_def quantity_in_def)
qed

text \<open>The orders of a rebalance are for whole quantities, and together they lead to the target.\<close>

lemma rebalance_orders_whole:
  assumes "size_portfolio sizer v feed dt (full_asset_weights as ws) = Inr target" and "\<And>a. held p a \<in> \<int>"
  shows "\<forall>o' \<in> set (generate_rebalance_orders uid dt target (holdings (pf_positions p))). \<lfloor>ord_quantity o'\<rfloor> \<noteq> 0"
proof
  fix o' assume "o' \<in> set (generate_rebalance_orders uid dt target (holdings (pf_positions p)))"
  then obtain a t where at: "(a, t) \<in> set target" "t \<noteq> held p a" "ord_quantity o' = t - held p a"
    by (auto simp: rebalance_orders_eq new_order_def held_def)
  then have "t \<in> \<int>" using size_portfolio_keys [OF assms(1)] by force
  with at assms(2) show "\<lfloor>ord_quantity o'\<rfloor> \<noteq> 0" by (intro Ints_floor_nonzero) simp_all
qed

lemma rebalance_quantity:
  assumes "sim_view pid b = Inr v" and "map_of (sb_portfolios b) pid = Some p"
    and "size_portfolio sizer v feed dt (full_asset_weights (obtain_full_asset_list u v dt) ws) = Inr target"
  shows "held p a + sum_list (map ord_quantity (filter (\<lambda>o'. ord_asset o' = a)
    (generate_rebalance_orders uid dt target (holdings (pf_positions p))))) = quantity_in target a"
proof -
  have "wf_dict target" using size_portfolio_keys [OF assms(3)] wf_full_asset_weights by blast
  then show ?thesis
    unfolding rebalance_sum [OF \<open>wf_dict target\<close>]
    using held_in_target [OF assms]
    by (auto simp: quantity_in_def [of target] held_def split: option.splits)
qed




text \<open>What both properties of a rebalance rest on.\<close>

lemma rebalance_outcome:
  assumes "size_and_submit uid sys is_open feed cmd b = ok b'" and "qts_submit sys"
    and "qts_algo sys = market_order" and "is_open (tw_dt cmd)" and "wf_sim_broker b"
    and "\<And>pid. queue_of pid b = []" and "map_of (sb_portfolios b) (qts_portfolio sys) = Some p"
    and "pf_live p" and "\<And>a. held p a \<in> \<int>"
  obtains v target p' where "sim_view (qts_portfolio sys) b = Inr v"
    and "size_portfolio (pcm_sizer (qts_model sys)) v feed (tw_dt cmd)
      (full_asset_weights (obtain_full_asset_list (pcm_universe (qts_model sys)) v (tw_dt cmd))
        (as_dict cmd)) = Inr target"
    and "map_of (sb_portfolios b') (qts_portfolio sys) = Some p'" and "pf_live p'"
    and "\<And>a. held p' a = quantity_in target a"
    and "\<forall>ds e. feed = backtest_feed ds \<longrightarrow> marked_at (feed_mid feed (tw_dt cmd)) p \<longrightarrow>
      total_equity p = Some e \<longrightarrow> marked_at (feed_mid feed (tw_dt cmd)) p' \<and>
      total_equity p' = Some (e - sum_list (map (order_fee feed (tw_dt cmd) (sb_fee_model b))
        (generate_rebalance_orders uid (tw_dt cmd) target (holdings (pf_positions p)))))"
proof -
  let ?dt = "tw_dt cmd" and ?pid = "qts_portfolio sys"
  obtain v target where v: "sim_view ?pid b = Inr v"
    and target: "size_portfolio (pcm_sizer (qts_model sys)) v feed ?dt
      (full_asset_weights (obtain_full_asset_list (pcm_universe (qts_model sys)) v ?dt) (as_dict cmd))
      = Inr target"
    and run: "for_each (submit_and_update is_open feed ?pid ?dt) (generate_rebalance_orders uid ?dt target
      (map (\<lambda>(a, h). (a, h_quantity h)) (bv_holdings v))) b = ok b'"
    by (rule size_and_submit_ok [OF assms(1-3)])
  note cur = sim_view_holdings(1) [OF v assms(7)]
  have whole: "\<forall>o' \<in> set (generate_rebalance_orders uid ?dt target (holdings (pf_positions p))).
      \<lfloor>ord_quantity o'\<rfloor> \<noteq> 0"
    by (rule rebalance_orders_whole [OF target assms(9)])
  have idle: "idle b" using assms(6) by blast
  obtain p' where p': "map_of (sb_portfolios b') ?pid = Some p'" "pf_live p'"
      "\<And>a. held p' a = held p a + sum_list (map ord_quantity (filter (\<lambda>o'. ord_asset o' = a)
        (generate_rebalance_orders uid ?dt target (holdings (pf_positions p)))))"
      "\<And>ds e. feed = backtest_feed ds \<Longrightarrow> marked_at (feed_mid feed ?dt) p \<Longrightarrow> total_equity p = Some e \<Longrightarrow>
        marked_at (feed_mid feed ?dt) p' \<and>
        total_equity p' = Some (e - sum_list (map (order_fee feed ?dt (sb_fee_model b))
          (generate_rebalance_orders uid ?dt target (holdings (pf_positions p)))))"
    using submit_all_fills [where is_open = is_open, OF run assms(4,5) idle assms(7,8)] whole
    unfolding cur by blast
  have "held p' a = quantity_in target a" for a
    using p'(3) [of a] rebalance_quantity [OF v assms(7) target, of a uid] by simp
  with that [OF v target p'(1,2)] p'(4) show ?thesis by blast
qed

definition demo_idle :: sim_broker where
  "demo_idle = sb_attempt [CreatePortfolio ''000001'' None, SubscribePortfolio ''000001'' 500]
     \<lparr>sb_start_dt = 0, sb_dt = 0, sb_account_id = None, sb_currency = ''USD'',
      sb_fee_model = PercentFeeModel (1/100) 0, sb_cash = set_cash_balances ''USD'' 1000,
      sb_portfolios = [], sb_open_orders = []\<rparr>"

definition demo_system :: trading_system where
  "demo_system = \<lparr>qts_portfolio = ''000001'',
     qts_model = \<lparr>pcm_universe = StaticUniverse [''EQ:SPY'', ''EQ:AGG''], pcm_sizer = DollarWeighted (1/20),
       pcm_optimiser = FixedWeight, pcm_alpha = None, pcm_risk = None\<rparr>,
     qts_algo = market_order, qts_submit = True\<rparr>"

definition demo_command :: target_weights where
  "demo_command = \<lparr>tw_dt = 2, tw_weights = [(''EQ:AGG'', 1), (''EQ:SPY'', 3)]\<rparr>"

lemma demo_idle_eval:
  "map_of (sb_portfolios demo_idle) ''000001'' = Some \<lparr>pf_start_dt = 0, pf_dt = 0,
     pf_starting_cash = 0, pf_currency = ''USD'', pf_id = ''000001'', pf_name = None,
     pf_cash = 500, pf_positions = [], pf_history = [create_subscription 0 500 500]\<rparr>"
  "dict_keys (sb_portfolios demo_idle) = [''000001'']"
  "sb_open_orders demo_idle = [(''000001'', [])]"
  "sb_fee_model demo_idle = PercentFeeModel (1/100) 0"
  by (simp_all add: demo_idle_def demo_broker_simps)

lemma wf_demo_idle: "wf_sim_broker demo_idle"
  by (simp add: demo_idle_def demo_broker_simps wf_sim_broker_def wf_dict_def pf_wf_def)

lemma demo_orders:
  "and_then (sim_view ''000001'' demo_idle) (\<lambda>v. build_orders (\<lambda>_ a. a) (qts_model demo_system)
     (backtest_feed [demo_source]) v 2 (as_dict demo_command)) =
   Inr [new_order ''EQ:AGG'' 2 ''EQ:AGG'' 5, new_order ''EQ:SPY'' 2 ''EQ:SPY'' 17]"
  by (simp add: sim_view_def get_portfolio_total_equity_def get_portfolio_as_dict_def
      demo_idle_eval build_orders_def demo_system_def demo_command_def as_dict_def
      obtain_full_asset_list_def full_asset_weights_def constant_weights_def
      dw_normalise_weights_def dw_quantity_def estimate_trade_costs_def isclose_zero_def
      backtest_feed_def demo_source_def total_equity_def total_market_value_def
      positions_market_value_def portfolio_to_dict_def current_quantity_of_def
      calc_total_cost_def rebalance_orders_eq quantity_in_def Let_def)

lemma demo_feed_sides: "feed_mid (backtest_feed [demo_source]) dt a = Some 20"
  "feed_ask (backtest_feed [demo_source]) dt a = Some 20"
  using demo_feed_eval(2) [of dt a] by (simp_all add: demo_feed_def backtest_feed_def demo_source_def)

lemma demo_rebalance: "\<exists>b'. size_and_submit (\<lambda>_ a. a) demo_system (\<lambda>_. True)
    (backtest_feed [demo_source]) demo_command demo_idle = ok b'"
proof -
  have quotes: "feed_bid_ask (backtest_feed [demo_source]) dt a = (Some 20, Some 20)" for dt a
    using demo_feed_eval(1) [of dt a] by (simp add: demo_feed_def)
  have "\<exists>b'. for_each (submit_and_update (\<lambda>_. True) (backtest_feed [demo_source]) ''000001'' 2)
      [new_order ''EQ:AGG'' 2 ''EQ:AGG'' 5, new_order ''EQ:SPY'' 2 ''EQ:SPY'' 17] demo_idle = ok b'"
    by (simp add: demo_idle_def demo_broker_simps submit_and_update_def sim_update_def mark_all_def
        mark_portfolio_def queued_orders_def drain_queues_def execute_order_def quotes
        demo_feed_sides ord_direction_def copysign1_def transact_asset_def transact_position_def
        open_from_transaction_def net_quantity_def update_market_value_of_asset_def
        update_current_price_def check_set_dt_def)
  then show ?thesis
    using demo_orders
    by (simp add: size_and_submit_def execution_handler_def market_order_def demo_system_def demo_command_def)
qed

section \<open>Properties\<close>

text \<open>
  C1. A rebalance reaches its target. When a rebalance of an idle account in an open market goes
  through, starting from whole holdings, then afterwards the portfolio holds of every asset
  exactly the quantity the order sizer set as its target, and nothing of the assets the target
  does not name.
\<close>

theorem rebalance_reaches_target:
  assumes "size_and_submit uid sys is_open feed cmd b = ok b'" and "qts_submit sys"
    and "qts_algo sys = market_order" and "is_open (tw_dt cmd)" and "wf_sim_broker b"
    and "\<And>pid. queue_of pid b = []" and "map_of (sb_portfolios b) (qts_portfolio sys) = Some p"
    and "pf_live p" and "\<And>a. held p a \<in> \<int>"
  shows "\<exists>v target p'. sim_view (qts_portfolio sys) b = Inr v \<and>
    size_portfolio (pcm_sizer (qts_model sys)) v feed (tw_dt cmd)
      (full_asset_weights (obtain_full_asset_list (pcm_universe (qts_model sys)) v (tw_dt cmd))
        (as_dict cmd)) = Inr target \<and>
    map_of (sb_portfolios b') (qts_portfolio sys) = Some p' \<and>
    (\<forall>a. held p' a = quantity_in target a)"
  by (rule rebalance_outcome [OF assms]) blast

theorem rebalance_reaches_target_witness:
  "\<exists>b' p'. size_and_submit (\<lambda>_ a. a) demo_system (\<lambda>_. True) (backtest_feed [demo_source])
      demo_command demo_idle = ok b' \<and>
    map_of (sb_portfolios b') ''000001'' = Some p' \<and> (\<exists>target. \<forall>a. held p' a = quantity_in target a)"
proof -
  obtain b' where b': "size_and_submit (\<lambda>_ a. a) demo_system (\<lambda>_. True) (backtest_feed [demo_source])
      demo_command demo_idle = ok b'"
    using demo_rebalance by blast
  let ?p = "the (map_of (sb_portfolios demo_idle) ''000001'')"
  have p: "map_of (sb_portfolios demo_idle) (qts_portfolio demo_system) = Some ?p"
    by (simp add: demo_idle_eval demo_system_def)
  have sys: "qts_submit demo_system" "qts_algo demo_system = market_order" "qts_portfolio demo_system = ''000001''"
    by (simp_all add: demo_system_def)
  have idle: "\<And>pid. queue_of pid demo_idle = []" by (simp add: queue_of_def demo_idle_eval)
  have live: "pf_live ?p" and whole: "\<And>a. held ?p a \<in> \<int>"
    by (simp_all add: demo_idle_eval held_lookup pf_live_def live_positions_def audited_def
        create_subscription_def)
  show ?thesis
    using b' rebalance_reaches_target [where is_open = "\<lambda>_. True", OF b' sys(1,2) _ wf_demo_idle idle p live whole]
    unfolding sys(3) by blast
qed



end
