(* ===== verification/Messaging.thy ===== *)
theory Messaging
  imports Trading_System
begin

text \<open>
  \<^verbatim>\<open>vmtrader/messaging\<close>: the event vocabulary and the mailbox both actors are built on. The
  locale \<open>channel\<close> is what an actor's consumer loop relies on; it is interpreted on the
  mailbox. The properties follow every message from post to take.
\<close>

section \<open>Events\<close>

datatype trading_event =
    OrderAccepted string string symbol int timestamp
  | OrderModified string string string symbol int timestamp
  | OrderCanceled string string string symbol int timestamp
  | OrderFilled string symbol int int rat rat timestamp
  | OrderRejected string symbol int string timestamp
  | OrderError string string symbol int string timestamp
  | RebalanceDue timestamp
  | EndOfDay timestamp
  | PollDue timestamp
  | TargetWeights target_weights

text \<open>The topic of an event.\<close>

fun event_name :: "trading_event \<Rightarrow> string" where
  "event_name (OrderAccepted _ _ _ _ _) = ''accepted''"
| "event_name (OrderModified _ _ _ _ _ _) = ''modified''"
| "event_name (OrderCanceled _ _ _ _ _ _) = ''canceled''"
| "event_name (OrderFilled _ _ _ _ _ _ _) = ''filled''"
| "event_name (OrderRejected _ _ _ _ _) = ''rejected''"
| "event_name (OrderError _ _ _ _ _ _) = ''error''"
| "event_name (RebalanceDue _) = ''rebalance_due''"
| "event_name (EndOfDay _) = ''end_of_day''"
| "event_name (PollDue _) = ''poll_due''"
| "event_name (TargetWeights _) = ''target_weights''"

section \<open>The mailbox\<close>

text \<open>The queue holds the events and, once closed, the sentinel \<open>None\<close> at its end.\<close>

record 'm mailbox =
  mb_name :: string
  mb_maxsize :: nat
  mb_queue :: "'m option list"
  mb_closed :: bool
  mb_posted :: nat
  mb_high_water :: nat
  mb_dropped :: nat

definition new_mailbox :: "string \<Rightarrow> nat \<Rightarrow> 'm mailbox" where
  "new_mailbox name maxsize =
    \<lparr>mb_name = name, mb_maxsize = maxsize, mb_queue = [], mb_closed = False, mb_posted = 0,
     mb_high_water = 0, mb_dropped = 0\<rparr>"

definition mb_depth :: "'m mailbox \<Rightarrow> nat" where
  "mb_depth mb = length (mb_queue mb)"

definition mb_drop :: "'m mailbox \<Rightarrow> 'm mailbox" where
  "mb_drop mb = mb\<lparr>mb_dropped := mb_dropped mb + 1\<rparr>"

text \<open>What \<^verbatim>\<open>_drop\<close> writes to the log: the first loss, then every hundredth.\<close>

datatype drop_log = ErrorLine nat | WarningLine nat

definition drop_report :: "'m mailbox \<Rightarrow> drop_log option" where
  "drop_report mb =
    (if mb_dropped mb = 1 then Some (ErrorLine (mb_maxsize mb))
     else if mb_dropped mb mod 100 = 0 then Some (WarningLine (mb_dropped mb)) else None)"

definition mb_post :: "'m option \<Rightarrow> 'm mailbox \<Rightarrow> 'm mailbox outcome" where
  "mb_post event mb =
    (case event of
       None \<Rightarrow> raise ValueError mb
     | Some m \<Rightarrow>
         if mb_closed mb then raise MailboxClosed mb
         else if mb_maxsize mb \<noteq> 0 \<and> mb_maxsize mb \<le> mb_depth mb then ok (mb_drop mb)
         else let mb = mb\<lparr>mb_queue := mb_queue mb @ [Some m], mb_posted := mb_posted mb + 1\<rparr>;
                  depth = mb_depth mb in
           ok (if mb_high_water mb < depth then mb\<lparr>mb_high_water := depth\<rparr> else mb))"

text \<open>
  \<^verbatim>\<open>take\<close> blocks on an empty queue (or raises \<^verbatim>\<open>queue.Empty\<close> after its timeout): there is
  nothing to take, which is \<open>None\<close>. A taken \<open>None\<close> is the sentinel.
\<close>

definition mb_take :: "'m mailbox \<Rightarrow> ('m option \<times> 'm mailbox) option" where
  "mb_take mb = (case mb_queue mb of [] \<Rightarrow> None | x # xs \<Rightarrow> Some (x, mb\<lparr>mb_queue := xs\<rparr>))"

definition mb_close :: "'m mailbox \<Rightarrow> 'm mailbox" where
  "mb_close mb = (if mb_closed mb then mb
     else mb\<lparr>mb_closed := True, mb_queue := mb_queue mb @ [None]\<rparr>)"

section \<open>Well-formed mailboxes\<close>

text \<open>The events waiting; the sentinel, if any, comes after all of them.\<close>

definition waiting :: "'m mailbox \<Rightarrow> 'm list" where
  "waiting mb = map the (takeWhile (\<lambda>x. x \<noteq> None) (mb_queue mb))"

definition wf_mailbox :: "'m mailbox \<Rightarrow> bool" where
  "wf_mailbox mb \<longleftrightarrow>
    (mb_queue mb = map Some (waiting mb) \<or>
     mb_closed mb \<and> mb_queue mb = map Some (waiting mb) @ [None]) \<and>
    length (waiting mb) \<le> mb_posted mb \<and> length (waiting mb) \<le> mb_high_water mb \<and>
    mb_high_water mb \<le> mb_posted mb \<and>
    (mb_maxsize mb \<noteq> 0 \<longrightarrow> mb_high_water mb \<le> mb_maxsize mb) \<and>
    (mb_maxsize mb = 0 \<longrightarrow> mb_dropped mb = 0)"

lemma waiting_Somes [simp]: "map the (takeWhile (\<lambda>x. x \<noteq> None) (map Some ms)) = ms"
  "map the (takeWhile (\<lambda>x. x \<noteq> None) (map Some ms @ None # xs)) = ms"
  by (induction ms) simp_all

lemma open_queue: "wf_mailbox mb \<Longrightarrow> \<not> mb_closed mb \<Longrightarrow> mb_queue mb = map Some (waiting mb)"
  by (auto simp: wf_mailbox_def)

lemma wf_new_mailbox [simp]: "wf_mailbox (new_mailbox name maxsize)" "waiting (new_mailbox name maxsize) = []"
  by (simp_all add: wf_mailbox_def waiting_def new_mailbox_def)

lemma post_wf:
  assumes "wf_mailbox mb"
  shows "wf_mailbox (fst (mb_post event mb))"
proof (cases "event = None \<or> mb_closed mb \<or> mb_maxsize mb \<noteq> 0 \<and> mb_maxsize mb \<le> mb_depth mb")
  case True
  with assms show ?thesis
    by (auto simp: mb_post_def mb_drop_def wf_mailbox_def waiting_def split: option.split)
next
  case False
  then obtain m where m: "event = Some m" by auto
  have q: "mb_queue mb = map Some (waiting mb)" using open_queue [OF assms] False by simp
  then have "mb_queue mb @ [Some m] = map Some (waiting mb @ [m])" by simp
  then have w: "map the (takeWhile (\<lambda>x. x \<noteq> None) (mb_queue mb @ [Some m])) = waiting mb @ [m]"
    by (simp only: waiting_Somes)
  have "mb_depth mb = length (waiting mb)" using q by (metis length_map mb_depth_def)
  with False assms q w show ?thesis
    by (auto simp: mb_post_def m wf_mailbox_def waiting_def [of "mb\<lparr>mb_queue := _, mb_posted := _\<rparr>"]
        waiting_def [of "mb\<lparr>mb_queue := _, mb_posted := _, mb_high_water := _\<rparr>"] mb_depth_def Let_def)
qed

lemma post_contents:
  assumes "wf_mailbox mb" and "mb_post (Some m) mb = ok mb'"
  shows "\<not> mb_closed mb \<and> mb_closed mb' = mb_closed mb \<and> mb_maxsize mb' = mb_maxsize mb \<and>
    (if mb_maxsize mb \<noteq> 0 \<and> mb_maxsize mb \<le> length (waiting mb)
     then waiting mb' = waiting mb \<and> mb_dropped mb' = mb_dropped mb + 1 \<and> mb_posted mb' = mb_posted mb
     else waiting mb' = waiting mb @ [m] \<and> mb_dropped mb' = mb_dropped mb \<and> mb_posted mb' = mb_posted mb + 1)"
proof -
  have opened: "\<not> mb_closed mb" using assms(2) by (auto simp: mb_post_def)
  have q: "mb_queue mb = map Some (waiting mb)" using open_queue [OF assms(1) opened] .
  then have depth: "mb_depth mb = length (waiting mb)" by (metis length_map mb_depth_def)
  have "mb_queue mb @ [Some m] = map Some (waiting mb @ [m])" using q by simp
  then have "map the (takeWhile (\<lambda>x. x \<noteq> None) (mb_queue mb @ [Some m])) = waiting mb @ [m]"
    by (simp only: waiting_Somes)
  with opened depth assms(2) show ?thesis
    by (auto simp: mb_post_def mb_drop_def Let_def waiting_def [of mb'] waiting_def [of "mb\<lparr>mb_dropped := _\<rparr>"]
        split: if_splits) (simp_all add: waiting_def)
qed

lemma close_wf:
  assumes "wf_mailbox mb"
  shows "wf_mailbox (mb_close mb)" and "waiting (mb_close mb) = waiting mb"
proof -
  have "wf_mailbox (mb_close mb) \<and> waiting (mb_close mb) = waiting mb"
  proof (cases "mb_closed mb")
    case False
    have q: "mb_queue mb = map Some (waiting mb)" using open_queue [OF assms False] .
    have "waiting (mb_close mb) = map the (takeWhile (\<lambda>x. x \<noteq> None) (map Some (waiting mb) @ None # []))"
      using False q by (simp add: mb_close_def waiting_def)
    then have w: "waiting (mb_close mb) = waiting mb" by (simp only: waiting_Somes)
    moreover have "mb_queue (mb_close mb) = map Some (waiting (mb_close mb)) @ [None]"
      unfolding w using False q by (simp add: mb_close_def)
    ultimately show ?thesis using assms False by (auto simp: wf_mailbox_def mb_close_def)
  qed (use assms in \<open>simp add: mb_close_def\<close>)
  then show "wf_mailbox (mb_close mb)" "waiting (mb_close mb) = waiting mb" by simp_all
qed

lemma take_waiting:
  assumes "wf_mailbox mb" and "waiting mb = m # ms"
  shows "\<exists>mb'. mb_take mb = Some (Some m, mb') \<and> waiting mb' = ms \<and> wf_mailbox mb' \<and>
    mb' = mb\<lparr>mb_queue := mb_queue mb'\<rparr>"
proof -
  consider "mb_queue mb = map Some (m # ms)" | "mb_closed mb" "mb_queue mb = map Some (m # ms) @ [None]"
    using assms by (auto simp: wf_mailbox_def)
  then obtain tail where q: "mb_queue mb = Some m # map Some ms @ tail"
    and tail: "tail = [] \<or> mb_closed mb \<and> tail = [None]" by cases auto
  let ?mb = "mb\<lparr>mb_queue := map Some ms @ tail\<rparr>"
  have w: "waiting ?mb = ms"
    using tail waiting_Somes(1) [of ms] waiting_Somes(2) [of ms "[]"] by (auto simp: waiting_def)
  have "wf_mailbox ?mb"
    using assms(1,2) tail unfolding wf_mailbox_def w by auto
  with w q show ?thesis by (auto simp: mb_take_def)
qed

lemma take_empty:
  assumes "wf_mailbox mb" and "waiting mb = []"
  shows "mb_take mb = None \<or> (\<exists>mb'. mb_take mb = Some (None, mb') \<and> mb_closed mb)"
  using assms by (auto simp: wf_mailbox_def mb_take_def)

section \<open>What a consumer relies on\<close>

text \<open>A consumer loop: take until there is nothing left or the sentinel arrives.\<close>

fun take_all :: "('q \<Rightarrow> ('m option \<times> 'q) option) \<Rightarrow> nat \<Rightarrow> 'q \<Rightarrow> 'm list" where
  "take_all receive 0 q = []"
| "take_all receive (Suc n) q =
     (case receive q of
        Some (Some m, q') \<Rightarrow> m # take_all receive n q'
      | _ \<Rightarrow> [])"

locale channel =
  fixes inv :: "'q \<Rightarrow> bool"
    and contents :: "'q \<Rightarrow> 'm list"
    and post :: "'m \<Rightarrow> 'q \<Rightarrow> 'q outcome"
    and receive :: "'q \<Rightarrow> ('m option \<times> 'q) option"
  assumes post_inv: "inv q \<Longrightarrow> inv (fst (post m q))"
    and post_appends: "inv q \<Longrightarrow> post m q = ok q' \<Longrightarrow> contents q' = contents q @ [m] \<or> contents q' = contents q"
    and post_refused: "inv q \<Longrightarrow> post m q = raise e q' \<Longrightarrow> q' = q"
    and take_head: "inv q \<Longrightarrow> contents q = m # ms \<Longrightarrow>
      \<exists>q'. receive q = Some (Some m, q') \<and> contents q' = ms \<and> inv q'"
    and take_none: "inv q \<Longrightarrow> contents q = [] \<Longrightarrow> \<nexists>m q'. receive q = Some (Some m, q')"
begin

text \<open>The consumer sees what is waiting, in order, each message once.\<close>

lemma take_all_contents: "inv q \<Longrightarrow> length (contents q) \<le> n \<Longrightarrow> take_all receive n q = contents q"
proof (induction n arbitrary: q)
  case (Suc n)
  show ?case
  proof (cases "contents q")
    case Nil
    then show ?thesis using take_none [OF Suc.prems(1)]
      by (auto split: option.splits)
  next
    case (Cons m ms)
    then obtain q' where "receive q = Some (Some m, q')" "contents q' = ms" "inv q'"
      using take_head [OF Suc.prems(1)] by blast
    with Cons Suc show ?thesis by simp
  qed
qed simp

text \<open>Nothing a producer does reorders or removes what is already waiting.\<close>

lemma post_keeps_waiting: "inv q \<Longrightarrow> \<exists>ms. contents (fst (post m q)) = contents q @ ms"
  using post_appends [of q m] post_refused [of q m]
  by (cases "post m q" rule: outcome_cases) fastforce+

end

interpretation mailbox: channel wf_mailbox waiting "\<lambda>m. mb_post (Some m)" mb_take
proof unfold_locales
  fix q q' :: "'a mailbox" and m ms e
  show "wf_mailbox q \<Longrightarrow> wf_mailbox (fst (mb_post (Some m) q))" by (rule post_wf)
  show "wf_mailbox q \<Longrightarrow> mb_post (Some m) q = ok q' \<Longrightarrow> waiting q' = waiting q @ [m] \<or> waiting q' = waiting q"
    using post_contents [of q m q'] by (auto split: if_splits)
  show "mb_post (Some m) q = raise e q' \<Longrightarrow> q' = q"
    by (auto simp: mb_post_def Let_def split: if_splits)
  show "wf_mailbox q \<Longrightarrow> waiting q = m # ms \<Longrightarrow>
      \<exists>q'. mb_take q = Some (Some m, q') \<and> waiting q' = ms \<and> wf_mailbox q'"
    using take_waiting [of q m ms] by blast
  show "wf_mailbox q \<Longrightarrow> waiting q = [] \<Longrightarrow> \<nexists>m q'. mb_take q = Some (Some m, q')"
    using take_empty [of q] by auto
qed

section \<open>Runs of a mailbox\<close>

text \<open>
  A run keeps what the mailbox accepted and what the consumer took beside the mailbox; posts
  that raise are caught by their producer.
\<close>

datatype 'm mb_op = Post "'m option" | Take | Close

type_synonym 'm mb_trace = "'m mailbox \<times> 'm list \<times> 'm list"

fun mb_step :: "'m mb_op \<Rightarrow> 'm mb_trace \<Rightarrow> 'm mb_trace" where
  "mb_step (Post event) (mb, accepted, taken) =
     (let mb' = fst (mb_post event mb) in
      (mb', if mb_posted mb' = mb_posted mb then accepted else accepted @ [the event], taken))"
| "mb_step Take (mb, accepted, taken) =
     (case mb_take mb of
        Some (Some m, mb') \<Rightarrow> (mb', accepted, taken @ [m])
      | Some (None, mb') \<Rightarrow> (mb', accepted, taken)
      | None \<Rightarrow> (mb, accepted, taken))"
| "mb_step Close (mb, accepted, taken) = (mb_close mb, accepted, taken)"

definition mb_run :: "'m mb_op list \<Rightarrow> 'm mb_trace \<Rightarrow> 'm mb_trace" where
  "mb_run ops t = fold mb_step ops t"

definition trace_ok :: "nat \<Rightarrow> 'm mb_trace \<Rightarrow> bool" where
  "trace_ok k t \<longleftrightarrow> (case t of (mb, accepted, taken) \<Rightarrow>
    wf_mailbox mb \<and> mb_maxsize mb = k \<and> taken @ waiting mb = accepted \<and> mb_posted mb = length accepted)"

lemma trace_ok_step:
  assumes "trace_ok k t"
  shows "trace_ok k (mb_step x t)"
proof -
  obtain mb accepted taken where t: "t = (mb, accepted, taken)" by (cases t) auto
  have ok: "wf_mailbox mb" "mb_maxsize mb = k" "taken @ waiting mb = accepted"
    "mb_posted mb = length accepted" using assms by (auto simp: t trace_ok_def)
  show ?thesis
  proof (cases x)
    case (Post event)
    show ?thesis
    proof (cases "mb_post event mb" rule: outcome_cases)
      case (ok mb')
      then obtain m where m: "event = Some m" by (cases event) (auto simp: mb_post_def)
      note c = post_contents [OF \<open>wf_mailbox mb\<close> ok [unfolded m]]
      have "wf_mailbox mb'" using post_wf [OF \<open>wf_mailbox mb\<close>, of event] ok by simp
      with c assms ok show ?thesis by (auto simp: Post t trace_ok_def m split: if_splits)
    next
      case (raise e mb')
      then have "mb' = mb" by (auto simp: mb_post_def Let_def split: option.splits if_splits)
      with assms raise show ?thesis by (simp add: Post t)
    qed
  next
    case Take
    show ?thesis
    proof (cases "waiting mb")
      case Nil
      show ?thesis
      proof (cases "mb_take mb")
        case (Some p)
        then obtain mb' where p: "p = (None, mb')" and q: "mb_queue mb = None # mb_queue mb'"
            "mb' = mb\<lparr>mb_queue := mb_queue mb'\<rparr>"
          using take_empty [OF ok(1) Nil] by (auto simp: mb_take_def split: list.splits)
        have "mb_queue mb' = []" using ok(1) Nil q by (auto simp: wf_mailbox_def)
        then have mb': "mb' = mb\<lparr>mb_queue := []\<rparr>" using q by simp
        then have "wf_mailbox mb'" using ok(1) Nil by (simp add: wf_mailbox_def waiting_def)
        with mb' Some p ok Nil show ?thesis by (simp add: Take t trace_ok_def waiting_def)
      qed (use assms in \<open>simp add: Take t\<close>)
    next
      case (Cons m ms)
      then obtain mb' where "mb_take mb = Some (Some m, mb')" "waiting mb' = ms" "wf_mailbox mb'"
          "mb' = mb\<lparr>mb_queue := mb_queue mb'\<rparr>"
        using take_waiting [OF ok(1) Cons] by blast
      moreover from this(4) have "mb_maxsize mb' = mb_maxsize mb \<and> mb_posted mb' = mb_posted mb"
        by (metis mailbox.ext_inject mailbox.surjective mailbox.update_convs(3))
      ultimately show ?thesis using ok Cons by (simp add: Take t trace_ok_def)
    qed
  next
    case Close
    have "mb_maxsize (mb_close mb) = mb_maxsize mb \<and> mb_posted (mb_close mb) = mb_posted mb"
      by (simp add: mb_close_def)
    with ok close_wf [OF ok(1)] show ?thesis by (simp add: Close t trace_ok_def)
  qed
qed

section \<open>Properties\<close>

text \<open>
  A mailbox is first-in first-out and accounts for everything. Whatever is posted, taken and
  closed in whatever order, what the consumer has taken followed by what is still waiting is
  exactly what was accepted, in order; the posted counter is its length; an uncapped mailbox
  drops nothing and a capped one never held more than its cap; and when the consumer next gets
  the sentinel, it has taken everything that was ever accepted.
\<close>

theorem mailbox_is_fifo:
  assumes "mb_run ops (new_mailbox name k, [], []) = (mb, accepted, taken)"
  shows "taken @ waiting mb = accepted \<and> mb_posted mb = length accepted \<and>
    (if k = 0 then mb_dropped mb = 0 else mb_high_water mb \<le> k) \<and>
    length (waiting mb) \<le> mb_high_water mb \<and>
    (case mb_take mb of Some (None, mb') \<Rightarrow> taken = accepted | _ \<Rightarrow> True)"
proof -
  have "trace_ok k (mb_run ops t)" if "trace_ok k t" for t
    using that by (induction ops arbitrary: t) (simp_all add: mb_run_def trace_ok_step)
  from this [of "(new_mailbox name k, [], [])"] assms
  have ok: "wf_mailbox mb" "mb_maxsize mb = k" "taken @ waiting mb = accepted"
    "mb_posted mb = length accepted"
    by (simp_all add: trace_ok_def) (simp_all add: new_mailbox_def)
  have "taken = accepted" if "mb_take mb = Some (None, mb')" for mb'
  proof (cases "waiting mb")
    case (Cons m ms)
    with take_waiting [OF ok(1)] that show ?thesis by auto
  qed (use ok in simp)
  with ok show ?thesis by (auto simp: wf_mailbox_def split: option.splits)
qed

theorem mailbox_is_fifo_witness:
  "\<exists>mb accepted taken. mb_run [Post (Some (1::nat)), Post None, Post (Some 2), Post (Some 3), Take, Close,
      Post (Some 4)] (new_mailbox ''broker'' 2, [], []) = (mb, accepted, taken) \<and>
    accepted = [1, 2] \<and> taken @ waiting mb = [1, 2]"
proof -
  obtain mb accepted taken where run: "mb_run [Post (Some (1::nat)), Post None, Post (Some 2),
      Post (Some 3), Take, Close, Post (Some 4)] (new_mailbox ''broker'' 2, [], []) = (mb, accepted, taken)"
    by (metis prod_cases3)
  moreover have "accepted = [1, 2]"
    using run by (simp add: mb_run_def new_mailbox_def mb_post_def mb_depth_def mb_drop_def
        mb_take_def mb_close_def Let_def)
  ultimately show ?thesis using mailbox_is_fifo [OF run] by blast
qed

end
