(* ===== verification/Actors.thy ===== *)
theory Actors
  imports Messaging
begin

text \<open>
  The two actors of a cycle: \<^verbatim>\<open>vmtrader/broker/actor.py\<close>, which carries decisions out, and
  \<^verbatim>\<open>vmtrader/alpha_model/base_strategy_executor.py\<close>, which makes them, with the barrier between
  them from \<^verbatim>\<open>vmtrader/trading/live.py\<close>. The account the broker writes is a type parameter
  \<open>'s\<close>, the strategy's own state a type parameter \<open>'t\<close>; the callables the session binds in
  are arguments. The properties show that the threaded mode does what the synchronous mode
  does, and that a strategy that overruns its budget cannot trade.
\<close>

section \<open>What a consumer loop does not absorb\<close>

text \<open>
  The tuple \<^verbatim>\<open>ENDS_THE_CYCLE\<close>: the stop signals and misrouted messages. An exit (\<open>Interrupted\<close>) is
  not in it, and as it is no \<^verbatim>\<open>Exception\<close> neither handler of a loop names it: it leaves the loop.
\<close>

fun ends_the_cycle :: "exn \<Rightarrow> bool" where
  "ends_the_cycle (KillSwitchEngaged _) = True"
| "ends_the_cycle (TradingHalted _) = True"
| "ends_the_cycle Misrouted = True"
| "ends_the_cycle _ = False"

section \<open>The broker actor\<close>

definition broker_mailbox_maxsize :: nat where
  "broker_mailbox_maxsize = 200"

record broker_actor =
  ba_synchronous :: bool
  ba_mailbox :: "trading_event mailbox"
  ba_attempted :: nat
  ba_completed :: nat
  ba_commands_refused :: bool

definition new_broker_actor :: "bool \<Rightarrow> broker_actor" where
  "new_broker_actor synchronous =
    \<lparr>ba_synchronous = synchronous, ba_mailbox = new_mailbox ''broker'' broker_mailbox_maxsize,
     ba_attempted = 0, ba_completed = 0, ba_commands_refused = False\<rparr>"

text \<open>The callables bound into the broker actor.\<close>

record 's broker_handlers =
  bh_size_and_submit :: "target_weights \<Rightarrow> 's \<Rightarrow> 's outcome"
  bh_on_error :: "(exn \<Rightarrow> 's \<Rightarrow> 's outcome) option"

type_synonym 's broker_side = "broker_actor \<times> 's"

definition ba_dispatch :: "'s broker_handlers \<Rightarrow> trading_event \<Rightarrow> 's broker_side
    \<Rightarrow> 's broker_side outcome" where
  "ba_dispatch h message b =
    (case message of
       TargetWeights cmd \<Rightarrow>
         (let a = (fst b)\<lparr>ba_attempted := ba_attempted (fst b) + 1\<rparr> in
          then_do (map_outcome (Pair a) (bh_size_and_submit h cmd (snd b)))
            (\<lambda>b. ok ((fst b)\<lparr>ba_completed := ba_completed (fst b) + 1\<rparr>, snd b)))
     | _ \<Rightarrow> raise Misrouted b)"

definition ba_carry_out :: "'s broker_handlers \<Rightarrow> trading_event \<Rightarrow> 's broker_side
    \<Rightarrow> 's broker_side outcome" where
  "ba_carry_out h message b =
    (let r = ba_dispatch h message b in
     case snd r of
       None \<Rightarrow> r
     | Some e \<Rightarrow>
         if ends_the_cycle e \<or> e = Interrupted then r
         else (case bh_on_error h of
             None \<Rightarrow> ok (fst r)
           | Some f \<Rightarrow> map_outcome (Pair (fst (fst r))) (f e (snd (fst r)))))"

definition ba_post_command :: "'s broker_handlers \<Rightarrow> trading_event \<Rightarrow> 's broker_side
    \<Rightarrow> 's broker_side outcome" where
  "ba_post_command h command b =
    (if ba_commands_refused (fst b) then raise MailboxClosed b
     else if ba_synchronous (fst b) then ba_carry_out h command b
     else map_outcome (\<lambda>mb. ((fst b)\<lparr>ba_mailbox := mb\<rparr>, snd b))
       (mb_post (Some command) (ba_mailbox (fst b))))"

text \<open>Each iteration takes one item off the queue, which no handler puts anything into.\<close>

definition ba_queue_length :: "'s broker_side \<Rightarrow> nat" where
  "ba_queue_length b = length (mb_queue (ba_mailbox (fst b)))"

lemma carry_out_mailbox [simp]: "ba_mailbox (fst (fst (ba_carry_out h m b))) = ba_mailbox (fst b)"
  by (auto simp: ba_carry_out_def ba_dispatch_def Let_def then_do_def split: trading_event.splits option.splits)

function ba_drain :: "'s broker_handlers \<Rightarrow> 's broker_side \<Rightarrow> 's broker_side outcome" where
  "ba_drain h b =
    (if mb_depth (ba_mailbox (fst b)) = 0 then ok b
     else (case mb_take (ba_mailbox (fst b)) of
         None \<Rightarrow> ok b
       | Some (None, mb) \<Rightarrow> ok ((fst b)\<lparr>ba_mailbox := mb\<rparr>, snd b)
       | Some (Some message, mb) \<Rightarrow>
           (let r = ba_carry_out h message ((fst b)\<lparr>ba_mailbox := mb\<rparr>, snd b) in
            case snd r of None \<Rightarrow> ba_drain h (fst r) | Some e \<Rightarrow> r)))"
  by pat_completeness auto
termination
  by (relation "measure (\<lambda>(h, b). ba_queue_length b)")
    (auto simp: ba_queue_length_def mb_take_def split: list.splits)

declare ba_drain.simps [simp del]

definition ba_refuse_commands :: "'s broker_side \<Rightarrow> 's broker_side" where
  "ba_refuse_commands b = ((fst b)\<lparr>ba_commands_refused := True\<rparr>, snd b)"

section \<open>The strategy executor\<close>

text \<open>
  The states a threaded executor goes through; a synchronous one has no thread. The outbox is
  the broker actor's door, so the executor's state includes the broker's side.
\<close>

record executor =
  ex_synchronous :: bool
  ex_mailbox :: "trading_event mailbox"
  ex_start_called :: bool
  ex_alive :: bool
  ex_ended_by :: "exn option"

record 't strategy =
  st_decide :: "timestamp \<Rightarrow> exn + target_weights"
  st_on_fill :: "trading_event \<Rightarrow> 't \<Rightarrow> 't outcome"
  st_on_error :: "(exn \<Rightarrow> exn option) option"

type_synonym ('s, 't) cycle = "executor \<times> 't \<times> 's broker_side"

text \<open>The constructor refuses a broker actor of the other mode.\<close>

definition fresh_executor :: "bool \<Rightarrow> executor" where
  "fresh_executor synchronous =
    \<lparr>ex_synchronous = synchronous, ex_mailbox = new_mailbox ''strategy-executor'' 0,
     ex_start_called = False, ex_alive = False, ex_ended_by = None\<rparr>"

definition new_executor :: "bool \<Rightarrow> broker_actor \<Rightarrow> exn + executor" where
  "new_executor synchronous a =
    (if ba_synchronous a \<noteq> synchronous then Inl RuntimeError else Inr (fresh_executor synchronous))"

definition ex_dispatch :: "'s broker_handlers \<Rightarrow> 't strategy \<Rightarrow> trading_event \<Rightarrow> ('s, 't) cycle
    \<Rightarrow> ('s, 't) cycle outcome" where
  "ex_dispatch h st event c =
    (case c of (x, t, b) \<Rightarrow>
      (case event of
         RebalanceDue dt \<Rightarrow>
           with_result (st_decide st dt)
             (\<lambda>cmd. map_outcome (\<lambda>b. (x, t, b)) (ba_post_command h (TargetWeights cmd) b)) c
       | OrderFilled _ _ _ _ _ _ _ \<Rightarrow> map_outcome (\<lambda>t. (x, t, b)) (st_on_fill st event t)
       | _ \<Rightarrow> raise Misrouted c))"

text \<open>
  \<^verbatim>\<open>on_error\<close> logs (it returns) or escalates (it raises again): \<open>st_on_error\<close> gives the
  exception it raises, if any.
\<close>

definition ex_end :: "exn \<Rightarrow> ('s, 't) cycle \<Rightarrow> ('s, 't) cycle" where
  "ex_end e c = (case c of (x, t, b) \<Rightarrow>
     (x\<lparr>ex_ended_by := Some e, ex_mailbox := mb_close (ex_mailbox x)\<rparr>, t, b))"

definition ex_handle :: "'s broker_handlers \<Rightarrow> 't strategy \<Rightarrow> trading_event \<Rightarrow> ('s, 't) cycle
    \<Rightarrow> ('s, 't) cycle outcome" where
  "ex_handle h st event c =
    (let r = ex_dispatch h st event c; sync = ex_synchronous (fst c) in
     case snd r of
       None \<Rightarrow> r
     | Some e \<Rightarrow>
         if e = Interrupted then r
         else if ends_the_cycle e then (if sync then r else ok (ex_end e (fst r)))
         else (case st_on_error st of
             None \<Rightarrow> ok (fst r)
           | Some f \<Rightarrow>
               (case f e of
                  None \<Rightarrow> ok (fst r)
                | Some e' \<Rightarrow>
                    if sync \<or> e' = Interrupted then raise e' (fst r) else ok (ex_end e' (fst r)))))"

definition ex_start :: "('s, 't) cycle \<Rightarrow> ('s, 't) cycle outcome" where
  "ex_start c = (case c of (x, t, b) \<Rightarrow>
    if ex_synchronous x then raise RuntimeError c
    else ok (x\<lparr>ex_start_called := True, ex_alive := True\<rparr>, t, b))"

definition ex_post_event :: "'s broker_handlers \<Rightarrow> 't strategy \<Rightarrow> trading_event \<Rightarrow> ('s, 't) cycle
    \<Rightarrow> ('s, 't) cycle outcome" where
  "ex_post_event h st event c = (case c of (x, t, b) \<Rightarrow>
    if ex_synchronous x then ex_handle h st event c
    else if \<not> ex_alive x then raise RuntimeError c
    else map_outcome (\<lambda>mb. (x\<lparr>ex_mailbox := mb\<rparr>, t, b)) (mb_post (Some event) (ex_mailbox x)))"

text \<open>
  The thread's loop, until the sentinel; on an empty queue it blocks. Taking an event off the
  queue, or closing an open mailbox, makes the measure smaller. What leaves a handler ends the
  thread, and nothing of it reaches the session: \<^verbatim>\<open>threading\<close> reports it, or for \<^verbatim>\<open>SystemExit\<close> says nothing.
\<close>

definition ex_work :: "('s, 't) cycle \<Rightarrow> nat" where
  "ex_work c = 2 * length (mb_queue (ex_mailbox (fst c))) + (if mb_closed (ex_mailbox (fst c)) then 0 else 1)"

lemma dispatch_executor [simp]: "fst (fst (ex_dispatch h st event c)) = fst c"
proof -
  obtain x t b where "c = (x, t, b)" by (cases c) auto
  then show ?thesis
    by (cases event) (auto simp: ex_dispatch_def with_result_def map_outcome_def split: sum.splits)
qed

lemma work_handle: "ex_work (fst (ex_handle h st event c)) \<le> ex_work c + 1"
proof -
  have "ex_work (ex_end e (fst (ex_dispatch h st event c))) \<le> ex_work c + 1" for e
    by (cases "fst (ex_dispatch h st event c)")
      (use dispatch_executor [of h st event c] in \<open>auto simp: ex_work_def ex_end_def mb_close_def\<close>)
  moreover have "ex_work (fst (ex_dispatch h st event c)) = ex_work c" by (simp add: ex_work_def)
  ultimately show ?thesis
    by (auto simp: ex_handle_def Let_def split: option.splits)
qed

lemma take_handle_decreases:
  assumes "mb_take (ex_mailbox (fst c)) = Some (Some event, mb)"
  shows "ex_work (fst (ex_handle h st event ((fst c)\<lparr>ex_mailbox := mb\<rparr>, snd c))) < ex_work c"
proof -
  have "ex_work ((fst c)\<lparr>ex_mailbox := mb\<rparr>, snd c) + 2 = ex_work c"
    using assms by (auto simp: ex_work_def mb_take_def split: list.splits)
  with work_handle [of h st event "((fst c)\<lparr>ex_mailbox := mb\<rparr>, snd c)"] show ?thesis by linarith
qed

function ex_run :: "'s broker_handlers \<Rightarrow> 't strategy \<Rightarrow> ('s, 't) cycle \<Rightarrow> ('s, 't) cycle outcome" where
  "ex_run h st c =
    (case mb_take (ex_mailbox (fst c)) of
       None \<Rightarrow> ok c
     | Some (None, mb) \<Rightarrow> ok ((fst c)\<lparr>ex_mailbox := mb, ex_alive := False\<rparr>, snd c)
     | Some (Some event, mb) \<Rightarrow>
         (let r = ex_handle h st event ((fst c)\<lparr>ex_mailbox := mb\<rparr>, snd c) in
          case snd r of
            None \<Rightarrow> ex_run h st (fst r)
          | Some e \<Rightarrow> ok ((fst (fst r))\<lparr>ex_alive := False\<rparr>, snd (fst r))))"
  by pat_completeness auto
termination
  by (relation "measure (\<lambda>(h, st, c). ex_work c)") (auto intro: take_handle_decreases)

declare ex_run.simps [simp del]

text \<open>
  \<^verbatim>\<open>stop(timeout)\<close>: the mailbox is closed; a synchronous executor, or one never started, is
  finished. Otherwise the join waits for the loop. \<open>in_time\<close> says whether the loop ends
  within the timeout; if it does not, the thread is still inside its handler and has not
  posted anything yet.
\<close>

definition ex_stop :: "bool \<Rightarrow> 's broker_handlers \<Rightarrow> 't strategy \<Rightarrow> ('s, 't) cycle \<Rightarrow> ('s, 't) cycle outcome" where
  "ex_stop in_time h st c =
    (let c = ((fst c)\<lparr>ex_mailbox := mb_close (ex_mailbox (fst c))\<rparr>, snd c) in
     if ex_synchronous (fst c) then ok c
     else if \<not> ex_start_called (fst c) then ok c
     else if in_time then ex_run h st c else ok c)"

section \<open>The barrier\<close>

text \<open>
  \<^verbatim>\<open>LiveTradingSession._decide_and_submit\<close> from the freshly built actors on. What was posted is
  stopped in a \<^verbatim>\<open>finally\<close>, so an exception of \<^verbatim>\<open>start\<close> or \<^verbatim>\<open>post_event\<close> passes through after
  the barrier.
\<close>

definition decide_and_submit :: "bool \<Rightarrow> 's broker_handlers \<Rightarrow> 't strategy \<Rightarrow> timestamp
    \<Rightarrow> ('s, 't) cycle \<Rightarrow> ('s, 't) cycle outcome" where
  "decide_and_submit in_time h st now c =
    (let started = (if ex_synchronous (fst c) then ok c else ex_start c);
         posted = then_do started (ex_post_event h st (RebalanceDue now));
         stopped = ex_stop in_time h st (fst posted) in
     case snd posted of
       Some e \<Rightarrow> raise e (fst stopped)
     | None \<Rightarrow> then_do stopped (\<lambda>c.
         let c = (fst c, fst (snd c), ba_refuse_commands (snd (snd c))) in
         case ex_ended_by (fst c) of
           Some e \<Rightarrow> raise e c
         | None \<Rightarrow> map_outcome (\<lambda>b. (fst c, fst (snd c), b)) (ba_drain h (snd (snd c)))))"

definition traded_in :: "('s, 't) cycle \<Rightarrow> bool" where
  "traded_in c \<longleftrightarrow> 0 < ba_completed (fst (snd (snd c)))"

text \<open>\<^verbatim>\<open>_actors\<close>: both actors are built in the session's one mode.\<close>

definition fresh_actors :: "bool \<Rightarrow> 't \<Rightarrow> 's \<Rightarrow> ('s, 't) cycle" where
  "fresh_actors synchronous t s = (fresh_executor synchronous, t, new_broker_actor synchronous, s)"

section \<open>One cycle\<close>

text \<open>What a cycle leaves to the session: the account, the strategy's state, the exception and whether it traded.\<close>

definition cycle_result :: "('s, 't) cycle outcome \<Rightarrow> 's \<times> 't \<times> exn option \<times> bool" where
  "cycle_result r = (snd (snd (snd (fst r))), fst (snd (fst r)), snd r, traded_in (fst r))"

text \<open>A decision in the executor, carried out by the broker actor, in one step.\<close>

lemmas cycle_defs = fresh_actors_def fresh_executor_def new_broker_actor_def ex_start_def
  ex_post_event_def ex_stop_def ba_refuse_commands_def

lemma sync_cycle:
  "cycle_result (decide_and_submit in_time h st now (fresh_actors True t s)) =
    cycle_result (ex_handle h st (RebalanceDue now) (fresh_actors True t s))"
proof -
  let ?r = "ex_handle h st (RebalanceDue now) (fresh_actors True t s)"
  have ex: "ex_ended_by (fst (fst ?r)) = None" "ex_synchronous (fst (fst ?r))"
    and mb: "mb_queue (ba_mailbox (fst (snd (snd (fst ?r))))) = []"
    by (auto simp: ex_handle_def ex_dispatch_def ba_post_command_def cycle_defs new_mailbox_def
        with_result_def Let_def map_outcome_def outcome_defs split: sum.splits option.splits)
  show ?thesis
  proof (cases ?r rule: outcome_cases)
    case (ok c)
    obtain x t' b where c: "c = (x, t', b)" by (cases c) auto
    with ok ex mb show ?thesis
      by (simp add: decide_and_submit_def ex_post_event_def [of _ _ _ "fresh_actors True t s"]
          Let_def case_prod_unfold)
        (simp add: cycle_defs ba_drain.simps mb_depth_def cycle_result_def traded_in_def)
  next
    case (raise e c)
    with ex show ?thesis
      by (simp add: decide_and_submit_def ex_post_event_def [of _ _ _ "fresh_actors True t s"] Let_def
          case_prod_unfold) (simp add: cycle_defs cycle_result_def traded_in_def)
  qed
qed

text \<open>Both modes come down to this: the decision, and its execution on the account.\<close>

definition carried :: "'s broker_handlers \<Rightarrow> target_weights \<Rightarrow> 't \<Rightarrow> 's \<Rightarrow> 's \<times> 't \<times> exn option \<times> bool" where
  "carried h cmd t s =
    (let r = bh_size_and_submit h cmd s in
     case snd r of
       None \<Rightarrow> (fst r, t, None, True)
     | Some e \<Rightarrow>
         if ends_the_cycle e \<or> e = Interrupted then (fst r, t, Some e, False)
         else (case bh_on_error h of
             None \<Rightarrow> (fst r, t, None, False)
           | Some f \<Rightarrow> (fst (f e (fst r)), t, snd (f e (fst r)), False)))"

definition undecided :: "'t strategy \<Rightarrow> exn \<Rightarrow> 't \<Rightarrow> 's \<Rightarrow> 's \<times> 't \<times> exn option \<times> bool" where
  "undecided st e t s =
    (s, t, if ends_the_cycle e \<or> e = Interrupted then Some e
       else case st_on_error st of None \<Rightarrow> None | Some f \<Rightarrow> f e, False)"

text \<open>The strategy ends in an exit: its own, or one its error policy makes of a failure.\<close>

definition strategy_exits :: "'t strategy \<Rightarrow> timestamp \<Rightarrow> bool" where
  "strategy_exits st now \<longleftrightarrow> (case st_decide st now of
     Inr cmd \<Rightarrow> False
   | Inl e \<Rightarrow> e = Interrupted \<or>
       \<not> ends_the_cycle e \<and> (case st_on_error st of None \<Rightarrow> False | Some f \<Rightarrow> f e = Some Interrupted))"

lemma undecided_exit:
  "st_decide st now = Inl e \<Longrightarrow> strategy_exits st now \<Longrightarrow> undecided st e t s = (s, t, Some Interrupted, False)"
  by (auto simp: undecided_def strategy_exits_def split: option.splits)

lemma carry_out_carried:
  assumes "ba_attempted a = 0" and "ba_completed a = 0"
  shows "\<exists>a' s' e. ba_carry_out h (TargetWeights cmd) (a, s) = ((a', s'), e) \<and>
    (s', t, e, 0 < ba_completed a') = carried h cmd t s \<and> ba_mailbox a' = ba_mailbox a"
  using assms
  by (cases "bh_size_and_submit h cmd s" rule: outcome_cases)
    (auto simp: ba_carry_out_def ba_dispatch_def carried_def Let_def map_outcome_def outcome_defs
      split: option.splits)

lemma threaded_cycle:
  "cycle_result (decide_and_submit True h st now (fresh_actors False t s)) =
    (if strategy_exits st now then (s, t, None, False)
     else case st_decide st now of Inl e \<Rightarrow> undecided st e t s | Inr cmd \<Rightarrow> carried h cmd t s)"
proof (cases "st_decide st now")
  case (Inl e)
  then show ?thesis
    by (auto simp: decide_and_submit_def cycle_defs new_mailbox_def mb_post_def mb_depth_def mb_close_def
        ex_run.simps mb_take_def ex_handle_def ex_dispatch_def ex_end_def ba_drain.simps cycle_result_def
        traded_in_def undecided_def strategy_exits_def Let_def split: option.splits)
next
  case (Inr cmd)
  let ?a = "(new_broker_actor False)\<lparr>ba_mailbox := (new_mailbox ''broker'' broker_mailbox_maxsize)
      \<lparr>mb_posted := 1, mb_high_water := 1\<rparr>, ba_commands_refused := True\<rparr>"
  obtain a' s' e where run: "ba_carry_out h (TargetWeights cmd) (?a, s) = ((a', s'), e)"
      "(s', t, e, 0 < ba_completed a') = carried h cmd t s" "ba_mailbox a' = ba_mailbox ?a"
    using carry_out_carried [of ?a h cmd s t] by (auto simp: new_broker_actor_def)
  have "mb_queue (ba_mailbox a') = []" using run(3) by (simp add: new_mailbox_def)
  then have stop: "ba_drain h (a', s') = ok (a', s')" by (simp add: ba_drain.simps mb_depth_def)
  have "cycle_result (decide_and_submit True h st now (fresh_actors False t s)) =
      (s', t, e, 0 < ba_completed a')"
    using run(1) stop
    by (simp add: decide_and_submit_def cycle_defs Inr new_mailbox_def mb_post_def mb_depth_def
        mb_close_def ex_run.simps mb_take_def ex_handle_def ex_dispatch_def ba_post_command_def
        broker_mailbox_maxsize_def ba_drain.simps cycle_result_def traded_in_def Let_def
        split: option.splits)
  with run(2) Inr show ?thesis by (simp add: strategy_exits_def)
qed

lemma sync_carried:
  assumes "(\<forall>f e s. bh_on_error h = Some f \<longrightarrow> snd (f e s) = None) \<or> st_on_error st = Some Some"
  shows "cycle_result (ex_handle h st (RebalanceDue now) (fresh_actors True t s)) =
    (case st_decide st now of Inl e \<Rightarrow> undecided st e t s | Inr cmd \<Rightarrow> carried h cmd t s)"
proof (cases "st_decide st now")
  case (Inl e)
  then show ?thesis
    by (auto simp: ex_handle_def ex_dispatch_def cycle_defs cycle_result_def traded_in_def
        undecided_def Let_def split: option.splits)
next
  case (Inr cmd)
  obtain a' s' e where run: "ba_carry_out h (TargetWeights cmd) (new_broker_actor True, s) = ((a', s'), e)"
      "(s', t, e, 0 < ba_completed a') = carried h cmd t s"
    using carry_out_carried [of "new_broker_actor True" h cmd s t] by (auto simp: new_broker_actor_def)
  have post: "ba_post_command h (TargetWeights cmd) (new_broker_actor True, s) = ((a', s'), e)"
    unfolding ba_post_command_def using run(1) by (simp add: new_broker_actor_def)
  have kept: "st_on_error st = Some Some \<or> e = None \<or> (\<exists>x. e = Some x \<and> (ends_the_cycle x \<or> x = Interrupted))"
    using assms run(2) by (auto simp: carried_def Let_def split: option.splits if_splits)
  have "cycle_result (ex_handle h st (RebalanceDue now) (fresh_actors True t s)) =
      (s', t, e, 0 < ba_completed a')"
    using post kept
    by (auto simp: ex_handle_def ex_dispatch_def fresh_actors_def fresh_executor_def Inr Let_def
        map_outcome_def cycle_result_def traded_in_def outcome_defs split: option.splits)
  with run(2) Inr show ?thesis by simp
qed

text \<open>A strategy that does not finish in time.\<close>

lemma overrun_cycle:
  "snd (decide_and_submit False h st now (fresh_actors False t s)) = None"
  "snd (fst (decide_and_submit False h st now (fresh_actors False t s))) =
     (t, (new_broker_actor False)\<lparr>ba_commands_refused := True\<rparr>, s)"
  by (simp_all add: decide_and_submit_def cycle_defs new_mailbox_def mb_post_def mb_depth_def
      mb_close_def ba_drain.simps Let_def)

section \<open>Properties\<close>

text \<open>
  C14. The two modes are one behaviour but for an exit. As long as the strategy finishes within its
  budget, a cycle whose actors run on two threads leaves the account, the strategy's state, the
  exception that reaches the session and the answer whether it traded exactly as the synchronous
  cycle does, an exit of the broker's side included: provided the session's error policy either only
  logs or raises the failure again. Where the strategy itself ends in an exit (\<^verbatim>\<open>SystemExit\<close>), the
  synchronous cycle ends with it and the threaded one ends normally, as if nothing had been decided.
\<close>

theorem threaded_cycle_is_the_synchronous_one:
  assumes "(\<forall>f e s. bh_on_error h = Some f \<longrightarrow> snd (f e s) = None) \<or> st_on_error st = Some Some"
  shows "if strategy_exits st now
    then cycle_result (decide_and_submit True h st now (fresh_actors False t s)) = (s, t, None, False) \<and>
      cycle_result (decide_and_submit True h st now (fresh_actors True t s)) = (s, t, Some Interrupted, False)
    else cycle_result (decide_and_submit True h st now (fresh_actors False t s)) =
      cycle_result (decide_and_submit True h st now (fresh_actors True t s))"
  unfolding sync_cycle sync_carried [OF assms] threaded_cycle
  using undecided_exit [of st now _ t s] by (auto simp: strategy_exits_def split: sum.split)

definition demo_handlers :: "int broker_handlers" where
  "demo_handlers = \<lparr>bh_size_and_submit = \<lambda>cmd s. if s < 0 then raise ValueError s else ok (s + 1),
     bh_on_error = Some (\<lambda>e s. ok s)\<rparr>"

definition demo_strategy :: "nat strategy" where
  "demo_strategy = \<lparr>st_decide = \<lambda>dt. if dt = 0 then Inl KeyError else Inr \<lparr>tw_dt = dt, tw_weights = []\<rparr>,
     st_on_fill = \<lambda>e t. ok (t + 1), st_on_error = None\<rparr>"

theorem threaded_cycle_is_the_synchronous_one_witness:
  "cycle_result (decide_and_submit True demo_handlers demo_strategy 5 (fresh_actors False 0 41)) =
   cycle_result (decide_and_submit True demo_handlers demo_strategy 5 (fresh_actors True 0 41))"
  using threaded_cycle_is_the_synchronous_one [of demo_handlers demo_strategy 5 0 41]
  by (simp add: demo_handlers_def demo_strategy_def strategy_exits_def)

text \<open>
  A strategy that overruns its budget cannot trade. When the join times out, the session
  reports that nothing was traded and the account is untouched; and when the strategy's thread
  finishes its decision afterwards, the command is refused at the door: the account still is
  what it was and nothing is left waiting in the broker's mailbox.
\<close>

theorem overrun_decision_never_trades:
  "cycle_result (decide_and_submit False h st now (fresh_actors False t s)) = (s, t, None, False) \<and>
   (let late = fst (ex_handle h st (RebalanceDue now)
      (fst (decide_and_submit False h st now (fresh_actors False t s)))) in
    snd (snd (snd late)) = s \<and> \<not> traded_in late \<and> waiting (ba_mailbox (fst (snd (snd late)))) = [])"
proof -
  let ?r = "decide_and_submit False h st now (fresh_actors False t s)"
  note b = overrun_cycle [of h st now t s]
  moreover have "snd (snd (fst (ex_handle h st (RebalanceDue now) (fst ?r)))) =
      ((new_broker_actor False)\<lparr>ba_commands_refused := True\<rparr>, s)"
    using b(2) by (cases "fst ?r")
      (auto simp: ex_handle_def ex_dispatch_def ba_post_command_def ex_end_def with_result_def Let_def
        split: sum.splits option.splits)
  ultimately show ?thesis
    by (simp add: cycle_result_def traded_in_def Let_def) (simp add: new_broker_actor_def)
qed

text \<open>
  The broker actor's drain carries out every waiting command, in the order they were posted,
  and one that fails does not stop the rest: when failures are only logged and none of them is
  a stop or an exit, the account ends as if the commands had been run one after the other, the queue is
  empty and every command was counted as attempted.
\<close>

theorem drain_carries_out_everything:
  assumes "wf_mailbox (ba_mailbox a)" and "waiting (ba_mailbox a) = map TargetWeights cmds"
    and "bh_on_error h = None"
    and "\<And>cmd s e. snd (bh_size_and_submit h cmd s) = Some e \<Longrightarrow> \<not> ends_the_cycle e \<and> e \<noteq> Interrupted"
  shows "\<exists>a'. ba_drain h (a, s) = ok (a', fold (\<lambda>cmd s. fst (bh_size_and_submit h cmd s)) cmds s) \<and>
    waiting (ba_mailbox a') = [] \<and> ba_attempted a' = ba_attempted a + length cmds"
  using assms(1,2)
proof (induction cmds arbitrary: a s)
  case Nil
  from Nil.prems have "mb_queue (ba_mailbox a) = [] \<or> mb_queue (ba_mailbox a) = [None]"
    by (auto simp: wf_mailbox_def)
  with Nil.prems show ?case
    by (auto simp: ba_drain.simps mb_depth_def mb_take_def waiting_def)
next
  case (Cons cmd cmds)
  obtain mb where mb: "mb_take (ba_mailbox a) = Some (Some (TargetWeights cmd), mb)"
      "waiting mb = map TargetWeights cmds" "wf_mailbox mb"
    using mailbox.take_head [OF Cons.prems(1)] Cons.prems(2) by (metis list.simps(9))
  let ?s = "fst (bh_size_and_submit h cmd s)"
  obtain a1 where a1: "ba_carry_out h (TargetWeights cmd) (a\<lparr>ba_mailbox := mb\<rparr>, s) = ok (a1, ?s)"
      "ba_mailbox a1 = mb" "ba_attempted a1 = ba_attempted a + 1"
    using assms(3) assms(4) [of cmd s]
    by (cases "bh_size_and_submit h cmd s" rule: outcome_cases)
      (auto simp: ba_carry_out_def ba_dispatch_def Let_def)
  have depth: "mb_depth (ba_mailbox a) \<noteq> 0" using mb(1) by (auto simp: mb_take_def mb_depth_def)
  have "ba_drain h (a, s) = ba_drain h (a1, ?s)"
    using depth mb(1) a1(1) by (subst ba_drain.simps) simp
  with Cons.IH [of a1 ?s] a1 mb show ?case by auto
qed

theorem drain_carries_out_everything_witness:
  "\<exists>a'. ba_drain (demo_handlers\<lparr>bh_on_error := None\<rparr>)
      ((new_broker_actor False)\<lparr>ba_mailbox := \<lparr>mb_name = ''broker'', mb_maxsize = 200,
        mb_queue = map Some (map TargetWeights [\<lparr>tw_dt = 1, tw_weights = []\<rparr>, \<lparr>tw_dt = 2, tw_weights = []\<rparr>]),
        mb_closed = False, mb_posted = 2, mb_high_water = 2, mb_dropped = 0\<rparr>\<rparr>, 40) = ok (a', 42)"
proof -
  let ?a = "(new_broker_actor False)\<lparr>ba_mailbox := \<lparr>mb_name = ''broker'', mb_maxsize = 200,
        mb_queue = map Some (map TargetWeights [\<lparr>tw_dt = 1, tw_weights = []\<rparr>, \<lparr>tw_dt = 2, tw_weights = []\<rparr>]),
        mb_closed = False, mb_posted = 2, mb_high_water = 2, mb_dropped = 0\<rparr>\<rparr>"
  have "\<exists>a'. ba_drain (demo_handlers\<lparr>bh_on_error := None\<rparr>) (?a, 40) = ok (a',
      fold (\<lambda>cmd s. fst (bh_size_and_submit (demo_handlers\<lparr>bh_on_error := None\<rparr>) cmd s))
        [\<lparr>tw_dt = 1, tw_weights = []\<rparr>, \<lparr>tw_dt = 2, tw_weights = []\<rparr>] 40) \<and>
      waiting (ba_mailbox a') = [] \<and> ba_attempted a' = ba_attempted ?a +
        length [\<lparr>tw_dt = 1, tw_weights = []\<rparr> :: target_weights, \<lparr>tw_dt = 2, tw_weights = []\<rparr>]"
    by (rule drain_carries_out_everything)
      (auto simp: wf_mailbox_def waiting_def demo_handlers_def split: if_splits)
  then obtain a' where "ba_drain (demo_handlers\<lparr>bh_on_error := None\<rparr>) (?a, 40) = ok (a', 42)"
    by (auto simp: demo_handlers_def)
  then show ?thesis by blast
qed

end
