(* ===== verification/Live_Ledger.thy ===== *)
theory Live_Ledger
  imports Prelude
begin

text \<open>
  \<^verbatim>\<open>vmtrader/broker/live/ledger.py\<close>: the durable record of intents, submissions and fills. A
  table is the list of its rows in insertion order; the primary keys are kept by the
  operations. The locale \<open>write_once_log\<close> is what the booking of fills relies on: a row
  written once is never written again, whatever is replayed.
\<close>

section \<open>The key of a fill\<close>

fun nat_digits :: "nat \<Rightarrow> string" where
  "nat_digits n = (if n < 10 then [char_of (48 + n)] else nat_digits (n div 10) @ [char_of (48 + n mod 10)])"

declare nat_digits.simps [simp del]

definition int_str :: "int \<Rightarrow> string" where
  "int_str n = (if n < 0 then CHR ''-'' # nat_digits (nat (- n)) else nat_digits (nat n))"

text \<open>\<^verbatim>\<open>'%s:%s' % (order_no, cumulative_filled)\<close>\<close>

definition fill_key :: "string \<Rightarrow> int \<Rightarrow> string" where
  "fill_key order_no cumulative_filled = order_no @ '':'' @ int_str cumulative_filled"

lemma digit_value [simp]: "n < 10 \<Longrightarrow> (of_char (char_of (48 + n) :: char) :: nat) = 48 + n"
  by simp

lemma digit_range: "c \<in> set (nat_digits n) \<Longrightarrow> 48 \<le> (of_char c :: nat) \<and> (of_char c :: nat) < 58"
proof (induction n rule: nat_digits.induct)
  case (1 n)
  then show ?case
    by (cases "n < 10") (auto simp: nat_digits.simps [of n] digit_value [of "n mod 10"])
qed

lemma nat_digits_value: "foldl (\<lambda>v c. 10 * v + (of_char c - 48)) 0 (nat_digits n) = (n :: nat)"
proof (induction n rule: nat_digits.induct)
  case (1 n)
  have "10 * (n div 10) + n mod 10 = n" by simp
  with 1 show ?case
    by (cases "n < 10") (simp_all add: nat_digits.simps [of n] digit_value [of "n mod 10"])
qed

lemma nat_digits_inject: "nat_digits m = nat_digits n \<longleftrightarrow> m = n"
  using nat_digits_value by metis

lemma minus_not_digit: "CHR ''-'' \<notin> set (nat_digits n)" and colon_not_digit: "CHR '':'' \<notin> set (nat_digits n)"
  using digit_range [of "CHR ''-''" n] digit_range [of "CHR '':''" n] by auto

lemma int_str_inject:
  assumes "int_str m = int_str n"
  shows "m = n"
proof -
  have mixed: "CHR ''-'' # nat_digits a \<noteq> nat_digits b" for a b
    using minus_not_digit [of b] by (metis list.set_intros(1))
  consider "m < 0" "n < 0" | "m < 0" "\<not> n < 0" | "\<not> m < 0" "n < 0" | "\<not> m < 0" "\<not> n < 0" by blast
  then show ?thesis
  proof cases
    case 1
    with assms have "nat (- m) = nat (- n)" by (simp add: int_str_def nat_digits_inject)
    with 1 show ?thesis by simp
  next
    case 2
    with assms mixed show ?thesis by (simp add: int_str_def)
  next
    case 3
    with assms mixed [symmetric] show ?thesis by (simp add: int_str_def)
  next
    case 4
    with assms have "nat m = nat n" by (simp add: int_str_def nat_digits_inject)
    with 4 show ?thesis by simp
  qed
qed

lemma fill_key_inject: "fill_key a m = fill_key b n \<longleftrightarrow> a = b \<and> m = n"
proof
  have colon: "CHR '':'' \<notin> set (int_str k)" for k
    using colon_not_digit by (simp add: int_str_def)
  have split: "takeWhile (\<lambda>c. c \<noteq> CHR '':'') (rev (fill_key x k)) = rev (int_str k)" for x k
    using colon [of k] by (simp add: fill_key_def) (subst takeWhile_append2; force)
  assume eq: "fill_key a m = fill_key b n"
  then have "m = n" using split [of a m] split [of b n] int_str_inject by simp
  with eq show "a = b \<and> m = n" by (simp add: fill_key_def)
qed simp

section \<open>Tables\<close>

datatype ledger_state = INTENT | SUBMITTED | FILLED | REJECTED | STALE

definition terminal_states :: "ledger_state list" where
  "terminal_states = [FILLED, REJECTED, STALE]"

text \<open>A note is a fixed text or \<^verbatim>\<open>str(err)\<close> of an exception.\<close>

datatype ledger_note = Note string | NoteOf exn

record order_row =
  or_id :: string
  or_symbol :: symbol
  or_quantity :: int
  or_state :: ledger_state
  or_no :: "string option"
  or_created :: timestamp
  or_updated :: timestamp
  or_note :: "ledger_note option"

record fill_row =
  fr_key :: string
  fr_id :: string
  fr_no :: string
  fr_quantity :: int
  fr_price :: rat
  fr_fees :: rat
  fr_venue_time :: "string option"
  fr_engine_time :: timestamp

record ledger =
  l_orders :: "order_row list"
  l_fills :: "fill_row list"
  l_equity :: "(timestamp, rat \<times> string) dict"
  l_meta :: "(string, string) dict"

definition empty_ledger :: ledger where
  "empty_ledger = \<lparr>l_orders = [], l_fills = [], l_equity = [], l_meta = []\<rparr>"

definition get_identity :: "ledger \<Rightarrow> (string \<times> string \<times> string) option" where
  "get_identity l =
    (case (map_of (l_meta l) ''venue'', map_of (l_meta l) ''mode'', map_of (l_meta l) ''account_id'') of
       (Some v, Some m, Some a) \<Rightarrow> Some (v, m, a)
     | _ \<Rightarrow> None)"

text \<open>A plain \<^verbatim>\<open>INSERT\<close> into the table \<^verbatim>\<open>meta\<close>, whose key must be new.\<close>

definition insert_meta :: "string \<times> string \<Rightarrow> ledger \<Rightarrow> ledger outcome" where
  "insert_meta kv l =
    (if fst kv \<in> set (dict_keys (l_meta l)) then raise IntegrityError l
     else ok (l\<lparr>l_meta := l_meta l @ [kv]\<rparr>))"

definition stamp_identity :: "string \<Rightarrow> string \<Rightarrow> string \<Rightarrow> ledger \<Rightarrow> ledger outcome" where
  "stamp_identity venue mode account_id l =
    (case get_identity l of
       Some existing \<Rightarrow>
         if existing \<noteq> (venue, mode, account_id) then raise LedgerIdentityConflict l else ok l
     | None \<Rightarrow>
         for_each insert_meta [(''account_id'', account_id), (''mode'', mode), (''venue'', venue)] l)"

definition record_intent :: "string \<Rightarrow> symbol \<Rightarrow> int \<Rightarrow> timestamp \<Rightarrow> ledger \<Rightarrow> ledger" where
  "record_intent oid symbol quantity dt l =
    (if oid \<in> or_id ` set (l_orders l) then l
     else l\<lparr>l_orders := l_orders l @
       [\<lparr>or_id = oid, or_symbol = symbol, or_quantity = quantity, or_state = INTENT, or_no = None,
         or_created = dt, or_updated = dt, or_note = None\<rparr>]\<rparr>)"

definition record_submitted :: "string \<Rightarrow> string \<Rightarrow> timestamp \<Rightarrow> ledger \<Rightarrow> ledger" where
  "record_submitted oid order_no dt l = l\<lparr>l_orders := map (\<lambda>r. if or_id r = oid
     then r\<lparr>or_state := SUBMITTED, or_no := Some order_no, or_updated := dt\<rparr> else r) (l_orders l)\<rparr>"

definition record_state :: "string \<Rightarrow> ledger_state \<Rightarrow> timestamp \<Rightarrow> ledger_note option \<Rightarrow> ledger \<Rightarrow> ledger" where
  "record_state oid state dt why l = l\<lparr>l_orders := map (\<lambda>r. if or_id r = oid
     then r\<lparr>or_state := state, or_updated := dt, or_note := why\<rparr> else r) (l_orders l)\<rparr>"

text \<open>The Boolean says whether the row was inserted.\<close>

definition record_fill :: "string \<Rightarrow> string \<Rightarrow> int \<Rightarrow> int \<Rightarrow> rat \<Rightarrow> rat \<Rightarrow> timestamp \<Rightarrow> string option
    \<Rightarrow> ledger \<Rightarrow> ledger \<times> bool" where
  "record_fill oid order_no cumulative_filled quantity price fees engine_dt venue_time l =
    (let key = fill_key order_no cumulative_filled in
     if key \<in> fr_key ` set (l_fills l) then (l, False)
     else (l\<lparr>l_fills := l_fills l @
       [\<lparr>fr_key = key, fr_id = oid, fr_no = order_no, fr_quantity = quantity, fr_price = price,
         fr_fees = fees, fr_venue_time = venue_time, fr_engine_time = engine_dt\<rparr>]\<rparr>, True))"

text \<open>\<^verbatim>\<open>INSERT OR REPLACE\<close> deletes the old row and appends the new one.\<close>

definition ledger_record_equity :: "timestamp \<Rightarrow> rat \<Rightarrow> string \<Rightarrow> ledger \<Rightarrow> ledger" where
  "ledger_record_equity dt equity mode l =
    l\<lparr>l_equity := AList.delete dt (l_equity l) @ [(dt, (equity, mode))]\<rparr>"

definition get_order :: "string \<Rightarrow> ledger \<Rightarrow> order_row option" where
  "get_order oid l = find (\<lambda>r. or_id r = oid) (l_orders l)"

definition get_open_orders :: "ledger \<Rightarrow> order_row list" where
  "get_open_orders l =
    sort_key or_created (filter (\<lambda>r. or_state r \<notin> set terminal_states) (l_orders l))"

definition get_fills :: "string \<Rightarrow> ledger \<Rightarrow> fill_row list" where
  "get_fills oid l = sort_key fr_engine_time (filter (\<lambda>r. fr_id r = oid) (l_fills l))"

definition get_equity_curve :: "ledger \<Rightarrow> (timestamp \<times> rat \<times> string) list" where
  "get_equity_curve l = sort_key fst (l_equity l)"

section \<open>Rows and their updates\<close>

lemma get_order_map:
  assumes "\<And>r. or_id (f r) = or_id r"
  shows "get_order oid (l\<lparr>l_orders := map f (l_orders l)\<rparr>) = map_option f (get_order oid l)"
proof -
  have "find (\<lambda>r. or_id r = oid) (map f rs) = map_option f (find (\<lambda>r. or_id r = oid) rs)" for rs
    using assms by (induction rs) auto
  then show ?thesis by (simp add: get_order_def)
qed

lemma find_id: "find (\<lambda>r. or_id r = oid) rs = None \<longleftrightarrow> oid \<notin> or_id ` set rs"
  "find (\<lambda>r. or_id r = oid) rs = Some r \<Longrightarrow> or_id r = oid"
  by (induction rs) (auto split: if_splits)

lemma get_order_state [simp]:
  "get_order oid (record_state oid' st dt why l) =
    (if oid = oid' then map_option (\<lambda>r. r\<lparr>or_state := st, or_updated := dt, or_note := why\<rparr>) (get_order oid l)
     else get_order oid l)"
  unfolding record_state_def
  by (subst get_order_map, simp) (cases "get_order oid l"; auto simp: get_order_def dest: find_id(2))

lemma get_order_submitted [simp]:
  "get_order oid (record_submitted oid' no dt l) =
    (if oid = oid' then map_option (\<lambda>r. r\<lparr>or_state := SUBMITTED, or_no := Some no, or_updated := dt\<rparr>)
       (get_order oid l)
     else get_order oid l)"
  unfolding record_submitted_def
  by (subst get_order_map, simp) (cases "get_order oid l"; auto simp: get_order_def dest: find_id(2))

lemma get_order_intent:
  "get_order oid (record_intent oid' a q dt l) =
    (if oid = oid' \<and> get_order oid l = None
     then Some \<lparr>or_id = oid, or_symbol = a, or_quantity = q, or_state = INTENT, or_no = None,
       or_created = dt, or_updated = dt, or_note = None\<rparr>
     else get_order oid l)"
proof -
  have "find P (rs @ [r]) = (case find P rs of None \<Rightarrow> if P r then Some r else None | x \<Rightarrow> x)"
    for P and rs :: "order_row list" and r
    by (induction rs) auto
  then show ?thesis
    using find_id(1) [of oid "l_orders l"]
    by (auto simp: record_intent_def get_order_def split: option.splits)
qed

text \<open>The primary key of the orders table.\<close>

definition wf_orders :: "ledger \<Rightarrow> bool" where
  "wf_orders l \<longleftrightarrow> distinct (map or_id (l_orders l))"

lemma wf_orders_ops [simp]:
  "wf_orders l \<Longrightarrow> wf_orders (record_intent oid a q dt l)"
  "wf_orders (record_submitted oid no dt l) = wf_orders l"
  "wf_orders (record_state oid st dt why l) = wf_orders l"
  "wf_orders (fst (record_fill oid no c q p f dt v l)) = wf_orders l"
  by (auto simp: wf_orders_def record_intent_def record_submitted_def record_state_def record_fill_def
      Let_def comp_def if_distrib [of or_id] cong: if_cong)

lemma get_order_fill [simp]: "get_order oid (fst (record_fill oid' no c q p f dt v l)) = get_order oid l"
  by (simp add: record_fill_def get_order_def Let_def)

lemma fills_of_ops [simp]:
  "l_fills (record_intent oid a q dt l) = l_fills l"
  "l_fills (record_submitted oid no dt l) = l_fills l"
  "l_fills (record_state oid st dt why l) = l_fills l"
  by (simp_all add: record_intent_def record_submitted_def record_state_def)

lemma get_open_orders_iff:
  assumes "wf_orders l"
  shows "r \<in> set (get_open_orders l) \<longleftrightarrow>
    get_order (or_id r) l = Some r \<and> or_state r \<notin> set terminal_states"
proof -
  have "distinct (map or_id rs) \<Longrightarrow> r \<in> set rs \<longleftrightarrow> find (\<lambda>r'. or_id r' = or_id r) rs = Some r" for rs
    by (induction rs) (auto simp: image_iff dest: find_id(2) split: if_splits)
  then show ?thesis
    using assms by (auto simp: get_open_orders_def get_order_def wf_orders_def)
qed

section \<open>A log written once\<close>

locale write_once_log =
  fixes put :: "'k \<Rightarrow> 'r \<Rightarrow> 'l \<Rightarrow> 'l \<times> bool" and keys :: "'l \<Rightarrow> 'k set"
  assumes put_keys: "keys (fst (put k r l)) = insert k (keys l)"
    and put_known: "k \<in> keys l \<Longrightarrow> put k r l = (l, False)"
    and put_new: "k \<notin> keys l \<Longrightarrow> snd (put k r l)"
begin

definition put_all :: "('k \<times> 'r) list \<Rightarrow> 'l \<Rightarrow> 'l" where
  "put_all xs l = fold (\<lambda>(k, r) l. fst (put k r l)) xs l"

lemma keys_put_all: "keys (put_all xs l) = fst ` set xs \<union> keys l"
  unfolding put_all_def by (induction xs arbitrary: l) (auto simp: put_keys)

lemma replay_known: "fst ` set ys \<subseteq> keys l \<Longrightarrow> put_all ys l = l"
  unfolding put_all_def by (induction ys) (auto simp: put_known)

text \<open>Whatever part of what was logged is replayed, in whatever order, nothing is written.\<close>

lemma replay: "set ys \<subseteq> set xs \<Longrightarrow> put_all ys (put_all xs l) = put_all xs l"
  by (rule replay_known) (auto simp: keys_put_all)

lemma replay_reports_known: "(k, r) \<in> set xs \<Longrightarrow> \<not> snd (put k r' (put_all xs l))"
  by (subst put_known) (force simp: keys_put_all)+

end

text \<open>The fills table is one: the row of an order number and a cumulative quantity is written once.\<close>

type_synonym fill_data = "string \<times> int \<times> rat \<times> rat \<times> timestamp \<times> string option"

definition put_fill :: "string \<times> int \<Rightarrow> fill_data \<Rightarrow> ledger \<Rightarrow> ledger \<times> bool" where
  "put_fill k r l = (case (k, r) of ((no, c), (oid, q, p, f, dt, v)) \<Rightarrow> record_fill oid no c q p f dt v l)"

definition fill_known :: "ledger \<Rightarrow> (string \<times> int) set" where
  "fill_known l = {(no, c). fill_key no c \<in> fr_key ` set (l_fills l)}"

interpretation fills: write_once_log put_fill fill_known
  by unfold_locales
    (auto simp: put_fill_def fill_known_def record_fill_def Let_def fill_key_inject split: prod.splits)

end
