(* ===== verification/Live_Guard.thy ===== *)
theory Live_Guard
  imports Prelude
begin

text \<open>
  \<^verbatim>\<open>vmtrader/broker/live/guards.py\<close>: the kill switch, the halt and the order limits. Whether a
  file exists is the operating system's answer and enters as the function \<open>exists\<close>. The locale
  \<open>stop_gate\<close> is what a broker relies on: a gate that is shut lets no order through, whatever
  is tried.
\<close>

record guard =
  g_kill_path :: "string option"
  g_max_value :: "rat option"
  g_max_orders :: "nat option"
  g_submitted :: nat
  g_halted :: "string option"

definition new_guard :: "string option \<Rightarrow> rat option \<Rightarrow> nat option \<Rightarrow> guard" where
  "new_guard path max_value max_orders =
    \<lparr>g_kill_path = path, g_max_value = max_value, g_max_orders = max_orders, g_submitted = 0,
     g_halted = None\<rparr>"

definition is_kill_switch_engaged :: "(string \<Rightarrow> bool) \<Rightarrow> guard \<Rightarrow> bool" where
  "is_kill_switch_engaged exists g = (case g_kill_path g of None \<Rightarrow> False | Some p \<Rightarrow> exists p)"

definition guard_halt :: "string \<Rightarrow> guard \<Rightarrow> guard" where
  "guard_halt reason g = g\<lparr>g_halted := Some reason\<rparr>"

definition is_halted :: "guard \<Rightarrow> bool" where
  "is_halted g \<longleftrightarrow> g_halted g \<noteq> None"

text \<open>A check raises or returns nothing: the exception it raises, if any.\<close>

definition check_can_trade :: "(string \<Rightarrow> bool) \<Rightarrow> guard \<Rightarrow> exn option" where
  "check_can_trade exists g =
    (if is_kill_switch_engaged exists g then Some (KillSwitchEngaged (the (g_kill_path g)))
     else if is_halted g then Some (TradingHalted (the (g_halted g)))
     else None)"

definition check_order :: "(string \<Rightarrow> bool) \<Rightarrow> symbol \<Rightarrow> int \<Rightarrow> rat \<Rightarrow> guard \<Rightarrow> exn option" where
  "check_order exists symbol quantity price g =
    (case check_can_trade exists g of
       Some e \<Rightarrow> Some e
     | None \<Rightarrow>
         (let value = of_int \<bar>quantity\<bar> * price in
          if (case g_max_value g of None \<Rightarrow> False | Some m \<Rightarrow> m < value)
          then Some (OrderLimitExceeded (OrderValue symbol quantity price value (the (g_max_value g))))
          else if (case g_max_orders g of None \<Rightarrow> False | Some n \<Rightarrow> n \<le> g_submitted g)
          then Some (OrderLimitExceeded (SessionOrders (the (g_max_orders g)) symbol))
          else None))"

definition record_submission :: "guard \<Rightarrow> guard" where
  "record_submission g = g\<lparr>g_submitted := g_submitted g + 1\<rparr>"

text \<open>\<^verbatim>\<open>StopRequested\<close>: the base class of the two stop signals.\<close>

fun is_stop :: "exn \<Rightarrow> bool" where
  "is_stop (KillSwitchEngaged _) = True"
| "is_stop (TradingHalted _) = True"
| "is_stop _ = False"

lemma record_submission_fields [simp]:
  "g_kill_path (record_submission g) = g_kill_path g" "g_max_value (record_submission g) = g_max_value g"
  "g_max_orders (record_submission g) = g_max_orders g" "g_halted (record_submission g) = g_halted g"
  "g_submitted (record_submission g) = g_submitted g + 1"
  by (simp_all add: record_submission_def)

lemma check_order_passes:
  "check_order exists a q p g = None \<longleftrightarrow> check_can_trade exists g = None \<and>
     (\<forall>m. g_max_value g = Some m \<longrightarrow> of_int \<bar>q\<bar> * p \<le> m) \<and>
     (\<forall>n. g_max_orders g = Some n \<longrightarrow> g_submitted g < n)"
  by (auto simp: check_order_def Let_def not_less split: option.splits)

lemma check_order_raises:
  "check_order exists a q p g = Some e \<Longrightarrow>
    (is_stop e \<and> check_can_trade exists g = Some e) \<or> (\<exists>x. e = OrderLimitExceeded x)"
  by (auto simp: check_order_def check_can_trade_def Let_def split: option.splits if_splits)

section \<open>A gate\<close>

locale stop_gate =
  fixes shut :: "'g \<Rightarrow> bool" and check :: "'o \<Rightarrow> 'g \<Rightarrow> exn option" and count :: "'g \<Rightarrow> 'g"
    and stop :: "exn \<Rightarrow> bool"
  assumes shut_stops: "shut g \<Longrightarrow> \<exists>e. check x g = Some e \<and> stop e"
    and count_shut: "shut (count g) = shut g"
begin

text \<open>The orders that pass, when each that passes is counted.\<close>

primrec passed :: "'o list \<Rightarrow> 'g \<Rightarrow> 'o list" where
  "passed [] g = []"
| "passed (x # xs) g = (case check x g of None \<Rightarrow> x # passed xs (count g) | Some _ \<Rightarrow> passed xs g)"

lemma nothing_passes: "shut g \<Longrightarrow> passed xs g = []"
proof (induction xs)
  case (Cons x xs)
  with shut_stops [OF Cons.prems, of x] show ?case by auto
qed simp

lemma passed_split: "passed (xs @ ys) g = passed xs g @ passed ys ((count ^^ length (passed xs g)) g)"
proof (induction xs arbitrary: g)
  case (Cons x xs)
  then show ?case by (cases "check x g") (simp_all add: funpow_swap1)
qed simp

end

locale limited_gate = stop_gate shut check count stop
  for shut :: "'g \<Rightarrow> bool" and check :: "'o \<Rightarrow> 'g \<Rightarrow> exn option" and count :: "'g \<Rightarrow> 'g"
    and stop :: "exn \<Rightarrow> bool" +
  fixes limit :: "'g \<Rightarrow> nat option" and used :: "'g \<Rightarrow> nat"
  assumes check_limit: "check x g = None \<Longrightarrow> limit g = Some n \<Longrightarrow> used g < n"
    and count_used: "used (count g) = used g + 1" and count_limit: "limit (count g) = limit g"
begin

lemma passed_within_limit: "limit g = Some n \<Longrightarrow> used g \<le> n \<Longrightarrow> used g + length (passed xs g) \<le> n"
proof (induction xs arbitrary: g)
  case (Cons x xs)
  show ?case
  proof (cases "check x g")
    case None
    then have "used (count g) \<le> n" using check_limit [OF None Cons.prems(1)] by (simp add: count_used)
    then have "used (count g) + length (passed xs (count g)) \<le> n"
      using Cons.prems(1) by (intro Cons.IH) (simp_all add: count_limit)
    with None show ?thesis by (simp add: count_used)
  next
    case (Some e)
    with Cons.IH [OF Cons.prems] show ?thesis by simp
  qed
qed simp

end

type_synonym priced_order = "symbol \<times> int \<times> rat"

definition check_priced :: "(string \<Rightarrow> bool) \<Rightarrow> priced_order \<Rightarrow> guard \<Rightarrow> exn option" where
  "check_priced exists x g = (case x of (a, q, p) \<Rightarrow> check_order exists a q p g)"

interpretation gate: limited_gate "\<lambda>g. check_can_trade exists g \<noteq> None" "check_priced exists"
  record_submission is_stop g_max_orders g_submitted for exists
  by unfold_locales
    (auto simp: check_priced_def check_order_def check_can_trade_def is_kill_switch_engaged_def
      is_halted_def Let_def split: prod.splits option.splits if_splits)

end
