(* ===== verification/Live_Broker.thy ===== *)
theory Live_Broker
  imports Simulated_Broker Live_Ledger Live_Guard
begin

text \<open>
  \<^verbatim>\<open>vmtrader/broker/live_broker.py\<close> with the venue client's data (\<^verbatim>\<open>broker/live/client.py\<close>)
  and the live data handler (\<^verbatim>\<open>data/live_data_handler.py\<close>): submission, polling, booking,
  settlement, marking and seeding.

  The outside is a \<open>world\<close>: the answers the venue, the clock and the file system give. Each
  question asked counts up \<open>lb_asked\<close>, and the answer may depend on that count, so any history
  of answers is a world. Polls run on a worker thread in the program, between two barriers
  of the main thread, which does not touch the broker meanwhile; here they run in the order of
  the worker's queue.
\<close>

section \<open>What the venue reports\<close>

record order_report =
  rp_no :: string
  rp_filled :: int
  rp_price :: rat
  rp_remaining :: int
  rp_rejected :: int
  rp_fees :: rat
  rp_done :: bool

record venue_holding =
  vh_symbol :: symbol
  vh_quantity :: int
  vh_price :: rat

record account_balance =
  ab_cash :: rat
  ab_settled :: rat
  ab_equity :: rat
  ab_holdings :: "venue_holding list"

text \<open>A clock of \<open>None\<close> is the default one, which answers the broker's own time.\<close>

record world =
  w_clock :: "(nat \<Rightarrow> timestamp) option"
  w_exists :: "nat \<Rightarrow> string \<Rightarrow> bool"
  w_price :: "nat \<Rightarrow> symbol \<Rightarrow> exn + rat option"
  w_place :: "nat \<Rightarrow> symbol \<Rightarrow> int \<Rightarrow> exn + string"
  w_report :: "nat \<Rightarrow> string \<Rightarrow> exn + order_report"
  w_balance :: "nat \<Rightarrow> exn + account_balance"
  w_is_open :: "timestamp \<Rightarrow> bool"

section \<open>The broker\<close>

record open_order =
  oo_id :: string
  oo_symbol :: symbol
  oo_quantity :: int
  oo_portfolio :: string
  oo_booked :: int
  oo_fees :: rat

record fill_msg =
  fm_no :: string
  fm_id :: string
  fm_portfolio :: string
  fm_symbol :: symbol
  fm_direction :: int
  fm_price :: rat
  fm_fees :: rat
  fm_filled :: int

text \<open>
  \<open>lb_marks\<close> is the data handler's cache. Two fields are of the model only: \<open>lb_asked\<close>, and
  \<open>lb_sent\<close>, the orders that reached the venue's endpoint, in order.
\<close>

record lbroker =
  lb_dt :: timestamp
  lb_account :: string
  lb_currency :: string
  lb_venue :: string
  lb_mode :: string
  lb_fee_model :: fee_model
  lb_guard :: guard
  lb_throttle :: int
  lb_last_poll :: timestamp
  lb_ledger :: ledger
  lb_portfolios :: "(string, portfolio) dict"
  lb_open :: "(string, open_order) dict"
  lb_buffer :: "fill_msg list"
  lb_booked :: "(string, int) dict"
  lb_charged :: "(string, rat) dict"
  lb_marks :: "(symbol, rat) dict"
  lb_asked :: nat
  lb_sent :: "(symbol \<times> int) list"

definition live_create_portfolio :: "string \<Rightarrow> string option \<Rightarrow> lbroker \<Rightarrow> lbroker outcome" where
  "live_create_portfolio pid name b =
    (if pid \<in> set (dict_keys (lb_portfolios b)) then raise ValueError b
     else ok (b\<lparr>lb_portfolios := AList.update pid
       (init_portfolio (lb_dt b) 0 (lb_currency b) pid name) (lb_portfolios b)\<rparr>))"

text \<open>
  The constructor. \<open>client_venue\<close> and \<open>client_mode\<close> are the client's attributes of those
  names, if it has them.
\<close>

definition new_live_broker :: "timestamp \<Rightarrow> string \<Rightarrow> string \<Rightarrow> string option \<Rightarrow> string option
    \<Rightarrow> string option \<Rightarrow> fee_model option \<Rightarrow> guard option \<Rightarrow> int option \<Rightarrow> ledger \<Rightarrow> lbroker outcome" where
  "new_live_broker start_dt account_id currency venue_name client_venue client_mode fee guard throttle ledger =
    (let b = \<lparr>lb_dt = start_dt, lb_account = account_id, lb_currency = currency,
        lb_venue = (case venue_name of Some v \<Rightarrow> v | None \<Rightarrow>
          (case client_venue of Some v \<Rightarrow> v | None \<Rightarrow> ''live'')),
        lb_mode = (case client_mode of Some m \<Rightarrow> m | None \<Rightarrow> ''unknown''),
        lb_fee_model = (case fee of Some f \<Rightarrow> f | None \<Rightarrow> ZeroFeeModel),
        lb_guard = (case guard of Some g \<Rightarrow> g | None \<Rightarrow> new_guard None None None),
        lb_throttle = (case throttle of Some t \<Rightarrow> t | None \<Rightarrow> 60 * 1000000000),
        lb_last_poll = start_dt, lb_ledger = ledger, lb_portfolios = [], lb_open = [], lb_buffer = [],
        lb_booked = [], lb_charged = [], lb_marks = [], lb_asked = 0, lb_sent = []\<rparr> in
     then_do (live_create_portfolio account_id (Some account_id) b)
       (\<lambda>b. map_outcome (\<lambda>l. b\<lparr>lb_ledger := l\<rparr>)
         (stamp_identity (lb_venue b) (lb_mode b) (lb_account b) (lb_ledger b))))"

definition trading_halted :: "lbroker \<Rightarrow> bool" where
  "trading_halted b = is_halted (lb_guard b)"

definition set_trading_halted :: "bool \<Rightarrow> lbroker \<Rightarrow> lbroker" where
  "set_trading_halted halted b = b\<lparr>lb_guard :=
     (if halted
      then guard_halt ''Reconciliation found the engine holding more than the venue reports.'' (lb_guard b)
      else (lb_guard b)\<lparr>g_halted := None\<rparr>)\<rparr>"

definition asked :: "lbroker \<Rightarrow> lbroker" where
  "asked b = b\<lparr>lb_asked := lb_asked b + 1\<rparr>"

text \<open>\<^verbatim>\<open>_now\<close>: the engine's clock, which never goes back.\<close>

definition engine_now :: "world \<Rightarrow> lbroker \<Rightarrow> timestamp \<times> lbroker" where
  "engine_now w b =
    (let now = (case w_clock w of None \<Rightarrow> lb_dt b | Some clock \<Rightarrow> clock (lb_asked b)) in
     (if now < lb_dt b then lb_dt b else now, asked b))"

definition on_live_portfolio :: "string \<Rightarrow> (portfolio \<Rightarrow> portfolio outcome) \<Rightarrow> lbroker \<Rightarrow> lbroker outcome" where
  "on_live_portfolio pid f b =
    (case map_of (lb_portfolios b) pid of
       None \<Rightarrow> raise KeyError b
     | Some p \<Rightarrow> map_outcome (\<lambda>p. b\<lparr>lb_portfolios := AList.update pid p (lb_portfolios b)\<rparr>) (f p))"

section \<open>Marks\<close>

definition clear_cache :: "lbroker \<Rightarrow> lbroker" where
  "clear_cache b = b\<lparr>lb_marks := []\<rparr>"

definition get_mark :: "world \<Rightarrow> symbol \<Rightarrow> lbroker \<Rightarrow> (exn + rat) \<times> lbroker" where
  "get_mark w a b =
    (case map_of (lb_marks b) a of
       Some p \<Rightarrow> (Inr p, b)
     | None \<Rightarrow>
         (case w_price w (lb_asked b) a of
            Inl e \<Rightarrow> (Inl e, asked b)
          | Inr None \<Rightarrow> (Inl PriceUnavailable, asked b)
          | Inr (Some p) \<Rightarrow>
              if p \<le> 0 then (Inl PriceUnavailable, asked b)
              else (Inr p, (asked b)\<lparr>lb_marks := AList.update a p (lb_marks b)\<rparr>)))"

section \<open>Valuation\<close>

definition live_account_equity :: "lbroker \<Rightarrow> (string, nan_rat) dict" where
  "live_account_equity b =
    (let equity = map (\<lambda>(pid, p). (pid, nan_add (total_market_value p) (Some (pf_cash p)))) (lb_portfolios b) in
     AList.update ''master'' (nan_sum (map snd equity)) equity)"

definition live_account_cash :: "string \<Rightarrow> lbroker \<Rightarrow> exn + rat" where
  "live_account_cash currency b =
    (case map_of (lb_portfolios b) (lb_account b) of
       None \<Rightarrow> Inl KeyError
     | Some p \<Rightarrow> if currency \<noteq> lb_currency b then Inl ValueError else Inr (pf_cash p))"

definition live_list_all_portfolios :: "lbroker \<Rightarrow> portfolio list" where
  "live_list_all_portfolios b = map snd (lb_portfolios b)"

definition of_live_portfolio :: "string \<Rightarrow> (portfolio \<Rightarrow> 'a) \<Rightarrow> lbroker \<Rightarrow> exn + 'a" where
  "of_live_portfolio pid f b = (case map_of (lb_portfolios b) pid of None \<Rightarrow> Inl KeyError | Some p \<Rightarrow> Inr (f p))"

definition live_cash_balance :: "string \<Rightarrow> lbroker \<Rightarrow> exn + rat" where
  "live_cash_balance pid = of_live_portfolio pid pf_cash"

definition live_total_equity :: "string \<Rightarrow> lbroker \<Rightarrow> exn + nan_rat" where
  "live_total_equity pid = of_live_portfolio pid total_equity"

definition live_total_market_value :: "string \<Rightarrow> lbroker \<Rightarrow> exn + nan_rat" where
  "live_total_market_value pid = of_live_portfolio pid total_market_value"

definition live_portfolio_as_dict :: "string \<Rightarrow> lbroker \<Rightarrow> exn + (symbol, holding) dict" where
  "live_portfolio_as_dict pid = of_live_portfolio pid portfolio_to_dict"

text \<open>A NaN equity is stored as NULL, which the column refuses.\<close>

definition record_equity :: "world \<Rightarrow> lbroker \<Rightarrow> lbroker outcome" where
  "record_equity w b =
    (let (dt, b) = engine_now w b in
     case map_of (live_account_equity b) ''master'' of
       Some (Some x) \<Rightarrow> ok (b\<lparr>lb_ledger := ledger_record_equity dt x (lb_mode b) (lb_ledger b)\<rparr>)
     | _ \<Rightarrow> raise IntegrityError b)"

definition seed_transaction :: "timestamp \<Rightarrow> venue_holding \<Rightarrow> transaction" where
  "seed_transaction dt h = \<lparr>txn_asset = vh_symbol h, txn_quantity = of_int (vh_quantity h), txn_dt = dt,
     txn_price = vh_price h, txn_order_id = ''seed-'' @ vh_symbol h, txn_commission = 0\<rparr>"

definition seed_portfolio :: "timestamp \<Rightarrow> account_balance \<Rightarrow> portfolio \<Rightarrow> portfolio outcome" where
  "seed_portfolio dt balance p =
    (let p = p\<lparr>pf_cash := ab_cash balance, pf_positions := []\<rparr> in
     then_do (for_each (\<lambda>h p. map_outcome (\<lambda>ps. p\<lparr>pf_positions := ps\<rparr>)
         (transact_position (seed_transaction dt h) (pf_positions p))) (ab_holdings balance) p)
       (\<lambda>p. ok (p\<lparr>pf_cash := ab_cash balance\<rparr>)))"

definition seed_from_venue :: "world \<Rightarrow> lbroker \<Rightarrow> lbroker outcome" where
  "seed_from_venue w b =
    (case w_balance w (lb_asked b) of
       Inl e \<Rightarrow> raise e (asked b)
     | Inr balance \<Rightarrow> on_live_portfolio (lb_account b) (seed_portfolio (lb_dt b) balance) (asked b))"

section \<open>Submission\<close>

definition clamp_quantity :: "string \<Rightarrow> order \<Rightarrow> rat \<Rightarrow> lbroker \<Rightarrow> exn + int" where
  "clamp_quantity pid o' price b =
    (let quantity = \<lfloor>\<bar>ord_quantity o'\<bar>\<rfloor> * py_int (sgn (ord_quantity o')) in
     if quantity = 0 then Inr 0
     else (case map_of (lb_portfolios b) pid of
         None \<Rightarrow> Inl KeyError
       | Some p \<Rightarrow>
           if quantity < 0 then
             (let held = (case map_of (portfolio_to_dict p) (ord_asset o') of
                 None \<Rightarrow> 0 | Some h \<Rightarrow> h_quantity h) in
              if held \<le> 0 then Inr 0 else Inr (- min \<bar>quantity\<bar> (py_int held)))
           else
             (let affordable = \<lfloor>pf_cash p / price\<rfloor> in
              if affordable \<le> 0 then Inr 0 else Inr (min quantity affordable))))"

text \<open>From the intent on: the ledger is written before the venue is called.\<close>

definition place_order :: "world \<Rightarrow> string \<Rightarrow> order \<Rightarrow> int \<Rightarrow> timestamp \<Rightarrow> lbroker \<Rightarrow> lbroker outcome" where
  "place_order w pid o' quantity dt b =
    (let b = b\<lparr>lb_ledger := record_intent (ord_id o') (ord_asset o') quantity dt (lb_ledger b)\<rparr>;
         answer = w_place w (lb_asked b) (ord_asset o') quantity;
         b = (asked b)\<lparr>lb_sent := lb_sent b @ [(ord_asset o', quantity)]\<rparr> in
     case answer of
       Inl e \<Rightarrow>
         if e = Interrupted then raise e b
         else ok (b\<lparr>lb_ledger := record_state (ord_id o') REJECTED dt (Some (NoteOf e)) (lb_ledger b)\<rparr>)
     | Inr order_no \<Rightarrow>
         ok (b\<lparr>lb_guard := record_submission (lb_guard b),
           lb_ledger := record_submitted (ord_id o') order_no dt (lb_ledger b),
           lb_open := AList.update order_no
             \<lparr>oo_id = ord_id o', oo_symbol = ord_asset o', oo_quantity = quantity, oo_portfolio = pid,
              oo_booked = 0, oo_fees = 0\<rparr> (lb_open b)\<rparr>))"

definition refuse_order :: "order \<Rightarrow> int \<Rightarrow> timestamp \<Rightarrow> exn \<Rightarrow> lbroker \<Rightarrow> lbroker outcome" where
  "refuse_order o' quantity dt e b =
    (let b = b\<lparr>lb_ledger := record_state (ord_id o') REJECTED dt (Some (NoteOf e))
         (record_intent (ord_id o') (ord_asset o') quantity dt (lb_ledger b))\<rparr> in
     if is_stop e then raise e b else ok b)"

definition live_submit_order :: "world \<Rightarrow> string \<Rightarrow> order \<Rightarrow> lbroker \<Rightarrow> lbroker outcome" where
  "live_submit_order w pid o' b =
    (let (dt, b) = engine_now w b in
     if \<not> w_is_open w dt then ok b
     else (case get_mark w (ord_asset o') b of
         (Inl e, b) \<Rightarrow> raise e b
       | (Inr price, b) \<Rightarrow>
           (case clamp_quantity pid o' price b of
              Inl e \<Rightarrow> raise e b
            | Inr quantity \<Rightarrow>
                if quantity = 0 then ok b
                else (case check_order (w_exists w (lb_asked b)) (ord_asset o') quantity price (lb_guard b) of
                    Some e \<Rightarrow> refuse_order o' quantity dt e (asked b)
                  | None \<Rightarrow> place_order w pid o' quantity dt (asked b)))))"

section \<open>Collecting fills\<close>

definition poll_once :: "world \<Rightarrow> string \<Rightarrow> lbroker \<Rightarrow> (exn + bool) \<times> lbroker" where
  "poll_once w no b =
    (case map_of (lb_open b) no of
       None \<Rightarrow> (Inr True, b)
     | Some st \<Rightarrow>
         (case w_report w (lb_asked b) no of
            Inl e \<Rightarrow> (Inl e, asked b)
          | Inr report \<Rightarrow>
              (let b = asked b; increment = rp_filled report - oo_booked st in
               if 0 < increment then
                 (let direction = (if 0 < oo_quantity st then 1 else - 1);
                      fees = rp_fees report - oo_fees st;
                      (dt, b) = engine_now w b in
                  (Inr (rp_done report), b\<lparr>
                     lb_ledger := fst (record_fill (oo_id st) no (rp_filled report) (direction * increment)
                       (rp_price report) fees dt None (lb_ledger b)),
                     lb_buffer := lb_buffer b @ [\<lparr>fm_no = no, fm_id = oo_id st,
                       fm_portfolio = oo_portfolio st, fm_symbol = oo_symbol st, fm_direction = direction,
                       fm_price = rp_price report, fm_fees = rp_fees report, fm_filled = rp_filled report\<rparr>],
                     lb_open := AList.update no
                       (st\<lparr>oo_booked := rp_filled report, oo_fees := rp_fees report\<rparr>) (lb_open b)\<rparr>))
               else (Inr (rp_done report), b))))"

definition fill_transaction :: "int \<Rightarrow> rat \<Rightarrow> timestamp \<Rightarrow> fill_msg \<Rightarrow> transaction" where
  "fill_transaction increment fees dt fl =
    \<lparr>txn_asset = fm_symbol fl, txn_quantity = of_int (fm_direction fl * increment), txn_dt = dt,
     txn_price = fm_price fl, txn_order_id = fm_id fl, txn_commission = fees\<rparr>"

definition booked_of :: "lbroker \<Rightarrow> string \<Rightarrow> int" where
  "booked_of b no = (case map_of (lb_booked b) no of None \<Rightarrow> 0 | Some n \<Rightarrow> n)"

definition charged_of :: "lbroker \<Rightarrow> string \<Rightarrow> rat" where
  "charged_of b no = (case map_of (lb_charged b) no of None \<Rightarrow> 0 | Some x \<Rightarrow> x)"

definition book_fill :: "world \<Rightarrow> fill_msg \<Rightarrow> lbroker \<Rightarrow> lbroker outcome" where
  "book_fill w fl b =
    (let increment = fm_filled fl - booked_of b (fm_no fl) in
     if increment \<le> 0 then ok b
     else
       (let fees = fm_fees fl - charged_of b (fm_no fl);
            (dt, b) = engine_now w b;
            b = b\<lparr>lb_dt := dt\<rparr> in
        then_do (on_live_portfolio (fm_portfolio fl) (transact_asset (fill_transaction increment fees dt fl)) b)
          (\<lambda>b. ok (b\<lparr>lb_booked := AList.update (fm_no fl) (fm_filled fl) (lb_booked b),
                     lb_charged := AList.update (fm_no fl) (fm_fees fl) (lb_charged b)\<rparr>))))"

definition drain_fill_buffer :: "world \<Rightarrow> lbroker \<Rightarrow> lbroker outcome" where
  "drain_fill_buffer w b = for_each (book_fill w) (lb_buffer b) (b\<lparr>lb_buffer := []\<rparr>)"

definition close_order :: "world \<Rightarrow> string \<Rightarrow> ledger_state \<Rightarrow> ledger_note option \<Rightarrow> lbroker \<Rightarrow> lbroker" where
  "close_order w no state why b =
    (case map_of (lb_open b) no of
       None \<Rightarrow> b
     | Some st \<Rightarrow>
         (let b = b\<lparr>lb_open := AList.delete no (lb_open b)\<rparr>; (dt, b) = engine_now w b in
          b\<lparr>lb_ledger := record_state (oo_id st) state dt why (lb_ledger b)\<rparr>))"

definition close_orders :: "world \<Rightarrow> ledger_state \<Rightarrow> ledger_note option \<Rightarrow> string list \<Rightarrow> lbroker \<Rightarrow> lbroker" where
  "close_orders w state why nos b = fold (\<lambda>no. close_order w no state why) nos b"

section \<open>Settlement\<close>

text \<open>
  The tasks of one round, as the worker's thread runs them. An exception is logged by the worker and
  the order is asked about again in the next round. An exit (\<open>Interrupted\<close>) is no \<^verbatim>\<open>Exception\<close>: it ends
  the thread, with the task counted as done but those behind it not run, so that the drain barrier
  waits for ever (\<open>None\<close>) unless it was the last. The answer says whether the thread still lives.
\<close>

fun poll_tasks :: "world \<Rightarrow> string list \<Rightarrow> string list \<times> lbroker \<Rightarrow> (bool \<times> string list \<times> lbroker) option" where
  "poll_tasks w [] s = Some (True, s)"
| "poll_tasks w (no # nos) s =
    (case poll_once w no (snd s) of
       (Inr finished, b) \<Rightarrow> poll_tasks w nos (if finished then fst s @ [no] else fst s, b)
     | (Inl e, b) \<Rightarrow>
         if e \<noteq> Interrupted then poll_tasks w nos (fst s, b)
         else if nos = [] then Some (False, fst s, b) else None)"

text \<open>A round: posting, the barrier, booking what was buffered and closing what is done.\<close>

definition settle_round :: "world \<Rightarrow> lbroker \<Rightarrow> (bool \<times> lbroker outcome) option" where
  "settle_round w b =
    map_option (\<lambda>(alive, finished, b).
        (alive, then_do (drain_fill_buffer w b) (\<lambda>b. ok (close_orders w FILLED None finished b))))
      (poll_tasks w (dict_keys (lb_open b)) ([], b))"

datatype settle_end = NothingOpen | Expired | StoppedByOperator | Failed exn

text \<open>
  The loop, until it ends; it need not. Tasks posted to a worker whose thread is gone are never run,
  and the barrier waits for them.
\<close>

partial_function (option) settle_loop :: "world \<Rightarrow> timestamp \<Rightarrow> bool \<Rightarrow> lbroker \<Rightarrow> (settle_end \<times> lbroker) option" where
  "settle_loop w deadline alive b =
    (if lb_open b = [] then Some (NothingOpen, b)
     else let (now, b) = engine_now w b in
       if deadline \<le> now then Some (Expired, b)
       else if is_kill_switch_engaged (w_exists w (lb_asked b)) (lb_guard b) then Some (StoppedByOperator, asked b)
       else if \<not> alive then None
       else (case settle_round w (asked b) of
           None \<Rightarrow> None
         | Some (alive, b, None) \<Rightarrow> settle_loop w deadline alive b
         | Some (alive, b, Some e) \<Rightarrow> Some (Failed e, b)))"

declare settle_loop.simps [code]

definition settle :: "world \<Rightarrow> timestamp \<Rightarrow> lbroker \<Rightarrow> lbroker outcome option" where
  "settle w deadline b =
    map_option (\<lambda>(ending, b).
      then_do (drain_fill_buffer w b)
        (\<lambda>b. case ending of
           Failed e \<Rightarrow> raise e b
         | StoppedByOperator \<Rightarrow> ok b
         | _ \<Rightarrow> ok (close_orders w STALE (Some (Note ''Unfilled when the time budget expired.''))
             (dict_keys (lb_open b)) b)))
      (settle_loop w deadline True b)"

section \<open>Session events\<close>

fun poll_all :: "world \<Rightarrow> string list \<Rightarrow> lbroker \<Rightarrow> (exn + string list) \<times> lbroker" where
  "poll_all w [] b = (Inr [], b)"
| "poll_all w (no # nos) b =
    (case poll_once w no b of
       (Inl e, b) \<Rightarrow> (Inl e, b)
     | (Inr finished, b) \<Rightarrow>
         (case poll_all w nos b of
            (Inl e, b) \<Rightarrow> (Inl e, b)
          | (Inr ds, b) \<Rightarrow> (Inr (if finished then no # ds else ds), b)))"

definition absorb_fills :: "world \<Rightarrow> lbroker \<Rightarrow> lbroker outcome" where
  "absorb_fills w b =
    (case poll_all w (dict_keys (lb_open b)) b of
       (Inl e, b) \<Rightarrow> raise e b
     | (Inr finished, b) \<Rightarrow>
         then_do (drain_fill_buffer w b) (\<lambda>b. ok (close_orders w FILLED None finished b)))"

text \<open>A symbol without a price keeps its valuation.\<close>

definition mark_symbol :: "world \<Rightarrow> timestamp \<Rightarrow> string \<times> symbol \<Rightarrow> lbroker \<Rightarrow> lbroker outcome" where
  "mark_symbol w dt x b =
    (case get_mark w (snd x) b of
       (Inl e, b) \<Rightarrow> if e = Interrupted then raise e b else ok b
     | (Inr price, b) \<Rightarrow> on_live_portfolio (fst x) (update_market_value_of_asset (snd x) (Some price) dt) b)"

definition mark_to_market :: "world \<Rightarrow> lbroker \<Rightarrow> lbroker outcome" where
  "mark_to_market w b =
    (let (dt, b) = engine_now w (clear_cache b); b = b\<lparr>lb_dt := dt\<rparr> in
     for_each (mark_symbol w dt)
       (concat (map (\<lambda>(pid, p). map (Pair pid) (dict_keys (pf_positions p))) (lb_portfolios b))) b)"

definition live_update :: "world \<Rightarrow> timestamp \<Rightarrow> bool \<Rightarrow> lbroker \<Rightarrow> lbroker outcome" where
  "live_update w dt force b =
    (let b = (if lb_dt b < dt then b\<lparr>lb_dt := dt\<rparr> else b) in
     if \<not> force \<and> dt - lb_last_poll b < lb_throttle b then ok b
     else
       (let b = b\<lparr>lb_last_poll := dt\<rparr> in
        then_do (if lb_open b \<noteq> [] then absorb_fills w b else ok b) (mark_to_market w)))"

section \<open>What an operation leaves alone\<close>

definition engine_time :: "world \<Rightarrow> lbroker \<Rightarrow> timestamp" where
  "engine_time w b = fst (engine_now w b)"

lemma engine_now_eq: "engine_now w b = (engine_time w b, asked b)"
  by (simp add: engine_time_def engine_now_def Let_def)

lemma engine_time_ge [simp]: "lb_dt b \<le> engine_time w b"
  by (simp add: engine_time_def engine_now_def Let_def)

lemma asked_fields [simp]:
  "lb_dt (asked b) = lb_dt b" "lb_guard (asked b) = lb_guard b" "lb_ledger (asked b) = lb_ledger b"
  "lb_portfolios (asked b) = lb_portfolios b" "lb_open (asked b) = lb_open b"
  "lb_buffer (asked b) = lb_buffer b" "lb_booked (asked b) = lb_booked b"
  "lb_charged (asked b) = lb_charged b" "lb_marks (asked b) = lb_marks b"
  "lb_sent (asked b) = lb_sent b" "lb_asked (asked b) = lb_asked b + 1" "lb_account (asked b) = lb_account b"
  "lb_last_poll (asked b) = lb_last_poll b" "lb_throttle (asked b) = lb_throttle b"
  by (simp_all add: asked_def)

lemma get_mark_frame [simp]:
  "lb_dt (snd (get_mark w a b)) = lb_dt b" "lb_guard (snd (get_mark w a b)) = lb_guard b"
  "lb_ledger (snd (get_mark w a b)) = lb_ledger b" "lb_portfolios (snd (get_mark w a b)) = lb_portfolios b"
  "lb_open (snd (get_mark w a b)) = lb_open b" "lb_buffer (snd (get_mark w a b)) = lb_buffer b"
  "lb_booked (snd (get_mark w a b)) = lb_booked b" "lb_charged (snd (get_mark w a b)) = lb_charged b"
  "lb_sent (snd (get_mark w a b)) = lb_sent b" "lb_account (snd (get_mark w a b)) = lb_account b"
  by (auto simp: get_mark_def split: option.split sum.split)

lemma get_mark_asked: "lb_asked b \<le> lb_asked (snd (get_mark w a b))"
  by (auto simp: get_mark_def split: option.split sum.split)

lemma poll_once_frame [simp]:
  "lb_dt (snd (poll_once w no b)) = lb_dt b" "lb_guard (snd (poll_once w no b)) = lb_guard b"
  "lb_portfolios (snd (poll_once w no b)) = lb_portfolios b"
  "lb_booked (snd (poll_once w no b)) = lb_booked b" "lb_charged (snd (poll_once w no b)) = lb_charged b"
  "lb_marks (snd (poll_once w no b)) = lb_marks b" "lb_sent (snd (poll_once w no b)) = lb_sent b"
  "lb_account (snd (poll_once w no b)) = lb_account b"
  by (auto simp: poll_once_def Let_def engine_now_eq split: option.split sum.split)

lemma poll_once_asked: "lb_asked b \<le> lb_asked (snd (poll_once w no b))"
  by (auto simp: poll_once_def Let_def engine_now_eq split: option.split sum.split)

lemma poll_once_numbers [simp]: "dict_keys (lb_open (snd (poll_once w no b))) = dict_keys (lb_open b)"
  by (auto simp: poll_once_def Let_def engine_now_eq dict_keys_update split: option.split sum.split)

lemma on_live_portfolio_frame [simp]:
  "lb_dt (fst (on_live_portfolio pid f b)) = lb_dt b" "lb_guard (fst (on_live_portfolio pid f b)) = lb_guard b"
  "lb_ledger (fst (on_live_portfolio pid f b)) = lb_ledger b"
  "lb_open (fst (on_live_portfolio pid f b)) = lb_open b" "lb_buffer (fst (on_live_portfolio pid f b)) = lb_buffer b"
  "lb_booked (fst (on_live_portfolio pid f b)) = lb_booked b"
  "lb_charged (fst (on_live_portfolio pid f b)) = lb_charged b"
  "lb_marks (fst (on_live_portfolio pid f b)) = lb_marks b"
  "lb_sent (fst (on_live_portfolio pid f b)) = lb_sent b" "lb_asked (fst (on_live_portfolio pid f b)) = lb_asked b"
  "lb_account (fst (on_live_portfolio pid f b)) = lb_account b"
  "dict_keys (lb_portfolios (fst (on_live_portfolio pid f b))) = dict_keys (lb_portfolios b)"
  by (auto simp: on_live_portfolio_def dict_keys_update split: option.split)

lemma close_order_frame [simp]:
  "lb_dt (close_order w no st why b) = lb_dt b" "lb_guard (close_order w no st why b) = lb_guard b"
  "lb_portfolios (close_order w no st why b) = lb_portfolios b"
  "lb_buffer (close_order w no st why b) = lb_buffer b" "lb_booked (close_order w no st why b) = lb_booked b"
  "lb_charged (close_order w no st why b) = lb_charged b" "lb_marks (close_order w no st why b) = lb_marks b"
  "lb_sent (close_order w no st why b) = lb_sent b" "lb_account (close_order w no st why b) = lb_account b"
  "l_fills (lb_ledger (close_order w no st why b)) = l_fills (lb_ledger b)"
  by (auto simp: close_order_def Let_def engine_now_eq split: option.split)

lemma close_order_asked: "lb_asked b \<le> lb_asked (close_order w no st why b)"
  by (auto simp: close_order_def Let_def engine_now_eq split: option.split)

text \<open>Loops of closes and polls keep what one step keeps.\<close>

lemma close_orders_inv:
  assumes "P b" and "\<And>no b. P b \<Longrightarrow> P (close_order w no st why b)"
  shows "P (close_orders w st why nos b)"
  using assms unfolding close_orders_def by (induction nos arbitrary: b) simp_all

lemma poll_tasks_inv:
  assumes "poll_tasks w nos s = Some (alive, t)" and "P (snd s)" and "\<And>no b. P b \<Longrightarrow> P (snd (poll_once w no b))"
  shows "P (snd t)"
  using assms(1,2)
proof (induction nos arbitrary: s)
  case (Cons no nos)
  obtain r b where p: "poll_once w no (snd s) = (r, b)" by fastforce
  then have "P b" using assms(3) [OF Cons.prems(2), of no] by simp
  with p Cons show ?case by (auto split: sum.splits if_splits)
qed simp

lemma poll_all_inv:
  assumes "P b" and "\<And>no b. P b \<Longrightarrow> P (snd (poll_once w no b))"
  shows "P (snd (poll_all w nos b))"
  using assms(1)
proof (induction nos arbitrary: b)
  case (Cons no nos)
  have "P (snd (poll_once w no b))" using assms(2) Cons.prems .
  then show ?case using Cons.IH
    by (auto split: prod.splits sum.splits) (metis snd_conv)+
qed simp

text \<open>
  An invariant of the collecting side: kept by a poll, by booking a message, by a close and by
  the swap of the buffer.
\<close>

locale collecting =
  fixes w :: world and P :: "lbroker \<Rightarrow> bool"
  assumes poll: "P b \<Longrightarrow> P (snd (poll_once w no b))"
    and swap: "P b \<Longrightarrow> P (fst (drain_fill_buffer w b))"
    and close: "P b \<Longrightarrow> st = FILLED \<or> st = STALE \<Longrightarrow> P (close_order w no st why b)"
    and ask: "P b \<Longrightarrow> P (asked b)"
    and advance: "P b \<Longrightarrow> lb_dt b \<le> dt \<Longrightarrow> P (b\<lparr>lb_dt := dt\<rparr>)"
    and polled: "P b \<Longrightarrow> P (b\<lparr>lb_last_poll := dt\<rparr>)"
    and mark: "P b \<Longrightarrow> P (fst (mark_to_market w b))"
begin

lemma close_all: "P b \<Longrightarrow> st = FILLED \<or> st = STALE \<Longrightarrow> P (close_orders w st why nos b)"
  by (rule close_orders_inv) (auto intro: close)

lemma round:
  assumes "settle_round w b = Some (alive, r)" and "P b"
  shows "P (fst r)"
proof -
  obtain ds c where f: "poll_tasks w (dict_keys (lb_open b)) ([], b) = Some (alive, ds, c)"
      and r: "r = then_do (drain_fill_buffer w c) (\<lambda>b. ok (close_orders w FILLED None ds b))"
    using assms(1) by (auto simp: settle_round_def)
  have "P c" using poll_tasks_inv [OF f, of P] assms(2) poll by simp
  then show ?thesis unfolding r by (rule then_do_inv [where P = P, OF swap]) (simp add: close_all)
qed

lemma settle_loop:
  assumes "settle_loop w deadline alive b = Some r" and "P b"
  shows "P (snd r)"
proof -
  have "w' = w \<longrightarrow> P b \<longrightarrow> P (snd r)" if "settle_loop w' deadline alive b = Some r" for w' deadline alive b r
    using that
  proof (rule settle_loop.raw_induct [rotated], goal_cases)
    case (1 loop w' d alive b r)
    show ?case
    proof (intro impI)
      assume w: "w' = w" and b: "P b"
      have "P (asked (asked b))" using b by (simp add: ask)
      then have next_round: "P c" if "settle_round w (asked (asked b)) = Some (alive', c, e)" for alive' c e
        using round [OF that] by simp
      have "P (asked b)" using b by (rule ask)
      with next_round \<open>P (asked (asked b))\<close> show "P (snd r)"
        using 1(2) b w 1(1) [of w d _ _ r, rule_format, OF _ refl]
        by (auto simp: Let_def engine_now_eq split: if_splits option.splits)
    qed
  qed
  with assms show ?thesis by blast
qed

lemma settled:
  assumes "settle w deadline b = Some r" and "P b"
  shows "P (fst r)"
proof -
  obtain e b1 where loop: "settle_loop w deadline True b = Some (e, b1)"
    and r: "r = then_do (drain_fill_buffer w b1) (\<lambda>b. case e of
           Failed e \<Rightarrow> raise e b
         | StoppedByOperator \<Rightarrow> ok b
         | _ \<Rightarrow> ok (close_orders w STALE (Some (Note ''Unfilled when the time budget expired.''))
             (dict_keys (lb_open b)) b))"
    using assms(1) by (auto simp: settle_def)
  have "P b1" using settle_loop [OF loop] assms(2) by simp
  then show ?thesis
    unfolding r by (rule then_do_inv [where P = P, OF swap]) (auto intro: close_all split: settle_end.split)
qed

lemma absorbed: "P b \<Longrightarrow> P (fst (absorb_fills w b))"
proof -
  assume "P b"
  obtain r b1 where all: "poll_all w (dict_keys (lb_open b)) b = (r, b1)" by fastforce
  then have "P b1" using poll_all_inv [of P b w "dict_keys (lb_open b)"] \<open>P b\<close> poll by simp
  then show ?thesis
    unfolding absorb_fills_def all
    by (auto split: sum.split intro!: then_do_inv [where P = P, OF swap] close_all)
qed

lemma updated: "P b \<Longrightarrow> P (fst (live_update w dt force b))"
proof -
  assume "P b"
  define b1 where "b1 = (if lb_dt b < dt then b\<lparr>lb_dt := dt\<rparr> else b)"
  have "P b1" using \<open>P b\<close> by (simp add: b1_def advance)
  then have "P (fst (if lb_open b1 \<noteq> [] then absorb_fills w (b1\<lparr>lb_last_poll := dt\<rparr>) else ok (b1\<lparr>lb_last_poll := dt\<rparr>)))"
    by (simp add: absorbed polled)
  then have "P (fst (then_do (if lb_open b1 \<noteq> [] then absorb_fills w (b1\<lparr>lb_last_poll := dt\<rparr>)
      else ok (b1\<lparr>lb_last_poll := dt\<rparr>)) (mark_to_market w)))"
    by (rule then_do_inv) (rule mark)
  with \<open>P b1\<close> show ?thesis by (simp add: live_update_def b1_def [symmetric] Let_def)
qed

end

section \<open>Time, the stop and what was sent\<close>

lemma book_fill_frame [simp]:
  "lb_guard (fst (book_fill w fl b)) = lb_guard b" "lb_ledger (fst (book_fill w fl b)) = lb_ledger b"
  "lb_open (fst (book_fill w fl b)) = lb_open b" "lb_buffer (fst (book_fill w fl b)) = lb_buffer b"
  "lb_marks (fst (book_fill w fl b)) = lb_marks b" "lb_sent (fst (book_fill w fl b)) = lb_sent b"
  "lb_account (fst (book_fill w fl b)) = lb_account b"
  "dict_keys (lb_portfolios (fst (book_fill w fl b))) = dict_keys (lb_portfolios b)"
  unfolding book_fill_def Let_def engine_now_eq
  by (auto simp: then_do_def split: option.split)

lemma book_fill_mono: "lb_asked b \<le> lb_asked (fst (book_fill w fl b))" "lb_dt b \<le> lb_dt (fst (book_fill w fl b))"
  unfolding book_fill_def Let_def engine_now_eq by (auto simp: then_do_def split: option.split)

lemma drain_inv:
  assumes "P (b\<lparr>lb_buffer := []\<rparr>)" and "\<And>fl c. P c \<Longrightarrow> fl \<in> set (lb_buffer b) \<Longrightarrow> P (fst (book_fill w fl c))"
  shows "P (fst (drain_fill_buffer w b))"
  unfolding drain_fill_buffer_def by (rule for_each_inv [where P = P]) (use assms in auto)

lemma drain_frame [simp]:
  "lb_guard (fst (drain_fill_buffer w b)) = lb_guard b" "lb_ledger (fst (drain_fill_buffer w b)) = lb_ledger b"
  "lb_open (fst (drain_fill_buffer w b)) = lb_open b" "lb_buffer (fst (drain_fill_buffer w b)) = []"
  "lb_marks (fst (drain_fill_buffer w b)) = lb_marks b" "lb_sent (fst (drain_fill_buffer w b)) = lb_sent b"
  "lb_account (fst (drain_fill_buffer w b)) = lb_account b"
  "dict_keys (lb_portfolios (fst (drain_fill_buffer w b))) = dict_keys (lb_portfolios b)"
  using drain_inv [where P = "\<lambda>c. lb_guard c = lb_guard b \<and> lb_ledger c = lb_ledger b \<and>
      lb_open c = lb_open b \<and> lb_buffer c = [] \<and> lb_marks c = lb_marks b \<and> lb_sent c = lb_sent b \<and>
      lb_account c = lb_account b \<and> dict_keys (lb_portfolios c) = dict_keys (lb_portfolios b)", of b w]
  by simp_all

lemma drain_mono: "lb_asked b \<le> lb_asked (fst (drain_fill_buffer w b))" "lb_dt b \<le> lb_dt (fst (drain_fill_buffer w b))"
  using drain_inv [where P = "\<lambda>c. lb_asked b \<le> lb_asked c \<and> lb_dt b \<le> lb_dt c", of b w]
  by (simp_all add: book_fill_mono order_trans [OF _ book_fill_mono(1)] order_trans [OF _ book_fill_mono(2)])

lemma mark_symbol_frame [simp]:
  "lb_dt (fst (mark_symbol w dt x b)) = lb_dt b" "lb_guard (fst (mark_symbol w dt x b)) = lb_guard b"
  "lb_ledger (fst (mark_symbol w dt x b)) = lb_ledger b"
  "lb_open (fst (mark_symbol w dt x b)) = lb_open b" "lb_buffer (fst (mark_symbol w dt x b)) = lb_buffer b"
  "lb_booked (fst (mark_symbol w dt x b)) = lb_booked b" "lb_charged (fst (mark_symbol w dt x b)) = lb_charged b"
  "lb_sent (fst (mark_symbol w dt x b)) = lb_sent b" "lb_account (fst (mark_symbol w dt x b)) = lb_account b"
  "dict_keys (lb_portfolios (fst (mark_symbol w dt x b))) = dict_keys (lb_portfolios b)"
  by (auto simp: mark_symbol_def case_prod_unfold split: sum.split)

lemma mark_symbol_asked: "lb_asked b \<le> lb_asked (fst (mark_symbol w dt x b))"
  using get_mark_asked [of b w "snd x"]
  by (auto simp: mark_symbol_def case_prod_unfold split: sum.split)

lemma mark_inv:
  assumes "P ((asked (clear_cache b))\<lparr>lb_dt := engine_time w (clear_cache b)\<rparr>)"
    and "\<And>x b. P b \<Longrightarrow> P (fst (mark_symbol w (engine_time w (clear_cache b0)) x b))" and "b0 = b"
  shows "P (fst (mark_to_market w b))"
  unfolding mark_to_market_def engine_now_eq Let_def prod.case
  by (rule for_each_inv [where P = P, OF assms(1)]) (use assms(2,3) in simp)

lemma clear_cache_fields [simp]:
  "lb_dt (clear_cache b) = lb_dt b" "lb_guard (clear_cache b) = lb_guard b"
  "lb_ledger (clear_cache b) = lb_ledger b" "lb_portfolios (clear_cache b) = lb_portfolios b"
  "lb_open (clear_cache b) = lb_open b" "lb_buffer (clear_cache b) = lb_buffer b"
  "lb_booked (clear_cache b) = lb_booked b" "lb_charged (clear_cache b) = lb_charged b"
  "lb_marks (clear_cache b) = []" "lb_sent (clear_cache b) = lb_sent b"
  "lb_asked (clear_cache b) = lb_asked b" "lb_account (clear_cache b) = lb_account b"
  by (simp_all add: clear_cache_def)

end
