(* ===== verification/Live_Orders.thy ===== *)
theory Live_Orders
  imports Live_Broker
begin

text \<open>
  What \<^verbatim>\<open>LiveBroker.submit_order\<close> lets through to the venue, and what it leaves in the ledger
  before and after the call.
\<close>

section \<open>The clamp\<close>

lemma py_int_units [simp]: "py_int 1 = 1" "py_int (- 1) = - 1" "py_int 0 = 0"
  using py_int_of_int [of 1] py_int_of_int [of "- 1"] py_int_of_int [of 0] by simp_all

lemma py_int_sgn: "py_int (sgn q) = (if 0 < q then 1 else if q < 0 then - 1 else 0)"
  by (simp add: sgn_if)

lemma portfolio_to_dict_lookup:
  "map_option h_quantity (map_of (portfolio_to_dict p) a) = map_option net_quantity (map_of (pf_positions p) a)"
proof -
  have "map_option h_quantity (map_of (map (\<lambda>(a, pos). (a,
     \<lparr>h_quantity = net_quantity pos, h_market_value = market_value pos,
      h_unrealised_pnl = unrealised_pnl pos, h_realised_pnl = realised_pnl pos,
      h_total_pnl = total_pnl pos\<rparr>)) ps) a) = map_option net_quantity (map_of ps a)" for ps
    by (induction ps) auto
  then show ?thesis by (simp add: portfolio_to_dict_def)
qed

text \<open>What a quantity must not exceed: the cash for a purchase, the holding for a sale.\<close>

definition covered :: "portfolio \<Rightarrow> symbol \<Rightarrow> rat \<Rightarrow> int \<Rightarrow> bool" where
  "covered p a price q \<longleftrightarrow>
    (if 0 < q then of_int q * price \<le> pf_cash p
     else (case map_of (pf_positions p) a of None \<Rightarrow> False | Some pos \<Rightarrow> of_int \<bar>q\<bar> \<le> net_quantity pos))"

definition no_more_than :: "int \<Rightarrow> rat \<Rightarrow> bool" where
  "no_more_than q asked_for \<longleftrightarrow> (if 0 < q then of_int q \<le> asked_for else asked_for \<le> of_int q)"

lemma clamp_covered:
  assumes "clamp_quantity pid o' price b = Inr q" and "0 < price" and "q \<noteq> 0"
  shows "\<exists>p. map_of (lb_portfolios b) pid = Some p \<and> covered p (ord_asset o') price q \<and>
    no_more_than q (ord_quantity o')"
proof -
  let ?x = "ord_quantity o'"
  let ?n = "\<lfloor>\<bar>?x\<bar>\<rfloor> * py_int (sgn ?x)"
  have n: "?n \<noteq> 0" using assms(1,3) by (auto simp: clamp_quantity_def)
  with assms(1) obtain p where p: "map_of (lb_portfolios b) pid = Some p"
    by (auto simp: clamp_quantity_def Let_def split: option.splits)
  show ?thesis
  proof (cases "?n < 0")
    case True
    then have x: "?x < 0" by (auto simp: py_int_sgn split: if_splits)
    then have fl: "of_int \<lfloor>\<bar>?x\<bar>\<rfloor> \<le> - ?x" "?n = - \<lfloor>\<bar>?x\<bar>\<rfloor>" by (simp_all add: py_int_sgn)
    obtain pos where pos: "map_of (pf_positions p) (ord_asset o') = Some pos" "0 < net_quantity pos"
        "q = - min \<bar>?n\<bar> (py_int (net_quantity pos))"
    proof (cases "map_of (portfolio_to_dict p) (ord_asset o')")
      case None
      with assms(1,3) p n True show ?thesis by (simp add: clamp_quantity_def Let_def)
    next
      case (Some h)
      with portfolio_to_dict_lookup [of p "ord_asset o'"] obtain pos
        where "map_of (pf_positions p) (ord_asset o') = Some pos" "net_quantity pos = h_quantity h"
        by (cases "map_of (pf_positions p) (ord_asset o')") auto
      with assms(1,3) p n True Some that show ?thesis
        by (auto simp: clamp_quantity_def Let_def split: if_splits)
    qed
    have "of_int (py_int (net_quantity pos)) \<le> net_quantity pos" using pos(2) by (simp add: py_int_def)
    moreover have q: "q \<le> 0" "\<bar>q\<bar> \<le> py_int (net_quantity pos)" "\<bar>q\<bar> \<le> \<lfloor>\<bar>?x\<bar>\<rfloor>"
      using pos(2,3) fl(2) by (auto simp: py_int_def)
    moreover have "of_int \<bar>q\<bar> \<le> (of_int \<lfloor>\<bar>?x\<bar>\<rfloor> :: rat)" using q(3) by (simp only: of_int_le_iff)
    moreover have "of_int \<bar>q\<bar> \<le> (of_int (py_int (net_quantity pos)) :: rat)" using q(2) by (simp only: of_int_le_iff)
    moreover have "of_int \<bar>q\<bar> = - (of_int q :: rat)" using q(1) by simp
    ultimately have "of_int \<bar>q\<bar> \<le> net_quantity pos" "?x \<le> of_int q" using fl(1) by linarith+
    with p pos(1) q(1) show ?thesis by (simp add: covered_def no_more_than_def)
  next
    case False
    have "\<not> ?x < 0"
    proof
      assume "?x < 0"
      then have "?n = - \<lfloor>\<bar>?x\<bar>\<rfloor>" by (simp add: py_int_sgn)
      moreover have "0 \<le> \<lfloor>\<bar>?x\<bar>\<rfloor>" by simp
      ultimately show False using n False by linarith
    qed
    moreover have "?x \<noteq> 0" using n by auto
    ultimately have x: "0 < ?x" by simp
    then have fl: "of_int \<lfloor>\<bar>?x\<bar>\<rfloor> \<le> ?x" "?n = \<lfloor>\<bar>?x\<bar>\<rfloor>" by (simp_all add: py_int_sgn)
    have q: "q = min ?n \<lfloor>pf_cash p / price\<rfloor>" "0 < \<lfloor>pf_cash p / price\<rfloor>"
      using assms(1,3) p n False by (auto simp: clamp_quantity_def Let_def split: if_splits)
    have "q \<le> \<lfloor>pf_cash p / price\<rfloor>" "q \<le> \<lfloor>\<bar>?x\<bar>\<rfloor>" using q(1) fl(2) by simp_all
    then have "of_int q \<le> pf_cash p / price" "of_int q \<le> (of_int \<lfloor>\<bar>?x\<bar>\<rfloor> :: rat)"
      by (simp_all only: le_floor_iff of_int_le_iff)
    then have "of_int q \<le> pf_cash p / price" "of_int q \<le> ?x" using fl(1) by simp_all
    moreover have "0 < q" using q n False by linarith
    ultimately show ?thesis using p assms(2) by (auto simp: covered_def no_more_than_def field_simps)
  qed
qed

section \<open>Submission\<close>

text \<open>The cached marks are prices the venue gave.\<close>

definition marks_ok :: "lbroker \<Rightarrow> bool" where
  "marks_ok b \<longleftrightarrow> (\<forall>a m. map_of (lb_marks b) a = Some m \<longrightarrow> 0 < m)"

lemma marks_ok_get_mark: "marks_ok b \<Longrightarrow> marks_ok (snd (get_mark w a b))"
  and get_mark_pos: "marks_ok b \<Longrightarrow> get_mark w a b = (Inr p, c) \<Longrightarrow> 0 < p"
  by (auto simp: get_mark_def marks_ok_def split: option.splits sum.splits if_splits)

text \<open>The state in which the venue is about to be called, and the checks passed on the way there.\<close>

lemma submit_reaches_venue:
  assumes "lb_sent (fst (live_submit_order w pid o' b)) \<noteq> lb_sent b"
  obtains price c q where "w_is_open w (engine_time w b)"
    and "get_mark w (ord_asset o') (asked b) = (Inr price, c)"
    and "clamp_quantity pid o' price c = Inr q" and "q \<noteq> 0"
    and "check_order (w_exists w (lb_asked c)) (ord_asset o') q price (lb_guard c) = None"
    and "live_submit_order w pid o' b = place_order w pid o' q (engine_time w b) (asked c)"
proof -
  obtain r c where m: "get_mark w (ord_asset o') (asked b) = (r, c)" by fastforce
  then have c: "lb_sent c = lb_sent b" using get_mark_frame(9) [of w "ord_asset o'" "asked b"] by simp
  show ?thesis
    using assms c m that
    by (auto simp: live_submit_order_def engine_now_eq Let_def refuse_order_def
        split: if_splits sum.splits option.splits)
qed

lemma place_order_sent [simp]:
  "lb_sent (fst (place_order w pid o' q dt b)) = lb_sent b @ [(ord_asset o', q)]"
  by (auto simp: place_order_def Let_def split: sum.split)

section \<open>Properties\<close>

text \<open>
  C20. An order reaches the venue only if everything was checked at the mark it was valued at:
  the market is open, no stop is in force, the order is within the limits of the guard, it asks
  for no more than the order submitted to the broker, and a purchase is covered by cash, a sale
  by the holding. At most one order is sent by a submission.
\<close>

theorem sent_order_passed_every_check:
  assumes "lb_sent (fst (live_submit_order w pid o' b)) \<noteq> lb_sent b" and "marks_ok b"
  shows "\<exists>q price p. lb_sent (fst (live_submit_order w pid o' b)) = lb_sent b @ [(ord_asset o', q)] \<and>
    q \<noteq> 0 \<and> no_more_than q (ord_quantity o') \<and> 0 < price \<and>
    fst (get_mark w (ord_asset o') (asked b)) = Inr price \<and>
    map_of (lb_portfolios b) pid = Some p \<and> covered p (ord_asset o') price q \<and>
    w_is_open w (engine_time w b) \<and> \<not> trading_halted b \<and>
    (\<exists>n \<ge> lb_asked b. \<not> is_kill_switch_engaged (w_exists w n) (lb_guard b)) \<and>
    (\<forall>m. g_max_value (lb_guard b) = Some m \<longrightarrow> of_int \<bar>q\<bar> * price \<le> m) \<and>
    (\<forall>n. g_max_orders (lb_guard b) = Some n \<longrightarrow> g_submitted (lb_guard b) < n)"
proof -
  obtain price c q where r: "w_is_open w (engine_time w b)"
      "get_mark w (ord_asset o') (asked b) = (Inr price, c)" "clamp_quantity pid o' price c = Inr q" "q \<noteq> 0"
      "check_order (w_exists w (lb_asked c)) (ord_asset o') q price (lb_guard c) = None"
      "live_submit_order w pid o' b = place_order w pid o' q (engine_time w b) (asked c)"
    using submit_reaches_venue [OF assms(1)] .
  have c: "lb_sent c = lb_sent b" "lb_guard c = lb_guard b" "lb_portfolios c = lb_portfolios b" "lb_asked b \<le> lb_asked c"
    using get_mark_frame [of w "ord_asset o'" "asked b"] get_mark_asked [of "asked b" w "ord_asset o'"] r(2)
    by simp_all
  have "marks_ok (asked b)" using assms(2) by (simp add: marks_ok_def)
  then have pos: "0 < price" using r(2) by (rule get_mark_pos)
  obtain p where "map_of (lb_portfolios b) pid = Some p" "covered p (ord_asset o') price q"
      "no_more_than q (ord_quantity o')"
    using clamp_covered [OF r(3) pos r(4)] c by auto
  then show ?thesis
    using r c pos
    by (intro exI [of _ q] exI [of _ price] exI [of _ p])
      (auto simp: check_order_passes check_can_trade_def trading_halted_def split: if_splits)
qed

text \<open>A paper account with 1000 in cash and five shares, whose venue fills every order at once.\<close>

definition demo_world :: world where
  "demo_world = \<lparr>w_clock = Some (\<lambda>n. 1000 + int n), w_exists = \<lambda>n path. False,
     w_price = \<lambda>n a. Inr (Some 100), w_place = \<lambda>n a q. Inr (replicate (Suc n) CHR ''x''),
     w_report = \<lambda>n no. Inr \<lparr>rp_no = no, rp_filled = 3, rp_price = 100, rp_remaining = 0, rp_rejected = 0,
       rp_fees = 2, rp_done = True\<rparr>,
     w_balance = \<lambda>n. Inr \<lparr>ab_cash = 1000, ab_settled = 1000, ab_equity = 1450,
       ab_holdings = [\<lparr>vh_symbol = ''EQ:A'', vh_quantity = 5, vh_price = 90\<rparr>]\<rparr>,
     w_is_open = \<lambda>dt. True\<rparr>"

definition demo_live :: lbroker where
  "demo_live = fst (then_do (new_live_broker 0 ''live'' ''KRW'' None (Some ''kis'') (Some ''paper'') None
     (Some (new_guard (Some ''kill'') (Some 500) (Some 10))) None empty_ledger) (seed_from_venue demo_world))"

definition demo_live_order :: "rat \<Rightarrow> order" where
  "demo_live_order q = new_order ''id1'' 0 ''EQ:A'' q"

lemma demo_live_fields [simp]:
  "lb_dt demo_live = 0" "lb_open demo_live = []" "lb_sent demo_live = []" "lb_marks demo_live = []"
  "lb_asked demo_live = 1" "l_orders (lb_ledger demo_live) = []" "l_fills (lb_ledger demo_live) = []"
  "lb_booked demo_live = []" "lb_charged demo_live = []" "lb_buffer demo_live = []"
  "lb_guard demo_live = new_guard (Some ''kill'') (Some 500) (Some 10)"
  "map_option pf_cash (map_of (lb_portfolios demo_live) ''live'') = Some 1000"
  by (simp_all add: demo_live_def new_live_broker_def live_create_portfolio_def stamp_identity_def
      get_identity_def insert_meta_def empty_ledger_def seed_from_venue_def seed_portfolio_def
      on_live_portfolio_def demo_world_def transact_position_def seed_transaction_def net_quantity_open Let_def)

lemma demo_submit_sends: "lb_sent (fst (live_submit_order demo_world ''live'' (demo_live_order 3) demo_live)) = [(''EQ:A'', 3)]"
proof -
  obtain p where p: "map_of (lb_portfolios demo_live) ''live'' = Some p" "pf_cash p = 1000"
    using demo_live_fields(12) by (cases "map_of (lb_portfolios demo_live) ''live''") auto
  then show ?thesis
    by (simp add: live_submit_order_def engine_now_def get_mark_def clamp_quantity_def place_order_def
        check_order_def check_can_trade_def is_kill_switch_engaged_def is_halted_def new_guard_def
        demo_live_order_def new_order_def Let_def demo_world_def)
qed

theorem sent_order_passed_every_check_witness:
  "\<exists>q price p. lb_sent (fst (live_submit_order demo_world ''live'' (demo_live_order 3) demo_live)) = [(''EQ:A'', q)] \<and>
     map_of (lb_portfolios demo_live) ''live'' = Some p \<and> covered p ''EQ:A'' price q"
  using sent_order_passed_every_check [of demo_world "''live''" "demo_live_order 3" demo_live]
  by (simp add: demo_submit_sends marks_ok_def) (auto simp: demo_live_order_def new_order_def)

text \<open>
  C24. The ledger is written ahead of the venue. Whatever order reaches the venue is in the
  ledger, with its symbol and quantity: as an intent without a number if the process ends
  during the call, as rejected if the call fails, and as submitted under the number the venue
  gave, with the order open, if it is accepted.
\<close>

theorem intent_is_written_ahead:
  assumes "lb_sent (fst (live_submit_order w pid o' b)) \<noteq> lb_sent b"
    and "get_order (ord_id o') (lb_ledger b) = None"
  shows "\<exists>q r. lb_sent (fst (live_submit_order w pid o' b)) = lb_sent b @ [(ord_asset o', q)] \<and>
    get_order (ord_id o') (lb_ledger (fst (live_submit_order w pid o' b))) = Some r \<and>
    or_symbol r = ord_asset o' \<and> or_quantity r = q \<and>
    (if snd (live_submit_order w pid o' b) = Some Interrupted then or_state r = INTENT \<and> or_no r = None
     else snd (live_submit_order w pid o' b) = None \<and>
       (or_state r = REJECTED \<and> or_no r = None \<or>
        or_state r = SUBMITTED \<and> (\<exists>no st. or_no r = Some no \<and>
          map_of (lb_open (fst (live_submit_order w pid o' b))) no = Some st \<and>
          oo_id st = ord_id o' \<and> oo_symbol st = ord_asset o' \<and> oo_quantity st = q \<and> oo_booked st = 0)))"
proof -
  obtain price c q where r: "get_mark w (ord_asset o') (asked b) = (Inr price, c)"
      "live_submit_order w pid o' b = place_order w pid o' q (engine_time w b) (asked c)"
    using submit_reaches_venue [OF assms(1)] by metis
  have c: "lb_sent c = lb_sent b" "lb_ledger c = lb_ledger b"
    using get_mark_frame [of w "ord_asset o'" "asked b"] r(1) by simp_all
  show ?thesis unfolding r(2)
    using c assms(2)
    by (intro exI [of _ q])
      (auto simp: place_order_def Let_def get_order_intent split: sum.split)
qed

theorem intent_is_written_ahead_witness:
  "\<exists>q r. lb_sent (fst (live_submit_order demo_world ''live'' (demo_live_order 3) demo_live)) = [(''EQ:A'', q)] \<and>
     get_order ''id1'' (lb_ledger (fst (live_submit_order demo_world ''live'' (demo_live_order 3) demo_live))) = Some r \<and>
     or_quantity r = q"
  using intent_is_written_ahead [of demo_world "''live''" "demo_live_order 3" demo_live]
  by (simp add: demo_submit_sends get_order_def) (auto simp: demo_live_order_def new_order_def get_order_def)

end
