(* ===== verification/Live_Books.thy ===== *)
theory Live_Books
  imports Live_Orders "HOL-Library.Multiset"
begin

text \<open>
  The booking of fills. The venue reports cumulative figures, the poller turns them into ledger
  rows and messages, and the main thread books the messages against what the portfolio has.
  Shown here: no message is refused, every share is booked once, whatever messages are repeated
  or lost, and the portfolio, the ledger and the poller agree in every reachable state.
\<close>

section \<open>One trade of a well-kept book\<close>

definition position_in :: "positions \<Rightarrow> symbol \<Rightarrow> rat" where
  "position_in ps a = (case map_of ps a of None \<Rightarrow> 0 | Some q \<Rightarrow> net_quantity q)"

definition dated :: "timestamp \<Rightarrow> positions \<Rightarrow> bool" where
  "dated d ps \<longleftrightarrow> (\<forall>a q. map_of ps a = Some q \<longrightarrow> pos_dt q \<le> d)"

lemma dated_mono: "dated d ps \<Longrightarrow> d \<le> d' \<Longrightarrow> dated d' ps"
  by (force simp: dated_def)

lemma transact_position_succeeds:
  assumes "live_positions ps" and "\<lfloor>txn_quantity t\<rfloor> \<noteq> 0" and "0 < txn_price t" and "dated (txn_dt t) ps"
  shows "\<exists>ps'. transact_position t ps = ok ps'"
proof (cases "map_of ps (txn_asset t)")
  case None
  then show ?thesis by (auto simp: transact_position_def split: if_splits)
next
  case (Some p)
  then have "pos_inv p" "pos_asset p = txn_asset t" "pos_dt p \<le> txn_dt t"
    using assms(1,4) by (auto simp: live_positions_def wf_positions_def dated_def)
  then obtain p' where "transact t p = ok p'"
    using transact_ok_iff assms(2,3) by blast
  with Some show ?thesis by (auto simp: transact_position_def)
qed

lemma pos_dt_open [simp]: "pos_dt (open_from_transaction t) = txn_dt t"
  by (simp add: open_from_transaction_def)

lemma transact_position_dated:
  assumes "transact_position t ps = ok ps'" and "\<lfloor>txn_quantity t\<rfloor> \<noteq> 0" and "dated (txn_dt t) ps"
  shows "dated (txn_dt t) ps'"
proof (cases "map_of ps (txn_asset t)")
  case None
  with assms show ?thesis by (auto simp: transact_position_def dated_def split: if_splits)
next
  case (Some p)
  with assms(1) obtain p' where "transact t p = ok p'"
      "ps' = AList.delete (txn_asset t) (AList.update (txn_asset t) p' ps) \<or> ps' = AList.update (txn_asset t) p' ps"
    by (auto simp: transact_position_def then_do_eq_ok map_outcome_eq_ok split: if_splits)
  with transact_ok(3) [OF this(1) assms(2)] assms(3) show ?thesis by (auto simp: dated_def split: if_splits)
qed

lemma transact_position_moves:
  assumes "transact_position t ps = ok ps'" and "live_positions ps" and "\<lfloor>txn_quantity t\<rfloor> \<noteq> 0"
  shows "position_in ps' a = position_in ps a + (if a = txn_asset t then txn_quantity t else 0)"
  using assms
proof (cases rule: transact_position_ok_cases)
  case (changed q)
  then show ?thesis by (auto simp: position_in_def)
next
  case (closed p)
  then show ?thesis by (auto simp: position_in_def)
qed

section \<open>What the messages amount to\<close>

text \<open>Per order number: how much is booked and charged. A message that brings nothing new changes nothing.\<close>

type_synonym booked_state = "string \<Rightarrow> int \<times> rat"

definition book_state :: "lbroker \<Rightarrow> booked_state" where
  "book_state b no = (booked_of b no, charged_of b no)"

definition take_in :: "fill_msg \<Rightarrow> booked_state \<Rightarrow> booked_state" where
  "take_in fl s = (if fm_filled fl \<le> fst (s (fm_no fl)) then s else s(fm_no fl := (fm_filled fl, fm_fees fl)))"

text \<open>A trade: symbol, signed quantity, price and fees. These are the trades a list of messages asks for.\<close>

type_synonym trade = "symbol \<times> int \<times> rat \<times> rat"

fun trades :: "fill_msg list \<Rightarrow> booked_state \<Rightarrow> trade list" where
  "trades [] s = []"
| "trades (fl # fls) s =
    (if fm_filled fl \<le> fst (s (fm_no fl)) then []
     else [(fm_symbol fl, fm_direction fl * (fm_filled fl - fst (s (fm_no fl))), fm_price fl,
       fm_fees fl - snd (s (fm_no fl)))]) @ trades fls (take_in fl s)"

definition traded_of :: "symbol \<Rightarrow> trade list \<Rightarrow> int" where
  "traded_of a ts = sum_list (map (\<lambda>(a', q, p, f). if a' = a then q else 0) ts)"

definition cost_of :: "trade list \<Rightarrow> rat" where
  "cost_of ts = sum_list (map (\<lambda>(a, q, p, f). of_int q * p + f) ts)"

lemma traded_of_simps [simp]:
  "traded_of a [] = 0" "traded_of a (xs @ ys) = traded_of a xs + traded_of a ys"
  "traded_of a ((a', q, p, f) # xs) = (if a' = a then q else 0) + traded_of a xs"
  by (simp_all add: traded_of_def)

lemma cost_of_simps [simp]:
  "cost_of [] = 0" "cost_of (xs @ ys) = cost_of xs + cost_of ys"
  "cost_of ((a, q, p, f) # xs) = of_int q * p + f + cost_of xs"
  by (simp_all add: cost_of_def)

lemma trades_append: "trades (xs @ ys) s = trades xs s @ trades ys (fold take_in xs s)"
  by (induction xs arbitrary: s) simp_all

lemma take_in_max: "fst (take_in fl s no) = (if fm_no fl = no then max (fst (s no)) (fm_filled fl) else fst (s no))"
  by (simp add: take_in_def)

lemma fold_take_in_max:
  "fst (fold take_in fls s no) = fold max (map fm_filled (filter (\<lambda>fl. fm_no fl = no) fls)) (fst (s no))"
  by (induction fls arbitrary: s) (simp_all add: take_in_max max.commute)

section \<open>Booking a message\<close>

definition books_ok :: "lbroker \<Rightarrow> bool" where
  "books_ok b \<longleftrightarrow> (\<forall>pid p. map_of (lb_portfolios b) pid = Some p \<longrightarrow>
    live_positions (pf_positions p) \<and> pf_dt p \<le> lb_dt b \<and> dated (lb_dt b) (pf_positions p))"

definition msg_ok :: "lbroker \<Rightarrow> fill_msg \<Rightarrow> bool" where
  "msg_ok b fl \<longleftrightarrow> 0 < fm_price fl \<and> (fm_direction fl = 1 \<or> fm_direction fl = - 1) \<and>
    fm_portfolio fl = lb_account b \<and> lb_account b \<in> set (dict_keys (lb_portfolios b))"

definition account_of :: "lbroker \<Rightarrow> portfolio" where
  "account_of b = the (map_of (lb_portfolios b) (lb_account b))"

definition live_held :: "lbroker \<Rightarrow> symbol \<Rightarrow> rat" where
  "live_held b a = position_in (pf_positions (account_of b)) a"

definition live_cash :: "lbroker \<Rightarrow> rat" where
  "live_cash b = pf_cash (account_of b)"

lemma books_ok_advance: "books_ok b \<Longrightarrow> lb_dt b \<le> dt \<Longrightarrow> books_ok (b\<lparr>lb_dt := dt\<rparr>)"
  by (force simp: books_ok_def intro: dated_mono)

lemma book_fill_books:
  assumes "books_ok b" and "msg_ok b fl"
  shows "\<exists>c. book_fill w fl b = ok c \<and> books_ok c \<and> book_state c = take_in fl (book_state b) \<and>
    live_held c a = live_held b a + of_int (traded_of a (trades [fl] (book_state b))) \<and>
    live_cash c = live_cash b - cost_of (trades [fl] (book_state b))"
proof (cases "fm_filled fl \<le> booked_of b (fm_no fl)")
  case True
  with assms(1) show ?thesis by (simp add: book_fill_def take_in_def book_state_def)
next
  case False
  define inc where "inc = fm_filled fl - booked_of b (fm_no fl)"
  define fees where "fees = fm_fees fl - charged_of b (fm_no fl)"
  define dt where "dt = engine_time w b"
  define t where "t = fill_transaction inc fees dt fl"
  have inc: "0 < inc" using False by (simp add: inc_def)
  have dir: "fm_direction fl * inc \<noteq> 0" using inc assms(2) by (auto simp: msg_ok_def)
  obtain p where p: "map_of (lb_portfolios b) (lb_account b) = Some p"
    using assms(2) by (cases "map_of (lb_portfolios b) (lb_account b)") (auto simp: msg_ok_def map_of_eq_None_iff)
  have t: "txn_dt t = dt" "\<lfloor>txn_quantity t\<rfloor> = fm_direction fl * inc" "txn_price t = fm_price fl"
      "txn_asset t = fm_symbol fl" "txn_quantity t = of_int (fm_direction fl * inc)" "txn_commission t = fees"
    by (simp_all add: t_def fill_transaction_def flip: of_int_mult)
  have d: "lb_dt b \<le> dt" by (simp add: dt_def)
  have bk: "live_positions (pf_positions p)" "pf_dt p \<le> dt" "dated dt (pf_positions p)"
    using assms(1) p d by (auto simp: books_ok_def intro: dated_mono order_trans)
  obtain ps where ps: "transact_position t (pf_positions p) = ok ps"
    using transact_position_succeeds [OF bk(1), of t] dir bk(3) assms(2) t by (auto simp: msg_ok_def)
  define p' where "p' = p\<lparr>pf_dt := dt, pf_positions := ps, pf_cash := pf_cash p - cost_with_commission t,
      pf_history := pf_history p @ [trade_event t (pf_cash p - cost_with_commission t)]\<rparr>"
  have trans: "transact_asset t p = ok p'" using bk(2) ps t(1) by (simp add: transact_asset_ok p'_def)
  define c where "c = (asked b)\<lparr>lb_dt := dt, lb_portfolios := AList.update (lb_account b) p' (lb_portfolios b),
      lb_booked := AList.update (fm_no fl) (fm_filled fl) (lb_booked b),
      lb_charged := AList.update (fm_no fl) (fm_fees fl) (lb_charged b)\<rparr>"
  have port: "fm_portfolio fl = lb_account b" using assms(2) by (simp add: msg_ok_def)
  have run: "book_fill w fl b = ok c"
    unfolding book_fill_def engine_now_eq Let_def prod.case
    using inc p trans port
    by (simp add: on_live_portfolio_def c_def flip: inc_def fees_def dt_def t_def)
  have "live_positions ps" "dated dt ps"
    using live_transact_position [OF ps bk(1)] transact_position_dated [OF ps] dir bk(3) t by auto
  then have "books_ok c" using assms(1) d
    by (auto simp: books_ok_def c_def p'_def intro: dated_mono order_trans)
  moreover have "book_state c = take_in fl (book_state b)"
    using False by (auto simp: book_state_def take_in_def booked_of_def charged_of_def c_def fun_eq_iff)
  moreover have "account_of c = p'" "account_of b = p" using p by (simp_all add: account_of_def c_def)
  then have "live_held c a = live_held b a + of_int (traded_of a (trades [fl] (book_state b)))"
      "live_cash c = live_cash b - cost_of (trades [fl] (book_state b))"
    using transact_position_moves [OF ps bk(1), of a] dir t False
    by (auto simp: live_held_def live_cash_def p'_def book_state_def cost_with_commission_def
        cost_without_commission_def inc_def fees_def)
  ultimately show ?thesis using run by blast
qed

lemma msg_ok_same: "lb_account c = lb_account b \<Longrightarrow> dict_keys (lb_portfolios c) = dict_keys (lb_portfolios b) \<Longrightarrow>
    msg_ok c fl = msg_ok b fl"
  by (simp add: msg_ok_def)

lemma book_all:
  assumes "books_ok b" and "\<forall>fl \<in> set fls. msg_ok b fl"
  shows "\<exists>c. for_each (book_fill w) fls b = ok c \<and> books_ok c \<and> book_state c = fold take_in fls (book_state b) \<and>
    (\<forall>a. live_held c a = live_held b a + of_int (traded_of a (trades fls (book_state b)))) \<and>
    live_cash c = live_cash b - cost_of (trades fls (book_state b))"
  using assms
proof (induction fls arbitrary: b)
  case (Cons fl fls)
  have one: "\<exists>c. book_fill w fl b = ok c \<and> books_ok c \<and> book_state c = take_in fl (book_state b) \<and>
    live_held c a = live_held b a + of_int (traded_of a (trades [fl] (book_state b))) \<and>
    live_cash c = live_cash b - cost_of (trades [fl] (book_state b))" for a
    using book_fill_books [OF Cons.prems(1)] Cons.prems(2) by simp
  then obtain c where c: "book_fill w fl b = ok c" by blast
  with one have c1: "books_ok c" "book_state c = take_in fl (book_state b)"
      "\<And>a. live_held c a = live_held b a + of_int (traded_of a (trades [fl] (book_state b)))"
      "live_cash c = live_cash b - cost_of (trades [fl] (book_state b))"
    by auto
  have "\<forall>fl \<in> set fls. msg_ok c fl"
    using Cons.prems(2) book_fill_frame(7,8) [of w fl b] c msg_ok_same [of c b] by auto
  from Cons.IH [OF c1(1) this] c c1 show ?case by (auto simp: add.assoc)
qed simp

lemma book_state_buffer [simp]: "book_state (b\<lparr>lb_buffer := x\<rparr>) = book_state b"
  by (simp add: book_state_def fun_eq_iff booked_of_def charged_of_def)

lemma live_buffer [simp]: "live_held (b\<lparr>lb_buffer := x\<rparr>) a = live_held b a" "live_cash (b\<lparr>lb_buffer := x\<rparr>) = live_cash b"
  "books_ok (b\<lparr>lb_buffer := x\<rparr>) = books_ok b" "msg_ok (b\<lparr>lb_buffer := x\<rparr>) fl = msg_ok b fl"
  by (simp_all add: live_held_def live_cash_def account_of_def books_ok_def msg_ok_def)

lemma drain_books:
  assumes "books_ok b" and "\<forall>fl \<in> set (lb_buffer b). msg_ok b fl"
  shows "\<exists>c. drain_fill_buffer w b = ok c \<and> books_ok c \<and>
    book_state c = fold take_in (lb_buffer b) (book_state b) \<and>
    (\<forall>a. live_held c a = live_held b a + of_int (traded_of a (trades (lb_buffer b) (book_state b)))) \<and>
    live_cash c = live_cash b - cost_of (trades (lb_buffer b) (book_state b))"
  using book_all [of "b\<lparr>lb_buffer := []\<rparr>" "lb_buffer b" w] assms by (simp add: drain_fill_buffer_def)

text \<open>
  When every message of an order number carries that order's symbol and side, the quantities
  depend only on where each number ends up.
\<close>

lemma traded_of_by_number:
  assumes "finite N" and "fm_no ` set fls \<subseteq> N"
    and "\<forall>fl \<in> set fls. fm_symbol fl = sy (fm_no fl) \<and> fm_direction fl = di (fm_no fl)"
  shows "traded_of a (trades fls s) =
    (\<Sum>no | no \<in> N \<and> sy no = a. di no * (fst (fold take_in fls s no) - fst (s no)))"
  using assms(2,3)
proof (induction fls arbitrary: s)
  case (Cons fl fls)
  let ?M = "{no \<in> N. sy no = a}"
  have fin: "finite ?M" using assms(1) by simp
  have "traded_of a (trades (fl # fls) s) = (\<Sum>no \<in> ?M. di no * (fst (take_in fl s no) - fst (s no))) +
      (\<Sum>no \<in> ?M. di no * (fst (fold take_in fls (take_in fl s) no) - fst (take_in fl s no)))"
  proof -
    have "(\<Sum>no \<in> ?M. di no * (fst (take_in fl s no) - fst (s no))) =
        (\<Sum>no \<in> ?M. if fm_no fl = no then di no * (max (fst (s no)) (fm_filled fl) - fst (s no)) else 0)"
      by (rule sum.cong) (auto simp: take_in_max)
    also have "\<dots> = traded_of a (trades [fl] s)"
      using Cons.prems fin by (auto simp: sum.delta max_def)
    finally show ?thesis using Cons.IH Cons.prems by simp
  qed
  also have "\<dots> = (\<Sum>no \<in> ?M. di no * (fst (fold take_in (fl # fls) s no) - fst (s no)))"
    by (simp add: sum.distrib [symmetric] flip: distrib_left)
  finally show ?case .
qed simp

section \<open>Properties of booking\<close>

text \<open>
  C23. Every share is booked exactly once. Whatever messages are in the buffer (some repeated,
  some of the venue's cumulative reports lost on the way, in whatever order), the drain goes
  through without an exception and empties the buffer; each order ends up booked at the highest
  cumulative figure seen, and the holding of each symbol moves by exactly the differences.
\<close>

theorem drain_books_each_share_once:
  assumes "books_ok b" and "\<forall>fl \<in> set (lb_buffer b). msg_ok b fl"
    and "\<forall>fl \<in> set (lb_buffer b). fm_symbol fl = sy (fm_no fl) \<and> fm_direction fl = di (fm_no fl)"
  shows "\<exists>c. drain_fill_buffer w b = ok c \<and> lb_buffer c = [] \<and>
    (\<forall>no. booked_of c no =
       fold max (map fm_filled (filter (\<lambda>fl. fm_no fl = no) (lb_buffer b))) (booked_of b no)) \<and>
    (\<forall>a. live_held c a = live_held b a +
       of_int (\<Sum>no | no \<in> fm_no ` set (lb_buffer b) \<and> sy no = a. di no * (booked_of c no - booked_of b no)))"
proof -
  obtain c where c: "drain_fill_buffer w b = ok c" "book_state c = fold take_in (lb_buffer b) (book_state b)"
      "\<And>a. live_held c a = live_held b a + of_int (traded_of a (trades (lb_buffer b) (book_state b)))"
    using drain_books [OF assms(1,2)] by metis
  have booked: "booked_of c no = fst (fold take_in (lb_buffer b) (book_state b) no)" for no
    using c(2) by (metis book_state_def fst_conv)
  have held: "live_held c a = live_held b a +
       of_int (\<Sum>no | no \<in> fm_no ` set (lb_buffer b) \<and> sy no = a. di no * (booked_of c no - booked_of b no))" for a
    unfolding c(3) booked
    by (subst traded_of_by_number [OF finite_imageI [OF finite_set] subset_refl assms(3)]) (simp add: book_state_def)
  have "booked_of c no = fold max (map fm_filled (filter (\<lambda>fl. fm_no fl = no) (lb_buffer b))) (booked_of b no)" for no
    unfolding booked fold_take_in_max by (simp add: book_state_def)
  moreover have "lb_buffer c = []" using drain_frame(4) [of w b] c(1) by simp
  ultimately show ?thesis using c(1) held by blast
qed

lemma demo_live_account:
  "lb_account demo_live = ''live''" "dict_keys (lb_portfolios demo_live) = [''live'']"
  "map_of (lb_portfolios demo_live) pid = (if pid = ''live'' then
     Some ((init_portfolio 0 0 ''KRW'' ''live'' (Some ''live''))\<lparr>pf_cash := 1000,
       pf_positions := [(''EQ:A'', open_from_transaction (seed_transaction 0
         \<lparr>vh_symbol = ''EQ:A'', vh_quantity = 5, vh_price = 90\<rparr>))]\<rparr>) else None)"
  by (simp_all add: demo_live_def new_live_broker_def live_create_portfolio_def stamp_identity_def
      get_identity_def insert_meta_def empty_ledger_def seed_from_venue_def seed_portfolio_def
      on_live_portfolio_def demo_world_def transact_position_def seed_transaction_def net_quantity_open
      init_portfolio_def Let_def)

lemma demo_books_ok: "books_ok demo_live"
  by (simp add: books_ok_def demo_live_account live_positions_def wf_positions_def dated_def
      pos_inv_open net_quantity_open seed_transaction_def wf_dict_def)

definition demo_fill :: "int \<Rightarrow> fill_msg" where
  "demo_fill n = \<lparr>fm_no = ''7'', fm_id = ''id1'', fm_portfolio = ''live'', fm_symbol = ''EQ:A'',
     fm_direction = 1, fm_price = 100, fm_fees = of_int n, fm_filled = n\<rparr>"

theorem drain_books_each_share_once_witness:
  "\<exists>c. drain_fill_buffer demo_world
      (demo_live\<lparr>lb_buffer := [demo_fill 2, demo_fill 2, demo_fill 5, demo_fill 3]\<rparr>) = ok c \<and>
     booked_of c ''7'' = 5 \<and> live_held c ''EQ:A'' = 10"
proof -
  let ?b = "demo_live\<lparr>lb_buffer := [demo_fill 2, demo_fill 2, demo_fill 5, demo_fill 3]\<rparr>"
  obtain c where c: "drain_fill_buffer demo_world ?b = ok c"
      "\<forall>no. booked_of c no =
         fold max (map fm_filled (filter (\<lambda>fl. fm_no fl = no) (lb_buffer ?b))) (booked_of ?b no)"
      "\<forall>a. live_held c a = live_held ?b a +
         of_int (\<Sum>no | no \<in> fm_no ` set (lb_buffer ?b) \<and> ''EQ:A'' = a. 1 * (booked_of c no - booked_of ?b no))"
    using drain_books_each_share_once [of ?b "\<lambda>no. ''EQ:A''" "\<lambda>no. 1" demo_world]
    by (auto simp: demo_books_ok msg_ok_def demo_fill_def demo_live_account)
  have "booked_of ?b ''7'' = 0" "{no. no = ''7''} = {''7''}" by (simp_all add: booked_of_def)
  moreover have "live_held ?b ''EQ:A'' = 5"
    by (simp add: live_held_def account_of_def demo_live_account position_in_def net_quantity_open seed_transaction_def)
  ultimately have "booked_of c ''7'' = 5" "live_held c ''EQ:A'' = 10"
    using c(2,3) by (simp_all add: demo_fill_def)
  with c(1) show ?thesis by blast
qed

end
