(* ===== verification/Live_Collect.thy ===== *)
theory Live_Collect
  imports Live_Books
begin

text \<open>
  The poller, the ledger, the message buffer and the portfolio, together. The invariant
  \<open>follows\<close> says that the ledger's fill rows of an order add up to what the poller has seen of
  it, that the messages in flight are what the portfolio lacks, and that portfolio plus
  messages is the starting portfolio plus the new ledger rows. It is kept by every operation
  that collects fills, through the locale \<open>collecting\<close>.
\<close>

section \<open>What the ledger says was booked\<close>

definition already_booked :: "string \<Rightarrow> ledger \<Rightarrow> int" where
  "already_booked oid l = sum_list (map (\<lambda>r. \<bar>fr_quantity r\<bar>) (get_fills oid l))"

definition already_booked_fees :: "string \<Rightarrow> ledger \<Rightarrow> rat" where
  "already_booked_fees oid l = sum_list (map fr_fees (get_fills oid l))"

lemma sum_list_sort: "sum_list (map f (sort_key k xs)) = (sum_list (map f xs) :: 'n::comm_monoid_add)"
  by (metis mset_map mset_sort sum_mset_sum_list)

lemma already_booked_append:
  assumes "l_fills l' = l_fills l @ [r]"
  shows "already_booked oid l' = already_booked oid l + (if fr_id r = oid then \<bar>fr_quantity r\<bar> else 0)"
    and "already_booked_fees oid l' = already_booked_fees oid l + (if fr_id r = oid then fr_fees r else 0)"
  using assms by (simp_all add: already_booked_def already_booked_fees_def get_fills_def sum_list_sort)

lemma already_booked_same:
  assumes "l_fills l' = l_fills l"
  shows "already_booked oid l' = already_booked oid l" and "already_booked_fees oid l' = already_booked_fees oid l"
  using assms by (simp_all add: already_booked_def already_booked_fees_def get_fills_def)

lemma already_booked_none:
  assumes "\<forall>r \<in> set (l_fills l). fr_id r \<noteq> oid"
  shows "already_booked oid l = 0" and "already_booked_fees oid l = 0"
proof -
  have "filter (\<lambda>r. fr_id r = oid) (l_fills l) = []" using assms by (simp add: filter_empty_conv)
  then show "already_booked oid l = 0" "already_booked_fees oid l = 0"
    by (simp_all add: already_booked_def already_booked_fees_def get_fills_def)
qed

section \<open>Poller and ledger in step\<close>

definition row_ok :: "(string, open_order) dict \<Rightarrow> ledger \<Rightarrow> fill_row \<Rightarrow> bool" where
  "row_ok oo l r \<longleftrightarrow> (\<exists>x c. get_order (fr_id r) l = Some x \<and> or_no x = Some (fr_no r) \<and>
    fr_key r = fill_key (fr_no r) c \<and> (\<forall>st. map_of oo (fr_no r) = Some st \<longrightarrow> c \<le> oo_booked st))"

definition order_ok :: "ledger \<Rightarrow> string \<Rightarrow> open_order \<Rightarrow> bool" where
  "order_ok l no st \<longleftrightarrow>
    (\<exists>x. get_order (oo_id st) l = Some x \<and> or_no x = Some no \<and> or_state x = SUBMITTED \<and>
      or_symbol x = oo_symbol st \<and> or_quantity x = oo_quantity st) \<and>
    oo_booked st = already_booked (oo_id st) l \<and> oo_fees st = already_booked_fees (oo_id st) l \<and>
    0 \<le> oo_booked st"

definition in_step :: "lbroker \<Rightarrow> bool" where
  "in_step b \<longleftrightarrow> wf_dict (lb_open b) \<and> wf_orders (lb_ledger b) \<and>
    (\<forall>r \<in> set (l_fills (lb_ledger b)). row_ok (lb_open b) (lb_ledger b) r) \<and>
    (\<forall>no st. map_of (lb_open b) no = Some st \<longrightarrow> order_ok (lb_ledger b) no st)"

lemma in_step_ids:
  assumes "in_step b" and "map_of (lb_open b) no = Some st" and "map_of (lb_open b) no' = Some st'"
    and "oo_id st = oo_id st'"
  shows "no = no'"
proof -
  have "order_ok (lb_ledger b) no st" "order_ok (lb_ledger b) no' st'"
    using assms(1-3) by (auto simp: in_step_def)
  with assms(4) show ?thesis by (auto simp: order_ok_def)
qed

text \<open>
  The new row of a poll. Its key is new, since what was seen of the order so far is less than
  the cumulative quantity it carries.
\<close>

lemma record_new_fill:
  assumes "in_step b" and "map_of (lb_open b) no = Some st" and "oo_booked st < cum"
  shows "fst (record_fill oid no cum q p f dt v (lb_ledger b)) = (lb_ledger b)\<lparr>l_fills := l_fills (lb_ledger b) @
    [\<lparr>fr_key = fill_key no cum, fr_id = oid, fr_no = no, fr_quantity = q, fr_price = p, fr_fees = f,
      fr_venue_time = v, fr_engine_time = dt\<rparr>]\<rparr>"
proof -
  have "fill_key no cum \<noteq> fr_key r" if "r \<in> set (l_fills (lb_ledger b))" for r
  proof
    assume key: "fill_key no cum = fr_key r"
    have "row_ok (lb_open b) (lb_ledger b) r" using assms(1) that by (simp add: in_step_def)
    then obtain c where "fr_key r = fill_key (fr_no r) c"
        "\<forall>st. map_of (lb_open b) (fr_no r) = Some st \<longrightarrow> c \<le> oo_booked st"
      by (auto simp: row_ok_def)
    with key assms(2,3) show False by (auto simp: fill_key_inject)
  qed
  then show ?thesis by (auto simp: record_fill_def Let_def)
qed

text \<open>What a poll does, on every branch.\<close>

lemma poll_once_cases:
  obtains (unchanged) "snd (poll_once w no b) = b" | (asked) "snd (poll_once w no b) = asked b"
  | (increment) st report where "map_of (lb_open b) no = Some st" and "w_report w (lb_asked b) no = Inr report"
      and "oo_booked st < rp_filled report"
      and "snd (poll_once w no b) =
        (let inc = rp_filled report - oo_booked st; dir = (if 0 < oo_quantity st then 1 else - 1) in
         (asked (asked b))\<lparr>
           lb_ledger := fst (record_fill (oo_id st) no (rp_filled report) (dir * inc) (rp_price report)
             (rp_fees report - oo_fees st) (engine_time w (asked b)) None (lb_ledger b)),
           lb_buffer := lb_buffer b @ [\<lparr>fm_no = no, fm_id = oo_id st, fm_portfolio = oo_portfolio st,
             fm_symbol = oo_symbol st, fm_direction = dir, fm_price = rp_price report,
             fm_fees = rp_fees report, fm_filled = rp_filled report\<rparr>],
           lb_open := AList.update no (st\<lparr>oo_booked := rp_filled report, oo_fees := rp_fees report\<rparr>) (lb_open b)\<rparr>)"
proof (cases "map_of (lb_open b) no")
  case None
  then show ?thesis by (intro unchanged) (simp add: poll_once_def)
next
  case (Some st)
  show ?thesis
  proof (cases "w_report w (lb_asked b) no")
    case (Inl e)
    with Some show ?thesis by (intro asked) (simp add: poll_once_def)
  next
    case (Inr report)
    show ?thesis
    proof (cases "oo_booked st < rp_filled report")
      case True
      with Some Inr show ?thesis
        by (intro increment [of st report]) (simp_all add: poll_once_def engine_now_eq Let_def)
    next
      case False
      with Some Inr show ?thesis by (intro asked) (simp add: poll_once_def)
    qed
  qed
qed

lemma in_step_poll: "in_step b \<Longrightarrow> in_step (snd (poll_once w no b))"
proof (cases rule: poll_once_cases [of w no b])
  case (increment st report)
  assume step: "in_step b"
  define inc where "inc = rp_filled report - oo_booked st"
  define dir :: int where "dir = (if 0 < oo_quantity st then 1 else - 1)"
  define st' where "st' = st\<lparr>oo_booked := rp_filled report, oo_fees := rp_fees report\<rparr>"
  let ?L = "lb_ledger b" and ?c = "snd (poll_once w no b)"
  define row where "row = \<lparr>fr_key = fill_key no (rp_filled report), fr_id = oo_id st, fr_no = no,
     fr_quantity = dir * inc, fr_price = rp_price report, fr_fees = rp_fees report - oo_fees st,
     fr_venue_time = None :: string option, fr_engine_time = engine_time w (asked b)\<rparr>"
  have L: "lb_ledger ?c = ?L\<lparr>l_fills := l_fills ?L @ [row]\<rparr>" and O: "lb_open ?c = AList.update no st' (lb_open b)"
    using increment record_new_fill [OF step increment(1,3)]
    by (simp_all add: Let_def row_def inc_def dir_def st'_def)
  have same: "get_order oid (lb_ledger ?c) = get_order oid ?L" for oid unfolding L by (simp add: get_order_def)
  have abs: "\<bar>dir * inc\<bar> = inc" using increment(3) by (simp add: dir_def inc_def)
  have ok: "order_ok ?L no st" using step increment(1) by (simp add: in_step_def)
  have "l_fills (lb_ledger ?c) = l_fills ?L @ [row]" by (simp add: L)
  from already_booked_append [OF this]
  have app: "already_booked oid (lb_ledger ?c) = already_booked oid ?L + (if oo_id st = oid then inc else 0)"
    "already_booked_fees oid (lb_ledger ?c) = already_booked_fees oid ?L +
      (if oo_id st = oid then rp_fees report - oo_fees st else 0)" for oid
    by (simp_all add: row_def abs)
  have rows: "row_ok (lb_open ?c) (lb_ledger ?c) r" if "r \<in> set (l_fills (lb_ledger ?c))" for r
  proof (cases "r = row")
    case True
    with ok show ?thesis unfolding row_ok_def same O by (auto simp: row_def order_ok_def st'_def)
  next
    case False
    then have "row_ok (lb_open b) ?L r" using that step by (auto simp: L in_step_def)
    then show ?thesis using increment(1,3) unfolding row_ok_def same O
      by (auto simp: st'_def fill_key_inject)
  qed
  have "order_ok (lb_ledger ?c) no' x" if "map_of (lb_open ?c) no' = Some x" for no' x
  proof (cases "no' = no")
    case True
    with that have "x = st'" by (simp add: O)
    with ok increment(3) show ?thesis
      unfolding order_ok_def same app True by (auto simp: st'_def inc_def)
  next
    case False
    with that have x: "map_of (lb_open b) no' = Some x" by (simp add: O)
    then have "oo_id x \<noteq> oo_id st" using in_step_ids [OF step increment(1) x] False by auto
    moreover have "order_ok ?L no' x" using step x by (simp add: in_step_def)
    ultimately show ?thesis unfolding order_ok_def same app by simp
  qed
  with rows step show ?thesis
    by (simp add: in_step_def O) (simp add: L wf_orders_def)
qed (simp_all add: in_step_def)

lemma engine_time_open [simp]: "engine_time w (b\<lparr>lb_open := x\<rparr>) = engine_time w b"
  by (cases "w_clock w") (simp_all add: engine_time_def engine_now_def Let_def)

lemma close_order_cases:
  obtains (unknown) "map_of (lb_open b) no = None" and "close_order w no state why b = b"
  | (closed) st where "map_of (lb_open b) no = Some st"
      and "lb_open (close_order w no state why b) = AList.delete no (lb_open b)"
      and "lb_ledger (close_order w no state why b) =
        record_state (oo_id st) state (engine_time w b) why (lb_ledger b)"
proof (cases "map_of (lb_open b) no")
  case None
  then show ?thesis by (intro unknown) (simp_all add: close_order_def)
next
  case (Some st)
  then show ?thesis by (intro closed [of st]) (simp_all add: close_order_def engine_now_eq Let_def)
qed

lemma in_step_close:
  assumes "in_step b"
  shows "in_step (close_order w no state why b)"
proof (cases rule: close_order_cases [of b no w state why])
  case (closed st)
  let ?L = "lb_ledger b" and ?c = "close_order w no state why b"
  have fills: "l_fills (lb_ledger ?c) = l_fills ?L" by simp
  have "row_ok (lb_open ?c) (lb_ledger ?c) r" if "r \<in> set (l_fills ?L)" for r
  proof -
    have "row_ok (lb_open b) ?L r" using assms that by (simp add: in_step_def)
    then show ?thesis unfolding row_ok_def closed by (auto simp: fill_key_inject)
  qed
  moreover have "order_ok (lb_ledger ?c) no' x" if "map_of (lb_open ?c) no' = Some x" for no' x
  proof -
    have x: "map_of (lb_open b) no' = Some x" "no' \<noteq> no"
      using that by (auto simp: closed split: if_splits)
    then have "oo_id x \<noteq> oo_id st" using in_step_ids [OF assms closed(1) x(1)] by auto
    moreover have "order_ok ?L no' x" using assms x by (simp add: in_step_def)
    ultimately show ?thesis
      using already_booked_same [OF fills] by (simp add: order_ok_def) (simp add: closed)
  qed
  moreover have "wf_dict (lb_open ?c)" "wf_orders (lb_ledger ?c)" using assms by (simp_all add: in_step_def closed)
  ultimately show ?thesis by (simp add: in_step_def)
qed (use assms in simp)

lemma in_step_same:
  assumes "in_step b" and "lb_open c = lb_open b" and "lb_ledger c = lb_ledger b"
  shows "in_step c"
  using assms by (simp add: in_step_def)

section \<open>Portfolio, messages and ledger together\<close>

definition order_symbol :: "ledger \<Rightarrow> string \<Rightarrow> symbol" where
  "order_symbol l oid = (case get_order oid l of None \<Rightarrow> [] | Some x \<Rightarrow> or_symbol x)"

definition row_trades :: "ledger \<Rightarrow> fill_row list \<Rightarrow> trade list" where
  "row_trades l rows = map (\<lambda>r. (order_symbol l (fr_id r), fr_quantity r, fr_price r, fr_fees r)) rows"

definition in_flight :: "lbroker \<Rightarrow> trade list" where
  "in_flight b = trades (lb_buffer b) (book_state b)"

definition follows :: "lbroker \<Rightarrow> lbroker \<Rightarrow> bool" where
  "follows b0 b \<longleftrightarrow> in_step b \<and> books_ok b \<and> lb_account b = lb_account b0 \<and>
    lb_account b \<in> set (dict_keys (lb_portfolios b)) \<and> (\<forall>fl \<in> set (lb_buffer b). msg_ok b fl) \<and>
    (\<forall>no st. map_of (lb_open b) no = Some st \<longrightarrow> oo_portfolio st = lb_account b \<and>
      fold take_in (lb_buffer b) (book_state b) no = (oo_booked st, oo_fees st)) \<and>
    (\<exists>rows. l_fills (lb_ledger b) = l_fills (lb_ledger b0) @ rows \<and>
      (\<forall>a. live_held b a + of_int (traded_of a (in_flight b)) =
        live_held b0 a + of_int (traded_of a (row_trades (lb_ledger b) rows))) \<and>
      live_cash b - cost_of (in_flight b) = live_cash b0 - cost_of (row_trades (lb_ledger b) rows))"

lemma order_symbol_fills [simp]: "order_symbol (l\<lparr>l_fills := x\<rparr>) oid = order_symbol l oid"
  by (simp add: order_symbol_def get_order_def)

lemma followsI:
  assumes "in_step b" and "books_ok b" and "lb_account b = lb_account b0"
    and "lb_account b \<in> set (dict_keys (lb_portfolios b))" and "\<And>fl. fl \<in> set (lb_buffer b) \<Longrightarrow> msg_ok b fl"
    and "\<And>no st. map_of (lb_open b) no = Some st \<Longrightarrow> oo_portfolio st = lb_account b \<and>
      fold take_in (lb_buffer b) (book_state b) no = (oo_booked st, oo_fees st)"
    and "l_fills (lb_ledger b) = l_fills (lb_ledger b0) @ rows"
    and "\<And>a. live_held b a + of_int (traded_of a (in_flight b)) =
        live_held b0 a + of_int (traded_of a (row_trades (lb_ledger b) rows))"
    and "live_cash b - cost_of (in_flight b) = live_cash b0 - cost_of (row_trades (lb_ledger b) rows)"
  shows "follows b0 b"
  using assms unfolding follows_def by blast

lemma followsD:
  assumes "follows b0 b"
  shows "in_step b" and "books_ok b" and "lb_account b = lb_account b0"
    and "lb_account b \<in> set (dict_keys (lb_portfolios b))" and "\<forall>fl \<in> set (lb_buffer b). msg_ok b fl"
    and "\<And>no st. map_of (lb_open b) no = Some st \<Longrightarrow> oo_portfolio st = lb_account b"
    and "\<And>no st. map_of (lb_open b) no = Some st \<Longrightarrow>
      fold take_in (lb_buffer b) (book_state b) no = (oo_booked st, oo_fees st)"
  using assms unfolding follows_def by blast+

text \<open>Rows keep their symbol as long as the orders they belong to do.\<close>

lemma row_trades_same:
  assumes "\<And>r. r \<in> set rows \<Longrightarrow> order_symbol l' (fr_id r) = order_symbol l (fr_id r)"
  shows "row_trades l' rows = row_trades l rows"
  using assms by (simp add: row_trades_def)

text \<open>An operation that touches neither the buffer nor the booked figures, nor the quantities held.\<close>

lemma follows_frame:
  assumes "follows b0 b" and "in_step c" and "books_ok c" and "lb_account c = lb_account b"
    and "dict_keys (lb_portfolios c) = dict_keys (lb_portfolios b)" and "lb_buffer c = lb_buffer b"
    and "book_state c = book_state b" and "\<And>a. live_held c a = live_held b a" and "live_cash c = live_cash b"
    and "l_fills (lb_ledger c) = l_fills (lb_ledger b)"
    and "\<And>no st. map_of (lb_open c) no = Some st \<Longrightarrow> map_of (lb_open b) no = Some st \<or>
      oo_portfolio st = lb_account b \<and> fold take_in (lb_buffer b) (book_state b) no = (oo_booked st, oo_fees st)"
    and "\<And>r. r \<in> set (l_fills (lb_ledger b)) \<Longrightarrow> order_symbol (lb_ledger c) (fr_id r) = order_symbol (lb_ledger b) (fr_id r)"
  shows "follows b0 c"
proof -
  obtain rows where rows: "l_fills (lb_ledger b) = l_fills (lb_ledger b0) @ rows"
      "\<forall>a. live_held b a + of_int (traded_of a (in_flight b)) =
        live_held b0 a + of_int (traded_of a (row_trades (lb_ledger b) rows))"
      "live_cash b - cost_of (in_flight b) = live_cash b0 - cost_of (row_trades (lb_ledger b) rows)"
    using assms(1) by (auto simp: follows_def)
  have "row_trades (lb_ledger c) rows = row_trades (lb_ledger b) rows"
    using assms(12) rows(1) by (intro row_trades_same) auto
  moreover have "in_flight c = in_flight b" using assms by (simp add: in_flight_def)
  moreover have "msg_ok c fl = msg_ok b fl" for fl using assms by (simp add: msg_ok_def)
  moreover have "oo_portfolio st = lb_account c \<and> fold take_in (lb_buffer c) (book_state c) no = (oo_booked st, oo_fees st)"
    if "map_of (lb_open c) no = Some st" for no st
    using assms(11) [OF that] followsD(6,7) [OF assms(1)] assms(4,6,7) by metis
  ultimately show ?thesis
    using assms(2-10) rows followsD(3-5) [OF assms(1)] by (intro followsI [of c b0 rows]) simp_all
qed

section \<open>The operations that collect fills keep it\<close>

text \<open>
  The venue's documented promise about a report: the average price is zero only while nothing
  is filled.
\<close>

definition prices_its_fills :: "world \<Rightarrow> bool" where
  "prices_its_fills w \<longleftrightarrow>
    (\<forall>n no report. w_report w n no = Inr report \<longrightarrow> 0 < rp_filled report \<longrightarrow> 0 < rp_price report)"

lemma books_ok_same: "books_ok b \<Longrightarrow> lb_portfolios c = lb_portfolios b \<Longrightarrow> lb_dt b \<le> lb_dt c \<Longrightarrow> books_ok c"
  by (fastforce simp: books_ok_def intro: order_trans dated_mono)

lemma book_state_same: "lb_booked c = lb_booked b \<Longrightarrow> lb_charged c = lb_charged b \<Longrightarrow> book_state c = book_state b"
  by (simp add: book_state_def booked_of_def charged_of_def fun_eq_iff)

lemma live_same: "lb_portfolios c = lb_portfolios b \<Longrightarrow> lb_account c = lb_account b \<Longrightarrow>
    live_held c a = live_held b a \<and> live_cash c = live_cash b"
  by (simp add: live_held_def live_cash_def account_of_def)

text \<open>Nothing but time, the cache and the counters changes.\<close>

lemma follows_idle:
  assumes "follows b0 b" and "lb_open c = lb_open b" and "lb_ledger c = lb_ledger b"
    and "lb_portfolios c = lb_portfolios b" and "lb_account c = lb_account b" and "lb_dt b \<le> lb_dt c"
    and "lb_booked c = lb_booked b" and "lb_charged c = lb_charged b" and "lb_buffer c = lb_buffer b"
  shows "follows b0 c"
proof (rule follows_frame [OF assms(1)])
  show "in_step c" by (rule in_step_same [OF followsD(1) [OF assms(1)] assms(2,3)])
  show "books_ok c" by (rule books_ok_same [OF followsD(2) [OF assms(1)] assms(4,6)])
  show "book_state c = book_state b" by (rule book_state_same [OF assms(7,8)])
  show "live_held c a = live_held b a" "live_cash c = live_cash b" for a
    using live_same [OF assms(4,5)] by simp_all
qed (simp_all add: assms)

lemma follows_poll:
  assumes "follows b0 b" and "prices_its_fills w"
  shows "follows b0 (snd (poll_once w no b))"
proof (cases rule: poll_once_cases [of w no b])
  case unchanged
  with assms(1) show ?thesis by simp
next
  case asked
  with assms(1) show ?thesis by (intro follows_idle [OF assms(1)]) simp_all
next
  case (increment st report)
  note step = followsD(1) [OF assms(1)]
  let ?L = "lb_ledger b" and ?c = "snd (poll_once w no b)"
  define inc where "inc = rp_filled report - oo_booked st"
  define dir :: int where "dir = (if 0 < oo_quantity st then 1 else - 1)"
  define fl where "fl = \<lparr>fm_no = no, fm_id = oo_id st, fm_portfolio = oo_portfolio st,
     fm_symbol = oo_symbol st, fm_direction = dir, fm_price = rp_price report,
     fm_fees = rp_fees report, fm_filled = rp_filled report\<rparr>"
  define row where "row = \<lparr>fr_key = fill_key no (rp_filled report), fr_id = oo_id st, fr_no = no,
     fr_quantity = dir * inc, fr_price = rp_price report, fr_fees = rp_fees report - oo_fees st,
     fr_venue_time = None :: string option, fr_engine_time = engine_time w (asked b)\<rparr>"
  define st' where "st' = st\<lparr>oo_booked := rp_filled report, oo_fees := rp_fees report\<rparr>"
  have c: "lb_ledger ?c = ?L\<lparr>l_fills := l_fills ?L @ [row]\<rparr>" "lb_open ?c = AList.update no st' (lb_open b)"
      "lb_buffer ?c = lb_buffer b @ [fl]"
    using increment record_new_fill [OF step increment(1,3)]
    by (simp_all add: Let_def row_def inc_def dir_def st'_def fl_def)
  have bs: "book_state ?c = book_state b" by (rule book_state_same) simp_all
  have ok: "order_ok ?L no st" using step increment(1) by (simp add: in_step_def)
  have filled: "0 < rp_filled report" using ok increment(3) by (simp add: order_ok_def)
  have acc: "oo_portfolio st = lb_account b" using followsD(6) [OF assms(1) increment(1)] .
  have seen: "fold take_in (lb_buffer b) (book_state b) no = (oo_booked st, oo_fees st)"
    using followsD(7) [OF assms(1) increment(1)] .
  obtain rows where rows: "l_fills ?L = l_fills (lb_ledger b0) @ rows"
      "\<And>a. live_held b a + of_int (traded_of a (in_flight b)) =
        live_held b0 a + of_int (traded_of a (row_trades ?L rows))"
      "live_cash b - cost_of (in_flight b) = live_cash b0 - cost_of (row_trades ?L rows)"
    using assms(1) by (auto simp: follows_def)
  have sym: "order_symbol (lb_ledger ?c) oid = order_symbol ?L oid" for oid
    by (simp add: c)
  have "order_symbol ?L (oo_id st) = oo_symbol st" using ok by (auto simp: order_ok_def order_symbol_def)
  then have new: "in_flight ?c = in_flight b @ [(oo_symbol st, dir * inc, rp_price report, rp_fees report - oo_fees st)]"
      "row_trades (lb_ledger ?c) (rows @ [row]) =
        row_trades ?L rows @ [(oo_symbol st, dir * inc, rp_price report, rp_fees report - oo_fees st)]"
    using seen increment(3) by (simp_all add: in_flight_def c bs trades_append row_trades_def fl_def row_def inc_def)
  have "lb_account ?c \<in> set (dict_keys (lb_portfolios ?c))" using followsD(4) [OF assms(1)] by simp
  moreover have "msg_ok ?c x" if "x \<in> set (lb_buffer ?c)" for x
  proof -
    have "msg_ok b fl" using assms(2) increment(2) filled acc followsD(4) [OF assms(1)]
      by (auto simp: msg_ok_def fl_def dir_def prices_its_fills_def)
    then have "msg_ok b x" using that followsD(5) [OF assms(1)] by (auto simp: c)
    then show ?thesis by (simp add: msg_ok_def)
  qed
  moreover have "oo_portfolio x = lb_account ?c \<and> fold take_in (lb_buffer ?c) (book_state ?c) no' = (oo_booked x, oo_fees x)"
    if "map_of (lb_open ?c) no' = Some x" for no' x
    using that seen acc increment(3) followsD(6,7) [OF assms(1)]
    by (auto simp: c bs take_in_def fl_def st'_def split: if_splits)
  moreover have "books_ok ?c" by (rule books_ok_same [OF followsD(2) [OF assms(1)]]) simp_all
  moreover have "live_held ?c a = live_held b a" "live_cash ?c = live_cash b" for a
    using live_same [of ?c b] by simp_all
  ultimately show ?thesis
    using rows new followsD(3) [OF assms(1)] in_step_poll [OF step]
    by (intro followsI [of ?c b0 "rows @ [row]"]) (simp_all add: c)
qed

lemma follows_drain:
  assumes "follows b0 b"
  shows "follows b0 (fst (drain_fill_buffer w b))" and "snd (drain_fill_buffer w b) = None"
proof -
  obtain c where c: "drain_fill_buffer w b = ok c" "books_ok c"
      "book_state c = fold take_in (lb_buffer b) (book_state b)"
      "\<forall>a. live_held c a = live_held b a + of_int (traded_of a (trades (lb_buffer b) (book_state b)))"
      "live_cash c = live_cash b - cost_of (trades (lb_buffer b) (book_state b))"
    using drain_books [OF followsD(2,5) [OF assms]] by metis
  have same: "lb_open c = lb_open b" "lb_ledger c = lb_ledger b" "lb_buffer c = []" "lb_account c = lb_account b"
      "dict_keys (lb_portfolios c) = dict_keys (lb_portfolios b)"
    using drain_frame [of w b] c(1) by simp_all
  obtain rows where rows: "l_fills (lb_ledger b) = l_fills (lb_ledger b0) @ rows"
      "\<And>a. live_held b a + of_int (traded_of a (in_flight b)) =
        live_held b0 a + of_int (traded_of a (row_trades (lb_ledger b) rows))"
      "live_cash b - cost_of (in_flight b) = live_cash b0 - cost_of (row_trades (lb_ledger b) rows)"
    using assms by (auto simp: follows_def)
  have "in_flight c = []" by (simp add: in_flight_def same)
  moreover have "in_step c" using in_step_same [OF followsD(1) [OF assms]] same by simp
  moreover have "oo_portfolio st = lb_account c \<and> fold take_in (lb_buffer c) (book_state c) no = (oo_booked st, oo_fees st)"
    if "map_of (lb_open c) no = Some st" for no st
    using that followsD(6,7) [OF assms, of no st] by (simp add: same c(3))
  ultimately have "follows b0 c"
    using c(2,4,5) rows followsD(3,4) [OF assms] same
    by (intro followsI [of c b0 rows]) (simp_all add: in_flight_def)
  with c(1) show "follows b0 (fst (drain_fill_buffer w b))" "snd (drain_fill_buffer w b) = None" by simp_all
qed

lemma order_symbol_ops [simp]:
  "order_symbol (record_state oid' state dt why l) oid = order_symbol l oid"
  "order_symbol (record_submitted oid' no dt l) oid = order_symbol l oid"
  by (auto simp: order_symbol_def split: option.split)

lemma follows_close:
  assumes "follows b0 b"
  shows "follows b0 (close_order w no state why b)"
proof (cases rule: close_order_cases [of b no w state why])
  case (closed st)
  let ?c = "close_order w no state why b"
  show ?thesis
  proof (rule follows_frame [OF assms in_step_close [OF followsD(1) [OF assms]]])
    show "books_ok ?c" by (rule books_ok_same [OF followsD(2) [OF assms]]) simp_all
    show "book_state ?c = book_state b" by (rule book_state_same) simp_all
    show "live_held ?c a = live_held b a" "live_cash ?c = live_cash b" for a
      using live_same [of ?c b] by simp_all
  qed (auto simp: closed split: if_splits)
qed (use assms in simp)

text \<open>A mark moves prices and dates only.\<close>

lemma update_current_price_dt: "pos_dt q \<le> d \<Longrightarrow> dt \<le> d \<Longrightarrow> pos_dt (fst (update_current_price m (Some dt) q)) \<le> d"
  by (auto simp: update_current_price_def check_set_dt_def split: option.split)

lemma mark_position:
  fixes m dt p a defines "p' \<equiv> fst (update_market_value_of_asset a m dt p)"
  shows "pf_cash p' = pf_cash p" and "pf_dt p' = pf_dt p"
    and "position_in (pf_positions p') x = position_in (pf_positions p) x"
    and "live_positions (pf_positions p) \<Longrightarrow> live_positions (pf_positions p')"
    and "dated d (pf_positions p) \<Longrightarrow> dt \<le> d \<Longrightarrow> dated d (pf_positions p')"
proof -
  have moved: "p' = p \<or> (\<exists>q. map_of (pf_positions p) a = Some q \<and>
      p' = p\<lparr>pf_positions := AList.update a (fst (update_current_price m (Some dt) q)) (pf_positions p)\<rparr>)"
  proof (cases "map_of (pf_positions p) a")
    case None
    then show ?thesis by (simp add: p'_def update_market_value_of_asset_def)
  next
    case (Some q)
    then show ?thesis
      by (cases "(case m of Some m \<Rightarrow> m < 0 | None \<Rightarrow> False) \<or> dt < pf_dt p")
        (auto simp: p'_def update_market_value_of_asset_def)
  qed
  then show "pf_cash p' = pf_cash p" "pf_dt p' = pf_dt p" by auto
  show "position_in (pf_positions p') x = position_in (pf_positions p) x"
    using moved by (auto simp: position_in_def net_update_current_price)
  show "dated d (pf_positions p) \<Longrightarrow> dt \<le> d \<Longrightarrow> dated d (pf_positions p')"
    using moved by (auto simp: dated_def intro!: update_current_price_dt split: if_splits)
  assume live: "live_positions (pf_positions p)"
  show "live_positions (pf_positions p')"
  proof (cases "p' = p")
    case False
    with moved obtain q where q: "map_of (pf_positions p) a = Some q"
      "p' = p\<lparr>pf_positions := AList.update a (fst (update_current_price m (Some dt) q)) (pf_positions p)\<rparr>" by auto
    then have "pos_inv q" "pos_asset q = a" using live by (auto simp: live_positions_def wf_positions_def)
    with q live show ?thesis using update_current_price_frame [of m "Some dt" q]
      by (auto simp: live_positions_def Let_def net_update_current_price
          intro!: wf_positions_update pos_inv_update_current_price)
  qed (use live in simp)
qed

lemma mark_symbol_books:
  assumes "books_ok b" and "dt \<le> lb_dt b"
  shows "books_ok (fst (mark_symbol w dt x b))" and "live_held (fst (mark_symbol w dt x b)) a = live_held b a"
    and "live_cash (fst (mark_symbol w dt x b)) = live_cash b"
proof -
  obtain r c where m: "get_mark w (snd x) b = (r, c)" by fastforce
  have c: "lb_portfolios c = lb_portfolios b" "lb_dt c = lb_dt b" "lb_account c = lb_account b"
    using get_mark_frame [of w "snd x" b] m by simp_all
  have "books_ok (fst (mark_symbol w dt x b)) \<and> live_held (fst (mark_symbol w dt x b)) a = live_held b a \<and>
    live_cash (fst (mark_symbol w dt x b)) = live_cash b"
  proof (cases r)
    case (Inl e)
    have "fst (mark_symbol w dt x b) = c" by (simp add: mark_symbol_def m Inl)
    with c assms show ?thesis using live_same [of c b] books_ok_same [of b c] by simp
  next
    case (Inr price)
    show ?thesis
    proof (cases "map_of (lb_portfolios b) (fst x)")
      case None
      then have "fst (mark_symbol w dt x b) = c" by (simp add: mark_symbol_def m Inr on_live_portfolio_def c)
      with c assms show ?thesis using live_same [of c b] books_ok_same [of b c] by simp
    next
      case (Some p)
      define p' where "p' = fst (update_market_value_of_asset (snd x) (Some price) dt p)"
      have run: "fst (mark_symbol w dt x b) = c\<lparr>lb_portfolios := AList.update (fst x) p' (lb_portfolios b)\<rparr>"
        using Some by (simp add: mark_symbol_def m Inr on_live_portfolio_def c p'_def)
      note mp = mark_position [where a = "snd x" and m = "Some price" and dt = dt and p = p, folded p'_def]
      have p: "live_positions (pf_positions p)" "pf_dt p \<le> lb_dt b" "dated (lb_dt b) (pf_positions p)"
        using assms(1) Some by (auto simp: books_ok_def)
      have "books_ok (fst (mark_symbol w dt x b))"
        using assms mp p by (auto simp: run books_ok_def c)
      moreover have "live_held (fst (mark_symbol w dt x b)) a = live_held b a" "live_cash (fst (mark_symbol w dt x b)) = live_cash b"
        using Some mp by (auto simp: run live_held_def live_cash_def account_of_def c)
      ultimately show ?thesis by simp
    qed
  qed
  then show "books_ok (fst (mark_symbol w dt x b))" "live_held (fst (mark_symbol w dt x b)) a = live_held b a"
    "live_cash (fst (mark_symbol w dt x b)) = live_cash b" by simp_all
qed

lemma follows_mark_symbol:
  assumes "follows b0 b" and "dt \<le> lb_dt b"
  shows "follows b0 (fst (mark_symbol w dt x b))"
proof (rule follows_frame [OF assms(1)])
  note keep = mark_symbol_books [OF followsD(2) [OF assms(1)] assms(2), of w x]
  show "in_step (fst (mark_symbol w dt x b))"
    by (rule in_step_same [OF followsD(1) [OF assms(1)]]) simp_all
  show "books_ok (fst (mark_symbol w dt x b))" "live_held (fst (mark_symbol w dt x b)) a = live_held b a"
    "live_cash (fst (mark_symbol w dt x b)) = live_cash b" for a
    by (rule keep)+
  show "book_state (fst (mark_symbol w dt x b)) = book_state b" by (rule book_state_same) simp_all
qed simp_all

lemma follows_mark:
  assumes "follows b0 b"
  shows "follows b0 (fst (mark_to_market w b))"
proof -
  let ?t = "engine_time w (clear_cache b)"
  have t: "lb_dt b \<le> ?t" using engine_time_ge [of "clear_cache b" w] by simp
  have "follows b0 (fst (mark_to_market w b)) \<and> ?t \<le> lb_dt (fst (mark_to_market w b))"
  proof (rule mark_inv [where P = "\<lambda>c. follows b0 c \<and> ?t \<le> lb_dt c", OF _ _ refl], goal_cases)
    case 1
    show ?case using t by (auto intro!: follows_idle [OF assms])
  next
    case (2 x c)
    then show ?case by (auto intro: follows_mark_symbol)
  qed
  then show ?thesis ..
qed

interpretation follows: collecting w "\<lambda>b. prices_its_fills w \<longrightarrow> follows b0 b" for w b0
proof unfold_locales
  fix b :: lbroker and no st why dt
  assume b: "prices_its_fills w \<longrightarrow> follows b0 b"
  show "prices_its_fills w \<longrightarrow> follows b0 (snd (poll_once w no b))" using b by (auto intro: follows_poll)
  show "prices_its_fills w \<longrightarrow> follows b0 (fst (drain_fill_buffer w b))" using b by (auto intro: follows_drain)
  show "prices_its_fills w \<longrightarrow> follows b0 (close_order w no st why b)" using b by (auto intro: follows_close)
  show "prices_its_fills w \<longrightarrow> follows b0 (asked b)" using b by (auto intro!: follows_idle [of b0 b])
  show "prices_its_fills w \<longrightarrow> follows b0 (b\<lparr>lb_dt := dt\<rparr>)" if "lb_dt b \<le> dt"
    using b that by (auto intro!: follows_idle [of b0 b])
  show "prices_its_fills w \<longrightarrow> follows b0 (b\<lparr>lb_last_poll := dt\<rparr>)" using b by (auto intro!: follows_idle [of b0 b])
  show "prices_its_fills w \<longrightarrow> follows b0 (fst (mark_to_market w b))" using b by (auto intro: follows_mark)
qed

section \<open>Submission\<close>

text \<open>
  Order numbers in use, and a venue that gives each new order a new number. The interface speaks
  of \<^verbatim>\<open>the venue's order number\<close> (\<^verbatim>\<open>broker/live/client.py\<close>) and the broker keys its tables by it, so
  two orders with one number would share a row; that no number comes again in the life of a
  ledger is a promise of the venue the code relies on without saying so, and it is a hypothesis
  wherever it is used.
\<close>

definition used_numbers :: "lbroker \<Rightarrow> string set" where
  "used_numbers b = set (dict_keys (lb_open b)) \<union> fr_no ` set (l_fills (lb_ledger b)) \<union>
    fm_no ` set (lb_buffer b) \<union> set (dict_keys (lb_booked b)) \<union> set (dict_keys (lb_charged b))"

definition new_numbers :: "world \<Rightarrow> lbroker \<Rightarrow> bool" where
  "new_numbers w b \<longleftrightarrow> (\<forall>n a q no. lb_asked b \<le> n \<longrightarrow> w_place w n a q = Inr no \<longrightarrow>
    no \<notin> used_numbers b \<and> (\<forall>m a' q'. n < m \<longrightarrow> w_place w m a' q' \<noteq> Inr no))"

lemma new_numbers_mono:
  assumes "new_numbers w b" and "used_numbers c \<subseteq> used_numbers b" and "lb_asked b \<le> lb_asked c"
  shows "new_numbers w c"
  unfolding new_numbers_def
proof (intro allI impI conjI)
  fix n a q no assume n: "lb_asked c \<le> n" "w_place w n a q = Inr no"
  with assms(3) have "lb_asked b \<le> n" by simp
  with assms(1) n(2) have no: "no \<notin> used_numbers b" "\<forall>m a' q'. n < m \<longrightarrow> w_place w m a' q' \<noteq> Inr no"
    unfolding new_numbers_def by blast+
  then show "no \<notin> used_numbers c" using assms(2) by blast
  show "w_place w m a' q' \<noteq> Inr no" if "n < m" for m a' q' using no(2) that by blast
qed

lemma unused_state:
  assumes "no \<notin> used_numbers b"
  shows "fold take_in (lb_buffer b) (book_state b) no = (0, 0)" and "map_of (lb_open b) no = None"
    and "\<forall>r \<in> set (l_fills (lb_ledger b)). fr_no r \<noteq> no"
proof -
  have "fold take_in fls s no = s no" if "no \<notin> fm_no ` set fls" for fls s
    using that by (induction fls arbitrary: s) (auto simp: take_in_def)
  then show "fold take_in (lb_buffer b) (book_state b) no = (0, 0)"
    using assms by (auto simp: used_numbers_def book_state_def booked_of_def charged_of_def
        map_of_eq_None_iff [THEN iffD2])
  show "map_of (lb_open b) no = None" "\<forall>r \<in> set (l_fills (lb_ledger b)). fr_no r \<noteq> no"
    using assms by (auto simp: used_numbers_def map_of_eq_None_iff)
qed

text \<open>A row for a new order, and possibly the order itself, open under an unused number.\<close>

lemma follows_new_order:
  assumes follows: "follows b0 b" and fresh: "get_order oid (lb_ledger b) = None"
    and wf: "wf_orders (lb_ledger c)" and fills: "l_fills (lb_ledger c) = l_fills (lb_ledger b)"
    and others: "\<And>oid'. oid' \<noteq> oid \<Longrightarrow> get_order oid' (lb_ledger c) = get_order oid' (lb_ledger b)"
    and opened: "lb_open c = lb_open b \<or> (\<exists>no st x. lb_open c = AList.update no st (lb_open b) \<and>
      no \<notin> used_numbers b \<and> get_order oid (lb_ledger c) = Some x \<and> or_no x = Some no \<and>
      or_state x = SUBMITTED \<and> or_symbol x = oo_symbol st \<and> or_quantity x = oo_quantity st \<and>
      oo_id st = oid \<and> oo_booked st = 0 \<and> oo_fees st = 0 \<and> oo_portfolio st = lb_account b)"
    and same: "lb_portfolios c = lb_portfolios b" "lb_account c = lb_account b" "lb_dt c = lb_dt b"
      "lb_booked c = lb_booked b" "lb_charged c = lb_charged b" "lb_buffer c = lb_buffer b"
  shows "follows b0 c"
proof -
  note step = followsD(1) [OF follows]
  let ?L = "lb_ledger b" and ?M = "lb_ledger c"
  have rowid: "fr_id r \<noteq> oid" if "r \<in> set (l_fills ?L)" for r
    using step that fresh by (auto simp: in_step_def row_ok_def)
  have booked: "already_booked oid' ?M = already_booked oid' ?L"
    "already_booked_fees oid' ?M = already_booked_fees oid' ?L" for oid'
    using already_booked_same [OF fills] by simp_all
  have zero: "already_booked oid ?L = 0" "already_booked_fees oid ?L = 0"
    using already_booked_none [of ?L oid] rowid by simp_all
  have old: "order_ok ?M no st" if "map_of (lb_open b) no = Some st" for no st
  proof -
    have "order_ok ?L no st" using step that by (simp add: in_step_def)
    moreover from this have "oo_id st \<noteq> oid" using fresh by (auto simp: order_ok_def)
    ultimately show ?thesis by (simp add: order_ok_def others booked)
  qed
  have row_old: "row_ok (lb_open b) ?M r" if "r \<in> set (l_fills ?L)" for r
    using step that rowid [OF that] by (simp add: in_step_def row_ok_def others)
  have step': "in_step c" and opens: "\<And>no st. map_of (lb_open c) no = Some st \<Longrightarrow> map_of (lb_open b) no = Some st \<or>
      oo_portfolio st = lb_account b \<and> fold take_in (lb_buffer b) (book_state b) no = (oo_booked st, oo_fees st)"
  proof -
    show "in_step c"
      using opened
    proof
      assume "lb_open c = lb_open b"
      with wf step old row_old fills show ?thesis by (simp add: in_step_def)
    next
      assume "\<exists>no st x. lb_open c = AList.update no st (lb_open b) \<and>
        no \<notin> used_numbers b \<and> get_order oid ?M = Some x \<and> or_no x = Some no \<and>
        or_state x = SUBMITTED \<and> or_symbol x = oo_symbol st \<and> or_quantity x = oo_quantity st \<and>
        oo_id st = oid \<and> oo_booked st = 0 \<and> oo_fees st = 0 \<and> oo_portfolio st = lb_account b"
      then obtain no st x where o: "lb_open c = AList.update no st (lb_open b)" "no \<notin> used_numbers b"
        "get_order oid ?M = Some x" "or_no x = Some no" "or_state x = SUBMITTED" "or_symbol x = oo_symbol st"
        "or_quantity x = oo_quantity st" "oo_id st = oid" "oo_booked st = 0" "oo_fees st = 0" by blast
      have "order_ok ?M no st" using o zero by (simp add: order_ok_def booked)
      moreover have "row_ok (lb_open c) ?M r" if "r \<in> set (l_fills ?L)" for r
        using row_old [OF that] unused_state(3) [OF o(2)] that by (auto simp: row_ok_def o(1))
      ultimately show ?thesis using wf step old fills by (simp add: in_step_def o(1))
    qed
    fix no st assume "map_of (lb_open c) no = Some st"
    with opened show "map_of (lb_open b) no = Some st \<or>
      oo_portfolio st = lb_account b \<and> fold take_in (lb_buffer b) (book_state b) no = (oo_booked st, oo_fees st)"
      using unused_state(1) by (auto split: if_splits)
  qed
  show ?thesis
  proof (rule follows_frame [OF follows step' _ _ _ _ _ _ _ fills opens])
    show "books_ok c" by (rule books_ok_same [OF followsD(2) [OF follows]]) (simp_all add: same)
    show "book_state c = book_state b" by (rule book_state_same) (simp_all add: same)
    show "live_held c a = live_held b a" "live_cash c = live_cash b" for a
      using live_same [of c b] same by simp_all
    show "order_symbol ?M (fr_id r) = order_symbol ?L (fr_id r)" if "r \<in> set (l_fills ?L)" for r
      using others [OF rowid [OF that]] by (simp add: order_symbol_def)
  qed (simp_all add: same)
qed

lemma follows_place:
  assumes "follows b0 b" and "get_order (ord_id o') (lb_ledger b) = None" and "new_numbers w b"
  shows "follows b0 (fst (place_order w (lb_account b) o' q dt b))"
proof -
  have wf: "wf_orders (lb_ledger b)" using followsD(1) [OF assms(1)] by (simp add: in_step_def)
  have unused: "no \<notin> used_numbers b" if "w_place w (lb_asked b) (ord_asset o') q = Inr no" for no
    using assms(3) that by (auto simp: new_numbers_def)
  show ?thesis
  proof (cases "w_place w (lb_asked b) (ord_asset o') q")
    case (Inl e)
    then show ?thesis
      by (intro follows_new_order [OF assms(1,2)]) (auto simp: place_order_def Let_def wf get_order_intent)
  next
    case (Inr no)
    with unused [OF Inr] assms(2) show ?thesis
      by (intro follows_new_order [OF assms(1,2)])
        (auto simp: place_order_def Let_def wf get_order_intent)
  qed
qed

lemma follows_submit:
  assumes "follows b0 b" and "get_order (ord_id o') (lb_ledger b) = None" and "new_numbers w b"
  shows "follows b0 (fst (live_submit_order w (lb_account b) o' b))"
proof -
  obtain r c where m: "get_mark w (ord_asset o') (asked b) = (r, c)" by fastforce
  have c: "lb_open c = lb_open b" "lb_ledger c = lb_ledger b" "lb_portfolios c = lb_portfolios b"
      "lb_account c = lb_account b" "lb_dt c = lb_dt b" "lb_booked c = lb_booked b" "lb_charged c = lb_charged b"
      "lb_buffer c = lb_buffer b" "lb_asked b \<le> lb_asked c"
    using get_mark_frame [of w "ord_asset o'" "asked b"] get_mark_asked [of "asked b" w "ord_asset o'"] m by simp_all
  have idle: "follows b0 c" "follows b0 (asked c)" "follows b0 (asked b)"
    using c by (auto intro!: follows_idle [OF assms(1)])
  have "new_numbers w (asked c)" "get_order (ord_id o') (lb_ledger (asked c)) = None"
    using assms(2) c by (auto intro: new_numbers_mono [OF assms(3)] simp: used_numbers_def)
  then have "follows b0 (fst (place_order w (lb_account b) o' q dt (asked c)))" for q dt
    using follows_place [OF idle(2), of o' w] c by simp
  moreover have "follows b0 (fst (refuse_order o' q dt e (asked c)))" for q dt e
    using assms(2) c followsD(1) [OF assms(1)]
    by (intro follows_new_order [OF idle(2), of "ord_id o'"])
      (auto simp: refuse_order_def Let_def get_order_intent in_step_def)
  ultimately show ?thesis
    using idle by (auto simp: live_submit_order_def engine_now_eq m split: sum.split option.split)
qed

lemma dict_keys_update_set: "fst ` set (AList.update k v d) = insert k (fst ` set d)"
  by (simp add: dom_update)

lemma dict_keys_delete_set: "fst ` set (AList.delete k d) \<subseteq> fst ` set d"
  by (induction d) auto

lemma used_poll: "used_numbers (snd (poll_once w no b)) \<subseteq> used_numbers b"
proof (cases rule: poll_once_cases [of w no b])
  case (increment st report)
  have no: "no \<in> set (dict_keys (lb_open b))"
    using increment(1) by (metis map_of_eq_None_iff option.distinct(1) set_map)
  have "set (dict_keys (lb_open (snd (poll_once w no b)))) = set (dict_keys (lb_open b))"
    by (metis poll_once_numbers)
  then show ?thesis using no increment(4)
    by (auto simp: used_numbers_def Let_def record_fill_def)
qed (simp_all add: used_numbers_def)

lemma used_book: "fm_no fl \<in> U \<Longrightarrow> used_numbers b \<subseteq> U \<Longrightarrow> used_numbers (fst (book_fill w fl b)) \<subseteq> U"
  unfolding book_fill_def engine_now_eq Let_def prod.case
  by (simp add: used_numbers_def then_do_def dict_keys_update_set split: option.splits)

lemma used_drain: "used_numbers (fst (drain_fill_buffer w b)) \<subseteq> used_numbers b"
proof (rule drain_inv [where P = "\<lambda>c. used_numbers c \<subseteq> used_numbers b"])
  show "used_numbers (b\<lparr>lb_buffer := []\<rparr>) \<subseteq> used_numbers b" by (auto simp: used_numbers_def)
  fix fl c assume "used_numbers c \<subseteq> used_numbers b" and "fl \<in> set (lb_buffer b)"
  then show "used_numbers (fst (book_fill w fl c)) \<subseteq> used_numbers b"
    by (intro used_book) (auto simp: used_numbers_def)
qed

lemma used_close: "used_numbers (close_order w no st why b) \<subseteq> used_numbers b"
proof (cases rule: close_order_cases [of b no w st why])
  case (closed x)
  then show ?thesis using dict_keys_delete_set [of no "lb_open b"] by (auto simp: used_numbers_def)
qed simp

lemma mark_to_market_frame [simp]:
  "lb_guard (fst (mark_to_market w b)) = lb_guard b" "lb_ledger (fst (mark_to_market w b)) = lb_ledger b"
  "lb_open (fst (mark_to_market w b)) = lb_open b" "lb_buffer (fst (mark_to_market w b)) = lb_buffer b"
  "lb_booked (fst (mark_to_market w b)) = lb_booked b" "lb_charged (fst (mark_to_market w b)) = lb_charged b"
  "lb_sent (fst (mark_to_market w b)) = lb_sent b" "lb_account (fst (mark_to_market w b)) = lb_account b"
  "dict_keys (lb_portfolios (fst (mark_to_market w b))) = dict_keys (lb_portfolios b)"
  and mark_to_market_asked: "lb_asked b \<le> lb_asked (fst (mark_to_market w b))"
  using mark_inv [of "\<lambda>c. lb_guard c = lb_guard b \<and> lb_ledger c = lb_ledger b \<and>
      lb_open c = lb_open b \<and> lb_buffer c = lb_buffer b \<and> lb_booked c = lb_booked b \<and>
      lb_charged c = lb_charged b \<and> lb_sent c = lb_sent b \<and> lb_account c = lb_account b \<and>
      dict_keys (lb_portfolios c) = dict_keys (lb_portfolios b) \<and> lb_asked b \<le> lb_asked c" w b b]
  by (simp_all add: order_trans [OF _ mark_symbol_asked])

interpretation numbers: collecting w "new_numbers w" for w
proof unfold_locales
  fix b :: lbroker and no st why dt
  assume b: "new_numbers w b"
  note mono = new_numbers_mono [OF b]
  show "new_numbers w (snd (poll_once w no b))" by (rule mono [OF used_poll poll_once_asked])
  show "new_numbers w (fst (drain_fill_buffer w b))" by (rule mono [OF used_drain drain_mono(1)])
  show "new_numbers w (close_order w no st why b)" by (rule mono [OF used_close close_order_asked])
  show "new_numbers w (asked b)" by (rule mono) (auto simp: used_numbers_def)
  show "new_numbers w (b\<lparr>lb_dt := dt\<rparr>)" by (rule mono) (auto simp: used_numbers_def)
  show "new_numbers w (b\<lparr>lb_last_poll := dt\<rparr>)" by (rule mono) (auto simp: used_numbers_def)
  show "new_numbers w (fst (mark_to_market w b))"
    by (rule mono) (auto simp: used_numbers_def mark_to_market_asked)
qed

lemma new_numbers_place:
  assumes "new_numbers w b"
  shows "new_numbers w (fst (place_order w pid o' q dt b))"
proof (cases "w_place w (lb_asked b) (ord_asset o') q")
  case (Inl e)
  then show ?thesis
    by (intro new_numbers_mono [OF assms]) (auto simp: place_order_def Let_def used_numbers_def)
next
  case (Inr no)
  let ?c = "fst (place_order w pid o' q dt b)"
  have used: "used_numbers ?c \<subseteq> insert no (used_numbers b)"
    by (simp add: place_order_def Let_def used_numbers_def Inr dict_keys_update_set subset_insertI2)
  show ?thesis
    unfolding new_numbers_def
  proof (intro allI impI conjI)
    fix n a q' no' assume n: "lb_asked ?c \<le> n" "w_place w n a q' = Inr no'"
    then have n': "lb_asked b < n" by (simp add: place_order_def Let_def Inr)
    then have no': "no' \<notin> used_numbers b" "\<forall>m a' q'. n < m \<longrightarrow> w_place w m a' q' \<noteq> Inr no'"
      using assms n(2) unfolding new_numbers_def by (metis less_imp_le)+
    have "no' \<noteq> no" using assms Inr n(2) n' unfolding new_numbers_def by (metis order_refl)
    with no' used show "no' \<notin> used_numbers ?c" by auto
    show "w_place w m a' q'' \<noteq> Inr no'" if "n < m" for m a' q'' using no'(2) that by blast
  qed
qed

lemma new_numbers_submit:
  assumes "new_numbers w b"
  shows "new_numbers w (fst (live_submit_order w pid o' b))"
proof -
  obtain r c where m: "get_mark w (ord_asset o') (asked b) = (r, c)" by fastforce
  have c: "lb_open c = lb_open b" "lb_ledger c = lb_ledger b" "lb_booked c = lb_booked b"
      "lb_charged c = lb_charged b" "lb_buffer c = lb_buffer b" "lb_asked b \<le> lb_asked c"
    using get_mark_frame [of w "ord_asset o'" "asked b"] get_mark_asked [of "asked b" w "ord_asset o'"] m by simp_all
  have n: "new_numbers w c" "new_numbers w (asked c)" "new_numbers w (asked b)"
    using c by (auto intro!: new_numbers_mono [OF assms] simp: used_numbers_def)
  moreover have "new_numbers w (fst (refuse_order o' q dt e (asked c)))" for q dt e
    by (rule new_numbers_mono [OF n(2)]) (auto simp: refuse_order_def Let_def used_numbers_def)
  ultimately show ?thesis
    by (auto simp: live_submit_order_def engine_now_eq m new_numbers_place split: sum.split option.split)
qed

section \<open>Runs of the live broker\<close>

text \<open>
  What a session does to its broker, in any order: submissions to its own account under a new
  order identifier (\<^verbatim>\<open>uuid4\<close>), updates, settlements that end, a halt, the recording of the
  equity, a price looked up by a sizer, and a question that leaves no trace (the kill file).
  An operation that raises leaves the state it had reached.
\<close>

inductive live_step :: "world \<Rightarrow> lbroker \<Rightarrow> lbroker \<Rightarrow> bool" for w where
  submits: "get_order (ord_id o') (lb_ledger b) = None \<Longrightarrow>
    live_step w b (fst (live_submit_order w (lb_account b) o' b))"
| updates: "live_step w b (fst (live_update w dt force b))"
| settles: "settle w deadline b = Some r \<Longrightarrow> live_step w b (fst r)"
| halts: "live_step w b (set_trading_halted True b)"
| valued: "live_step w b (fst (record_equity w b))"
| marks: "live_step w b (snd (get_mark w a b))"
| asks: "live_step w b (asked b)"

abbreviation live_reaches :: "world \<Rightarrow> lbroker \<Rightarrow> lbroker \<Rightarrow> bool" where
  "live_reaches w \<equiv> (live_step w)\<^sup>*\<^sup>*"

lemma halt_fields [simp]:
  "lb_open (set_trading_halted h b) = lb_open b" "lb_ledger (set_trading_halted h b) = lb_ledger b"
  "lb_portfolios (set_trading_halted h b) = lb_portfolios b" "lb_account (set_trading_halted h b) = lb_account b"
  "lb_dt (set_trading_halted h b) = lb_dt b" "lb_booked (set_trading_halted h b) = lb_booked b"
  "lb_charged (set_trading_halted h b) = lb_charged b" "lb_buffer (set_trading_halted h b) = lb_buffer b"
  "lb_asked (set_trading_halted h b) = lb_asked b" "lb_sent (set_trading_halted h b) = lb_sent b"
  "trading_halted (set_trading_halted True b)"
  by (simp_all add: set_trading_halted_def trading_halted_def is_halted_def guard_halt_def)

lemma record_equity_cases:
  obtains "fst (record_equity w b) = asked b"
  | x where "fst (record_equity w b) =
      (asked b)\<lparr>lb_ledger := ledger_record_equity (engine_time w b) x (lb_mode (asked b)) (lb_ledger b)\<rparr>"
proof (cases "map_of (live_account_equity (asked b)) ''master''")
  case None
  then show ?thesis by (intro that(1)) (simp add: record_equity_def engine_now_eq)
next
  case (Some x)
  then show ?thesis
    by (cases x) (auto simp: record_equity_def engine_now_eq intro: that)
qed

lemma ledger_record_equity_fields [simp]:
  "l_fills (ledger_record_equity dt x m l) = l_fills l" "l_orders (ledger_record_equity dt x m l) = l_orders l"
  by (simp_all add: ledger_record_equity_def)

lemma get_order_equity [simp]: "get_order oid (ledger_record_equity dt x m l) = get_order oid l"
  and order_symbol_equity [simp]: "order_symbol (ledger_record_equity dt x m l) oid = order_symbol l oid"
  by (simp_all add: get_order_def order_symbol_def)

lemma in_step_equity:
  assumes "in_step b"
  shows "in_step (fst (record_equity w b))"
proof (cases rule: record_equity_cases [of w b])
  case 1
  then show ?thesis using in_step_same [OF assms, of "asked b"] by simp
next
  case (2 x)
  let ?M = "ledger_record_equity (engine_time w b) x (lb_mode (asked b)) (lb_ledger b)"
  have "already_booked oid ?M = already_booked oid (lb_ledger b)"
    "already_booked_fees oid ?M = already_booked_fees oid (lb_ledger b)" for oid
    using already_booked_same [of ?M "lb_ledger b"] by simp_all
  then have "order_ok ?M no st = order_ok (lb_ledger b) no st" "row_ok oo ?M r = row_ok oo (lb_ledger b) r"
    for no st oo r by (simp_all add: order_ok_def row_ok_def)
  with assms show ?thesis by (simp add: 2 in_step_def wf_orders_def)
qed

lemma follows_equity:
  assumes "follows b0 b"
  shows "follows b0 (fst (record_equity w b))"
proof (rule follows_frame [OF assms in_step_equity [OF followsD(1) [OF assms]]])
  show "books_ok (fst (record_equity w b))"
    by (rule books_ok_same [OF followsD(2) [OF assms]]; cases rule: record_equity_cases [of w b]) simp_all
  show "book_state (fst (record_equity w b)) = book_state b"
    by (rule book_state_same; cases rule: record_equity_cases [of w b]) simp_all
  show "live_held (fst (record_equity w b)) a = live_held b a" "live_cash (fst (record_equity w b)) = live_cash b" for a
    using live_same [of "fst (record_equity w b)" b a] by (cases rule: record_equity_cases [of w b]; simp)+
qed (cases rule: record_equity_cases [of w b]; simp)+

lemma follows_step:
  assumes "live_step w b c" and "prices_its_fills w" and "follows b0 b" and "new_numbers w b"
  shows "follows b0 c \<and> new_numbers w c"
  using assms(1)
proof (cases rule: live_step.cases)
  case (submits o')
  with assms show ?thesis by (simp add: follows_submit new_numbers_submit)
next
  case (updates dt force)
  with assms show ?thesis using follows.updated [of w b0 b dt force] numbers.updated [of w b dt force] by simp
next
  case (settles deadline r)
  with assms show ?thesis using follows.settled [OF settles(2)] numbers.settled [OF settles(2)] by simp
next
  case halts
  with assms show ?thesis
    by (auto intro!: follows_idle [OF assms(3)] new_numbers_mono [OF assms(4)] simp: used_numbers_def)
next
  case valued
  have "new_numbers w (fst (record_equity w b))"
    by (rule new_numbers_mono [OF assms(4)]; cases rule: record_equity_cases [of w b]) (auto simp: used_numbers_def)
  with valued assms show ?thesis by (simp add: follows_equity)
next
  case (marks a)
  then show ?thesis
    using get_mark_asked [of b w a] assms(3)
    by (auto intro!: follows_idle [OF assms(3)] new_numbers_mono [OF assms(4)] simp: used_numbers_def)
next
  case asks
  with assms show ?thesis
    by (auto intro!: follows_idle [OF assms(3)] new_numbers_mono [OF assms(4)] simp: used_numbers_def)
qed

lemma follows_reaches:
  assumes "live_reaches w b0 b" and "prices_its_fills w" and "new_numbers w b0" and "follows b0 b0"
  shows "follows b0 b \<and> new_numbers w b"
  using assms(1) by (induction rule: rtranclp_induct) (use assms follows_step in auto)

text \<open>A broker between two cycles: nothing in flight, and its orders watched from the same figures.\<close>

definition at_rest :: "lbroker \<Rightarrow> bool" where
  "at_rest b \<longleftrightarrow> in_step b \<and> books_ok b \<and> lb_account b \<in> set (dict_keys (lb_portfolios b)) \<and> lb_buffer b = [] \<and>
    (\<forall>no st. map_of (lb_open b) no = Some st \<longrightarrow>
      oo_portfolio st = lb_account b \<and> book_state b no = (oo_booked st, oo_fees st))"

lemma at_rest_follows: "at_rest b \<Longrightarrow> follows b b"
  by (intro followsI [of b b "[]"]) (auto simp: at_rest_def in_flight_def row_trades_def)

section \<open>Properties\<close>

text \<open>
  C21. The portfolio, the ledger and the poller agree in every state a session reaches, whatever
  the venue answers. New ledger rows are only ever appended; those of an open order add up to
  what the poller has seen of it, in quantity and in fees, so that a process that restarts and
  reads the ledger resumes at the same figures; and whenever no message is in flight, holdings
  and cash are those at the start plus exactly the trades of the new rows, and every open order
  is booked up to what the poller has seen.
\<close>

theorem books_ledger_and_poller_agree:
  assumes "live_reaches w b0 b" and "at_rest b0" and "prices_its_fills w" and "new_numbers w b0"
  shows "\<exists>rows. l_fills (lb_ledger b) = l_fills (lb_ledger b0) @ rows \<and>
    (\<forall>no st. map_of (lb_open b) no = Some st \<longrightarrow>
      already_booked (oo_id st) (lb_ledger b) = oo_booked st \<and>
      already_booked_fees (oo_id st) (lb_ledger b) = oo_fees st) \<and>
    (lb_buffer b = [] \<longrightarrow>
      (\<forall>a. live_held b a = live_held b0 a + of_int (traded_of a (row_trades (lb_ledger b) rows))) \<and>
      live_cash b = live_cash b0 - cost_of (row_trades (lb_ledger b) rows) \<and>
      (\<forall>no st. map_of (lb_open b) no = Some st \<longrightarrow> booked_of b no = oo_booked st \<and> charged_of b no = oo_fees st))"
proof -
  have f: "follows b0 b"
    using follows_reaches [OF assms(1,3,4) at_rest_follows [OF assms(2)]] by simp
  then obtain rows where rows: "l_fills (lb_ledger b) = l_fills (lb_ledger b0) @ rows"
      "\<And>a. live_held b a + of_int (traded_of a (in_flight b)) =
        live_held b0 a + of_int (traded_of a (row_trades (lb_ledger b) rows))"
      "live_cash b - cost_of (in_flight b) = live_cash b0 - cost_of (row_trades (lb_ledger b) rows)"
    by (auto simp: follows_def)
  have "already_booked (oo_id st) (lb_ledger b) = oo_booked st \<and>
      already_booked_fees (oo_id st) (lb_ledger b) = oo_fees st" if "map_of (lb_open b) no = Some st" for no st
    using followsD(1) [OF f] that by (simp add: in_step_def order_ok_def)
  moreover have "booked_of b no = oo_booked st \<and> charged_of b no = oo_fees st"
    if "map_of (lb_open b) no = Some st" "lb_buffer b = []" for no st
    using followsD(7) [OF f that(1)] that(2) by (simp add: book_state_def)
  moreover have "in_flight b = []" if "lb_buffer b = []" using that by (simp add: in_flight_def)
  ultimately show ?thesis using rows
    by (intro exI [of _ rows]) (cases "lb_buffer b = []"; simp)
qed

text \<open>One cycle of the demonstration account: an order for three shares, filled and absorbed.\<close>

definition demo_cycle :: lbroker where
  "demo_cycle = fst (live_update demo_world 2000 True
     (fst (live_submit_order demo_world (lb_account demo_live) (demo_live_order 3) demo_live)))"

lemma demo_at_rest: "at_rest demo_live"
  by (simp add: at_rest_def demo_books_ok demo_live_account in_step_def wf_dict_def wf_orders_def)

lemma demo_world_ok: "prices_its_fills demo_world" "new_numbers demo_world demo_live"
  by (auto simp: prices_its_fills_def new_numbers_def used_numbers_def demo_world_def)

lemma demo_cycle_reached: "live_reaches demo_world demo_live demo_cycle"
  unfolding demo_cycle_def
  by (rule rtranclp.rtrancl_into_rtrancl [OF r_into_rtranclp [of "live_step demo_world"] live_step.updates])
    (simp add: live_step.submits get_order_def)

lemma demo_cycle_result:
  "lb_buffer demo_cycle = [] \<and> live_held demo_cycle ''EQ:A'' = 8 \<and> live_cash demo_cycle = 698"
  unfolding demo_cycle_def demo_live_def by code_simp

theorem books_ledger_and_poller_agree_witness:
  "\<exists>rows. l_fills (lb_ledger demo_cycle) = rows \<and>
     traded_of ''EQ:A'' (row_trades (lb_ledger demo_cycle) rows) = 3 \<and>
     cost_of (row_trades (lb_ledger demo_cycle) rows) = 302"
proof -
  obtain rows where "l_fills (lb_ledger demo_cycle) = l_fills (lb_ledger demo_live) @ rows"
      "live_held demo_cycle ''EQ:A'' = live_held demo_live ''EQ:A'' +
        of_int (traded_of ''EQ:A'' (row_trades (lb_ledger demo_cycle) rows))"
      "live_cash demo_cycle = live_cash demo_live - cost_of (row_trades (lb_ledger demo_cycle) rows)"
    using books_ledger_and_poller_agree [OF demo_cycle_reached demo_at_rest demo_world_ok] demo_cycle_result
    by auto
  moreover have "live_held demo_live ''EQ:A'' = 5" "live_cash demo_live = 1000"
    by (simp_all add: live_held_def live_cash_def account_of_def demo_live_account position_in_def
        net_quantity_open seed_transaction_def)
  ultimately show ?thesis using demo_cycle_result by (intro exI [of _ rows]) simp
qed

end
