(* ===== verification/Live_Settle.thy ===== *)
theory Live_Settle
  imports Live_Collect
begin

text \<open>
  Settlement: that the loop ends, what it leaves of every order it was given, and what becomes
  of an order that was given up. The loop's facts come from the locale \<open>collecting\<close>, interpreted
  on the count of questions asked and on the state of one order.
\<close>

section \<open>The loop ends\<close>

interpretation elapsed: collecting w "\<lambda>b. n \<le> lb_asked b" for w n
  by unfold_locales
    (auto intro: order_trans poll_once_asked drain_mono close_order_asked mark_to_market_asked)

text \<open>The worker's thread lives as long as no answer about an order is an exit.\<close>

definition answers_reports :: "world \<Rightarrow> bool" where
  "answers_reports w \<longleftrightarrow> (\<forall>n no. w_report w n no \<noteq> Inl Interrupted)"

lemma poll_tasks_alive:
  assumes "answers_reports w"
  shows "\<exists>t. poll_tasks w nos s = Some (True, t)"
proof (induction nos arbitrary: s)
  case (Cons no nos)
  have "fst (poll_once w no (snd s)) \<noteq> Inl Interrupted"
    using assms by (auto simp: answers_reports_def poll_once_def Let_def engine_now_eq split: option.split sum.split)
  with Cons show ?case by (cases "poll_once w no (snd s)") (auto split: sum.split)
qed simp

lemma round_alive: "answers_reports w \<Longrightarrow> \<exists>r. settle_round w b = Some (True, r)"
  using poll_tasks_alive [of w "dict_keys (lb_open b)" "([], b)"] by (auto simp: settle_round_def)

lemma settle_loop_returns:
  assumes "w_clock w = Some clock" and "\<And>n. N \<le> n \<Longrightarrow> deadline \<le> clock n" and "answers_reports w"
  shows "\<exists>r. settle_loop w deadline True b = Some r"
proof (induction "N - lb_asked b" arbitrary: b rule: less_induct)
  case less
  show ?case
  proof (cases "lb_open b = [] \<or> deadline \<le> engine_time w b \<or>
      is_kill_switch_engaged (w_exists w (lb_asked b + 1)) (lb_guard b)")
    case True
    then show ?thesis by (subst settle_loop.simps) (auto simp: engine_now_eq Let_def)
  next
    case False
    obtain c e where round: "settle_round w (asked (asked b)) = Some (True, c, e)"
      using round_alive [OF assms(3), of "asked (asked b)"] by auto
    have "clock (lb_asked b) \<le> engine_time w b"
      using assms(1) by (simp add: engine_time_def engine_now_def Let_def)
    then have "lb_asked b < N" using False assms(2) [of "lb_asked b"] by (cases "lb_asked b < N") auto
    moreover have "lb_asked b + 2 \<le> lb_asked c"
      using elapsed.round [OF round, of "lb_asked b + 2"] by simp
    ultimately have "N - lb_asked c < N - lb_asked b" by linarith
    then obtain r where "settle_loop w deadline True c = Some r" using less by blast
    with False round show ?thesis
      by (subst settle_loop.simps) (auto simp: engine_now_eq Let_def split: option.split)
  qed
qed

section \<open>How it ends\<close>

interpretation guarded: collecting w "\<lambda>b. lb_guard b = g \<and> lb_sent b = sent" for w g sent
  by unfold_locales auto

lemma settle_loop_ends:
  assumes "settle_loop w deadline alive b = Some r"
  shows "(fst r = NothingOpen \<longrightarrow> lb_open (snd r) = []) \<and>
    (fst r = StoppedByOperator \<longrightarrow>
      (\<exists>n \<ge> lb_asked b. is_kill_switch_engaged (w_exists w n) (lb_guard b)))"
proof (rule settle_loop.raw_induct [where P = "\<lambda>w d alive b r. (fst r = NothingOpen \<longrightarrow> lb_open (snd r) = []) \<and>
    (fst r = StoppedByOperator \<longrightarrow>
      (\<exists>n \<ge> lb_asked b. is_kill_switch_engaged (w_exists w n) (lb_guard b)))", OF _ assms])
  fix loop w d alive b r
  assume IH: "\<And>w d alive b r. loop w d alive b = Some r \<Longrightarrow> (fst r = NothingOpen \<longrightarrow> lb_open (snd r) = []) \<and>
      (fst r = StoppedByOperator \<longrightarrow> (\<exists>n \<ge> lb_asked b. is_kill_switch_engaged (w_exists w n) (lb_guard b)))"
    and eq: "(if lb_open b = [] then Some (NothingOpen, b)
     else let (now, b) = engine_now w b in
       if d \<le> now then Some (Expired, b)
       else if is_kill_switch_engaged (w_exists w (lb_asked b)) (lb_guard b) then Some (StoppedByOperator, asked b)
       else if \<not> alive then None
       else (case settle_round w (asked b) of
           None \<Rightarrow> None
         | Some (alive, b, None) \<Rightarrow> loop w d alive b
         | Some (alive, b, Some e) \<Rightarrow> Some (Failed e, b))) = Some r"
  have deeper: "(fst r = NothingOpen \<longrightarrow> lb_open (snd r) = []) \<and>
      (fst r = StoppedByOperator \<longrightarrow> (\<exists>n \<ge> lb_asked b. is_kill_switch_engaged (w_exists w n) (lb_guard b)))"
    if round: "settle_round w (asked (asked b)) = Some (alive', c, None)" and loop: "loop w d alive' c = Some r" for alive' c
  proof -
    have "lb_guard c = lb_guard b" "lb_asked b \<le> lb_asked c"
      using guarded.round [OF round, of "lb_guard b" "lb_sent b"] elapsed.round [OF round, of "lb_asked b"] by simp_all
    with IH [OF loop] show ?thesis by (metis order_trans)
  qed
  show "(fst r = NothingOpen \<longrightarrow> lb_open (snd r) = []) \<and>
      (fst r = StoppedByOperator \<longrightarrow> (\<exists>n \<ge> lb_asked b. is_kill_switch_engaged (w_exists w n) (lb_guard b)))"
  proof (cases "lb_open b = [] \<or> d \<le> engine_time w b \<or>
      is_kill_switch_engaged (w_exists w (lb_asked b + 1)) (lb_guard b)")
    case True
    with eq show ?thesis
      by (auto simp: engine_now_eq Let_def split: if_splits) (metis Suc_n_not_le_n nat_le_linear)
  next
    case False
    with eq deeper show ?thesis
      by (auto simp: engine_now_eq Let_def split: option.splits if_splits)
  qed
qed

lemma in_step_order: "in_step b \<Longrightarrow> map_of (lb_open b) no = Some st \<Longrightarrow> order_ok (lb_ledger b) no st"
  unfolding in_step_def by blast

text \<open>One order, followed by its number and its identifier.\<close>

definition tracked :: "string \<Rightarrow> string \<Rightarrow> lbroker \<Rightarrow> bool" where
  "tracked no oid b \<longleftrightarrow> in_step b \<and> (\<exists>x. get_order oid (lb_ledger b) = Some x \<and>
    ((\<exists>st. map_of (lb_open b) no = Some st \<and> oo_id st = oid \<and> or_state x = SUBMITTED) \<or>
     map_of (lb_open b) no = None \<and> (or_state x = FILLED \<or> or_state x = STALE)))"

lemma tracked_poll: "tracked no oid b \<Longrightarrow> tracked no oid (snd (poll_once w no' b))"
proof (cases rule: poll_once_cases [of w no' b])
  case (increment st report)
  assume b: "tracked no oid b"
  then have "in_step (snd (poll_once w no' b))" by (simp add: tracked_def in_step_poll)
  with b increment show ?thesis by (auto simp: tracked_def Let_def)
qed (auto simp: tracked_def in_step_def)

lemma tracked_close:
  assumes "tracked no oid b" and "st = FILLED \<or> st = STALE"
  shows "tracked no oid (close_order w no' st why b)"
proof (cases rule: close_order_cases [of b no' w st why])
  case (closed y)
  have step: "in_step b" using assms(1) by (simp add: tracked_def)
  obtain z where z: "get_order (oo_id y) (lb_ledger b) = Some z" "or_no z = Some no'" "or_state z = SUBMITTED"
    using in_step_order [OF step closed(1)] unfolding order_ok_def by blast
  have "oo_id y = oid \<longrightarrow> no' = no" if "map_of (lb_open b) no = Some x" "oo_id x = oid" for x
    using in_step_ids [OF step closed(1) that(1)] that(2) by simp
  with z assms in_step_close [OF step, of w no' st why] closed show ?thesis
    by (auto simp: tracked_def)
qed (use assms in simp)

interpretation tracked: collecting w "tracked no oid" for w no oid
proof unfold_locales
  fix b :: lbroker and no' st why dt
  assume b: "tracked no oid b"
  have keep: "tracked no oid c" if "lb_open c = lb_open b" "lb_ledger c = lb_ledger b" for c
    using b that in_step_same [of b c] by (simp add: tracked_def)
  show "tracked no oid (snd (poll_once w no' b))" using b by (rule tracked_poll)
  show "st = FILLED \<or> st = STALE \<Longrightarrow> tracked no oid (close_order w no' st why b)" using b by (rule tracked_close)
  show "tracked no oid (fst (drain_fill_buffer w b))" "tracked no oid (asked b)" "tracked no oid (b\<lparr>lb_dt := dt\<rparr>)"
    "tracked no oid (b\<lparr>lb_last_poll := dt\<rparr>)" "tracked no oid (fst (mark_to_market w b))"
    by (rule keep; simp)+
qed

lemma close_order_open: "lb_open (close_order w no st why b) = AList.delete no (lb_open b)"
  by (cases rule: close_order_cases [of b no w st why]) (auto simp: map_of_eq_None_iff delete_id)

lemma close_orders_open: "lb_open (close_orders w st why nos b) = filter (\<lambda>(k, v). k \<notin> set nos) (lb_open b)"
proof (induction nos arbitrary: b)
  case (Cons no nos)
  have "AList.delete no d = filter (\<lambda>(k, v). k \<noteq> no) d" for d :: "(string, open_order) dict"
    by (induction d) auto
  with Cons show ?case by (auto simp: close_orders_def close_order_open intro: filter_cong)
qed (simp add: close_orders_def split_def)

lemma close_all_open [simp]: "lb_open (close_orders w st why (dict_keys (lb_open b)) b) = []"
  unfolding close_orders_open filter_empty_conv by (auto intro: image_eqI [rotated])

lemma settle_leaves_open:
  assumes "settle w deadline b = Some r" and "snd r = None"
  shows "lb_open (fst r) = [] \<or> (\<exists>n \<ge> lb_asked b. is_kill_switch_engaged (w_exists w n) (lb_guard b))"
proof -
  obtain e b1 where loop: "settle_loop w deadline True b = Some (e, b1)" using assms(1) by (auto simp: settle_def)
  show ?thesis
  proof (cases e)
    case StoppedByOperator
    with settle_loop_ends [OF loop] show ?thesis by simp
  next
    case (Failed err)
    with assms loop show ?thesis by (cases "drain_fill_buffer w b1" rule: outcome_cases) (auto simp: settle_def)
  qed (use assms loop in \<open>cases "drain_fill_buffer w b1" rule: outcome_cases; auto simp: settle_def\<close>)+
qed

section \<open>A stop\<close>

text \<open>In force: the trading halt, or a kill switch found thrown whenever it is looked for.\<close>

definition stopped :: "world \<Rightarrow> lbroker \<Rightarrow> bool" where
  "stopped w b \<longleftrightarrow> trading_halted b \<or>
    (\<forall>n \<ge> lb_asked b. is_kill_switch_engaged (w_exists w n) (lb_guard b))"

lemma stopped_cong: "stopped w b \<Longrightarrow> lb_guard c = lb_guard b \<Longrightarrow> lb_asked b \<le> lb_asked c \<Longrightarrow> stopped w c"
  by (auto simp: stopped_def trading_halted_def)

lemma stopped_check:
  assumes "stopped w b" and "lb_asked b \<le> n"
  shows "\<exists>e. check_order (w_exists w n) a q p (lb_guard b) = Some e \<and> is_stop e"
proof -
  have "check_can_trade (w_exists w n) (lb_guard b) \<noteq> None"
    using assms by (auto simp: stopped_def check_can_trade_def trading_halted_def)
  from gate.shut_stops [OF this, of "(a, q, p)"] show ?thesis by (simp add: check_priced_def)
qed

lemma refuse_order_frame [simp]:
  "lb_guard (fst (refuse_order o' q dt e b)) = lb_guard b" "lb_asked (fst (refuse_order o' q dt e b)) = lb_asked b"
  "lb_sent (fst (refuse_order o' q dt e b)) = lb_sent b"
  by (simp_all add: refuse_order_def Let_def)

lemma submit_frame:
  "lb_asked b \<le> lb_asked (fst (live_submit_order w pid o' b))"
  "lb_sent (fst (live_submit_order w pid o' b)) = lb_sent b \<Longrightarrow>
    lb_guard (fst (live_submit_order w pid o' b)) = lb_guard b"
proof -
  have place: "lb_asked d \<le> lb_asked (fst (place_order w pid o' q dt d))" for q dt d
    by (simp add: place_order_def Let_def split: sum.split)
  obtain r c where m: "get_mark w (ord_asset o') (asked b) = (r, c)" by fastforce
  then have c: "lb_sent c = lb_sent b" "lb_guard c = lb_guard b" "lb_asked b + 1 \<le> lb_asked c"
    using get_mark_frame [of w "ord_asset o'" "asked b"] get_mark_asked [of "asked b" w "ord_asset o'"] by simp_all
  have "lb_asked b \<le> lb_asked (fst (place_order w pid o' q dt (asked c)))" for q dt
    using place [of "asked c" q dt] c(3) by simp
  with m c show "lb_asked b \<le> lb_asked (fst (live_submit_order w pid o' b))"
    by (simp add: live_submit_order_def engine_now_eq split: sum.split option.split)
  from m c show "lb_sent (fst (live_submit_order w pid o' b)) = lb_sent b \<Longrightarrow>
      lb_guard (fst (live_submit_order w pid o' b)) = lb_guard b"
    by (simp add: live_submit_order_def engine_now_eq split: sum.splits option.splits if_splits)
qed

lemma submit_stopped:
  assumes "stopped w b"
  shows "lb_sent (fst (live_submit_order w pid o' b)) = lb_sent b \<and>
    stopped w (fst (live_submit_order w pid o' b))"
proof -
  have "lb_sent (fst (live_submit_order w pid o' b)) = lb_sent b"
  proof (rule ccontr)
    assume "lb_sent (fst (live_submit_order w pid o' b)) \<noteq> lb_sent b"
    then obtain price c q where c: "get_mark w (ord_asset o') (asked b) = (Inr price, c)"
      and passed: "check_order (w_exists w (lb_asked c)) (ord_asset o') q price (lb_guard c) = None"
      by (rule submit_reaches_venue)
    have "lb_guard c = lb_guard b" "lb_asked b \<le> lb_asked c"
      using c get_mark_frame [of w "ord_asset o'" "asked b"] get_mark_asked [of "asked b" w "ord_asset o'"] by simp_all
    with stopped_check [OF assms] passed show False by (metis option.distinct(1))
  qed
  with submit_frame [where b = b and w = w and pid = pid and o' = o'] show ?thesis by (auto intro: stopped_cong [OF assms])
qed

lemma stopped_step:
  assumes "live_step w b c" and "stopped w b"
  shows "lb_sent c = lb_sent b \<and> stopped w c"
  using assms(1)
proof (cases rule: live_step.cases)
  case (submits o')
  with submit_stopped [OF assms(2)] show ?thesis by simp
next
  case (updates dt force)
  then show ?thesis
    using guarded.updated [of b "lb_guard b" "lb_sent b" w dt force] elapsed.updated [of "lb_asked b" b w dt force]
    by (auto intro: stopped_cong [OF assms(2)])
next
  case (settles deadline r)
  then show ?thesis
    using guarded.settled [OF settles(2), of "lb_guard b" "lb_sent b"] elapsed.settled [OF settles(2), of "lb_asked b"]
    by (auto intro: stopped_cong [OF assms(2)])
next
  case valued
  then show ?thesis
    by (cases rule: record_equity_cases [of w b]) (auto intro: stopped_cong [OF assms(2)])
next
  case (marks a)
  with get_mark_asked [of b w a] show ?thesis by (auto intro: stopped_cong [OF assms(2)])
next
  case asks
  then show ?thesis by (auto intro: stopped_cong [OF assms(2)])
qed (simp add: stopped_def)

lemma stopped_reaches:
  assumes "live_reaches w b c" and "stopped w b"
  shows "lb_sent c = lb_sent b \<and> stopped w c"
  using assms(1) by (induction rule: rtranclp_induct) (use assms(2) stopped_step in auto)

section \<open>Properties\<close>

text \<open>
  Settlement ends. As soon as the clock has passed the deadline for good, whatever the venue
  answers, and however often it fails, the call returns, as long as no answer is an exit.
\<close>

theorem settlement_returns:
  assumes "w_clock w = Some clock" and "\<And>n. N \<le> n \<Longrightarrow> deadline \<le> clock n" and "answers_reports w"
  shows "\<exists>r. settle w deadline b = Some r"
proof -
  obtain r where "settle_loop w deadline True b = Some r" using settle_loop_returns [OF assms(1) _ assms(3)] assms(2) by metis
  then show ?thesis by (simp add: settle_def)
qed

text \<open>
  An exit in the poller hangs the launch. Where the answer about an order that is not the last of the
  round is an exit, the thread is gone with tasks behind it, the drain barrier is never abandoned,
  and settlement does not return, whatever its deadline.
\<close>

theorem exit_in_the_poller_blocks_settlement:
  assumes "lb_open b = (no, st) # x # xs" and "engine_time w b < deadline"
    and "\<not> is_kill_switch_engaged (w_exists w (lb_asked b + 1)) (lb_guard b)"
    and "w_report w (lb_asked b + 2) no = Inl Interrupted"
  shows "settle w deadline b = None"
proof -
  have "settle_round w (asked (asked b)) = None"
    using assms(1,4) by (cases x) (simp add: settle_round_def poll_once_def)
  then have "settle_loop w deadline True b = None"
    using assms(1-3) by (subst settle_loop.simps) (simp add: engine_now_eq)
  then show ?thesis by (simp add: settle_def)
qed

text \<open>
  C22. Settlement accounts for every order it was given. When it returns normally, each order
  that was open is either out of the open set and FILLED or STALE in the ledger, or it is still
  open and SUBMITTED, among the orders the next launch will ask the venue about; and orders
  are left open only if the kill switch was found thrown during the call.
\<close>

theorem settlement_accounts_for_every_order:
  assumes "settle w deadline b = Some r" and "snd r = None" and "in_step b"
    and "map_of (lb_open b) no = Some st"
  shows "\<exists>x. get_order (oo_id st) (lb_ledger (fst r)) = Some x \<and>
    (map_of (lb_open (fst r)) no = None \<and> (or_state x = FILLED \<or> or_state x = STALE) \<or>
     map_of (lb_open (fst r)) no \<noteq> None \<and> or_state x = SUBMITTED \<and> x \<in> set (get_open_orders (lb_ledger (fst r)))) \<and>
    (lb_open (fst r) = [] \<or> (\<exists>n \<ge> lb_asked b. is_kill_switch_engaged (w_exists w n) (lb_guard b)))"
proof -
  have "tracked no (oo_id st) b" using in_step_order [OF assms(3,4)] assms(3,4) by (auto simp: tracked_def order_ok_def)
  then have t: "tracked no (oo_id st) (fst r)" using tracked.settled [OF assms(1)] by simp
  then obtain x where x: "get_order (oo_id st) (lb_ledger (fst r)) = Some x"
      "(\<exists>st'. map_of (lb_open (fst r)) no = Some st' \<and> or_state x = SUBMITTED) \<or>
       map_of (lb_open (fst r)) no = None \<and> (or_state x = FILLED \<or> or_state x = STALE)"
    by (auto simp: tracked_def)
  have "or_id x = oo_id st" using x(1) by (auto simp: get_order_def dest: find_id(2))
  then have open_x: "x \<in> set (get_open_orders (lb_ledger (fst r)))" if "or_state x = SUBMITTED"
    using t x(1) that by (simp add: get_open_orders_iff tracked_def in_step_def terminal_states_def)
  have "lb_open (fst r) = [] \<or> (\<exists>n \<ge> lb_asked b. is_kill_switch_engaged (w_exists w n) (lb_guard b))"
    by (rule settle_leaves_open [OF assms(1,2)])
  with x open_x show ?thesis by auto
qed

text \<open>
  An order given up is given up for good. When settlement ends without a kill switch, no
  later update asks the venue about any order: its result does not depend on what the venue
  would report, so a late fill of a STALE order is not absorbed; and the ledger's list of open
  orders, from which the next launch recovers, holds no STALE order either.
\<close>

theorem stale_order_is_never_asked_again:
  assumes "settle w deadline b = Some r" and "snd r = None"
    and "\<And>n. \<not> is_kill_switch_engaged (w_exists w n) (lb_guard b)"
  shows "live_update (w\<lparr>w_report := reports\<rparr>) dt force (fst r) = live_update w dt force (fst r) \<and>
    (\<forall>x. or_state x = STALE \<longrightarrow> x \<notin> set (get_open_orders (lb_ledger (fst (live_update w dt force (fst r))))))"
proof -
  have none: "lb_open (fst r) = []" using settle_leaves_open [OF assms(1,2)] assms(3) by simp
  have mark: "get_mark (w\<lparr>w_report := reports\<rparr>) a b = get_mark w a b" "engine_now (w\<lparr>w_report := reports\<rparr>) b = engine_now w b"
    for a b by (simp_all add: get_mark_def engine_now_def split: option.split sum.split)
  then have sym: "mark_symbol (w\<lparr>w_report := reports\<rparr>) dt = mark_symbol w dt" for dt
    by (intro ext) (simp add: mark_symbol_def)
  have "mark_to_market (w\<lparr>w_report := reports\<rparr>) = mark_to_market w"
    by (intro ext) (simp only: mark_to_market_def mark sym)
  with none show ?thesis by (simp add: live_update_def Let_def get_open_orders_def terminal_states_def)
qed

text \<open>
  C25. After a stop nothing more reaches the venue. From a state in which trading is halted, or in
  which the kill file is there whenever it is looked for, no sequence of submissions, updates,
  settlements and valuations sends another order.
\<close>

theorem no_order_after_a_stop:
  assumes "live_reaches w b c" and "stopped w b"
  shows "lb_sent c = lb_sent b \<and> stopped w c"
  by (rule stopped_reaches [OF assms])

text \<open>
  An order of which the venue filled nothing ends FILLED. When the venue reports an open order
  done with no fill (all of it rejected), an update takes it out of the open set and the ledger
  records it FILLED, without a row of a fill.
\<close>

theorem rejected_order_is_recorded_filled:
  assumes "lb_open b = [(no, st)]" and "get_order (oo_id st) (lb_ledger b) = Some x" and "or_state x = SUBMITTED"
    and "w_report w (lb_asked b) no = Inr report" and "rp_filled report = 0" and "oo_booked st = 0"
    and "rp_done report" and "lb_buffer b = []"
  shows "lb_open (fst (absorb_fills w b)) = [] \<and>
    map_option or_state (get_order (oo_id st) (lb_ledger (fst (absorb_fills w b)))) = Some FILLED \<and>
    l_fills (lb_ledger (fst (absorb_fills w b))) = l_fills (lb_ledger b)"
  using assms
  by (simp add: absorb_fills_def poll_once_def Let_def drain_fill_buffer_def close_orders_def close_order_def
      engine_now_eq)

text \<open>A cycle whose order never fills: the venue keeps answering that nothing happened.\<close>

definition slow_world :: world where
  "slow_world = demo_world\<lparr>w_report := \<lambda>n no. Inr \<lparr>rp_no = no, rp_filled = 0, rp_price = 0,
     rp_remaining = 3, rp_rejected = 0, rp_fees = 0, rp_done = False\<rparr>\<rparr>"

definition demo_open :: lbroker where
  "demo_open = fst (live_submit_order demo_world ''live'' (demo_live_order 3) demo_live)"

definition rejecting_world :: world where
  "rejecting_world = demo_world\<lparr>w_report := \<lambda>n no. Inr \<lparr>rp_no = no, rp_filled = 0, rp_price = 0,
     rp_remaining = 0, rp_rejected = 3, rp_fees = 0, rp_done = True\<rparr>\<rparr>"

lemma slow_settlement: "map_option (\<lambda>r. (lb_open (fst r), snd r)) (settle slow_world 1010 demo_open) = Some ([], None)"
  unfolding demo_open_def demo_live_def slow_world_def by code_simp

lemma slow_settlement_ends:
  obtains r where "settle slow_world 1010 demo_open = Some r" "lb_open (fst r) = []" "snd r = None"
  using slow_settlement by (cases "settle slow_world 1010 demo_open") auto

lemma demo_open_order:
  "map (\<lambda>(no, st). (no, oo_id st, oo_booked st)) (lb_open demo_open) = [(''xxxxx'', ''id1'', 0)] \<and>
   g_kill_path (lb_guard demo_open) = Some ''kill'' \<and> lb_buffer demo_open = [] \<and> lb_sent demo_open = [(''EQ:A'', 3)] \<and>
   map_option or_state (get_order ''id1'' (lb_ledger demo_open)) = Some SUBMITTED"
  unfolding demo_open_def demo_live_def by code_simp

lemma demo_open_entry:
  obtains st where "lb_open demo_open = [(''xxxxx'', st)]" "oo_id st = ''id1''" "oo_booked st = 0"
proof -
  from demo_open_order have "map (\<lambda>(no, st). (no, oo_id st, oo_booked st)) (lb_open demo_open) = [(''xxxxx'', ''id1'', 0)]"
    by simp
  then show ?thesis using that by (auto simp: map_eq_Cons_conv)
qed

lemma demo_open_in_step: "in_step demo_open"
proof -
  have "live_reaches demo_world demo_live demo_open"
    unfolding demo_open_def by (intro r_into_rtranclp live_step.submits [of "demo_live_order 3" demo_live demo_world,
      unfolded demo_live_account(1)]) (simp add: get_order_def)
  from follows_reaches [OF this demo_world_ok at_rest_follows [OF demo_at_rest]]
  have "follows demo_live demo_open" by simp
  then show ?thesis by (rule followsD(1))
qed

theorem settlement_returns_witness: "\<exists>r. settle slow_world 1010 demo_open = Some r"
  by (rule settlement_returns [where clock = "\<lambda>n. 1000 + int n" and N = 10])
    (auto simp: slow_world_def demo_world_def answers_reports_def)

theorem settlement_accounts_for_every_order_witness:
  "\<exists>r x. settle slow_world 1010 demo_open = Some r \<and> get_order ''id1'' (lb_ledger (fst r)) = Some x \<and>
     (or_state x = FILLED \<or> or_state x = STALE)"
proof -
  obtain r where r: "settle slow_world 1010 demo_open = Some r" "lb_open (fst r) = []" "snd r = None"
    by (rule slow_settlement_ends)
  obtain st where st: "lb_open demo_open = [(''xxxxx'', st)]" "oo_id st = ''id1''" by (rule demo_open_entry)
  then have "map_of (lb_open demo_open) ''xxxxx'' = Some st" by simp
  from settlement_accounts_for_every_order [OF r(1,3) demo_open_in_step this] r st show ?thesis by auto
qed

theorem stale_order_is_never_asked_again_witness:
  "\<exists>r. settle slow_world 1010 demo_open = Some r \<and>
     live_update (slow_world\<lparr>w_report := w_report demo_world\<rparr>) 2000 True (fst r) = live_update slow_world 2000 True (fst r)"
proof -
  obtain r where r: "settle slow_world 1010 demo_open = Some r" "snd r = None" by (rule slow_settlement_ends)
  have "\<not> is_kill_switch_engaged (w_exists slow_world n) (lb_guard demo_open)" for n
    by (simp add: slow_world_def demo_world_def is_kill_switch_engaged_def split: option.split)
  from stale_order_is_never_asked_again [OF r this, of "w_report demo_world" 2000 True] r(1) show ?thesis by blast
qed

theorem no_order_after_a_stop_witness:
  "lb_sent (fst (live_submit_order demo_world (lb_account demo_open) (new_order ''id2'' 0 ''EQ:A'' 1)
     (set_trading_halted True demo_open))) = [(''EQ:A'', 3)]"
proof -
  let ?b = "set_trading_halted True demo_open"
  have "get_order ''id2'' (lb_ledger demo_open) = None" unfolding demo_open_def demo_live_def by code_simp
  then have "live_reaches demo_world ?b (fst (live_submit_order demo_world (lb_account ?b) (new_order ''id2'' 0 ''EQ:A'' 1) ?b))"
    by (intro r_into_rtranclp live_step.submits) (simp add: new_order_def)
  from no_order_after_a_stop [OF this] show ?thesis by (simp add: stopped_def demo_open_order)
qed

theorem rejected_order_is_recorded_filled_witness:
  "map_option or_state (get_order ''id1'' (lb_ledger (fst (absorb_fills rejecting_world demo_open)))) = Some FILLED"
proof -
  obtain st where st: "lb_open demo_open = [(''xxxxx'', st)]" "oo_id st = ''id1''" "oo_booked st = 0"
    by (rule demo_open_entry)
  moreover obtain x where "get_order ''id1'' (lb_ledger demo_open) = Some x" "or_state x = SUBMITTED"
    using demo_open_order by auto
  ultimately show ?thesis
    using rejected_order_is_recorded_filled [OF st(1), of x rejecting_world] demo_open_order
    by (simp add: rejecting_world_def)
qed

end
