(* ===== verification/Live_Reconcile.thy ===== *)
theory Live_Reconcile
  imports Live_Settle Portfolio_Construction
begin

text \<open>
  \<^verbatim>\<open>vmtrader/broker/live/reconcile.py\<close>: how a new process picks up from the ledger of the one
  before it. The theorems follow an account over a restart: orders left open resume at the
  figures of the ledger, the portfolio becomes the venue's balance, and an intent without a
  number halts trading, once.
\<close>

section \<open>Reconciliation\<close>

record reconcile_result =
  rr_resolved :: "string list"
  rr_orphans :: "string list"
  rr_overstated :: "(symbol, rat \<times> rat) dict"
  rr_untracked :: "(symbol, rat) dict"
  rr_halt_trading :: bool

definition new_reconcile_result :: "string list \<Rightarrow> string list \<Rightarrow> (symbol, rat \<times> rat) dict
    \<Rightarrow> (symbol, rat) dict \<Rightarrow> reconcile_result" where
  "new_reconcile_result resolved orphans overstated untracked =
    \<lparr>rr_resolved = resolved, rr_orphans = orphans, rr_overstated = overstated, rr_untracked = untracked,
     rr_halt_trading = (overstated \<noteq> [] \<or> orphans \<noteq> [])\<rparr>"

type_synonym recovery = "(string list \<times> string list) \<times> lbroker"

text \<open>An order with a number is watched again, from the figures of the ledger.\<close>

definition watch_again :: "order_row \<Rightarrow> string \<Rightarrow> lbroker \<Rightarrow> lbroker" where
  "watch_again row no b =
    (let booked = already_booked (or_id row) (lb_ledger b);
         charged = already_booked_fees (or_id row) (lb_ledger b) in
     b\<lparr>lb_open := AList.update no
         \<lparr>oo_id = or_id row, oo_symbol = or_symbol row, oo_quantity = or_quantity row,
          oo_portfolio = lb_account b, oo_booked = booked, oo_fees = charged\<rparr> (lb_open b),
       lb_booked := AList.update no booked (lb_booked b),
       lb_charged := AList.update no charged (lb_charged b)\<rparr>)"

definition reject_orphan :: "world \<Rightarrow> string \<Rightarrow> lbroker \<Rightarrow> lbroker" where
  "reject_orphan w oid b =
    (let (dt, b) = engine_now w b in
     b\<lparr>lb_ledger := record_state oid REJECTED dt (Some (Note
       ''No order number recorded; the venue may still have accepted it. Verify against the balance.''))
       (lb_ledger b)\<rparr>)"

definition recover_order :: "world \<Rightarrow> order_row \<Rightarrow> recovery \<Rightarrow> recovery outcome" where
  "recover_order w row s = (case s of ((resolved, orphans), b) \<Rightarrow>
    (case or_no row of
       None \<Rightarrow> ok ((resolved, orphans @ [or_id row]), reject_orphan w (or_id row) b)
     | Some no \<Rightarrow>
         (case poll_once w no (watch_again row no b) of
            (Inl e, b) \<Rightarrow> raise e ((resolved, orphans), b)
          | (Inr True, b) \<Rightarrow> ok ((resolved @ [no], orphans), b)
          | (Inr False, b) \<Rightarrow> ok ((resolved, orphans), b))))"

definition recover_open_orders :: "world \<Rightarrow> lbroker \<Rightarrow> recovery outcome" where
  "recover_open_orders w b =
    then_do (for_each (recover_order w) (get_open_orders (lb_ledger b)) (([], []), b))
      (\<lambda>(found, b). map_outcome (Pair found)
        (then_do (drain_fill_buffer w b) (\<lambda>b. ok (close_orders w FILLED None (fst found) b))))"

definition quantities :: "(symbol, holding) dict \<Rightarrow> (symbol, rat) dict" where
  "quantities d = map (\<lambda>(a, h). (a, h_quantity h)) d"

definition overstated_in :: "(symbol, rat) dict \<Rightarrow> (symbol, rat) dict \<Rightarrow> (symbol, rat \<times> rat) dict" where
  "overstated_in local venue =
    map (\<lambda>(a, q). (a, q, quantity_in venue a)) (filter (\<lambda>(a, q). quantity_in venue a < q) local)"

definition reconcile :: "world \<Rightarrow> bool \<Rightarrow> lbroker \<Rightarrow> (exn + reconcile_result) \<times> lbroker" where
  "reconcile w halt_on_mismatch b =
    (case recover_open_orders w b of
       ((_, b), Some e) \<Rightarrow> (Inl e, b)
     | (((resolved, orphans), b), None) \<Rightarrow>
         (case live_portfolio_as_dict (lb_account b) b of
            Inl e \<Rightarrow> (Inl e, b)
          | Inr local \<Rightarrow>
              (case seed_from_venue w b of
                 (b, Some e) \<Rightarrow> (Inl e, b)
               | (b, None) \<Rightarrow>
                   (case live_portfolio_as_dict (lb_account b) b of
                      Inl e \<Rightarrow> (Inl e, b)
                    | Inr venue \<Rightarrow>
                        (let result = new_reconcile_result resolved orphans
                             (overstated_in (quantities local) (quantities venue))
                             (filter (\<lambda>(a, q). a \<notin> set (dict_keys local)) (quantities venue)) in
                         (Inr result,
                          if rr_halt_trading result \<and> halt_on_mismatch then set_trading_halted True b else b))))))"

lemma recover_order_state:
  "snd (fst (recover_order w x s)) = (case or_no x of None \<Rightarrow> reject_orphan w (or_id x) (snd s)
     | Some no \<Rightarrow> snd (poll_once w no (watch_again x no (snd s))))"
  by (cases s) (auto simp: recover_order_def split: option.split prod.split sum.split bool.split)

section \<open>Every working order is watched\<close>

definition all_watched :: "order_row set \<Rightarrow> lbroker \<Rightarrow> bool" where
  "all_watched rest b \<longleftrightarrow> (\<forall>x no. get_order (or_id x) (lb_ledger b) = Some x \<longrightarrow> or_no x = Some no \<longrightarrow>
    or_state x \<notin> set terminal_states \<longrightarrow> x \<notin> rest \<longrightarrow>
    (\<exists>st. map_of (lb_open b) no = Some st \<and> oo_id st = or_id x))"

lemma all_watchedD:
  "all_watched rest b \<Longrightarrow> get_order oid (lb_ledger b) = Some x \<Longrightarrow> or_no x = Some no \<Longrightarrow>
    or_state x \<notin> set terminal_states \<Longrightarrow> x \<notin> rest \<Longrightarrow> \<exists>st. map_of (lb_open b) no = Some st \<and> oo_id st = oid"
  using find_id(2) [of oid "l_orders (lb_ledger b)" x] by (auto simp: all_watched_def get_order_def)

lemma all_watched_same:
  assumes "all_watched rest b" and "lb_open c = lb_open b"
    and "\<And>oid. get_order oid (lb_ledger c) = get_order oid (lb_ledger b)"
  shows "all_watched rest c"
  using assms by (simp add: all_watched_def)

lemma all_watched_poll: "all_watched rest b \<Longrightarrow> all_watched rest (snd (poll_once w no b))"
proof (cases rule: poll_once_cases [of w no b])
  case (increment st report)
  assume "all_watched rest b"
  with increment show ?thesis by (auto simp: all_watched_def Let_def)
qed (auto simp: all_watched_def)

lemma get_order_id: "get_order oid l = Some x \<Longrightarrow> or_id x = oid"
  by (auto simp: get_order_def dest: find_id(2))

lemma all_watched_close:
  assumes "all_watched rest b" and "st = FILLED \<or> st = STALE"
  shows "all_watched rest (close_order w no st why b)"
proof (cases rule: close_order_cases [of b no w st why])
  case (closed y)
  show ?thesis unfolding all_watched_def
  proof (intro allI impI)
    fix x no' assume x: "get_order (or_id x) (lb_ledger (close_order w no st why b)) = Some x"
      "or_no x = Some no'" "or_state x \<notin> set terminal_states" "x \<notin> rest"
    from x(1,3) assms(2) have "or_id x \<noteq> oo_id y"
      by (auto simp: closed terminal_states_def split: if_splits)
    with x assms(1) obtain z where z: "map_of (lb_open b) no' = Some z" "oo_id z = or_id x"
      by (auto simp: all_watched_def closed)
    with \<open>or_id x \<noteq> oo_id y\<close> closed(1) have "no' \<noteq> no" by auto
    with z show "\<exists>z. map_of (lb_open (close_order w no st why b)) no' = Some z \<and> oo_id z = or_id x"
      by (simp add: closed)
  qed
qed (use assms in simp)

interpretation watched: collecting w "all_watched rest" for w rest
proof unfold_locales
  fix b :: lbroker and no st why dt
  assume b: "all_watched rest b"
  show "all_watched rest (snd (poll_once w no b))" using b by (rule all_watched_poll)
  show "st = FILLED \<or> st = STALE \<Longrightarrow> all_watched rest (close_order w no st why b)" using b by (rule all_watched_close)
  show "all_watched rest (fst (drain_fill_buffer w b))" "all_watched rest (asked b)" "all_watched rest (b\<lparr>lb_dt := dt\<rparr>)"
    "all_watched rest (b\<lparr>lb_last_poll := dt\<rparr>)" "all_watched rest (fst (mark_to_market w b))"
    by (rule all_watched_same [OF b]; simp)+
qed

lemma all_watched_place:
  assumes "all_watched rest b" and "get_order (ord_id o') (lb_ledger b) = None" and "new_numbers w b"
  shows "all_watched rest (fst (place_order w pid o' q dt b))"
proof (cases "w_place w (lb_asked b) (ord_asset o') q")
  case (Inl e)
  with assms(1,2) show ?thesis
    by (auto simp: place_order_def Let_def all_watched_def get_order_intent terminal_states_def split: if_splits)
next
  case (Inr no)
  then have "no \<notin> used_numbers b" using assms(3) by (auto simp: new_numbers_def)
  then have "map_of (lb_open b) no = None" by (rule unused_state(2))
  with assms(1,2) Inr show ?thesis
    by (force simp: place_order_def Let_def all_watched_def get_order_intent)
qed

lemma all_watched_submit:
  assumes "all_watched rest b" and "get_order (ord_id o') (lb_ledger b) = None" and "new_numbers w b"
  shows "all_watched rest (fst (live_submit_order w pid o' b))"
proof -
  obtain r c where m: "get_mark w (ord_asset o') (asked b) = (r, c)" by fastforce
  have c: "lb_open c = lb_open b" "lb_ledger c = lb_ledger b" "lb_booked c = lb_booked b"
      "lb_charged c = lb_charged b" "lb_buffer c = lb_buffer b" "lb_asked b \<le> lb_asked c"
    using get_mark_frame [of w "ord_asset o'" "asked b"] get_mark_asked [of "asked b" w "ord_asset o'"] m by simp_all
  have aw: "all_watched rest c" "all_watched rest (asked c)" "all_watched rest (asked b)"
    by (rule all_watched_same [OF assms(1)]; simp add: c)+
  have "new_numbers w (asked c)" using c by (auto intro!: new_numbers_mono [OF assms(3)] simp: used_numbers_def)
  then have "all_watched rest (fst (place_order w pid o' q dt (asked c)))" for q dt
    using all_watched_place [OF aw(2), of o' w] assms(2) c by simp
  moreover have "all_watched rest (fst (refuse_order o' q dt e (asked c)))" for q dt e
    using aw(2) assms(2) c
    by (auto simp: refuse_order_def Let_def all_watched_def get_order_intent terminal_states_def split: if_splits)
  ultimately show ?thesis
    using aw by (auto simp: live_submit_order_def engine_now_eq m split: sum.split option.split)
qed

lemma all_watched_step:
  assumes "live_step w b c" and "all_watched rest b" and "new_numbers w b"
  shows "all_watched rest c"
  using assms(1)
proof (cases rule: live_step.cases)
  case (submits o')
  with all_watched_submit [OF assms(2) _ assms(3)] show ?thesis by simp
next
  case (updates dt force)
  with watched.updated [OF assms(2)] show ?thesis by simp
next
  case (settles deadline r)
  with watched.settled [OF settles(2) assms(2)] show ?thesis by simp
next
  case halts
  then show ?thesis by (auto intro: all_watched_same [OF assms(2)])
next
  case valued
  then show ?thesis
    by (cases rule: record_equity_cases [of w b]) (auto intro: all_watched_same [OF assms(2)])
next
  case (marks a)
  then show ?thesis by (auto intro: all_watched_same [OF assms(2)])
next
  case asks
  then show ?thesis by (auto intro: all_watched_same [OF assms(2)])
qed

lemma all_watched_reaches:
  assumes "live_reaches w b0 b" and "all_watched rest b0" and "new_numbers w b0" and "prices_its_fills w"
    and "follows b0 b0"
  shows "all_watched rest b"
  using assms(1)
proof (induction rule: rtranclp_induct)
  case (step b c)
  have "new_numbers w b" using follows_reaches [OF step.hyps(1) assms(4,3,5)] by simp
  with all_watched_step [OF step.hyps(2) step.IH] show ?case .
qed (rule assms(2))

section \<open>What the next process finds in the ledger\<close>

definition resumable :: "ledger \<Rightarrow> order_row \<Rightarrow> bool" where
  "resumable l x \<longleftrightarrow> get_order (or_id x) l = Some x \<and> (\<forall>no. or_no x = Some no \<longrightarrow> or_state x = SUBMITTED \<and>
    (\<forall>r \<in> set (l_fills l). \<forall>c. fr_no r = no \<longrightarrow> fr_key r = fill_key no c \<longrightarrow> c \<le> already_booked (or_id x) l))"

definition ledger_sound :: "ledger \<Rightarrow> bool" where
  "ledger_sound l \<longleftrightarrow> wf_orders l \<and> (\<forall>r \<in> set (l_fills l). row_ok [] l r) \<and>
    (\<forall>x \<in> set (get_open_orders l). resumable l x) \<and>
    (\<forall>x \<in> set (get_open_orders l). \<forall>y \<in> set (get_open_orders l).
      or_no x \<noteq> None \<longrightarrow> or_no x = or_no y \<longrightarrow> x = y)"

text \<open>Whatever state a process ends in, it leaves such a ledger behind.\<close>

lemma watched_ledger_sound:
  assumes step: "in_step b" and "all_watched R b" and "\<And>x. x \<in> R \<Longrightarrow> resumable (lb_ledger b) x"
    and "\<And>x no. x \<in> R \<Longrightarrow> or_no x = Some no \<Longrightarrow> map_of (lb_open b) no = None"
    and "\<And>x y. x \<in> R \<Longrightarrow> y \<in> R \<Longrightarrow> or_no x \<noteq> None \<Longrightarrow> or_no x = or_no y \<Longrightarrow> x = y"
  shows "ledger_sound (lb_ledger b)"
proof -
  let ?L = "lb_ledger b"
  have wf: "wf_orders ?L" using step by (simp add: in_step_def)
  have open_row: "get_order (or_id x) ?L = Some x" "or_state x \<notin> set terminal_states" if "x \<in> set (get_open_orders ?L)" for x
    using that get_open_orders_iff [OF wf] by blast+
  have watched: "\<exists>st. map_of (lb_open b) no = Some st \<and> oo_id st = or_id x \<and> order_ok ?L no st"
    if x: "x \<in> set (get_open_orders ?L)" "or_no x = Some no" "x \<notin> R" for x no
    using all_watchedD [OF assms(2) open_row(1) [OF x(1)] x(2) open_row(2) [OF x(1)] x(3)]
      in_step_order [OF step] by blast
  have rows: "row_ok (lb_open b) ?L r" if "r \<in> set (l_fills ?L)" for r using step that by (simp add: in_step_def)
  have "row_ok [] ?L r" if "r \<in> set (l_fills ?L)" for r
    using rows [OF that] by (auto simp: row_ok_def)
  moreover have "resumable ?L x" if x: "x \<in> set (get_open_orders ?L)" for x
  proof (cases "x \<in> R")
    case False
    show ?thesis unfolding resumable_def
    proof (intro conjI allI impI ballI)
      show "get_order (or_id x) ?L = Some x" by (rule open_row(1) [OF x])
      fix no assume no: "or_no x = Some no"
      obtain st where st: "map_of (lb_open b) no = Some st" "oo_id st = or_id x" "order_ok ?L no st"
        using watched [OF x no False] by blast
      show "or_state x = SUBMITTED" using st open_row(1) [OF x] by (simp add: order_ok_def)
      fix r c assume r: "r \<in> set (l_fills ?L)" "fr_no r = no" "fr_key r = fill_key no c"
      then show "c \<le> already_booked (or_id x) ?L"
        using rows [OF r(1)] st by (auto simp: row_ok_def fill_key_inject order_ok_def)
    qed
  qed (rule assms(3))
  moreover have "x = y"
    if xy: "x \<in> set (get_open_orders ?L)" "y \<in> set (get_open_orders ?L)" "or_no x \<noteq> None" "or_no x = or_no y" for x y
  proof -
    obtain no where no: "or_no x = Some no" "or_no y = Some no" using xy(3,4) by auto
    consider "x \<in> R" "y \<in> R" | "x \<notin> R" "y \<notin> R" | "(x \<in> R) \<noteq> (y \<in> R)" by blast
    then show ?thesis
    proof cases
      case 1
      then show ?thesis using assms(5) xy by blast
    next
      case 2
      with watched [OF xy(1) no(1)] watched [OF xy(2) no(2)] have "or_id x = or_id y" by (metis option.inject)
      with open_row(1) [OF xy(1)] open_row(1) [OF xy(2)] show ?thesis by (metis option.inject)
    next
      case 3
      then show ?thesis
        using assms(4) [OF _ no(1)] assms(4) [OF _ no(2)] watched [OF xy(1) no(1)]
          watched [OF xy(2) no(2)] by (metis option.distinct(1))
    qed
  qed
  ultimately show ?thesis using wf unfolding ledger_sound_def by blast
qed

lemma in_step_ledger_sound: "in_step b \<Longrightarrow> all_watched {} b \<Longrightarrow> ledger_sound (lb_ledger b)"
  by (rule watched_ledger_sound [of b "{}"]) simp_all

text \<open>A broker fresh from its constructor, on such a ledger.\<close>

definition fresh_on :: "lbroker \<Rightarrow> bool" where
  "fresh_on b \<longleftrightarrow> lb_open b = [] \<and> lb_buffer b = [] \<and> books_ok b \<and> ledger_sound (lb_ledger b) \<and>
    lb_account b \<in> set (dict_keys (lb_portfolios b))"

lemma fresh_follows: "fresh_on b \<Longrightarrow> follows b b"
  by (intro at_rest_follows) (simp add: fresh_on_def at_rest_def in_step_def ledger_sound_def)

lemma new_live_broker_fresh:
  assumes "new_live_broker start account currency venue cv cm fee guard throttle l = ok b" and "ledger_sound l"
  shows "fresh_on b \<and> lb_account b = account"
proof -
  from assms(1) obtain l' where l': "stamp_identity (case venue of Some v \<Rightarrow> v | None \<Rightarrow>
          (case cv of Some v \<Rightarrow> v | None \<Rightarrow> ''live'')) (case cm of Some m \<Rightarrow> m | None \<Rightarrow> ''unknown'') account l = ok l'"
    and b: "lb_open b = []" "lb_buffer b = []" "lb_dt b = start" "lb_account b = account" "lb_ledger b = l'"
      "lb_portfolios b = [(account, init_portfolio start 0 currency account (Some account))]"
    by (auto simp: new_live_broker_def Let_def live_create_portfolio_def map_outcome_eq_ok)
  have "l_orders l' = l_orders l \<and> l_fills l' = l_fills l"
    using l' by (auto simp: stamp_identity_def insert_meta_def then_do_eq_ok split: option.splits if_splits)
  then have "ledger_sound l' = ledger_sound l"
    by (simp add: ledger_sound_def wf_orders_def row_ok_def resumable_def get_open_orders_def get_order_def
        already_booked_def get_fills_def)
  with assms(2) b show ?thesis
    by (simp add: fresh_on_def books_ok_def init_portfolio_def Let_def live_positions_def wf_positions_def wf_dict_def dated_def)
qed

section \<open>Recovery\<close>

lemma trades_cong: "(\<And>fl. fl \<in> set fls \<Longrightarrow> s (fm_no fl) = s' (fm_no fl)) \<Longrightarrow> trades fls s = trades fls s'"
proof (induction fls arbitrary: s s')
  case (Cons fl fls)
  have "trades fls (take_in fl s) = trades fls (take_in fl s')"
    by (rule Cons.IH) (use Cons.prems in \<open>auto simp: take_in_def\<close>)
  with Cons.prems show ?case by simp
qed simp

lemma fold_take_in_other: "no \<notin> fm_no ` set fls \<Longrightarrow> fold take_in fls s no = s no"
  by (induction fls arbitrary: s) (auto simp: take_in_def)

lemma fold_take_in_cong: "s no = s' no \<Longrightarrow> fold take_in fls s no = fold take_in fls s' no"
proof (induction fls arbitrary: s s')
  case (Cons fl fls)
  have "take_in fl s no = take_in fl s' no" using Cons.prems by (auto simp: take_in_def)
  with Cons.IH [where s = "take_in fl s" and s' = "take_in fl s'"] show ?case by simp
qed simp

lemma watch_again_fields [simp]:
  "lb_ledger (watch_again x no b) = lb_ledger b" "lb_buffer (watch_again x no b) = lb_buffer b"
  "lb_portfolios (watch_again x no b) = lb_portfolios b" "lb_account (watch_again x no b) = lb_account b"
  "lb_dt (watch_again x no b) = lb_dt b" "lb_sent (watch_again x no b) = lb_sent b"
  "lb_guard (watch_again x no b) = lb_guard b" "lb_asked (watch_again x no b) = lb_asked b"
  "book_state (watch_again x no b) = (book_state b)
    (no := (already_booked (or_id x) (lb_ledger b), already_booked_fees (or_id x) (lb_ledger b)))"
  by (auto simp: watch_again_def Let_def book_state_def booked_of_def charged_of_def fun_eq_iff)

lemma follows_watch_again:
  assumes "follows b0 b" and "resumable (lb_ledger b) x" and "or_no x = Some no"
    and "map_of (lb_open b) no = None" and "no \<notin> fm_no ` set (lb_buffer b)"
  shows "follows b0 (watch_again x no b)"
proof -
  let ?L = "lb_ledger b" and ?c = "watch_again x no b"
  define st where "st = \<lparr>oo_id = or_id x, oo_symbol = or_symbol x, oo_quantity = or_quantity x,
    oo_portfolio = lb_account b, oo_booked = already_booked (or_id x) ?L, oo_fees = already_booked_fees (or_id x) ?L\<rparr>"
  have O: "lb_open ?c = AList.update no st (lb_open b)" by (simp add: watch_again_def Let_def st_def)
  note step = followsD(1) [OF assms(1)]
  have "0 \<le> already_booked (or_id x) ?L" unfolding already_booked_def by (rule sum_list_nonneg) auto
  then have ok: "order_ok ?L no st" using assms(2,3) by (simp add: order_ok_def st_def resumable_def)
  have "row_ok (lb_open ?c) ?L r" if r: "r \<in> set (l_fills ?L)" for r
  proof -
    obtain y c where y: "get_order (fr_id r) ?L = Some y" "or_no y = Some (fr_no r)" "fr_key r = fill_key (fr_no r) c"
        "\<forall>st. map_of (lb_open b) (fr_no r) = Some st \<longrightarrow> c \<le> oo_booked st"
      using step r by (auto simp: in_step_def row_ok_def)
    moreover have "c \<le> oo_booked st" if "fr_no r = no"
      using assms(2,3) r y(3) that by (auto simp: resumable_def st_def)
    ultimately show ?thesis by (auto simp: row_ok_def O)
  qed
  then have "in_step ?c" using step ok by (simp add: in_step_def O)
  moreover have flight: "in_flight ?c = in_flight b"
    unfolding in_flight_def watch_again_fields by (rule trades_cong) (use assms(5) in auto)
  moreover have "oo_portfolio y = lb_account ?c \<and> fold take_in (lb_buffer ?c) (book_state ?c) no' = (oo_booked y, oo_fees y)"
    if y: "map_of (lb_open ?c) no' = Some y" for no' y
  proof (cases "no' = no")
    case True
    with y have "y = st" by (simp add: O)
    with True assms(5) show ?thesis by (simp add: st_def fold_take_in_other)
  next
    case False
    with y have old: "map_of (lb_open b) no' = Some y" by (simp add: O)
    moreover have "fold take_in (lb_buffer b) (book_state ?c) no' = fold take_in (lb_buffer b) (book_state b) no'"
      by (rule fold_take_in_cong) (simp add: False)
    ultimately show ?thesis using followsD(6,7) [OF assms(1) old] by simp
  qed
  moreover have "books_ok ?c" by (rule books_ok_same [OF followsD(2) [OF assms(1)]]) simp_all
  moreover have "live_held ?c a = live_held b a" "live_cash ?c = live_cash b" for a
    using live_same [of ?c b] by simp_all
  moreover have "msg_ok ?c fl = msg_ok b fl" for fl by (simp add: msg_ok_def)
  moreover obtain rows where "l_fills ?L = l_fills (lb_ledger b0) @ rows"
      "\<And>a. live_held b a + of_int (traded_of a (in_flight b)) =
        live_held b0 a + of_int (traded_of a (row_trades ?L rows))"
      "live_cash b - cost_of (in_flight b) = live_cash b0 - cost_of (row_trades ?L rows)"
    using assms(1) by (auto simp: follows_def)
  ultimately show ?thesis
    using followsD(3-5) [OF assms(1)] by (intro followsI [of ?c b0 rows]) simp_all
qed

text \<open>
  Half way through: the rows still to come are as they were, their numbers not yet watched, the
  messages in flight belong to watched orders, and a row already dealt with is open, FILLED or,
  if it has no number, rejected.
\<close>

definition dealt_with :: "order_row \<Rightarrow> ledger \<Rightarrow> bool" where
  "dealt_with x l \<longleftrightarrow> (\<exists>y. get_order (or_id x) l = Some y \<and> or_no y = or_no x \<and>
    (or_state y = or_state x \<or> or_state y = (if or_no x = None then REJECTED else FILLED)))"

definition recovering :: "lbroker \<Rightarrow> order_row list \<Rightarrow> order_row list \<Rightarrow> lbroker \<Rightarrow> bool" where
  "recovering b0 rows rest b \<longleftrightarrow> follows b0 b \<and> fm_no ` set (lb_buffer b) \<subseteq> set (dict_keys (lb_open b)) \<and>
    distinct rest \<and> (\<forall>x \<in> set rest. resumable (lb_ledger b) x) \<and>
    (\<forall>x \<in> set rest. \<forall>no. or_no x = Some no \<longrightarrow> map_of (lb_open b) no = None) \<and>
    (\<forall>x \<in> set rest. \<forall>y \<in> set rest. or_no x \<noteq> None \<longrightarrow> or_no x = or_no y \<longrightarrow> x = y) \<and>
    all_watched (set rest) b \<and> (\<forall>x \<in> set rows. dealt_with x (lb_ledger b)) \<and>
    (\<forall>x \<in> set rows - set rest. or_no x = None \<longrightarrow>
      map_option or_state (get_order (or_id x) (lb_ledger b)) = Some REJECTED)"

lemma recoveringD:
  assumes "recovering b0 rows rest b"
  shows "follows b0 b" and "fm_no ` set (lb_buffer b) \<subseteq> set (dict_keys (lb_open b))" and "distinct rest"
    and "\<And>x. x \<in> set rest \<Longrightarrow> resumable (lb_ledger b) x"
    and "\<And>x no. x \<in> set rest \<Longrightarrow> or_no x = Some no \<Longrightarrow> map_of (lb_open b) no = None"
    and "\<And>x y. x \<in> set rest \<Longrightarrow> y \<in> set rest \<Longrightarrow> or_no x \<noteq> None \<Longrightarrow> or_no x = or_no y \<Longrightarrow> x = y"
    and "all_watched (set rest) b" and "\<And>x. x \<in> set rows \<Longrightarrow> dealt_with x (lb_ledger b)"
    and "\<And>x. x \<in> set rows \<Longrightarrow> x \<notin> set rest \<Longrightarrow> or_no x = None \<Longrightarrow>
      map_option or_state (get_order (or_id x) (lb_ledger b)) = Some REJECTED"
  using assms unfolding recovering_def by blast+

lemma recoveringI:
  assumes "follows b0 b" and "fm_no ` set (lb_buffer b) \<subseteq> set (dict_keys (lb_open b))"
    and "recovering b0 rows (x # rest) b'" and "\<And>x. x \<in> set rest \<Longrightarrow> resumable (lb_ledger b) x"
    and "\<And>x no. x \<in> set rest \<Longrightarrow> or_no x = Some no \<Longrightarrow> map_of (lb_open b) no = None"
    and "all_watched (set rest) b" and "\<And>x. x \<in> set rows \<Longrightarrow> dealt_with x (lb_ledger b)"
    and "\<And>x. x \<in> set rows - set rest \<Longrightarrow> or_no x = None \<Longrightarrow>
      map_option or_state (get_order (or_id x) (lb_ledger b)) = Some REJECTED"
  shows "recovering b0 rows rest b"
proof -
  note d = recoveringD(3,6) [OF assms(3)]
  have "distinct rest" using d(1) by simp
  moreover have "\<forall>x \<in> set rest. \<forall>y \<in> set rest. or_no x \<noteq> None \<longrightarrow> or_no x = or_no y \<longrightarrow> x = y"
    using d(2) by (meson list.set_intros(2))
  ultimately show ?thesis using assms(1,2,4-8) unfolding recovering_def by blast
qed

lemma recovering_start:
  assumes "fresh_on b"
  shows "recovering b (get_open_orders (lb_ledger b)) (get_open_orders (lb_ledger b)) b"
proof -
  let ?L = "lb_ledger b"
  have sound: "ledger_sound ?L" and wf: "wf_orders ?L" using assms by (auto simp: fresh_on_def ledger_sound_def)
  have "distinct (map or_id (get_open_orders ?L))"
    using wf by (simp add: wf_orders_def get_open_orders_def distinct_map inj_on_def)
  then have "distinct (get_open_orders ?L)" by (simp add: distinct_map)
  then show ?thesis
    using assms sound fresh_follows [OF assms] get_open_orders_iff [OF wf]
    by (auto simp: recovering_def fresh_on_def all_watched_def dealt_with_def ledger_sound_def resumable_def)
qed

lemma resumable_poll:
  assumes "in_step b" and "resumable (lb_ledger b) y"
    and "\<And>no'. or_no y = Some no' \<Longrightarrow> map_of (lb_open b) no' = None"
  shows "resumable (lb_ledger (snd (poll_once w no b))) y"
proof (cases rule: poll_once_cases [of w no b])
  case (increment st report)
  let ?L = "lb_ledger b" and ?M = "lb_ledger (snd (poll_once w no b))"
  obtain row where M: "?M = ?L\<lparr>l_fills := l_fills ?L @ [row]\<rparr>" "fr_id row = oo_id st" "fr_no row = no"
    using increment record_new_fill [OF assms(1) increment(1,3)] by (simp add: Let_def)
  have same: "get_order oid ?M = get_order oid ?L" for oid unfolding M(1) by (simp add: get_order_def)
  obtain z where z: "get_order (oo_id st) ?L = Some z" "or_no z = Some no"
    using in_step_order [OF assms(1) increment(1)] by (auto simp: order_ok_def)
  show ?thesis unfolding resumable_def same
  proof (intro conjI allI impI ballI)
    show "get_order (or_id y) ?L = Some y" using assms(2) by (simp add: resumable_def)
    fix no' assume no': "or_no y = Some no'"
    then show "or_state y = SUBMITTED" using assms(2) by (simp add: resumable_def)
    have other: "no' \<noteq> no" using assms(3) [OF no'] increment(1) by auto
    then have "oo_id st \<noteq> or_id y" using z assms(2) no' by (auto simp: resumable_def)
    then have booked: "already_booked (or_id y) ?M = already_booked (or_id y) ?L"
      using already_booked_append(1) [of ?M ?L row] by (simp add: M)
    fix r c assume "r \<in> set (l_fills ?M)" "fr_no r = no'" "fr_key r = fill_key no' c"
    with other M have "r \<in> set (l_fills ?L)" by auto
    with \<open>fr_no r = no'\<close> \<open>fr_key r = fill_key no' c\<close> assms(2) no' show "c \<le> already_booked (or_id y) ?M"
      by (auto simp: resumable_def booked)
  qed
qed (use assms(2) in simp_all)

lemma follows_reject:
  assumes "follows b0 b" and "get_order oid (lb_ledger b) = Some x" and "or_no x = None"
  shows "follows b0 (reject_orphan w oid b)"
proof -
  let ?c = "reject_orphan w oid b"
  note step = followsD(1) [OF assms(1)]
  have L: "lb_ledger ?c = record_state oid REJECTED (engine_time w b) (Some (Note
       ''No order number recorded; the venue may still have accepted it. Verify against the balance.'')) (lb_ledger b)"
    by (simp add: reject_orphan_def engine_now_eq)
  have c: "lb_open ?c = lb_open b" "lb_portfolios ?c = lb_portfolios b" "lb_account ?c = lb_account b" "lb_dt ?c = lb_dt b"
    "lb_booked ?c = lb_booked b" "lb_charged ?c = lb_charged b" "lb_buffer ?c = lb_buffer b"
    by (simp_all add: reject_orphan_def engine_now_eq)
  have fills: "l_fills (lb_ledger ?c) = l_fills (lb_ledger b)" by (simp add: L)
  have "row_ok (lb_open b) (lb_ledger ?c) r" if "r \<in> set (l_fills (lb_ledger b))" for r
  proof -
    have "row_ok (lb_open b) (lb_ledger b) r" using step that by (simp add: in_step_def)
    with assms(2,3) show ?thesis by (auto simp: row_ok_def L)
  qed
  moreover have "order_ok (lb_ledger ?c) no st" if "map_of (lb_open b) no = Some st" for no st
  proof -
    have ok: "order_ok (lb_ledger b) no st" by (rule in_step_order [OF step that])
    then have "oo_id st \<noteq> oid" using assms(2,3) by (auto simp: order_ok_def)
    with ok already_booked_same [OF fills] show ?thesis by (simp add: order_ok_def) (simp add: L)
  qed
  moreover have "wf_orders (lb_ledger ?c)" using step by (simp add: in_step_def L)
  ultimately have "in_step ?c" using step fills by (simp add: in_step_def c(1))
  then show ?thesis
  proof (rule follows_frame [OF assms(1)])
    show "books_ok ?c" by (rule books_ok_same [OF followsD(2) [OF assms(1)] c(2)]) (simp add: c)
    show "book_state ?c = book_state b" by (rule book_state_same [OF c(5,6)])
    show "live_held ?c a = live_held b a" "live_cash ?c = live_cash b" for a
      using live_same [OF c(2,3)] by simp_all
    show "order_symbol (lb_ledger ?c) (fr_id r) = order_symbol (lb_ledger b) (fr_id r)" for r by (simp add: L)
  qed (simp_all add: c fills)
qed

lemma poll_buffer_watched:
  assumes "fm_no ` set (lb_buffer b) \<subseteq> set (dict_keys (lb_open b))"
  shows "fm_no ` set (lb_buffer (snd (poll_once w no b))) \<subseteq> set (dict_keys (lb_open (snd (poll_once w no b))))"
proof -
  have "set (dict_keys (lb_open (snd (poll_once w no b)))) = set (dict_keys (lb_open b))" by (metis poll_once_numbers)
  then show ?thesis
  proof (cases rule: poll_once_cases [of w no b])
    case (increment st report)
    moreover have "no \<in> set (dict_keys (lb_open b))"
      using increment(1) by (metis map_of_eq_None_iff option.distinct(1) set_map)
    ultimately show ?thesis
      using assms \<open>set (dict_keys (lb_open (snd (poll_once w no b)))) = set (dict_keys (lb_open b))\<close>
      by (auto simp: Let_def)
  qed (use assms in simp_all)
qed

lemma poll_get_order [simp]: "get_order oid (lb_ledger (snd (poll_once w no b))) = get_order oid (lb_ledger b)"
  by (cases rule: poll_once_cases [of w no b]) (simp_all add: Let_def)

lemma recovering_orphan:
  assumes "recovering b0 rows (x # rest) b" and "or_no x = None"
  shows "recovering b0 rows rest (reject_orphan w (or_id x) b)"
proof -
  let ?c = "reject_orphan w (or_id x) b"
  note r = recoveringD(1,3,4) [OF assms(1)] and watched = recoveringD(7) [OF assms(1)]
  have x: "get_order (or_id x) (lb_ledger b) = Some x" using r(3) [of x] by (simp add: resumable_def)
  have other: "or_id y \<noteq> or_id x" if "y \<in> set rest" for y
  proof
    assume "or_id y = or_id x"
    moreover have "get_order (or_id y) (lb_ledger b) = Some y" using r(3) [of y] that by (simp add: resumable_def)
    ultimately have "y = x" using x by (metis option.inject)
    with r(2) that show False by simp
  qed
  have get: "get_order oid (lb_ledger ?c) = (if oid = or_id x then map_option (\<lambda>r. r\<lparr>or_state := REJECTED,
       or_updated := engine_time w b, or_note := Some (Note
       ''No order number recorded; the venue may still have accepted it. Verify against the balance.'')\<rparr>)
       (get_order oid (lb_ledger b)) else get_order oid (lb_ledger b))" for oid
    by (simp add: reject_orphan_def engine_now_eq)
  have c: "lb_open ?c = lb_open b" "lb_buffer ?c = lb_buffer b" "l_fills (lb_ledger ?c) = l_fills (lb_ledger b)"
    by (simp_all add: reject_orphan_def engine_now_eq)
  have "follows b0 ?c" by (rule follows_reject [OF r(1) x assms(2)])
  moreover have "resumable (lb_ledger ?c) y" if y: "y \<in> set rest" for y
    using r(3) [of y] y other [OF y] already_booked_same(1) [OF c(3)]
    by (auto simp: resumable_def get c(3))
  moreover have "all_watched (set rest) ?c"
    unfolding all_watched_def
  proof (intro allI impI)
    fix y no assume y: "get_order (or_id y) (lb_ledger ?c) = Some y" "or_no y = Some no"
      "or_state y \<notin> set terminal_states" "y \<notin> set rest"
    from y(1,3) have "or_id y \<noteq> or_id x" by (auto simp: get terminal_states_def split: if_splits)
    with y watched show "\<exists>st. map_of (lb_open ?c) no = Some st \<and> oo_id st = or_id y"
      by (auto simp: all_watched_def get c(1))
  qed
  moreover have "dealt_with y (lb_ledger ?c)" if "y \<in> set rows" for y
  proof -
    have "dealt_with y (lb_ledger b)" using assms(1) that by (simp add: recovering_def)
    with x assms(2) show ?thesis by (auto simp: dealt_with_def get)
  qed
  moreover have "map_option or_state (get_order (or_id y) (lb_ledger ?c)) = Some REJECTED"
    if "y \<in> set rows - set rest" "or_no y = None" for y
  proof (cases "or_id y = or_id x")
    case False
    then have "y \<notin> set (x # rest)" using that(1) by auto
    with recoveringD(9) [OF assms(1) _ this that(2)] that(1) False show ?thesis by (simp add: get)
  qed (simp add: get x)
  moreover have "map_of (lb_open ?c) no = None" if "y \<in> set rest" "or_no y = Some no" for y no
    using recoveringD(5) [OF assms(1) _ that(2)] that(1) by (simp add: c)
  moreover have "fm_no ` set (lb_buffer ?c) \<subseteq> set (dict_keys (lb_open ?c))"
    using recoveringD(2) [OF assms(1)] by (simp add: c)
  ultimately show ?thesis by (intro recoveringI [OF _ _ assms(1)])
qed

lemma recovering_numbered:
  assumes "recovering b0 rows (x # rest) b" and "or_no x = Some no" and "prices_its_fills w"
  shows "recovering b0 rows rest (snd (poll_once w no (watch_again x no b)))"
proof -
  let ?b = "watch_again x no b" and ?c = "snd (poll_once w no (watch_again x no b))"
  note r = recoveringD(1,3,4,2) [OF assms(1)] and watched = recoveringD(7) [OF assms(1)]
  have free: "map_of (lb_open b) no = None" using recoveringD(5) [OF assms(1) _ assms(2)] by simp
  have number: "or_no y \<noteq> Some no" if "y \<in> set rest" for y
  proof
    assume "or_no y = Some no"
    with recoveringD(6) [OF assms(1), of x y] assms(2) that have "x = y" by simp
    with r(2) that show False by simp
  qed
  have unopened: "map_of (lb_open b) no' = None" if "y \<in> set rest" "or_no y = Some no'" for y no'
    using recoveringD(5) [OF assms(1) _ that(2)] that(1) by simp
  obtain st where O: "lb_open ?b = AList.update no st (lb_open b)" "oo_id st = or_id x"
    by (simp add: watch_again_def Let_def)
  have "no \<notin> fm_no ` set (lb_buffer b)" using r(4) free by (auto simp: map_of_eq_None_iff)
  then have b: "follows b0 ?b" using follows_watch_again [OF r(1) r(3) [of x] assms(2) free] by simp
  have unwatched: "map_of (lb_open ?b) no' = None" if "y \<in> set rest" "or_no y = Some no'" for y no'
    using number [OF that(1)] unopened [OF that] that(2) by (auto simp: O)
  have "resumable (lb_ledger ?c) y" if "y \<in> set rest" for y
    using resumable_poll [OF followsD(1) [OF b], of y w no] r(3) [of y] unwatched [OF that] that by simp
  moreover have "map_of (lb_open ?c) no' = None" if "y \<in> set rest" "or_no y = Some no'" for y no'
    using unwatched [OF that] poll_once_numbers [of w no ?b] by (metis map_of_eq_None_iff set_map)
  moreover have "all_watched (set rest) ?b"
    unfolding all_watched_def
  proof (intro allI impI)
    fix y no' assume y: "get_order (or_id y) (lb_ledger ?b) = Some y" "or_no y = Some no'"
      "or_state y \<notin> set terminal_states" "y \<notin> set rest"
    show "\<exists>st. map_of (lb_open ?b) no' = Some st \<and> oo_id st = or_id y"
    proof (cases "y = x")
      case True
      with y(2) assms(2) have "no' = no" by simp
      with True show ?thesis by (simp add: O)
    next
      case False
      then obtain z where z: "map_of (lb_open b) no' = Some z" "oo_id z = or_id y"
        using y watched by (auto simp: all_watched_def)
      with free have "no' \<noteq> no" by auto
      with z show ?thesis by (simp add: O)
    qed
  qed
  then have "all_watched (set rest) ?c" by (rule all_watched_poll)
  moreover have "fm_no ` set (lb_buffer ?c) \<subseteq> set (dict_keys (lb_open ?c))"
    by (rule poll_buffer_watched) (use r(4) in \<open>auto simp: O dict_keys_update_set\<close>)
  moreover have "dealt_with y (lb_ledger ?c)" if "y \<in> set rows" for y
    using assms(1) that by (simp add: recovering_def dealt_with_def)
  moreover have "map_option or_state (get_order (or_id y) (lb_ledger ?c)) = Some REJECTED"
    if "y \<in> set rows - set rest" "or_no y = None" for y
  proof -
    have "y \<noteq> x" using that(2) assms(2) by auto
    with recoveringD(9) [OF assms(1), of y] that show ?thesis by simp
  qed
  moreover have "follows b0 ?c" by (rule follows_poll [OF b assms(3)])
  ultimately show ?thesis by (intro recoveringI [OF _ _ assms(1)])
qed

lemma recovering_loop:
  assumes "for_each (recover_order w) rest (f, b) = ok (f', c)" and "recovering b0 rows rest b"
    and "prices_its_fills w"
  shows "recovering b0 rows [] c"
  using assms(1,2)
proof (induction rest arbitrary: f b)
  case (Cons x rest)
  obtain f1 b1 where one: "recover_order w x (f, b) = ok (f1, b1)" and rest: "for_each (recover_order w) rest (f1, b1) = ok (f', c)"
    using Cons.prems(1) by (auto simp: then_do_eq_ok)
  have "recovering b0 rows rest b1"
    using recover_order_state [of w x "(f, b)"] one recovering_orphan [OF Cons.prems(2)]
      recovering_numbered [OF Cons.prems(2) _ assms(3)] by (cases "or_no x") simp_all
  with rest show ?case by (rule Cons.IH)
qed (simp add: ok_def)

text \<open>Where the recovery raises, the rows not dealt with yet are as they were.\<close>

lemma recovering_loop_raise:
  assumes "for_each (recover_order w) rest (f, b) = raise e (f', c)" and "recovering b0 rows rest b"
    and "prices_its_fills w"
  shows "\<exists>rest'. recovering b0 rows rest' c"
  using assms(1,2)
proof (induction rest arbitrary: f b)
  case (Cons x rest)
  let ?r = "recover_order w x (f, b)"
  have "recovering b0 rows rest (snd (fst ?r))"
    using recover_order_state [of w x "(f, b)"] recovering_orphan [OF Cons.prems(2)]
      recovering_numbered [OF Cons.prems(2) _ assms(3)] by (cases "or_no x") simp_all
  moreover have "?r = raise e (f', c) \<or> (\<exists>f1 b1. ?r = ok (f1, b1) \<and> for_each (recover_order w) rest (f1, b1) = raise e (f', c))"
    using Cons.prems(1) by (cases ?r rule: outcome_cases) auto
  ultimately show ?case using Cons.IH by fastforce
qed (simp add: ok_def raise_def)

lemma recovering_ledger_sound: "recovering b0 rows rest b \<Longrightarrow> ledger_sound (lb_ledger b)"
  using watched_ledger_sound [of b "set rest"] recoveringD(4-7) [of b0 rows rest b]
    followsD(1) [OF recoveringD(1) [of b0 rows rest b]] by blast

text \<open>What recovery leaves of the orders it found.\<close>

lemma dealt_with_close:
  assumes "in_step b" and "dealt_with x (lb_ledger b)"
  shows "dealt_with x (lb_ledger (close_order w no FILLED why b))"
proof (cases rule: close_order_cases [of b no w FILLED why])
  case (closed y)
  obtain z where z: "get_order (oo_id y) (lb_ledger b) = Some z" "or_no z = Some no"
    using in_step_order [OF assms(1) closed(1)] by (auto simp: order_ok_def)
  with assms(2) show ?thesis by (auto simp: dealt_with_def closed)
qed (use assms(2) in simp)

lemma rejected_close:
  assumes "in_step b" and "get_order oid (lb_ledger b) = Some x" and "or_no x = None"
  shows "get_order oid (lb_ledger (close_order w no FILLED why b)) = Some x"
proof (cases rule: close_order_cases [of b no w FILLED why])
  case (closed y)
  have "oo_id y \<noteq> oid" using in_step_order [OF assms(1) closed(1)] assms(2,3) by (auto simp: order_ok_def)
  with assms(2) show ?thesis by (simp add: closed)
qed (use assms(2) in simp)

definition recovered :: "lbroker \<Rightarrow> order_row list \<Rightarrow> lbroker \<Rightarrow> bool" where
  "recovered b0 rows c \<longleftrightarrow> follows b0 c \<and> all_watched {} c \<and> (\<forall>x \<in> set rows. dealt_with x (lb_ledger c)) \<and>
    (\<forall>x \<in> set rows. or_no x = None \<longrightarrow>
      (\<exists>y. get_order (or_id x) (lb_ledger c) = Some y \<and> or_no y = None \<and> or_state y = REJECTED))"

lemma recovered_close:
  assumes "recovered b0 rows c"
  shows "recovered b0 rows (close_order w no FILLED why c)"
proof -
  have r: "follows b0 c" "all_watched {} c" using assms by (auto simp: recovered_def)
  note step = followsD(1) [OF r(1)]
  have "\<exists>y. get_order (or_id x) (lb_ledger (close_order w no FILLED why c)) = Some y \<and> or_no y = None \<and> or_state y = REJECTED"
    if x: "x \<in> set rows" "or_no x = None" for x
  proof -
    obtain y where "get_order (or_id x) (lb_ledger c) = Some y" "or_no y = None" "or_state y = REJECTED"
      using assms x unfolding recovered_def by blast
    with rejected_close [OF step] show ?thesis by blast
  qed
  with assms show ?thesis
    using follows_close [OF r(1)] all_watched_close [OF r(2)] dealt_with_close [OF step]
    by (simp add: recovered_def)
qed

lemma recover_open_orders_result:
  assumes "recover_open_orders w b = ok (found, c)" and "fresh_on b" and "prices_its_fills w"
  shows "recovered b (get_open_orders (lb_ledger b)) c \<and> lb_buffer c = []"
proof -
  let ?rows = "get_open_orders (lb_ledger b)"
  obtain f b1 where loop: "for_each (recover_order w) ?rows (([], []), b) = ok (f, b1)"
    and rest: "then_do (drain_fill_buffer w b1) (\<lambda>b. ok (close_orders w FILLED None (fst f) b)) = ok c"
    using assms(1) by (auto simp: recover_open_orders_def then_do_eq_ok map_outcome_eq_ok)
  note r = recovering_loop [OF loop recovering_start [OF assms(2)] assms(3)]
  obtain b2 where b2: "drain_fill_buffer w b1 = ok b2" and c: "c = close_orders w FILLED None (fst f) b2"
    using rest by (auto simp: then_do_eq_ok)
  have same: "lb_open b2 = lb_open b1" "lb_ledger b2 = lb_ledger b1" "lb_buffer b2 = []"
    using drain_frame [of w b1] b2 by simp_all
  have "\<exists>y. get_order (or_id x) (lb_ledger b2) = Some y \<and> or_no y = None \<and> or_state y = REJECTED"
    if x: "x \<in> set ?rows" "or_no x = None" for x
  proof -
    obtain y where "get_order (or_id x) (lb_ledger b2) = Some y" "or_no y = or_no x"
      using recoveringD(8) [OF r x(1)] same(2) unfolding dealt_with_def by metis
    moreover have "map_option or_state (get_order (or_id x) (lb_ledger b2)) = Some REJECTED"
      using recoveringD(9) [OF r x(1) _ x(2)] same(2) by simp
    ultimately show ?thesis using x(2) by simp
  qed
  moreover have "follows b b2" using follows_drain(1) [OF recoveringD(1) [OF r], of w] b2 by simp
  moreover have "all_watched {} b2" using recoveringD(7) [OF r] same by (auto intro: all_watched_same)
  ultimately have "recovered b ?rows b2 \<and> lb_buffer b2 = []"
    using recoveringD(8) [OF r] same by (simp add: recovered_def)
  then show ?thesis
    unfolding c by (rule close_orders_inv) (auto intro: recovered_close)
qed

section \<open>The balance\<close>

text \<open>A holding the venue reports has a quantity other than zero (rows without one are dropped).\<close>

definition reports_holdings :: "world \<Rightarrow> bool" where
  "reports_holdings w \<longleftrightarrow> (\<forall>n bal h. w_balance w n = Inr bal \<longrightarrow> h \<in> set (ab_holdings bal) \<longrightarrow> vh_quantity h \<noteq> 0)"

definition units_of :: "account_balance \<Rightarrow> symbol \<Rightarrow> int" where
  "units_of bal a = sum_list (map vh_quantity (filter (\<lambda>h. vh_symbol h = a) (ab_holdings bal)))"

lemma seed_loop:
  assumes "for_each (\<lambda>h p. map_outcome (\<lambda>ps. p\<lparr>pf_positions := ps\<rparr>)
      (transact_position (seed_transaction dt h) (pf_positions p))) hs p = ok q"
    and "live_positions (pf_positions p)" and "dated dt (pf_positions p)" and "\<And>h. h \<in> set hs \<Longrightarrow> vh_quantity h \<noteq> 0"
  shows "live_positions (pf_positions q) \<and> dated dt (pf_positions q) \<and> pf_dt q = pf_dt p \<and>
    position_in (pf_positions q) a = position_in (pf_positions p) a +
      of_int (sum_list (map vh_quantity (filter (\<lambda>h. vh_symbol h = a) hs)))"
  using assms
proof (induction hs arbitrary: p)
  case (Cons h hs)
  obtain ps where ps: "transact_position (seed_transaction dt h) (pf_positions p) = ok ps"
    and rest: "for_each (\<lambda>h p. map_outcome (\<lambda>ps. p\<lparr>pf_positions := ps\<rparr>)
      (transact_position (seed_transaction dt h) (pf_positions p))) hs (p\<lparr>pf_positions := ps\<rparr>) = ok q"
    using Cons.prems(1) by (auto simp: then_do_eq_ok map_outcome_eq_ok)
  have t: "\<lfloor>txn_quantity (seed_transaction dt h)\<rfloor> \<noteq> 0" "txn_dt (seed_transaction dt h) = dt"
      "txn_asset (seed_transaction dt h) = vh_symbol h" "txn_quantity (seed_transaction dt h) = of_int (vh_quantity h)"
    using Cons.prems(4) [of h] by (simp_all add: seed_transaction_def)
  have "live_positions ps" by (rule live_transact_position [OF ps Cons.prems(2) t(1)])
  moreover have "dated dt ps" using transact_position_dated [OF ps t(1)] Cons.prems(3) t(2) by simp
  ultimately show ?case
    using Cons.IH [OF rest] Cons.prems(4) transact_position_moves [OF ps Cons.prems(2) t(1), of a] t
    by auto
qed simp

lemma seed_from_venue_ok:
  assumes "seed_from_venue w b = ok c" and "books_ok b" and "reports_holdings w"
  obtains bal where "w_balance w (lb_asked b) = Inr bal" and "books_ok c" and "live_cash c = ab_cash bal"
    and "\<And>a. live_held c a = of_int (units_of bal a)"
proof -
  obtain bal p q where bal: "w_balance w (lb_asked b) = Inr bal" and p: "map_of (lb_portfolios b) (lb_account b) = Some p"
    and q: "seed_portfolio (lb_dt b) bal p = ok q"
    and c: "c = (asked b)\<lparr>lb_portfolios := AList.update (lb_account b) q (lb_portfolios b)\<rparr>"
    using assms(1) by (auto simp: seed_from_venue_def on_live_portfolio_def map_outcome_eq_ok split: sum.splits option.splits)
  obtain r where loop: "for_each (\<lambda>h p. map_outcome (\<lambda>ps. p\<lparr>pf_positions := ps\<rparr>)
      (transact_position (seed_transaction (lb_dt b) h) (pf_positions p))) (ab_holdings bal)
      (p\<lparr>pf_cash := ab_cash bal, pf_positions := []\<rparr>) = ok r" and r: "q = r\<lparr>pf_cash := ab_cash bal\<rparr>"
    using q by (auto simp: seed_portfolio_def Let_def then_do_eq_ok)
  have "\<And>h. h \<in> set (ab_holdings bal) \<Longrightarrow> vh_quantity h \<noteq> 0" using assms(3) bal by (auto simp: reports_holdings_def)
  note s = seed_loop [OF loop _ _ this]
  have e: "live_positions []" "dated (lb_dt b) []" by (simp_all add: live_positions_def dated_def)
  have "pf_dt p \<le> lb_dt b" using assms(2) p by (simp add: books_ok_def)
  with s e assms(2) have "books_ok c" by (auto simp: books_ok_def c r)
  moreover have "live_held c a = of_int (units_of bal a)" for a
    using s e by (simp add: live_held_def account_of_def c r units_of_def position_in_def)
  moreover have "live_cash c = ab_cash bal" by (simp add: live_cash_def account_of_def c r)
  ultimately show ?thesis using that bal by blast
qed

section \<open>A whole reconciliation\<close>

lemma reconcile_ok:
  assumes "reconcile w halt b = (Inr res, c)"
  obtains found b1 b2 local venue where "recover_open_orders w b = ok (found, b1)"
    and "live_portfolio_as_dict (lb_account b1) b1 = Inr local" and "seed_from_venue w b1 = ok b2"
    and "live_portfolio_as_dict (lb_account b2) b2 = Inr venue"
    and "res = new_reconcile_result (fst found) (snd found)
           (overstated_in (quantities local) (quantities venue))
           (filter (\<lambda>(a, q). a \<notin> set (dict_keys local)) (quantities venue))"
    and "c = (if rr_halt_trading res \<and> halt then set_trading_halted True b2 else b2)"
  using assms
  by (auto simp: reconcile_def Let_def ok_def split: prod.splits option.splits sum.splits)

lemma halted_choice [simp]:
  "lb_ledger (if P then set_trading_halted True b else b) = lb_ledger b"
  "lb_open (if P then set_trading_halted True b else b) = lb_open b"
  "lb_buffer (if P then set_trading_halted True b else b) = lb_buffer b"
  "lb_portfolios (if P then set_trading_halted True b else b) = lb_portfolios b"
  "lb_account (if P then set_trading_halted True b else b) = lb_account b"
  "lb_sent (if P then set_trading_halted True b else b) = lb_sent b"
  "lb_dt (if P then set_trading_halted True b else b) = lb_dt b"
  "book_state (if P then set_trading_halted True b else b) = book_state b"
  by (simp_all add: book_state_def booked_of_def charged_of_def fun_eq_iff)

text \<open>What each of its parts keeps, it keeps, however it ends.\<close>

lemma recover_inv:
  assumes "P b" and watch: "\<And>x no b'. x \<in> set (get_open_orders (lb_ledger b)) \<Longrightarrow> or_no x = Some no \<Longrightarrow> P b' \<Longrightarrow> P (watch_again x no b')"
    and poll: "\<And>no b. P b \<Longrightarrow> P (snd (poll_once w no b))" and reject: "\<And>oid b. P b \<Longrightarrow> P (reject_orphan w oid b)"
    and drain: "\<And>b. P b \<Longrightarrow> P (fst (drain_fill_buffer w b))" and close: "\<And>no b. P b \<Longrightarrow> P (close_order w no FILLED None b)"
  shows "P (snd (fst (recover_open_orders w b)))"
proof -
  have "P (snd (fst (for_each (recover_order w) (get_open_orders (lb_ledger b)) (([], []), b))))"
    by (rule for_each_inv [where P = "\<lambda>s. P (snd s)"])
      (auto simp: recover_order_state assms(1) intro: poll watch reject split: option.split)
  moreover have "P (snd (fst (map_outcome (Pair found) (then_do (drain_fill_buffer w b)
      (\<lambda>b. ok (close_orders w FILLED None (fst found) b))))))" if "P b" for found b
    using then_do_inv [of P "drain_fill_buffer w b" "\<lambda>b. ok (close_orders w FILLED None (fst found) b)"]
      drain [OF that] close by (auto intro: close_orders_inv)
  ultimately show ?thesis
    unfolding recover_open_orders_def by (intro then_do_inv [where P = "\<lambda>s. P (snd s)"]) (auto split: prod.split)
qed

lemma reconcile_inv:
  assumes "P b" and "\<And>x no b'. x \<in> set (get_open_orders (lb_ledger b)) \<Longrightarrow> or_no x = Some no \<Longrightarrow> P b' \<Longrightarrow> P (watch_again x no b')"
    and "\<And>no b. P b \<Longrightarrow> P (snd (poll_once w no b))" and "\<And>oid b. P b \<Longrightarrow> P (reject_orphan w oid b)"
    and "\<And>b. P b \<Longrightarrow> P (fst (drain_fill_buffer w b))" and "\<And>no b. P b \<Longrightarrow> P (close_order w no FILLED None b)"
    and seed: "\<And>b. P b \<Longrightarrow> P (fst (seed_from_venue w b))" and halt: "\<And>b. P b \<Longrightarrow> P (set_trading_halted True b)"
  shows "P (snd (reconcile w h b))"
proof -
  obtain f b1 e where r: "recover_open_orders w b = ((f, b1), e)" by (metis prod.exhaust)
  then have b1: "P b1" using recover_inv [of P b w, OF assms(1-6)] by simp
  obtain b2 e2 where "seed_from_venue w b1 = (b2, e2)" by fastforce
  with seed [OF b1] have "seed_from_venue w b1 = (b2, e2)" "P b2" by auto
  with r b1 halt show ?thesis
    by (cases f; cases e; cases e2) (auto simp: reconcile_def Let_def split: sum.split)
qed

lemma seed_frame [simp]:
  "lb_ledger (fst (seed_from_venue w b)) = lb_ledger b" "lb_open (fst (seed_from_venue w b)) = lb_open b"
  "lb_buffer (fst (seed_from_venue w b)) = lb_buffer b" "lb_account (fst (seed_from_venue w b)) = lb_account b"
  "lb_sent (fst (seed_from_venue w b)) = lb_sent b" "lb_guard (fst (seed_from_venue w b)) = lb_guard b"
  "lb_booked (fst (seed_from_venue w b)) = lb_booked b" "lb_charged (fst (seed_from_venue w b)) = lb_charged b"
  "dict_keys (lb_portfolios (fst (seed_from_venue w b))) = dict_keys (lb_portfolios b)"
  "lb_asked (fst (seed_from_venue w b)) = lb_asked b + 1"
  by (simp_all add: seed_from_venue_def split: sum.split)

lemma seed_same:
  assumes "seed_from_venue w b = ok c"
  shows "lb_ledger c = lb_ledger b" and "lb_open c = lb_open b" and "lb_buffer c = lb_buffer b"
    and "lb_account c = lb_account b" and "dict_keys (lb_portfolios c) = dict_keys (lb_portfolios b)"
    and "book_state c = book_state b" and "lb_sent c = lb_sent b" and "lb_guard c = lb_guard b"
  using seed_frame [of w b] assms by (simp_all add: book_state_def booked_of_def charged_of_def fun_eq_iff)

lemma reject_orphan_frame [simp]:
  "lb_sent (reject_orphan w oid b) = lb_sent b" "lb_guard (reject_orphan w oid b) = lb_guard b"
  "lb_account (reject_orphan w oid b) = lb_account b"
  by (simp_all add: reject_orphan_def engine_now_eq)

lemma reconcile_sent [simp]: "lb_sent (snd (reconcile w h b)) = lb_sent b"
  using reconcile_inv [where P = "\<lambda>c. lb_sent c = lb_sent b", of b w h] by simp

text \<open>Reconciliation sends nothing, and only it can halt.\<close>

lemma recover_open_orders_sent:
  assumes "recover_open_orders w b = ok (found, c)"
  shows "lb_sent c = lb_sent b \<and> lb_guard c = lb_guard b"
  using recover_inv [where P = "\<lambda>c. lb_sent c = lb_sent b \<and> lb_guard c = lb_guard b", of b w] assms by simp

lemma poll_wf_orders [simp]: "wf_orders (lb_ledger (snd (poll_once w no b))) = wf_orders (lb_ledger b)"
  by (cases rule: poll_once_cases [of w no b]) (simp_all add: Let_def)

text \<open>What the recovery found: the orders without a number are the orphans.\<close>

lemma recover_loop_orphans:
  "for_each (recover_order w) rows ((r, q), b) = ok ((r', q'), c) \<Longrightarrow>
    q' = q @ map or_id (filter (\<lambda>x. or_no x = None) rows)"
proof (induction rows arbitrary: r q b)
  case (Cons x rows)
  obtain r1 q1 b1 where one: "recover_order w x ((r, q), b) = ok ((r1, q1), b1)"
    and rest: "for_each (recover_order w) rows ((r1, q1), b1) = ok ((r', q'), c)"
    using Cons.prems by (auto simp: then_do_eq_ok)
  have "q1 = (if or_no x = None then q @ [or_id x] else q)"
    using one by (auto simp: recover_order_def ok_def raise_def split: option.splits prod.splits sum.splits bool.splits)
  with Cons.IH [OF rest] show ?case by simp
qed (simp add: ok_def)

lemma reconcile_orphans:
  assumes "reconcile w halt b = (Inr res, c)"
  shows "rr_orphans res = map or_id (filter (\<lambda>x. or_no x = None) (get_open_orders (lb_ledger b)))"
  using assms
proof (cases rule: reconcile_ok)
  case (1 found b1 b2 local venue)
  then obtain b' where "for_each (recover_order w) (get_open_orders (lb_ledger b)) (([], []), b) = ok (found, b')"
    by (auto simp: recover_open_orders_def then_do_eq_ok map_outcome_eq_ok)
  with recover_loop_orphans [of w _ "[]" "[]" b "fst found" "snd found" b'] 1(5) show ?thesis
    by (simp add: new_reconcile_result_def)
qed

text \<open>After it the ledger has no open order without a number.\<close>

definition numbered :: "order_row set \<Rightarrow> ledger \<Rightarrow> bool" where
  "numbered rest l \<longleftrightarrow> wf_orders l \<and> (\<forall>x. get_order (or_id x) l = Some x \<longrightarrow> or_state x \<notin> set terminal_states \<longrightarrow>
    x \<notin> rest \<longrightarrow> or_no x \<noteq> None)"

lemma numbered_loop:
  assumes "for_each (recover_order w) rows (f, b) = ok (f', c)" and "numbered (set rows) (lb_ledger b)"
  shows "numbered {} (lb_ledger c)"
  using assms
proof (induction rows arbitrary: f b)
  case (Cons x rows)
  obtain f1 b1 where one: "recover_order w x (f, b) = ok (f1, b1)" and rest: "for_each (recover_order w) rows (f1, b1) = ok (f', c)"
    using Cons.prems(1) by (auto simp: then_do_eq_ok)
  note b1 = recover_order_state [of w x "(f, b)", unfolded one fst_ok snd_conv]
  have "numbered (set rows) (lb_ledger b1)"
    unfolding numbered_def
  proof (intro conjI allI impI)
    show "wf_orders (lb_ledger b1)"
      using b1 Cons.prems(2) by (cases "or_no x") (simp_all add: numbered_def reject_orphan_def engine_now_eq)
    fix y assume y: "get_order (or_id y) (lb_ledger b1) = Some y" "or_state y \<notin> set terminal_states" "y \<notin> set rows"
    show "or_no y \<noteq> None"
    proof (cases "or_no x")
      case None
      from y(1,2) None b1 have "or_id y \<noteq> or_id x"
        by (auto simp: reject_orphan_def engine_now_eq terminal_states_def split: if_splits)
      with y None b1 Cons.prems(2) show ?thesis by (auto simp: numbered_def reject_orphan_def engine_now_eq)
    next
      case (Some no)
      with y b1 Cons.prems(2) show ?thesis by (cases "y = x") (simp_all add: numbered_def)
    qed
  qed
  with rest show ?case by (rule Cons.IH)
qed (simp add: ok_def)

lemma reconcile_numbered:
  assumes "reconcile w halt b = (Inr res, c)" and "wf_orders (lb_ledger b)"
  shows "numbered {} (lb_ledger c)"
  using assms(1)
proof (cases rule: reconcile_ok)
  case (1 found b1 b2 local venue)
  obtain f b' b3 where loop: "for_each (recover_order w) (get_open_orders (lb_ledger b)) (([], []), b) = ok (f, b')"
    and b3: "drain_fill_buffer w b' = ok b3" and b1: "b1 = close_orders w FILLED None (fst f) b3"
    using 1(1) by (auto simp: recover_open_orders_def then_do_eq_ok map_outcome_eq_ok)
  have "numbered (set (get_open_orders (lb_ledger b))) (lb_ledger b)"
    using get_open_orders_iff [OF assms(2)] assms(2) by (auto simp: numbered_def)
  then have "numbered {} (lb_ledger b')" by (rule numbered_loop [OF loop])
  then have "numbered {} (lb_ledger b3)" using drain_frame [of w b'] b3 by simp
  then have "numbered {} (lb_ledger b1)"
    unfolding b1
  proof (rule close_orders_inv)
    fix no and b :: lbroker assume b: "numbered {} (lb_ledger b)"
    show "numbered {} (lb_ledger (close_order w no FILLED None b))"
      by (cases rule: close_order_cases [of b no w FILLED None])
        (use b in \<open>auto simp: numbered_def terminal_states_def split: if_splits\<close>)
  qed
  with 1 seed_same(1) [OF 1(3)] show ?thesis by simp
qed

lemma wf_orders_reconcile:
  assumes "reconcile w halt b = (Inr res, c)" and "fresh_on b" and "prices_its_fills w"
  shows "wf_orders (lb_ledger c)"
  using assms(1)
proof (cases rule: reconcile_ok)
  case (1 found b1 b2 local venue)
  have "in_step b1" using recover_open_orders_result [OF 1(1) assms(2,3)] by (simp add: recovered_def follows_def)
  with 1 seed_same(1) [OF 1(3)] show ?thesis by (simp add: in_step_def)
qed

text \<open>The trace of a submission that was cut off.\<close>

lemma interrupted_leaves_intent:
  assumes "lb_sent (fst (live_submit_order w pid o' b)) \<noteq> lb_sent b" and "get_order (ord_id o') (lb_ledger b) = None"
    and "snd (live_submit_order w pid o' b) = Some Interrupted"
  shows "\<exists>x. get_order (ord_id o') (lb_ledger (fst (live_submit_order w pid o' b))) = Some x \<and>
    or_state x = INTENT \<and> or_no x = None"
proof -
  obtain price c q where r: "get_mark w (ord_asset o') (asked b) = (Inr price, c)"
      "live_submit_order w pid o' b = place_order w pid o' q (engine_time w b) (asked c)"
    using submit_reaches_venue [OF assms(1)] by metis
  have "lb_ledger c = lb_ledger b" using get_mark_frame [of w "ord_asset o'" "asked b"] r(1) by simp
  then show ?thesis
    using assms(2,3) unfolding r(2) by (auto simp: place_order_def Let_def get_order_intent split: sum.splits if_splits)
qed

lemma wf_orders_submit:
  assumes "wf_orders (lb_ledger b)"
  shows "wf_orders (lb_ledger (fst (live_submit_order w pid o' b)))"
proof -
  obtain r c where m: "get_mark w (ord_asset o') (asked b) = (r, c)" by fastforce
  then have "lb_ledger c = lb_ledger b" using get_mark_frame [of w "ord_asset o'" "asked b"] by simp
  with m assms show ?thesis
    by (auto simp: live_submit_order_def engine_now_eq refuse_order_def place_order_def Let_def
        split: sum.split option.split)
qed

lemma reconcile_from_fresh:
  assumes "reconcile w halt b = (Inr res, c)" and fresh: "fresh_on b" and "prices_its_fills w" and "reports_holdings w"
  obtains bal n where "w_balance w n = Inr bal" and "\<And>a. live_held c a = of_int (units_of bal a)"
    and "live_cash c = ab_cash bal" and "at_rest c" and "all_watched {} c"
    and "\<And>x. x \<in> set (get_open_orders (lb_ledger b)) \<Longrightarrow> dealt_with x (lb_ledger c)"
    and "\<And>x. x \<in> set (get_open_orders (lb_ledger b)) \<Longrightarrow> or_no x = None \<Longrightarrow>
      \<exists>y. get_order (or_id x) (lb_ledger c) = Some y \<and> or_state y = REJECTED"
  using assms(1)
proof (cases rule: reconcile_ok)
  case (1 found b2 b3 local venue')
  let ?rows = "get_open_orders (lb_ledger b)"
  have rec: "recovered b ?rows b2" "lb_buffer b2 = []" using recover_open_orders_result [OF 1(1) fresh assms(3)] by simp_all
  then have f: "follows b b2" "all_watched {} b2" by (auto simp: recovered_def)
  note s = seed_same [OF 1(3)]
  obtain bal where bal: "w_balance w (lb_asked b2) = Inr bal" "books_ok b3" "live_cash b3 = ab_cash bal"
      "\<And>a. live_held b3 a = of_int (units_of bal a)"
    using seed_from_venue_ok [OF 1(3) followsD(2) [OF f(1)] assms(4)] by metis
  have step: "in_step b3" by (rule in_step_same [OF followsD(1) [OF f(1)] s(2,1)])
  have rest3: "at_rest b3"
    using step bal(2) followsD(4,6,7) [OF f(1)] rec(2) by (auto simp: at_rest_def s)
  have c: "lb_ledger c = lb_ledger b3" "lb_open c = lb_open b3" "live_cash c = live_cash b3" "\<And>a. live_held c a = live_held b3 a"
    using live_same [of c b3] 1(6) by simp_all
  have "in_step c" by (rule in_step_same [OF step c(2,1)])
  with rest3 have "at_rest c" using 1(6) by (auto simp: at_rest_def books_ok_def)
  moreover have "all_watched {} c" using f(2) by (rule all_watched_same) (simp_all add: c s)
  moreover have "dealt_with x (lb_ledger c)" if "x \<in> set ?rows" for x
    using rec(1) that by (simp add: recovered_def c s)
  moreover have "\<exists>y. get_order (or_id x) (lb_ledger c) = Some y \<and> or_state y = REJECTED"
    if "x \<in> set ?rows" "or_no x = None" for x
    using rec(1) that by (auto simp: recovered_def c s)
  ultimately show ?thesis using that bal c by simp
qed

section \<open>Properties\<close>

text \<open>
  C17. A restart resumes the account. However a session ran and wherever it stopped, a new process
  on its ledger whose reconciliation goes through is again at rest, with the venue's balance as
  its holdings and cash; each order found open is FILLED, or open and watched again from exactly
  what the ledger has booked of it, or, if it never got a number, rejected. So everything proved of
  a session from rest holds of the next one.
\<close>

theorem relaunch_resumes_the_account:
  assumes "live_reaches w b0 b" and "at_rest b0" and "all_watched {} b0" and "prices_its_fills w" and "new_numbers w b0"
    and "new_live_broker start account currency venue cv cm fee guard throttle (lb_ledger b) = ok b1"
    and "reconcile w' halt b1 = (Inr res, c)" and "prices_its_fills w'" and "reports_holdings w'"
  shows "\<exists>n bal. w_balance w' n = Inr bal \<and> (\<forall>a. live_held c a = of_int (units_of bal a)) \<and> live_cash c = ab_cash bal \<and>
    at_rest c \<and> all_watched {} c \<and>
    (\<forall>x \<in> set (get_open_orders (lb_ledger b1)). \<exists>y. get_order (or_id x) (lb_ledger c) = Some y \<and>
      (case or_no x of None \<Rightarrow> or_state y = REJECTED
       | Some no \<Rightarrow> or_state y = FILLED \<or> or_state y = SUBMITTED \<and> (\<exists>st. map_of (lb_open c) no = Some st \<and>
           oo_id st = or_id x \<and> oo_booked st = already_booked (or_id x) (lb_ledger c) \<and>
           oo_fees st = already_booked_fees (or_id x) (lb_ledger c))))"
proof -
  have "follows b0 b" using follows_reaches [OF assms(1,4,5) at_rest_follows [OF assms(2)]] by simp
  moreover have "all_watched {} b"
    by (rule all_watched_reaches [OF assms(1,3,5,4) at_rest_follows [OF assms(2)]])
  ultimately have "ledger_sound (lb_ledger b)" by (intro in_step_ledger_sound followsD(1))
  then have fresh: "fresh_on b1" using new_live_broker_fresh [OF assms(6)] by simp
  let ?rows = "get_open_orders (lb_ledger b1)"
  obtain bal n where bal: "w_balance w' n = Inr bal" "\<And>a. live_held c a = of_int (units_of bal a)" "live_cash c = ab_cash bal"
    and c: "at_rest c" "all_watched {} c" and dealt: "\<And>x. x \<in> set ?rows \<Longrightarrow> dealt_with x (lb_ledger c)"
    and rejected: "\<And>x. x \<in> set ?rows \<Longrightarrow> or_no x = None \<Longrightarrow>
      \<exists>y. get_order (or_id x) (lb_ledger c) = Some y \<and> or_state y = REJECTED"
    using reconcile_from_fresh [OF assms(7) fresh assms(8,9)] by metis
  have step: "in_step c" using c(1) by (simp add: at_rest_def)
  have "\<exists>y. get_order (or_id x) (lb_ledger c) = Some y \<and>
      (case or_no x of None \<Rightarrow> or_state y = REJECTED
       | Some no \<Rightarrow> or_state y = FILLED \<or> or_state y = SUBMITTED \<and> (\<exists>st. map_of (lb_open c) no = Some st \<and>
           oo_id st = or_id x \<and> oo_booked st = already_booked (or_id x) (lb_ledger c) \<and>
           oo_fees st = already_booked_fees (or_id x) (lb_ledger c)))" if x: "x \<in> set ?rows" for x
  proof (cases "or_no x")
    case (Some no)
    obtain y where y: "get_order (or_id x) (lb_ledger c) = Some y" "or_no y = Some no"
        "or_state y = or_state x \<or> or_state y = FILLED"
      using dealt [OF x] Some by (auto simp: dealt_with_def)
    have "resumable (lb_ledger b1) x" using fresh x by (simp add: fresh_on_def ledger_sound_def)
    then have sub: "or_state x = SUBMITTED" using Some by (simp add: resumable_def)
    show ?thesis
    proof (cases "or_state y = FILLED")
      case False
      with y(3) sub have "or_state y = SUBMITTED" by simp
      with all_watchedD [OF c(2) y(1,2)] obtain st where st: "map_of (lb_open c) no = Some st" "oo_id st = or_id x"
        by (auto simp: terminal_states_def)
      with in_step_order [OF step st(1)] y(1) \<open>or_state y = SUBMITTED\<close> Some show ?thesis
        by (auto simp: order_ok_def)
    qed (use y Some in simp)
  qed (use rejected [OF x] in simp)
  with bal c show ?thesis by blast
qed

text \<open>
  C18. A process that dies while it waits for the venue's answer to an order stops the next launch.
  The order may or may not be working; it is in the ledger without a number, the new process
  reports it and halts trading, and whatever that process does afterwards sends no order.
\<close>

theorem interrupted_submission_stops_the_next_launch:
  assumes "snd (live_submit_order w pid o' b) = Some Interrupted"
    and "lb_sent (fst (live_submit_order w pid o' b)) \<noteq> lb_sent b"
    and "get_order (ord_id o') (lb_ledger b) = None" and "wf_orders (lb_ledger b)"
    and "lb_ledger b1 = lb_ledger (fst (live_submit_order w pid o' b))"
    and "reconcile w' True b1 = (Inr res, c)" and "live_reaches w' c d"
  shows "ord_id o' \<in> set (rr_orphans res) \<and> rr_halt_trading res \<and> trading_halted c \<and> lb_sent d = lb_sent b1"
proof -
  let ?r = "live_submit_order w pid o' b"
  obtain x where x: "get_order (ord_id o') (lb_ledger (fst ?r)) = Some x" "or_state x = INTENT" "or_no x = None"
    using interrupted_leaves_intent [OF assms(2,3,1)] by blast
  have "wf_orders (lb_ledger b1)" using wf_orders_submit [OF assms(4), of w pid o'] assms(5) by simp
  then have "x \<in> set (get_open_orders (lb_ledger b1))"
    using x get_order_id [OF x(1)] by (simp add: get_open_orders_iff terminal_states_def assms(5))
  with x(3) have orphan: "ord_id o' \<in> set (rr_orphans res)"
    unfolding reconcile_orphans [OF assms(6)] using get_order_id [OF x(1)] by force
  from assms(6) show ?thesis
  proof (cases rule: reconcile_ok)
    case (1 found b2 b3 local venue)
    have "lb_sent b3 = lb_sent b1" using recover_open_orders_sent [OF 1(1)] seed_same(7) [OF 1(3)] by simp
    moreover have halt: "rr_halt_trading res" using orphan 1(5) by (auto simp: new_reconcile_result_def)
    ultimately have "trading_halted c" "lb_sent c = lb_sent b1" using 1(6) by simp_all
    moreover have "lb_sent d = lb_sent c"
      using stopped_reaches [OF assms(7)] \<open>trading_halted c\<close> by (simp add: stopped_def)
    ultimately show ?thesis using orphan halt by simp
  qed
qed

text \<open>
  The halt for an order without a number lasts one launch. A reconciliation rejects such orders
  in the ledger, also where it was told not to halt, so a second process on the same ledger finds
  none: it does not halt for them, whether or not anybody has looked.
\<close>

theorem halt_lasts_one_launch:
  assumes "reconcile w halt b = (Inr res, c)" and "wf_orders (lb_ledger b)"
    and "lb_ledger b' = lb_ledger c" and "reconcile w' halt' b' = (Inr res', d)"
  shows "rr_orphans res' = [] \<and>
    (rr_overstated res' = [] \<longrightarrow> \<not> rr_halt_trading res' \<and> trading_halted d = trading_halted b')"
proof -
  have "numbered {} (lb_ledger b')" using reconcile_numbered [OF assms(1,2)] assms(3) by simp
  then have "filter (\<lambda>x. or_no x = None) (get_open_orders (lb_ledger b')) = []"
    using get_open_orders_iff [of "lb_ledger b'"] by (auto simp: numbered_def filter_empty_conv)
  then have orphans: "rr_orphans res' = []" using reconcile_orphans [OF assms(4)] by simp
  from assms(4) show ?thesis
  proof (cases rule: reconcile_ok)
    case (1 found b2 b3 local venue)
    have "trading_halted b3 = trading_halted b'"
      using recover_open_orders_sent [OF 1(1)] seed_same(8) [OF 1(3)] by (simp add: trading_halted_def)
    with orphans 1(5,6) show ?thesis by (auto simp: new_reconcile_result_def)
  qed
qed

lemma quantities_held:
  assumes "follows b0 b" and "live_portfolio_as_dict (lb_account b) b = Inr d" and "(a, q) \<in> set (quantities d)"
  shows "live_held b a = q"
proof -
  obtain p where p: "map_of (lb_portfolios b) (lb_account b) = Some p" "d = portfolio_to_dict p"
    using assms(2) by (auto simp: live_portfolio_as_dict_def of_live_portfolio_def split: option.splits)
  have "wf_dict (pf_positions p)"
    using followsD(2) [OF assms(1)] p(1) by (auto simp: books_ok_def live_positions_def wf_positions_def)
  then have "distinct (map fst d)" by (simp add: p(2) portfolio_to_dict_def wf_dict_def comp_def case_prod_unfold)
  moreover obtain h where "(a, h) \<in> set d" "q = h_quantity h" using assms(3) by (auto simp: quantities_def)
  ultimately have "map_option h_quantity (map_of d a) = Some q" by simp
  then show ?thesis using p
    by (auto simp: portfolio_to_dict_lookup live_held_def account_of_def position_in_def)
qed

text \<open>
  What a launch can find overstated is what it recovered itself. The quantities compared with
  the venue are not the last session's holdings: a new process starts without any, so each
  one is exactly what the fills reported late have just added to the ledger.
\<close>

theorem launch_compares_only_late_fills:
  assumes "new_live_broker start account currency venue cv cm fee guard throttle l = ok b" and "ledger_sound l"
    and "reconcile w halt b = (Inr res, c)" and "prices_its_fills w"
  shows "\<exists>rows. l_fills (lb_ledger c) = l_fills l @ rows \<and>
    (\<forall>(a, q, h) \<in> set (rr_overstated res). h < q \<and> q = of_int (traded_of a (row_trades (lb_ledger c) rows)))"
  using assms(3)
proof (cases rule: reconcile_ok)
  case (1 found b1 b2 local venue')
  have fresh: "fresh_on b" using new_live_broker_fresh [OF assms(1,2)] by simp
  have f: "follows b b1" "lb_buffer b1 = []"
    using recover_open_orders_result [OF 1(1) fresh assms(4)] by (auto simp: recovered_def)
  have start: "l_fills (lb_ledger b) = l_fills l" "live_held b a = 0" for a
    using assms(1) by (auto simp: new_live_broker_def Let_def live_create_portfolio_def map_outcome_eq_ok live_held_def
        account_of_def position_in_def init_portfolio_def stamp_identity_def insert_meta_def then_do_eq_ok
        split: option.splits if_splits)
  have "in_flight b1 = []" by (simp add: in_flight_def f(2))
  with f(1) obtain rows where rows: "l_fills (lb_ledger b1) = l_fills (lb_ledger b) @ rows"
      "\<And>a. live_held b1 a = live_held b a + of_int (traded_of a (row_trades (lb_ledger b1) rows))"
    by (auto simp: follows_def)
  have c: "lb_ledger c = lb_ledger b1" using 1(6) seed_same(1) [OF 1(3)] by simp
  have "h < q \<and> q = of_int (traded_of a (row_trades (lb_ledger c) rows))" if over: "(a, q, h) \<in> set (rr_overstated res)" for a q h
  proof -
    have "(a, q) \<in> set (quantities local)" "h < q"
      using over 1(5) by (auto simp: new_reconcile_result_def overstated_in_def)
    with quantities_held [OF f(1) 1(2)] rows(2) [of a] start(2) c show ?thesis by simp
  qed
  then show ?thesis using rows(1) start(1) c by (intro exI [of _ rows]) auto
qed

section \<open>Witnesses\<close>

text \<open>
  Three launches on one ledger: a session that ends with an order open, or is cut off in the call,
  and the processes after it. The balance of \<open>bare_world\<close> lacks the shares of a late fill.
\<close>

definition relaunch :: "ledger \<Rightarrow> lbroker" where
  "relaunch l = fst (new_live_broker 0 ''live'' ''KRW'' None (Some ''kis'') (Some ''paper'') None None None l)"

definition dying_world :: world where
  "dying_world = demo_world\<lparr>w_place := \<lambda>n a q. Inl Interrupted\<rparr>"

definition bare_world :: world where
  "bare_world = demo_world\<lparr>w_balance := \<lambda>n. Inr \<lparr>ab_cash = 1000, ab_settled = 1000, ab_equity = 1000, ab_holdings = []\<rparr>\<rparr>"

definition demo_cut :: lbroker where
  "demo_cut = fst (live_submit_order dying_world ''live'' (demo_live_order 3) demo_live)"

definition found_by :: "(exn + reconcile_result) \<times> lbroker \<Rightarrow> (string list \<times> string list \<times> nat \<times> bool) option" where
  "found_by r = (case fst r of Inl e \<Rightarrow> None
     | Inr res \<Rightarrow> Some (rr_resolved res, rr_orphans res, length (rr_overstated res), rr_halt_trading res))"

lemma found_by_Some:
  assumes "found_by r = Some x"
  obtains res c where "r = (Inr res, c)" "x = (rr_resolved res, rr_orphans res, length (rr_overstated res), rr_halt_trading res)"
  using assms by (cases r) (auto simp: found_by_def split: sum.splits)

lemma relaunch_ok:
  "snd (new_live_broker 0 ''live'' ''KRW'' None (Some ''kis'') (Some ''paper'') None None None l) = None \<Longrightarrow>
    new_live_broker 0 ''live'' ''KRW'' None (Some ''kis'') (Some ''paper'') None None None l = ok (relaunch l)"
  by (simp add: relaunch_def ok_def prod_eq_iff)

lemma demo_relaunches:
  "snd (new_live_broker 0 ''live'' ''KRW'' None (Some ''kis'') (Some ''paper'') None None None (lb_ledger demo_open)) = None"
  "found_by (reconcile demo_world True (relaunch (lb_ledger demo_open))) = Some ([''xxxxx''], [], 0, False)"
  "found_by (reconcile bare_world True (relaunch (lb_ledger demo_open))) = Some ([''xxxxx''], [], 1, True)"
  unfolding demo_open_def demo_live_def relaunch_def bare_world_def by code_simp+

lemma demo_cut_relaunches:
  "found_by (reconcile demo_world False (relaunch (lb_ledger demo_cut))) = Some ([], [''id1''], 0, True)"
  "found_by (reconcile demo_world True (relaunch (lb_ledger demo_cut))) = Some ([], [''id1''], 0, True)"
  "found_by (reconcile demo_world True (relaunch (lb_ledger (snd (reconcile demo_world False (relaunch (lb_ledger demo_cut))))))) =
     Some ([], [], 0, False)"
  "lb_sent demo_cut = [(''EQ:A'', 3)]"
  "snd (live_submit_order dying_world ''live'' (demo_live_order 3) demo_live) = Some Interrupted"
  unfolding demo_cut_def demo_live_def relaunch_def dying_world_def by code_simp+

lemma relaunch_ledger: "get_identity l = Some (''kis'', ''paper'', ''live'') \<Longrightarrow> lb_ledger (relaunch l) = l"
  by (simp add: relaunch_def new_live_broker_def Let_def live_create_portfolio_def stamp_identity_def)

lemma demo_identities:
  "get_identity (lb_ledger demo_cut) = Some (''kis'', ''paper'', ''live'')"
  "get_identity (lb_ledger (snd (reconcile demo_world False (relaunch (lb_ledger demo_cut))))) = Some (''kis'', ''paper'', ''live'')"
  unfolding demo_cut_def demo_live_def relaunch_def dying_world_def by code_simp+

lemma demo_open_reached: "live_reaches demo_world demo_live demo_open"
  unfolding demo_open_def by (intro r_into_rtranclp live_step.submits [of "demo_live_order 3" demo_live demo_world,
    unfolded demo_live_account(1)]) (simp add: get_order_def)

lemma demo_live_watched: "all_watched {} demo_live"
  by (simp add: all_watched_def get_order_def)

lemma demo_world_holdings: "reports_holdings demo_world"
  by (auto simp: reports_holdings_def demo_world_def)

theorem relaunch_resumes_the_account_witness:
  "live_cash (snd (reconcile demo_world True (relaunch (lb_ledger demo_open)))) = 1000 \<and>
   live_held (snd (reconcile demo_world True (relaunch (lb_ledger demo_open)))) ''EQ:A'' = 5 \<and>
   at_rest (snd (reconcile demo_world True (relaunch (lb_ledger demo_open))))"
proof -
  obtain res c where run: "reconcile demo_world True (relaunch (lb_ledger demo_open)) = (Inr res, c)"
    by (rule found_by_Some [OF demo_relaunches(2)])
  obtain n bal where "w_balance demo_world n = Inr bal" "live_cash c = ab_cash bal"
      "live_held c ''EQ:A'' = of_int (units_of bal ''EQ:A'')" "at_rest c"
    using relaunch_resumes_the_account [OF demo_open_reached demo_at_rest demo_live_watched demo_world_ok
      relaunch_ok [OF demo_relaunches(1)] run demo_world_ok(1) demo_world_holdings] by blast
  moreover from this(1) have "bal = \<lparr>ab_cash = 1000, ab_settled = 1000, ab_equity = 1450,
      ab_holdings = [\<lparr>vh_symbol = ''EQ:A'', vh_quantity = 5, vh_price = 90\<rparr>]\<rparr>" by (simp add: demo_world_def)
  ultimately show ?thesis by (simp add: run units_of_def)
qed

theorem interrupted_submission_stops_the_next_launch_witness:
  "\<exists>c. snd (reconcile demo_world True (relaunch (lb_ledger demo_cut))) = c \<and> trading_halted c \<and>
     lb_sent (fst (live_submit_order demo_world (lb_account c) (new_order ''id2'' 0 ''EQ:A'' 1) c)) =
     lb_sent (relaunch (lb_ledger demo_cut))"
proof -
  obtain res c where run: "reconcile demo_world True (relaunch (lb_ledger demo_cut)) = (Inr res, c)"
    by (rule found_by_Some [OF demo_cut_relaunches(2)])
  have cut: "lb_sent (fst (live_submit_order dying_world ''live'' (demo_live_order 3) demo_live)) \<noteq> lb_sent demo_live"
    using demo_cut_relaunches(4) by (simp add: demo_cut_def)
  have same: "lb_ledger (relaunch (lb_ledger demo_cut)) =
      lb_ledger (fst (live_submit_order dying_world ''live'' (demo_live_order 3) demo_live))"
    using relaunch_ledger [OF demo_identities(1)] by (simp add: demo_cut_def)
  have "get_order ''id2'' (lb_ledger (snd (reconcile demo_world True (relaunch (lb_ledger demo_cut))))) = None"
    unfolding demo_cut_def demo_live_def relaunch_def dying_world_def by code_simp
  then have "live_reaches demo_world c (fst (live_submit_order demo_world (lb_account c) (new_order ''id2'' 0 ''EQ:A'' 1) c))"
    using run by (intro r_into_rtranclp live_step.submits) (simp add: new_order_def)
  from interrupted_submission_stops_the_next_launch [OF demo_cut_relaunches(5) cut _ _ same run this] run
  show ?thesis by (simp add: get_order_def wf_orders_def)
qed

theorem halt_lasts_one_launch_witness:
  "\<exists>res d. reconcile demo_world True (relaunch (lb_ledger (snd (reconcile demo_world False (relaunch (lb_ledger demo_cut)))))) =
     (Inr res, d) \<and> rr_orphans res = []"
proof -
  obtain res c where run: "reconcile demo_world False (relaunch (lb_ledger demo_cut)) = (Inr res, c)"
    by (rule found_by_Some [OF demo_cut_relaunches(1)])
  obtain res' d where run': "reconcile demo_world True (relaunch (lb_ledger c)) = (Inr res', d)"
    by (rule found_by_Some [OF demo_cut_relaunches(3) [unfolded run snd_conv]])
  have "wf_orders (lb_ledger (relaunch (lb_ledger demo_cut)))"
    using wf_orders_submit [of demo_live dying_world "''live''" "demo_live_order 3"] relaunch_ledger [OF demo_identities(1)]
    by (simp add: wf_orders_def demo_cut_def)
  moreover have "lb_ledger (relaunch (lb_ledger c)) = lb_ledger c"
    using relaunch_ledger [OF demo_identities(2)] by (simp add: run)
  ultimately show ?thesis using halt_lasts_one_launch [OF run _ _ run'] run' by (simp add: run)
qed

theorem launch_compares_only_late_fills_witness:
  "\<exists>rows. l_fills (lb_ledger (snd (reconcile bare_world True (relaunch (lb_ledger demo_open))))) =
     l_fills (lb_ledger demo_open) @ rows"
proof -
  obtain res c where run: "reconcile bare_world True (relaunch (lb_ledger demo_open)) = (Inr res, c)"
    by (rule found_by_Some [OF demo_relaunches(3)])
  have "ledger_sound (lb_ledger demo_open)"
    by (rule in_step_ledger_sound [OF demo_open_in_step
      all_watched_reaches [OF demo_open_reached demo_live_watched demo_world_ok(2,1) at_rest_follows [OF demo_at_rest]]])
  moreover have "prices_its_fills bare_world" by (simp add: bare_world_def prices_its_fills_def demo_world_def)
  ultimately show ?thesis
    using launch_compares_only_late_fills [OF relaunch_ok [OF demo_relaunches(1)] _ run] run by auto
qed

end
