(* ===== verification/Live_Session.thy ===== *)
theory Live_Session
  imports Live_Reconcile Actors
begin

text \<open>
  \<^verbatim>\<open>vmtrader/trading/live.py\<close>: the two launches of a live account, the rebalance and the end of
  the day, over the live broker, the trading system and the two actors. The theorems show what
  must have gone right before an order is sent, that a launch returns, and that whichever way
  it ends the next one finds a ledger it can resume from.
\<close>

section \<open>Sizing and submitting on the live broker\<close>

text \<open>
  The construction model and the order sizers read the live broker and its marks; a mark is a
  question to the venue, asked once per asset in the order of the sizer's loop.
\<close>

definition live_view :: "string \<Rightarrow> lbroker \<Rightarrow> exn + broker_view" where
  "live_view pid b =
    and_then (live_total_equity pid b) (\<lambda>e.
    and_then (live_portfolio_as_dict pid b) (\<lambda>h.
      Inr \<lparr>bv_equity = e, bv_holdings = h, bv_cost = calc_total_cost (lb_fee_model b)\<rparr>))"

definition flat_feed :: "rat \<Rightarrow> price_feed" where
  "flat_feed p = \<lparr>feed_bid_ask = \<lambda>dt a. (Some p, Some p), feed_mid = \<lambda>dt a. Some p, feed_ask = \<lambda>dt a. Some p\<rparr>"

fun live_size_each :: "world \<Rightarrow> (price_feed \<Rightarrow> symbol \<Rightarrow> rat \<Rightarrow> exn + int) \<Rightarrow> weights \<Rightarrow> lbroker
    \<Rightarrow> (exn + (symbol, rat) dict) \<times> lbroker" where
  "live_size_each w f [] b = (Inr [], b)"
| "live_size_each w f ((a, weight) # ws) b =
    (case get_mark w a b of
       (Inl e, b) \<Rightarrow> (Inl e, b)
     | (Inr p, b) \<Rightarrow>
         (case f (flat_feed p) a weight of
            Inl e \<Rightarrow> (Inl e, b)
          | Inr q \<Rightarrow>
              (case live_size_each w f ws b of
                 (Inl e, b) \<Rightarrow> (Inl e, b)
               | (Inr rest, b) \<Rightarrow> (Inr ((a, of_int q) # rest), b))))"

definition on_equity :: "broker_view \<Rightarrow> (rat \<Rightarrow> exn + int) \<Rightarrow> exn + int" where
  "on_equity v f = (case bv_equity v of None \<Rightarrow> Inl ValueError | Some equity \<Rightarrow> f equity)"

fun live_size_portfolio :: "world \<Rightarrow> order_sizer \<Rightarrow> broker_view \<Rightarrow> timestamp \<Rightarrow> weights \<Rightarrow> lbroker
    \<Rightarrow> (exn + (symbol, rat) dict) \<times> lbroker" where
  "live_size_portfolio w (DollarWeighted cash_buffer) v dt ws b =
    (if ws = [] then (Inr [], b)
     else case dw_normalise_weights ws of
         Inl e \<Rightarrow> (Inl e, b)
       | Inr ns \<Rightarrow> live_size_each w (\<lambda>feed a weight. on_equity v (\<lambda>equity.
           dw_quantity v feed dt (equity * (1 - cash_buffer)) a weight)) (sort_key fst ns) b)"
| "live_size_portfolio w (LongShort gross_leverage) v dt ws b =
    (if ws = [] then (Inr [], b)
     else live_size_each w (\<lambda>feed a weight. on_equity v (\<lambda>equity. ls_quantity v feed dt equity a weight))
       (sort_key fst (ls_normalise_weights gross_leverage ws)) b)"

definition live_submit_and_update :: "world \<Rightarrow> string \<Rightarrow> timestamp \<Rightarrow> order \<Rightarrow> lbroker \<Rightarrow> lbroker outcome" where
  "live_submit_and_update w pid dt o' b = then_do (live_submit_order w pid o' b) (live_update w dt False)"

definition live_execution :: "world \<Rightarrow> trading_system \<Rightarrow> timestamp \<Rightarrow> order list \<Rightarrow> lbroker \<Rightarrow> lbroker outcome" where
  "live_execution w sys dt rebalance_orders b =
    (let final_orders = qts_algo sys dt rebalance_orders in
     if qts_submit sys then for_each (live_submit_and_update w (qts_portfolio sys) dt) final_orders b else ok b)"

definition live_size_and_submit :: "(timestamp \<Rightarrow> symbol \<Rightarrow> string) \<Rightarrow> trading_system \<Rightarrow> world \<Rightarrow> target_weights
    \<Rightarrow> lbroker \<Rightarrow> lbroker outcome" where
  "live_size_and_submit uid sys w cmd b =
    (case live_view (qts_portfolio sys) b of
       Inl e \<Rightarrow> raise e b
     | Inr v \<Rightarrow>
         (case live_size_portfolio w (pcm_sizer (qts_model sys)) v (tw_dt cmd)
             (full_asset_weights (obtain_full_asset_list (pcm_universe (qts_model sys)) v (tw_dt cmd)) (as_dict cmd)) b of
            (Inl e, b) \<Rightarrow> raise e b
          | (Inr target, b) \<Rightarrow> live_execution w sys (tw_dt cmd)
              (generate_rebalance_orders uid (tw_dt cmd) target (quantities (bv_holdings v))) b))"

section \<open>The session\<close>

text \<open>
  \<open>ls_warm_up\<close> is what warming the signals gives, if there are signals: per asset the number of
  prices found in the venue's history. The alpha model, which reads them, is a function of time.
  \<open>ls_in_time\<close> says whether the strategy's thread finishes within its budget.
\<close>

record live_session =
  ls_system :: trading_system
  ls_uid :: "timestamp \<Rightarrow> symbol \<Rightarrow> string"
  ls_warm_up :: "(timestamp \<Rightarrow> exn + (symbol, nat) dict) option"
  ls_rebalance_dates :: "timestamp list option"
  ls_time_budget :: int
  ls_close_buffer :: int
  ls_is_trading_day :: "timestamp \<Rightarrow> bool"
  ls_close_time :: int
  ls_synchronous :: bool
  ls_in_time :: bool

definition deadline_of :: "live_session \<Rightarrow> timestamp \<Rightarrow> timestamp" where
  "deadline_of s now =
    (let budget_end = now + ls_time_budget s; close = combine (date_of now) (ls_close_time s) in
     min budget_end (close - ls_close_buffer s))"

definition is_rebalance_day :: "live_session \<Rightarrow> timestamp \<Rightarrow> bool" where
  "is_rebalance_day s now =
    (if \<not> ls_is_trading_day s now then False
     else case ls_rebalance_dates s of
         None \<Rightarrow> True
       | Some dates \<Rightarrow> list_ex (\<lambda>dt. date_of dt = date_of now) dates)"

definition live_handlers :: "live_session \<Rightarrow> world \<Rightarrow> lbroker broker_handlers" where
  "live_handlers s w = \<lparr>bh_size_and_submit = live_size_and_submit (ls_uid s) (ls_system s) w,
     bh_on_error = Some (\<lambda>e b. ok b)\<rparr>"

text \<open>A session has no fills for the strategy; an error of the strategy is logged.\<close>

definition live_strategy :: "live_session \<Rightarrow> unit strategy" where
  "live_strategy s = \<lparr>st_decide = qts_decide_weights (ls_system s), st_on_fill = \<lambda>e t. ok t,
     st_on_error = Some (\<lambda>e. None)\<rparr>"

definition session_cycle :: "live_session \<Rightarrow> world \<Rightarrow> timestamp \<Rightarrow> lbroker \<Rightarrow> (lbroker, unit) cycle outcome" where
  "session_cycle s w now b =
    decide_and_submit (ls_in_time s) (live_handlers s w) (live_strategy s) now (fresh_actors (ls_synchronous s) () b)"

datatype stop_reason = ReconciliationHalted | StoppedByGuard exn | NotARebalanceDay | MarketClosed
  | NoSignalHistory "symbol list" | NoDecision

text \<open>The outcome of a launch; how many fills were booked only goes to the log and is left out.\<close>

record launch_outcome =
  lo_reconcile :: "reconcile_result"
  lo_traded :: bool
  lo_signals_warmed :: "(symbol, nat) dict option"
  lo_reason :: "stop_reason option"

type_synonym launch_end = "(exn + launch_outcome) \<times> lbroker"

text \<open>From the decision on; \<open>None\<close> is a settlement that does not return.\<close>

definition trade_and_settle :: "live_session \<Rightarrow> world \<Rightarrow> timestamp \<Rightarrow> launch_outcome \<Rightarrow> lbroker \<Rightarrow> launch_end option" where
  "trade_and_settle s w now outcome b =
    (case session_cycle s w now b of
       ((_, _, _, b), Some e) \<Rightarrow> Some (Inl e, b)
     | ((x, t, a, b), None) \<Rightarrow>
         (let traded = traded_in (x, t, a, b);
              outcome = outcome\<lparr>lo_traded := traded, lo_reason := (if traded then None else Some NoDecision)\<rparr> in
          map_option (\<lambda>(b, e). (case e of None \<Rightarrow> Inr outcome | Some e \<Rightarrow> Inl e, b))
            (settle w (deadline_of s now) b)))"

definition warm_and_trade :: "live_session \<Rightarrow> world \<Rightarrow> timestamp \<Rightarrow> launch_outcome \<Rightarrow> lbroker \<Rightarrow> launch_end option" where
  "warm_and_trade s w now outcome b =
    (case ls_warm_up s of
       None \<Rightarrow> trade_and_settle s w now outcome b
     | Some warm_up \<Rightarrow>
         (case warm_up now of
            Inl e \<Rightarrow> Some (Inl e, b)
          | Inr warmed \<Rightarrow>
              (let outcome = outcome\<lparr>lo_signals_warmed := Some warmed\<rparr>;
                   starved = sort (map fst (filter (\<lambda>(a, n). n = 0) warmed)) in
               if starved \<noteq> [] then Some (Inr (outcome\<lparr>lo_reason := Some (NoSignalHistory starved)\<rparr>), b)
               else trade_and_settle s w now outcome b)))"

definition run_rebalance :: "live_session \<Rightarrow> world \<Rightarrow> timestamp \<Rightarrow> lbroker \<Rightarrow> launch_end option" where
  "run_rebalance s w now b =
    (case reconcile w True b of
       (Inl e, b) \<Rightarrow> Some (Inl e, b)
     | (Inr result, b) \<Rightarrow>
         (let outcome = \<lparr>lo_reconcile = result, lo_traded = False, lo_signals_warmed = None, lo_reason = None\<rparr> in
          if rr_halt_trading result then Some (Inr (outcome\<lparr>lo_reason := Some ReconciliationHalted\<rparr>), b)
          else (case check_can_trade (w_exists w (lb_asked b)) (lb_guard b) of
              Some (KillSwitchEngaged p) \<Rightarrow>
                Some (Inr (outcome\<lparr>lo_reason := Some (StoppedByGuard (KillSwitchEngaged p))\<rparr>), asked b)
            | Some e \<Rightarrow> Some (Inl e, asked b)
            | None \<Rightarrow>
                (let b = asked b in
                 if \<not> is_rebalance_day s now then Some (Inr (outcome\<lparr>lo_reason := Some NotARebalanceDay\<rparr>), b)
                 else if \<not> w_is_open w now then Some (Inr (outcome\<lparr>lo_reason := Some MarketClosed\<rparr>), b)
                 else (case live_update w now True b of
                     (b, Some e) \<Rightarrow> Some (Inl e, b)
                   | (b, None) \<Rightarrow> warm_and_trade s w now outcome b)))))"

text \<open>The launch after the close; the equity it returns is the one it recorded.\<close>

definition run_end_of_day :: "world \<Rightarrow> timestamp \<Rightarrow> lbroker \<Rightarrow> (exn + reconcile_result \<times> nan_rat) \<times> lbroker" where
  "run_end_of_day w now b =
    (case reconcile w False b of
       (Inl e, b) \<Rightarrow> (Inl e, b)
     | (Inr result, b) \<Rightarrow>
         (case then_do (live_update w now True b) (record_equity w) of
            (b, Some e) \<Rightarrow> (Inl e, b)
          | (b, None) \<Rightarrow> (Inr (result, the (map_of (live_account_equity b) ''master'')), b)))"

section \<open>One cycle of the session\<close>

text \<open>Whatever the mode, the cycle's effect on the account is one sizing and submission, or none.\<close>

lemma session_cycle_account:
  fixes s w now b
  defines "r \<equiv> session_cycle s w now b"
  shows "(\<not> ls_synchronous s \<and> \<not> ls_in_time s \<longrightarrow> snd (snd (snd (fst r))) = b \<and> snd r = None) \<and>
    (ls_synchronous s \<or> ls_in_time s \<longrightarrow>
      (case qts_decide_weights (ls_system s) now of
         Inl e \<Rightarrow> snd (snd (snd (fst r))) = b
       | Inr cmd \<Rightarrow> snd (snd (snd (fst r))) = fst (live_size_and_submit (ls_uid s) (ls_system s) w cmd b)))"
proof -
  have logs: "(\<forall>f e b. bh_on_error (live_handlers s w) = Some f \<longrightarrow> snd (f e b) = None) \<or> st_on_error (live_strategy s) = Some Some"
    by (simp add: live_handlers_def)
  have carried: "fst (carried (live_handlers s w) cmd t b) = fst (live_size_and_submit (ls_uid s) (ls_system s) w cmd b)" for cmd t
    by (auto simp: carried_def live_handlers_def Let_def split: option.split)
  have result: "fst (cycle_result (session_cycle s w now b)) =
      (case qts_decide_weights (ls_system s) now of Inl e \<Rightarrow> b
       | Inr cmd \<Rightarrow> fst (live_size_and_submit (ls_uid s) (ls_system s) w cmd b))"
    if "ls_synchronous s \<or> ls_in_time s"
  proof (cases "ls_synchronous s")
    case True
    then show ?thesis
      using sync_cycle [of "ls_in_time s" "live_handlers s w" "live_strategy s" now "()" b] sync_carried [OF logs, of now "()" b]
      by (auto simp: session_cycle_def live_strategy_def undecided_def carried split: sum.splits)
  next
    case False
    with that have "ls_in_time s" by simp
    with False threaded_cycle [of "live_handlers s w" "live_strategy s" now "()" b] show ?thesis
      by (auto simp: session_cycle_def live_strategy_def undecided_def strategy_exits_def carried split: sum.splits if_splits)
  qed
  then show ?thesis
    using overrun_cycle [of "live_handlers s w" "live_strategy s" now "()" b]
    by (auto simp: r_def session_cycle_def cycle_result_def split: sum.splits)
qed

lemma session_cycle_cases:
  obtains (idle) "snd (snd (snd (fst (session_cycle s w now b)))) = b"
  | (traded) cmd where "qts_decide_weights (ls_system s) now = Inr cmd" and "ls_synchronous s \<or> ls_in_time s"
      and "snd (snd (snd (fst (session_cycle s w now b)))) = fst (live_size_and_submit (ls_uid s) (ls_system s) w cmd b)"
  using session_cycle_account [of s w now b] that by (auto split: sum.splits)

section \<open>How a launch ends\<close>

definition after_cycle :: "live_session \<Rightarrow> world \<Rightarrow> timestamp \<Rightarrow> lbroker \<Rightarrow> lbroker" where
  "after_cycle s w now b = snd (snd (snd (fst (session_cycle s w now b))))"

lemma trade_and_settle_end:
  assumes "trade_and_settle s w now out b = Some (r, c)"
  shows "c = after_cycle s w now b \<or> (\<exists>e. settle w (deadline_of s now) (after_cycle s w now b) = Some (c, e))"
  using assms by (auto simp: trade_and_settle_def after_cycle_def Let_def split: prod.splits option.splits)

definition signals_ready :: "live_session \<Rightarrow> timestamp \<Rightarrow> bool" where
  "signals_ready s now \<longleftrightarrow> (case ls_warm_up s of None \<Rightarrow> True
     | Some warm_up \<Rightarrow> \<exists>warmed. warm_up now = Inr warmed \<and> (\<forall>(a, n) \<in> set warmed. 0 < n))"

lemma warm_and_trade_end:
  assumes "warm_and_trade s w now out b = Some (r, c)"
  shows "c = b \<or> signals_ready s now \<and> (\<exists>out'. trade_and_settle s w now out' b = Some (r, c))"
proof (cases "ls_warm_up s")
  case (Some warm_up)
  show ?thesis
  proof (cases "warm_up now")
    case (Inr warmed)
    show ?thesis
    proof (cases "filter (\<lambda>(a, n). n = 0) warmed = []")
      case True
      then have "signals_ready s now" using Some Inr by (fastforce simp: signals_ready_def filter_empty_conv)
      moreover have "sort (map fst (filter (\<lambda>(a, n). n = 0) warmed)) = []" using True by simp
      ultimately show ?thesis using assms Some Inr by (auto simp: warm_and_trade_def Let_def)
    next
      case False
      then have "sort (map fst (filter (\<lambda>(a, n). n = 0) warmed)) \<noteq> []"
        by (metis length_0_conv length_map length_sort)
      with assms Some Inr show ?thesis by (auto simp: warm_and_trade_def Let_def)
    qed
  qed (use assms Some in \<open>auto simp: warm_and_trade_def\<close>)
qed (use assms in \<open>auto simp: warm_and_trade_def signals_ready_def\<close>)

lemma run_rebalance_cases:
  assumes "run_rebalance s w now b = Some (r, c)"
  obtains (reconciled) "c = snd (reconcile w True b)"
  | (asked) res b1 where "reconcile w True b = (Inr res, b1)" and "c = asked b1"
  | (updated) res b1 where "reconcile w True b = (Inr res, b1)" and "c = fst (live_update w now True (asked b1))"
  | (traded) res b1 b2 where "reconcile w True b = (Inr res, b1)" and "\<not> rr_halt_trading res"
      and "check_can_trade (w_exists w (lb_asked b1)) (lb_guard b1) = None" and "is_rebalance_day s now"
      and "w_is_open w now" and "live_update w now True (asked b1) = ok b2" and "signals_ready s now"
      and "c = after_cycle s w now b2 \<or> (\<exists>e. settle w (deadline_of s now) (after_cycle s w now b2) = Some (c, e))"
proof (cases "reconcile w True b")
  case (Pair x b1)
  show ?thesis
  proof (cases x)
    case (Inl e)
    with Pair assms that(1) show ?thesis by (simp add: run_rebalance_def)
  next
    case (Inr res)
    note rec = Pair [unfolded Inr]
    show ?thesis
    proof (cases "rr_halt_trading res")
      case True
      with rec assms that(1) show ?thesis by (simp add: run_rebalance_def Let_def)
    next
      case False
      show ?thesis
      proof (cases "check_can_trade (w_exists w (lb_asked b1)) (lb_guard b1)")
        case (Some e)
        with rec False assms that(2) [OF rec] show ?thesis
          by (cases e) (auto simp: run_rebalance_def Let_def)
      next
        case None
        note gate = False None
        show ?thesis
        proof (cases "is_rebalance_day s now \<and> w_is_open w now")
          case False
          with rec gate assms that(2) [OF rec] show ?thesis
            by (auto simp: run_rebalance_def Let_def split: if_splits)
        next
          case True
          show ?thesis
          proof (cases "live_update w now True (asked b1)" rule: outcome_cases)
            case (ok b2)
            with rec gate True assms obtain out where "warm_and_trade s w now out b2 = Some (r, c)"
              by (auto simp: run_rebalance_def Let_def ok_def)
            from warm_and_trade_end [OF this] show ?thesis
            proof
              assume "c = b2"
              with that(3) [OF rec] ok show ?thesis by simp
            next
              assume "signals_ready s now \<and> (\<exists>out'. trade_and_settle s w now out' b2 = Some (r, c))"
              with trade_and_settle_end that(4) [OF rec gate] True ok show ?thesis by blast
            qed
          next
            case (raise e b2)
            with rec gate True assms that(3) [OF rec] show ?thesis
              by (auto simp: run_rebalance_def Let_def raise_def)
          qed
        qed
      qed
    qed
  qed
qed

section \<open>The launch as a run of the broker\<close>

text \<open>An order identifier stays unknown to the ledger until it is submitted.\<close>

definition unknown :: "string set \<Rightarrow> lbroker \<Rightarrow> bool" where
  "unknown ids b \<longleftrightarrow> (\<forall>oid \<in> ids. get_order oid (lb_ledger b) = None)"

lemma unknown_close: "unknown ids b \<Longrightarrow> unknown ids (close_order w no st why b)"
  by (cases rule: close_order_cases [of b no w st why]) (auto simp: unknown_def)

interpretation unknown: collecting w "\<lambda>b. unknown ids b \<and> lb_account b = acc" for w ids acc
  by unfold_locales (simp_all add: unknown_close, simp_all add: unknown_def)

lemma submit_unknown:
  assumes "unknown ids b" and "ord_id o' \<notin> ids"
  shows "unknown ids (fst (live_submit_order w pid o' b))" and "lb_account (fst (live_submit_order w pid o' b)) = lb_account b"
proof -
  obtain r c where m: "get_mark w (ord_asset o') (asked b) = (r, c)" by fastforce
  then have "lb_ledger c = lb_ledger b" "lb_account c = lb_account b"
    using get_mark_frame [of w "ord_asset o'" "asked b"] by simp_all
  with m assms show "unknown ids (fst (live_submit_order w pid o' b))"
      "lb_account (fst (live_submit_order w pid o' b)) = lb_account b"
    by (auto simp: live_submit_order_def engine_now_eq refuse_order_def place_order_def Let_def unknown_def
        get_order_intent split: sum.split option.split)
qed

lemma execution_reaches:
  assumes "distinct (map ord_id os)" and "unknown (ord_id ` set os) b" and "lb_account b = pid"
  shows "live_reaches w b (fst (for_each (live_submit_and_update w pid dt) os b))"
  using assms
proof (induction os arbitrary: b)
  case (Cons x os)
  let ?s = "live_submit_order w pid x b" and ?u = "live_update w dt False (fst (live_submit_order w pid x b))"
  have fresh: "get_order (ord_id x) (lb_ledger b) = None" "unknown (ord_id ` set os) b" "ord_id x \<notin> ord_id ` set os"
    using Cons.prems by (auto simp: unknown_def)
  have s: "live_reaches w b (fst ?s)"
    using live_step.submits [OF fresh(1), of w] Cons.prems(3) by auto
  then have u: "live_reaches w b (fst ?u)"
    using live_step.updates [of w "fst ?s" dt False] by (rule rtranclp.rtrancl_into_rtrancl)
  have "unknown (ord_id ` set os) (fst ?s) \<and> lb_account (fst ?s) = pid"
    using submit_unknown [OF fresh(2,3)] Cons.prems(3) by simp
  then have "unknown (ord_id ` set os) (fst ?u) \<and> lb_account (fst ?u) = pid" by (rule unknown.updated)
  then have rest: "live_reaches w (fst ?u) (fst (for_each (live_submit_and_update w pid dt) os (fst ?u)))"
    using Cons.IH Cons.prems(1) by simp
  have "live_submit_and_update w pid dt x b = then_do ?s (live_update w dt False)"
    by (simp add: live_submit_and_update_def)
  with s u rtranclp_trans [OF u rest] show ?case
    by (cases ?s rule: outcome_cases; cases ?u rule: outcome_cases) auto
qed simp

lemma size_each_reaches:
  "live_reaches w b (snd (live_size_each w f ws b)) \<and> lb_ledger (snd (live_size_each w f ws b)) = lb_ledger b \<and>
   lb_account (snd (live_size_each w f ws b)) = lb_account b \<and>
   (\<forall>t. fst (live_size_each w f ws b) = Inr t \<longrightarrow> map fst t = map fst ws)"
proof (induction ws arbitrary: b)
  case (Cons x ws)
  obtain a weight where x: "x = (a, weight)" by (cases x)
  obtain r c where m: "get_mark w a b = (r, c)" by fastforce
  have step: "live_reaches w b c" using live_step.marks [of w b a] m by auto
  have same: "lb_ledger c = lb_ledger b" "lb_account c = lb_account b" using get_mark_frame [of w a b] m by simp_all
  obtain r' d where rest: "live_size_each w f ws c = (r', d)" by fastforce
  with Cons.IH [of c] same have d: "live_reaches w c d" "lb_ledger d = lb_ledger b" "lb_account d = lb_account b"
      "\<And>t. r' = Inr t \<Longrightarrow> map fst t = map fst ws" by simp_all
  show ?case
  proof (cases r)
    case (Inr p)
    show ?thesis
    proof (cases "f (flat_feed p) a weight")
      case (Inr q)
      with \<open>r = Inr p\<close> m rest d rtranclp_trans [OF step d(1)] show ?thesis by (cases r') (simp_all add: x)
    qed (use Inr m step same in \<open>simp add: x\<close>)
  qed (use m step same in \<open>simp add: x\<close>)
qed simp

lemma size_portfolio_reaches:
  assumes "wf_dict ws"
  shows "live_reaches w b (snd (live_size_portfolio w sizer v dt ws b)) \<and>
   lb_ledger (snd (live_size_portfolio w sizer v dt ws b)) = lb_ledger b \<and>
   lb_account (snd (live_size_portfolio w sizer v dt ws b)) = lb_account b \<and>
   (\<forall>t. fst (live_size_portfolio w sizer v dt ws b) = Inr t \<longrightarrow> wf_dict t)"
proof -
  have keys: "distinct (map fst (sort_key fst ns))" if "map fst ns = map fst ws" for ns :: weights
    using that assms by (metis mset_sort mset_map mset_eq_imp_distinct_iff wf_dict_def)
  have dw: "map fst ns = map fst ws" if "dw_normalise_weights ws = Inr ns" for ns
    using that by (auto simp: dw_normalise_weights_def Let_def comp_def case_prod_unfold split: if_splits)
  have ls: "map fst (ls_normalise_weights g ws) = map fst ws" for g
    by (simp add: ls_normalise_weights_def Let_def comp_def case_prod_unfold)
  show ?thesis
  proof (cases sizer)
    case (DollarWeighted x1)
    then show ?thesis using size_each_reaches keys [OF dw]
      by (auto simp: wf_dict_def split: sum.split)
  next
    case (LongShort x2)
    then show ?thesis using size_each_reaches keys [OF ls]
      by (auto simp: wf_dict_def)
  qed
qed

definition ids_of :: "live_session \<Rightarrow> timestamp \<Rightarrow> string set" where
  "ids_of s dt = range (ls_uid s dt)"

text \<open>The session as the library assembles it, with order identifiers that are new (\<^verbatim>\<open>uuid4\<close>).\<close>

definition well_assembled :: "live_session \<Rightarrow> timestamp \<Rightarrow> lbroker \<Rightarrow> bool" where
  "well_assembled s now b \<longleftrightarrow> qts_portfolio (ls_system s) = lb_account b \<and> qts_algo (ls_system s) = market_order \<and>
    inj (ls_uid s now) \<and> unknown (ids_of s now) b"

lemma size_and_submit_reaches:
  assumes "well_assembled s now b" and "tw_dt cmd = now"
  shows "live_reaches w b (fst (live_size_and_submit (ls_uid s) (ls_system s) w cmd b))"
proof -
  let ?sys = "ls_system s"
  have a: "qts_portfolio ?sys = lb_account b" "qts_algo ?sys = market_order" "inj (ls_uid s now)" "unknown (ids_of s now) b"
    using assms(1) by (simp_all add: well_assembled_def)
  show ?thesis
  proof (cases "live_view (lb_account b) b")
    case (Inr v)
    define ws where "ws = full_asset_weights (obtain_full_asset_list (pcm_universe (qts_model ?sys)) v now) (as_dict cmd)"
    obtain r c where size: "live_size_portfolio w (pcm_sizer (qts_model ?sys)) v now ws b = (r, c)" by fastforce
    have c: "live_reaches w b c" "lb_ledger c = lb_ledger b" "lb_account c = lb_account b" "\<And>t. r = Inr t \<Longrightarrow> wf_dict t"
      using size_portfolio_reaches [of ws w b "pcm_sizer (qts_model ?sys)" v now] size
      by (simp_all add: ws_def wf_full_asset_weights)
    show ?thesis
    proof (cases r)
      case (Inl e)
      with c(1) size Inr assms(2) a(1) show ?thesis by (simp add: live_size_and_submit_def ws_def)
    next
      case (Inr target)
      let ?os = "generate_rebalance_orders (ls_uid s) now target (quantities (bv_holdings v))"
      have "distinct (map fst (sort_key fst target))" using c(4) [OF Inr] by (simp add: wf_dict_def distinct_map)
      then have keys: "distinct (map fst (filter (\<lambda>(a, t). t \<noteq> quantity_in (quantities (bv_holdings v)) a) (sort_key fst target)))"
          (is "distinct ?keys")
        by (rule distinct_filtered_keys)
      have ord: "map ord_id ?os = map (ls_uid s now) ?keys"
        by (simp add: rebalance_orders_eq new_order_def comp_def case_prod_unfold)
      have "inj_on (ls_uid s now) (set ?keys)" using a(3) by (rule inj_on_subset) simp
      with keys have "distinct (map ord_id ?os)" unfolding ord distinct_map by simp
      moreover have "set (map ord_id ?os) \<subseteq> ids_of s now" unfolding ord ids_of_def by auto
      ultimately have ids: "distinct (map ord_id ?os)" "ord_id ` set ?os \<subseteq> ids_of s now" by simp_all
      then have "unknown (ord_id ` set ?os) c" using a(4) c(2) by (auto simp: unknown_def)
      from execution_reaches [OF ids(1) this c(3), of w now] rtranclp_trans [OF c(1)]
      have "live_reaches w b (fst (for_each (live_submit_and_update w (lb_account b) now) ?os c))" by blast
      with c(1) show ?thesis
        using size Inr \<open>live_view (lb_account b) b = Inr v\<close> assms(2) a(1,2)
        by (simp add: live_size_and_submit_def ws_def live_execution_def market_order_def)
    qed
  qed (use a(1) in \<open>simp add: live_size_and_submit_def\<close>)
qed

lemma decided_at: "qts_decide_weights sys now = Inr cmd \<Longrightarrow> tw_dt cmd = now"
  by (auto simp: qts_decide_weights_def and_then_eq_Inr)

lemma after_cycle_reaches:
  assumes "well_assembled s now b"
  shows "live_reaches w b (after_cycle s w now b)"
proof (cases rule: session_cycle_cases [of s w now b])
  case (traded cmd)
  with size_and_submit_reaches [OF assms decided_at [OF traded(1)], of w] show ?thesis by (simp add: after_cycle_def)
qed (simp add: after_cycle_def)

lemma reconcile_unknown:
  assumes "unknown ids b"
  shows "unknown ids (snd (reconcile w h b)) \<and> lb_account (snd (reconcile w h b)) = lb_account b"
proof (rule reconcile_inv [where P = "\<lambda>c. unknown ids c \<and> lb_account c = lb_account b"])
  fix oid and c :: lbroker
  assume "unknown ids c \<and> lb_account c = lb_account b"
  then show "unknown ids (reject_orphan w oid c) \<and> lb_account (reject_orphan w oid c) = lb_account b"
    by (auto simp: unknown_def reject_orphan_def engine_now_eq)
qed (use assms in \<open>auto simp: unknown_close intro: unknown_close\<close>, auto simp: unknown_def)

lemma update_after_asking: "live_reaches w b (fst (live_update w dt force (asked b)))"
proof -
  have "live_reaches w b (asked b)" by (rule r_into_rtranclp) (rule live_step.asks)
  then show ?thesis by (rule rtranclp.rtrancl_into_rtrancl) (rule live_step.updates)
qed

text \<open>Everything a launch does after its reconciliation is a run of the broker.\<close>

lemma launch_reaches:
  assumes "run_rebalance s w now b = Some (r, c)" and "well_assembled s now b"
  shows "live_reaches w (snd (reconcile w True b)) c"
  using assms(1)
proof (cases rule: run_rebalance_cases)
  case (asked res b1)
  then show ?thesis using live_step.asks [of w b1] by auto
next
  case (updated res b1)
  with update_after_asking [of w b1 now True] show ?thesis by simp
next
  case (traded res b1 b2)
  have b2: "b2 = fst (live_update w now True (asked b1))" using traded(6) by simp
  have to_b2: "live_reaches w b1 b2"
    unfolding b2 by (rule update_after_asking)
  have "unknown (ids_of s now) b1 \<and> lb_account b1 = lb_account b"
    using reconcile_unknown [of "ids_of s now" b w True] assms(2) traded(1) by (simp add: well_assembled_def)
  then have "unknown (ids_of s now) (asked b1) \<and> lb_account (asked b1) = lb_account b" by (simp add: unknown_def)
  then have "unknown (ids_of s now) b2 \<and> lb_account b2 = lb_account b" unfolding b2 by (rule unknown.updated)
  then have "well_assembled s now b2" using assms(2) by (simp add: well_assembled_def)
  then have cycle: "live_reaches w b1 (after_cycle s w now b2)"
    using rtranclp_trans [OF to_b2] after_cycle_reaches by blast
  from traded(8) have "live_reaches w b1 c"
  proof
    assume "\<exists>e. settle w (deadline_of s now) (after_cycle s w now b2) = Some (c, e)"
    then obtain e where "settle w (deadline_of s now) (after_cycle s w now b2) = Some (c, e)" by blast
    from live_step.settles [OF this] show ?thesis by (simp add: rtranclp.rtrancl_into_rtrancl [OF cycle])
  qed (use cycle in simp)
  with traded(1) show ?thesis by simp
qed simp

text \<open>The numbers the venue gives are new: neither in the ledger it starts from, nor given twice.\<close>

definition issues_new_numbers :: "world \<Rightarrow> ledger \<Rightarrow> bool" where
  "issues_new_numbers w l \<longleftrightarrow> (\<forall>n a q no. w_place w n a q = Inr no \<longrightarrow>
    Some no \<notin> or_no ` set (l_orders l) \<and> (\<forall>m a' q'. n < m \<longrightarrow> w_place w m a' q' \<noteq> Inr no))"

lemma fresh_new_numbers:
  assumes "fresh_on b" and "lb_booked b = []" and "lb_charged b = []" and "issues_new_numbers w (lb_ledger b)"
  shows "new_numbers w b"
proof -
  have "Some no \<in> or_no ` set (l_orders (lb_ledger b))" if "no \<in> used_numbers b" for no
  proof -
    have "no \<in> fr_no ` set (l_fills (lb_ledger b))" using that assms(1-3) by (simp add: used_numbers_def fresh_on_def)
    then obtain r where r: "r \<in> set (l_fills (lb_ledger b))" "fr_no r = no" by blast
    then obtain x where "get_order (fr_id r) (lb_ledger b) = Some x" "or_no x = Some no"
      using assms(1) by (auto simp: fresh_on_def ledger_sound_def row_ok_def)
    then show ?thesis unfolding get_order_def by (metis find_Some_iff imageI nth_mem)
  qed
  with assms(4) show ?thesis unfolding new_numbers_def issues_new_numbers_def by blast
qed

lemma reconcile_new_numbers:
  assumes "new_numbers w b" and "issues_new_numbers w (lb_ledger b)"
  shows "new_numbers w (snd (reconcile w h b))"
proof (rule reconcile_inv [where P = "new_numbers w"])
  fix x no c assume x: "x \<in> set (get_open_orders (lb_ledger b))" "or_no x = Some no" "new_numbers w c"
  then have "Some no \<in> or_no ` set (l_orders (lb_ledger b))" by (force simp: get_open_orders_def)
  then have "w_place w n a q \<noteq> Inr no" for n a q using assms(2) unfolding issues_new_numbers_def by blast
  moreover have "used_numbers (watch_again x no c) \<subseteq> insert no (used_numbers c)"
    by (auto simp: watch_again_def Let_def used_numbers_def dict_keys_update_set)
  ultimately show "new_numbers w (watch_again x no c)"
    using x(3) unfolding new_numbers_def watch_again_fields by blast
next
  fix oid c assume "new_numbers w c"
  then show "new_numbers w (reject_orphan w oid c)"
    by (rule new_numbers_mono) (auto simp: used_numbers_def reject_orphan_def engine_now_eq)
next
  fix c assume "new_numbers w c"
  then show "new_numbers w (fst (seed_from_venue w c))"
    by (rule new_numbers_mono) (auto simp: used_numbers_def)
next
  fix c assume "new_numbers w c"
  then show "new_numbers w (set_trading_halted True c)"
    by (rule new_numbers_mono) (auto simp: used_numbers_def)
qed (use assms(1) numbers.poll numbers.swap numbers.close in auto)

lemma reconcile_ledger_sound:
  assumes "fresh_on b" and "prices_its_fills w"
  shows "ledger_sound (lb_ledger (snd (reconcile w h b)))"
proof (cases "for_each (recover_order w) (get_open_orders (lb_ledger b)) (([], []), b)" rule: outcome_cases)
  case (ok s)
  obtain f c where s: "s = (f, c)" by (cases s)
  have r: "recovering b (get_open_orders (lb_ledger b)) [] c"
    by (rule recovering_loop [OF ok [unfolded s] recovering_start [OF assms(1)] assms(2)])
  obtain d where d: "drain_fill_buffer w c = ok d"
    using follows_drain(2) [OF recoveringD(1) [OF r], of w] by (cases "drain_fill_buffer w c" rule: outcome_cases) auto
  then have rec: "recover_open_orders w b = ok (f, close_orders w FILLED None (fst f) d)"
    using ok s by (simp add: recover_open_orders_def)
  let ?e = "close_orders w FILLED None (fst f) d"
  have "recovered b (get_open_orders (lb_ledger b)) ?e" using recover_open_orders_result [OF rec assms] by simp
  then have "ledger_sound (lb_ledger ?e)"
    by (auto simp: recovered_def intro: in_step_ledger_sound followsD(1))
  moreover have "lb_ledger (snd (reconcile w h b)) = lb_ledger ?e"
    using seed_frame(1) [of w ?e] rec
    by (cases f; cases "seed_from_venue w ?e"; cases "snd (seed_from_venue w ?e)")
      (simp_all add: reconcile_def ok_def Let_def split: sum.split)
  ultimately show ?thesis by simp
next
  case (raise e s)
  obtain f c where s: "s = (f, c)" by (cases s)
  have "recover_open_orders w b = raise e (f, c)" using raise s by (simp add: recover_open_orders_def)
  then have "snd (reconcile w h b) = c" by (cases f) (simp add: reconcile_def raise_def)
  with recovering_loop_raise [OF raise [unfolded s] recovering_start [OF assms(1)] assms(2)] recovering_ledger_sound
  show ?thesis by auto
qed

section \<open>Properties\<close>

text \<open>
  C15. Nothing is sent unless everything allowed it. If a launch sends an order, its reconciliation
  went through without a finding, no stop was in force, the day is a trading day and a rebalance
  date, the market was open, every signal had a history, the strategy decided in time, and it is
  the sizing of that decision that sent it.
\<close>

theorem launch_sends_only_after_every_gate:
  assumes "run_rebalance s w now b = Some (r, c)" and "lb_sent c \<noteq> lb_sent b"
  shows "\<exists>res b1 b2 cmd. reconcile w True b = (Inr res, b1) \<and> \<not> rr_halt_trading res \<and>
    \<not> trading_halted b1 \<and> \<not> is_kill_switch_engaged (w_exists w (lb_asked b1)) (lb_guard b1) \<and>
    is_rebalance_day s now \<and> w_is_open w now \<and> signals_ready s now \<and> (ls_synchronous s \<or> ls_in_time s) \<and>
    live_update w now True (asked b1) = ok b2 \<and> qts_decide_weights (ls_system s) now = Inr cmd \<and>
    lb_sent c = lb_sent (fst (live_size_and_submit (ls_uid s) (ls_system s) w cmd b2))"
  using assms(1)
proof (cases rule: run_rebalance_cases)
  case reconciled
  with assms(2) show ?thesis by simp
next
  case (asked res b1)
  with assms(2) reconcile_sent [of w True b] show ?thesis by simp
next
  case (updated res b1)
  have "lb_sent c = lb_sent b1" using guarded.updated [of "asked b1" "lb_guard b1" "lb_sent b1" w now True] updated(2) by simp
  with updated(1) assms(2) reconcile_sent [of w True b] show ?thesis by simp
next
  case (traded res b1 b2)
  have b2: "lb_sent b2 = lb_sent b"
    using guarded.updated [of "asked b1" "lb_guard b1" "lb_sent b1" w now True] traded(1,6) reconcile_sent [of w True b] by simp
  have c: "lb_sent c = lb_sent (after_cycle s w now b2)"
    using traded(8)
  proof
    assume "\<exists>e. settle w (deadline_of s now) (after_cycle s w now b2) = Some (c, e)"
    then obtain e where e: "settle w (deadline_of s now) (after_cycle s w now b2) = Some (c, e)" by blast
    from guarded.settled [OF e, of "lb_guard (after_cycle s w now b2)" "lb_sent (after_cycle s w now b2)"]
    show ?thesis by simp
  qed simp
  show ?thesis
  proof (cases rule: session_cycle_cases [of s w now b2])
    case idle
    then have "after_cycle s w now b2 = b2" by (simp add: after_cycle_def)
    with c b2 assms(2) show ?thesis by simp
  next
    case (traded cmd)
    with \<open>check_can_trade (w_exists w (lb_asked b1)) (lb_guard b1) = None\<close>
    have "\<not> trading_halted b1" "\<not> is_kill_switch_engaged (w_exists w (lb_asked b1)) (lb_guard b1)"
      by (auto simp: check_can_trade_def trading_halted_def split: if_splits)
    moreover have "lb_sent c = lb_sent (fst (live_size_and_submit (ls_uid s) (ls_system s) w cmd b2))"
      using c traded(3) by (simp add: after_cycle_def)
    ultimately show ?thesis using \<open>reconcile w True b = (Inr res, b1)\<close> \<open>\<not> rr_halt_trading res\<close> \<open>is_rebalance_day s now\<close>
      \<open>w_is_open w now\<close> \<open>signals_ready s now\<close> \<open>live_update w now True (asked b1) = ok b2\<close> traded(1,2) by blast
  qed
qed

text \<open>
  C19. A launch returns. Whatever the venue answers and however often it fails, once the clock has
  passed the launch's deadline for good, the launch comes to its end: provided no answer about an
  order is an exit, which would end the poller's thread and leave settlement waiting for it.
\<close>

theorem every_launch_returns:
  assumes "w_clock w = Some clock" and "\<And>n. N \<le> n \<Longrightarrow> deadline_of s now \<le> clock n" and "answers_reports w"
  shows "\<exists>r. run_rebalance s w now b = Some r"
proof -
  have settles: "\<exists>r. settle w (deadline_of s now) b = Some r" for b
  proof -
    obtain r where "settle_loop w (deadline_of s now) True b = Some r"
      using settle_loop_returns [OF assms(1) _ assms(3), of N "deadline_of s now" b] assms(2) by metis
    then show ?thesis by (simp add: settle_def)
  qed
  have trades: "\<exists>r. trade_and_settle s w now out b = Some r" for out b
  proof -
    obtain x t a d e where "session_cycle s w now b = ((x, t, a, d), e)" by (metis prod.exhaust)
    with settles [of d] show ?thesis by (cases e) (auto simp: trade_and_settle_def Let_def split: prod.split)
  qed
  have "\<exists>r. warm_and_trade s w now out b = Some r" for out b
    using trades by (auto simp: warm_and_trade_def Let_def split: option.split sum.split)
  then show ?thesis
    by (auto simp: run_rebalance_def Let_def split: prod.split sum.split option.split exn.split)
qed

text \<open>
  C16. Whichever way a launch ends (settled, refused, stopped, or by an exception anywhere, also in
  the middle of its reconciliation), the ledger it leaves is one the next launch resumes from: what
  it says of each open order is what was booked of it, under a number no other open order has.
\<close>

theorem every_launch_leaves_a_sound_ledger:
  assumes "new_live_broker start account currency venue cv cm fee guard throttle l = ok b" and "ledger_sound l"
    and "run_rebalance s w now b = Some (r, c)" and "well_assembled s now b"
    and "prices_its_fills w" and "reports_holdings w" and "issues_new_numbers w (lb_ledger b)"
  shows "ledger_sound (lb_ledger c)"
proof -
  have fresh: "fresh_on b" using new_live_broker_fresh [OF assms(1,2)] by simp
  have "lb_booked b = []" "lb_charged b = []"
    using assms(1) by (auto simp: new_live_broker_def Let_def live_create_portfolio_def map_outcome_eq_ok)
  then have "new_numbers w (snd (reconcile w True b))"
    using reconcile_new_numbers [OF fresh_new_numbers [OF fresh _ _ assms(7)] assms(7)] by simp
  show ?thesis
  proof (cases "fst (reconcile w True b)")
    case (Inl e)
    with assms(3) have "c = snd (reconcile w True b)" by (auto simp: run_rebalance_def split: prod.splits)
    with reconcile_ledger_sound [OF fresh assms(5)] show ?thesis by simp
  next
    case (Inr res)
    then obtain b1 where rec: "reconcile w True b = (Inr res, b1)" by (cases "reconcile w True b") auto
    obtain rest: "at_rest b1" "all_watched {} b1"
      by (rule reconcile_from_fresh [OF rec fresh assms(5,6)])
    have run: "live_reaches w b1 c" using launch_reaches [OF assms(3,4)] rec by simp
    have new: "new_numbers w b1" using \<open>new_numbers w (snd (reconcile w True b))\<close> rec by simp
    note f = at_rest_follows [OF rest(1)]
    have "follows b1 c" using follows_reaches [OF run assms(5) new f] by simp
    moreover have "all_watched {} c" by (rule all_watched_reaches [OF run rest(2) new assms(5) f])
    ultimately show ?thesis by (intro in_step_ledger_sound followsD(1))
  qed
qed

section \<open>Witnesses\<close>

text \<open>The first launch of an account with five shares and 1000 in cash, all of it to be invested in one stock.\<close>

definition demo_session :: live_session where
  "demo_session = \<lparr>ls_system = \<lparr>qts_portfolio = ''live'',
       qts_model = \<lparr>pcm_universe = StaticUniverse [''EQ:A''], pcm_sizer = DollarWeighted 0, pcm_optimiser = FixedWeight,
         pcm_alpha = Some (fixed_signals [(''EQ:A'', 1)]), pcm_risk = None\<rparr>,
       qts_algo = market_order, qts_submit = True\<rparr>,
     ls_uid = \<lambda>dt a. ''first-'' @ a, ls_warm_up = Some (\<lambda>dt. Inr [(''EQ:A'', 20)]), ls_rebalance_dates = None,
     ls_time_budget = 20, ls_close_buffer = 10, ls_is_trading_day = \<lambda>dt. True, ls_close_time = 5000,
     ls_synchronous = True, ls_in_time = True\<rparr>"

definition demo_start :: lbroker where
  "demo_start = relaunch empty_ledger"

definition launch_report :: "launch_end option \<Rightarrow> (bool \<times> (symbol \<times> int) list) option" where
  "launch_report r = map_option (\<lambda>r. (case fst r of Inl e \<Rightarrow> False | Inr out \<Rightarrow> lo_traded out, lb_sent (snd r))) r"

lemma demo_launch: "launch_report (run_rebalance demo_session demo_world 1000 demo_start) = Some (True, [(''EQ:A'', 10)])"
  unfolding demo_session_def demo_start_def relaunch_def by code_simp

lemma demo_launch_ends:
  obtains r c where "run_rebalance demo_session demo_world 1000 demo_start = Some (r, c)" "lb_sent c = [(''EQ:A'', 10)]"
  using demo_launch by (cases "run_rebalance demo_session demo_world 1000 demo_start") (auto simp: launch_report_def)

lemma demo_start_new:
  "new_live_broker 0 ''live'' ''KRW'' None (Some ''kis'') (Some ''paper'') None None None empty_ledger = ok demo_start"
proof -
  have "snd (new_live_broker 0 ''live'' ''KRW'' None (Some ''kis'') (Some ''paper'') None None None empty_ledger) = None"
    by code_simp
  from relaunch_ok [OF this] show ?thesis by (simp add: demo_start_def)
qed

lemma demo_start_fields [simp]:
  "lb_sent demo_start = []" "l_orders (lb_ledger demo_start) = []" "lb_account demo_start = ''live''"
  by (simp_all add: demo_start_def relaunch_def new_live_broker_def Let_def live_create_portfolio_def stamp_identity_def
      get_identity_def insert_meta_def empty_ledger_def)

lemma demo_assembled: "well_assembled demo_session now demo_start"
  by (simp add: well_assembled_def demo_session_def unknown_def get_order_def inj_def)

lemma demo_numbers: "issues_new_numbers demo_world (lb_ledger demo_start)"
  by (auto simp: issues_new_numbers_def demo_world_def dest: arg_cong [where f = length])

lemma empty_ledger_sound: "ledger_sound empty_ledger"
  by (simp add: ledger_sound_def empty_ledger_def wf_orders_def get_open_orders_def)

theorem launch_sends_only_after_every_gate_witness:
  "\<exists>res b1. reconcile demo_world True demo_start = (Inr res, b1) \<and> \<not> rr_halt_trading res \<and>
     is_rebalance_day demo_session 1000 \<and> signals_ready demo_session 1000"
proof -
  obtain r c where run: "run_rebalance demo_session demo_world 1000 demo_start = Some (r, c)" "lb_sent c = [(''EQ:A'', 10)]"
    by (rule demo_launch_ends)
  then have "lb_sent c \<noteq> lb_sent demo_start" by simp
  from launch_sends_only_after_every_gate [OF run(1) this] show ?thesis by blast
qed

theorem every_launch_returns_witness: "\<exists>r. run_rebalance demo_session slow_world 1000 demo_start = Some r"
  by (rule every_launch_returns [where clock = "\<lambda>n. 1000 + int n" and N = 20])
    (auto simp: slow_world_def demo_world_def deadline_of_def demo_session_def Let_def min_def answers_reports_def)

theorem every_launch_leaves_a_sound_ledger_witness:
  "\<exists>r c. run_rebalance demo_session demo_world 1000 demo_start = Some (r, c) \<and>
     lb_sent c = [(''EQ:A'', 10)] \<and> ledger_sound (lb_ledger c)"
proof -
  obtain r c where run: "run_rebalance demo_session demo_world 1000 demo_start = Some (r, c)" "lb_sent c = [(''EQ:A'', 10)]"
    by (rule demo_launch_ends)
  from every_launch_leaves_a_sound_ledger [OF demo_start_new empty_ledger_sound run(1) demo_assembled
    demo_world_ok(1) demo_world_holdings demo_numbers] run show ?thesis by blast
qed

end
