(* ===== verification/Kis_Parse.thy ===== *)
theory Kis_Parse
  imports Live_Reconcile Py_Text
begin

text \<open>
  \<^verbatim>\<open>vmtrader/broker/kis/parse.py\<close>: the venue's response rows as engine values.

  A row is a dictionary of strings and nulls; what is no dictionary at all (\<^verbatim>\<open>hasattr(row, 'get')\<close>
  is false) is \<open>None\<close>. The text is Latin-1, one \<open>char\<close> a code point. The rules of \<^verbatim>\<open>str.strip\<close>,
  of \<^verbatim>\<open>float(text)\<close> and of \<^verbatim>\<open>int(float)\<close> are the language's; a parsed float is the exact value
  of its decimal text, with the ends of the range as the language has them: an overflow is an
  infinity, an underflow a zero.
\<close>

section \<open>Text\<close>

text \<open>The white space \<^verbatim>\<open>float\<close> skips does not have the four separators.\<close>

definition is_float_space :: "char \<Rightarrow> bool" where
  "is_float_space c \<longleftrightarrow> of_char c \<in> {9, 10, 11, 12, 13, 32, 133, 160 :: nat}"

definition without_commas :: "string \<Rightarrow> string" where
  "without_commas s = filter (\<lambda>c. c \<noteq> CHR '','') s"

section \<open>Floats\<close>

datatype pfloat = Finite rat | Infinity bool | NotANumber

definition is_digit :: "char \<Rightarrow> bool" where
  "is_digit c \<longleftrightarrow> 48 \<le> (of_char c :: nat) \<and> (of_char c :: nat) < 58"

definition digits_value :: "string \<Rightarrow> nat" where
  "digits_value = foldl (\<lambda>v c. 10 * v + (of_char c - 48)) 0"

text \<open>An underscore stands between two digits; \<open>prev\<close> is the character before.\<close>

fun underscores_ok :: "char \<Rightarrow> string \<Rightarrow> bool" where
  "underscores_ok prev [] \<longleftrightarrow> prev \<noteq> CHR ''_''"
| "underscores_ok prev (c # cs) \<longleftrightarrow>
     (if c = CHR ''_'' then is_digit prev else prev = CHR ''_'' \<longrightarrow> is_digit c) \<and> underscores_ok c cs"

definition split_sign :: "string \<Rightarrow> bool \<times> string" where
  "split_sign s = (case s of [] \<Rightarrow> (False, [])
     | c # cs \<Rightarrow> (if c = CHR ''-'' then (True, cs) else if c = CHR ''+'' then (False, cs) else (False, s)))"

definition exponent_of :: "string \<Rightarrow> int option" where
  "exponent_of s = (case s of [] \<Rightarrow> Some 0
     | c # cs \<Rightarrow> (let (neg, ds) = split_sign cs in
         if c \<in> {CHR ''e'', CHR ''E''} \<and> ds \<noteq> [] \<and> list_all is_digit ds
         then Some (if neg then - int (digits_value ds) else int (digits_value ds)) else None))"

definition decimal_of :: "string \<Rightarrow> rat option" where
  "decimal_of s =
    (let whole = takeWhile is_digit s; rest = dropWhile is_digit s;
         (frac, rest) = (case rest of c # cs \<Rightarrow> (if c = CHR ''.''
             then (takeWhile is_digit cs, dropWhile is_digit cs) else ([], rest)) | [] \<Rightarrow> ([], []))
     in if whole @ frac = [] then None
        else map_option (\<lambda>e. of_nat (digits_value (whole @ frac)) * 10 powi (e - int (length frac)))
          (exponent_of rest))"

definition in_range :: "rat \<Rightarrow> pfloat" where
  "in_range x = (if \<bar>x\<bar> \<ge> 2 ^ 1024 - 2 ^ 970 then Infinity (x < 0)
     else if \<bar>x\<bar> \<le> 1 / 2 ^ 1075 then Finite 0 else Finite x)"

definition float_of :: "string \<Rightarrow> pfloat option" where
  "float_of text =
    (let s = strip_by is_float_space text in
     if \<not> underscores_ok (CHR 0x00) s then None
     else (let (neg, body) = split_sign (filter (\<lambda>c. c \<noteq> CHR ''_'') s); word = ascii_lower body in
       if word = ''inf'' \<or> word = ''infinity'' then Some (Infinity neg)
       else if word = ''nan'' then Some NotANumber
       else map_option (\<lambda>x. in_range (if neg then - x else x)) (decimal_of body)))"

text \<open>\<^verbatim>\<open>int(x)\<close> truncates towards zero, and raises on what is no number.\<close>

definition int_of_float :: "pfloat \<Rightarrow> exn + int" where
  "int_of_float x = (case x of Finite r \<Rightarrow> Inr (if r < 0 then \<lceil>r\<rceil> else \<lfloor>r\<rfloor>)
     | Infinity _ \<Rightarrow> Inl OverflowError | NotANumber \<Rightarrow> Inl ValueError)"

text \<open>\<^verbatim>\<open>x <= 0.0\<close>: every comparison with Not-a-Number is false.\<close>

definition not_positive :: "pfloat \<Rightarrow> bool" where
  "not_positive x \<longleftrightarrow> (case x of Finite r \<Rightarrow> r \<le> 0 | Infinity neg \<Rightarrow> neg | NotANumber \<Rightarrow> False)"

section \<open>Rows and their fields\<close>

datatype field = Null | Text string

type_synonym kis_row = "(string, field) dict option"

definition str_of :: "field \<Rightarrow> string" where
  "str_of f = (case f of Null \<Rightarrow> ''None'' | Text t \<Rightarrow> t)"

text \<open>
  \<^verbatim>\<open>row.get(field)\<close>, which answers null where the field is absent, and raises where the row is
  no dictionary; and the guarded read of the numeric fields and of the order number.
\<close>

definition row_get :: "kis_row \<Rightarrow> string \<Rightarrow> field \<Rightarrow> exn + field" where
  "row_get row name dflt = (case row of None \<Rightarrow> Inl AttributeError
     | Some d \<Rightarrow> Inr (case map_of d name of None \<Rightarrow> dflt | Some f \<Rightarrow> f))"

definition guarded_get :: "kis_row \<Rightarrow> string \<Rightarrow> field" where
  "guarded_get row name = (case row_get row name Null of Inl _ \<Rightarrow> Null | Inr f \<Rightarrow> f)"

definition parse_number :: "kis_row \<Rightarrow> string \<Rightarrow> rat option \<Rightarrow> exn + pfloat" where
  "parse_number row name dflt =
    (let raw = guarded_get row name;
         text = (case raw of Null \<Rightarrow> [] | Text t \<Rightarrow> without_commas (strip t)) in
     if text = [] then (case dflt of None \<Rightarrow> Inl KisParseError | Some x \<Rightarrow> Inr (Finite x))
     else (case float_of text of None \<Rightarrow> Inl KisParseError | Some x \<Rightarrow> Inr x))"

definition parse_int :: "kis_row \<Rightarrow> string \<Rightarrow> int option \<Rightarrow> exn + int" where
  "parse_int row name dflt =
    and_then (parse_number row name (map_option of_int dflt)) int_of_float"

definition parse_float :: "kis_row \<Rightarrow> string \<Rightarrow> rat option \<Rightarrow> exn + pfloat" where
  "parse_float row name dflt = parse_number row name dflt"

section \<open>Symbols, prices and order numbers\<close>

definition symbol_prefix :: string where
  "symbol_prefix = ''EQ:''"

definition to_engine_symbol :: "field \<Rightarrow> exn + symbol" where
  "to_engine_symbol pdno = (let code = strip (str_of pdno) in
     if code = [] then Inl KisParseError else Inr (symbol_prefix @ code))"

definition to_venue_symbol :: "symbol \<Rightarrow> exn + string" where
  "to_venue_symbol s = (let text = strip s in
     if take (length symbol_prefix) text \<noteq> symbol_prefix then Inl KisParseError
     else (let code = drop (length symbol_prefix) text in
       if code = [] then Inl KisParseError else Inr code))"

definition parse_price :: "kis_row \<Rightarrow> exn + pfloat" where
  "parse_price row = and_then (parse_float row ''stck_prpr'' None)
     (\<lambda>price. if not_positive price then Inl KisParseError else Inr price)"

definition parse_order_no :: "kis_row \<Rightarrow> exn + string" where
  "parse_order_no row =
    (let raw = guarded_get row ''ODNO''; order_no = (case raw of Null \<Rightarrow> [] | Text t \<Rightarrow> strip t) in
     if order_no = [] then Inl KisParseError else Inr order_no)"

section \<open>Order reports\<close>

record kis_report =
  kr_no :: string
  kr_filled :: int
  kr_price :: pfloat
  kr_remaining :: int
  kr_rejected :: int
  kr_fees :: pfloat
  kr_done :: bool

text \<open>\<^verbatim>\<open>rows or []\<close>\<close>

definition rows_or_none :: "kis_row list option \<Rightarrow> kis_row list" where
  "rows_or_none rows = (case rows of None \<Rightarrow> [] | Some rs \<Rightarrow> rs)"

text \<open>\<^verbatim>\<open>str(row.get(name, '')).strip() == str(key).strip()\<close>\<close>

definition field_is :: "string \<Rightarrow> string \<Rightarrow> kis_row \<Rightarrow> exn + bool" where
  "field_is name key row = and_then (row_get row name (Text []))
     (\<lambda>f. Inr (strip (str_of f) = strip key))"

fun matching_rows :: "string \<Rightarrow> kis_row list \<Rightarrow> exn + kis_row list" where
  "matching_rows key [] = Inr []"
| "matching_rows key (row # rows) = and_then (field_is ''odno'' key row)
     (\<lambda>hit. and_then (matching_rows key rows) (\<lambda>rs. Inr (if hit then row # rs else rs)))"

definition parse_order_report :: "kis_row list option \<Rightarrow> string \<Rightarrow> exn + kis_report" where
  "parse_order_report rows order_no =
    and_then (matching_rows order_no (rows_or_none rows)) (\<lambda>matching.
      if matching = [] then Inr \<lparr>kr_no = order_no, kr_filled = 0, kr_price = Finite 0,
        kr_remaining = 0, kr_rejected = 0, kr_fees = Finite 0, kr_done = False\<rparr>
      else (let row = last matching in
        and_then (parse_int row ''tot_ccld_qty'' (Some 0)) (\<lambda>filled.
        and_then (parse_int row ''rmn_qty'' (Some 0)) (\<lambda>remaining.
        and_then (parse_int row ''rjct_qty'' (Some 0)) (\<lambda>rejected.
        and_then (parse_float row ''avg_prvs'' (Some 0)) (\<lambda>average.
        and_then (parse_float row ''prsm_tlex_smtl'' (Some 0)) (\<lambda>fees.
          Inr \<lparr>kr_no = order_no, kr_filled = filled, kr_price = average, kr_remaining = remaining,
            kr_rejected = rejected, kr_fees = fees, kr_done = remaining \<le> 0\<rparr>)))))))"

text \<open>The report as the broker takes it, where its two floats are numbers.\<close>

definition report_of :: "kis_report \<Rightarrow> order_report option" where
  "report_of r = (case (kr_price r, kr_fees r) of
     (Finite p, Finite f) \<Rightarrow> Some \<lparr>rp_no = kr_no r, rp_filled = kr_filled r, rp_price = p,
       rp_remaining = kr_remaining r, rp_rejected = kr_rejected r, rp_fees = f, rp_done = kr_done r\<rparr>
   | _ \<Rightarrow> None)"

section \<open>Balances, the calendar and the price history\<close>

record kis_holding =
  kh_symbol :: symbol
  kh_quantity :: int
  kh_price :: pfloat

fun parse_holding_rows :: "kis_row list \<Rightarrow> exn + kis_holding list" where
  "parse_holding_rows [] = Inr []"
| "parse_holding_rows (row # rows) =
     and_then (parse_int row ''hldg_qty'' (Some 0)) (\<lambda>quantity.
       if quantity = 0 then parse_holding_rows rows
       else and_then (row_get row ''pdno'' Null) (\<lambda>pdno.
         and_then (to_engine_symbol pdno) (\<lambda>s.
         and_then (parse_float row ''pchs_avg_pric'' (Some 0)) (\<lambda>price.
         and_then (parse_holding_rows rows) (\<lambda>hs.
           Inr (\<lparr>kh_symbol = s, kh_quantity = quantity, kh_price = price\<rparr> # hs))))))"

definition parse_holdings :: "kis_row list option \<Rightarrow> exn + kis_holding list" where
  "parse_holdings rows = parse_holding_rows (rows_or_none rows)"

record kis_balance =
  kb_cash :: pfloat
  kb_settled :: pfloat
  kb_equity :: pfloat
  kb_holdings :: "kis_holding list"

text \<open>The summary is one row, or a list of which the first row counts; an empty row is none.\<close>

datatype kis_summary = One_row kis_row | Many_rows "kis_row list"

definition summary_row :: "kis_summary \<Rightarrow> kis_row" where
  "summary_row out = (case out of One_row r \<Rightarrow> r
     | Many_rows rs \<Rightarrow> (case rs of [] \<Rightarrow> None | r # _ \<Rightarrow> r))"

definition parse_balance :: "kis_row list option \<Rightarrow> kis_summary \<Rightarrow> exn + kis_balance" where
  "parse_balance output1 output2 =
    (let summary = summary_row output2 in
     if summary = None \<or> summary = Some [] then Inl KisParseError
     else
       and_then (parse_float summary ''prvs_rcdl_excc_amt'' None) (\<lambda>cash.
       and_then (parse_float summary ''dnca_tot_amt'' (Some 0)) (\<lambda>settled.
       and_then (parse_float summary ''tot_evlu_amt'' (Some 0)) (\<lambda>equity.
       and_then (parse_holdings output1) (\<lambda>holdings.
         Inr \<lparr>kb_cash = cash, kb_settled = settled, kb_equity = equity, kb_holdings = holdings\<rparr>)))))"

fun trading_day_in :: "kis_row list \<Rightarrow> string \<Rightarrow> exn + bool" where
  "trading_day_in [] date = Inl KisParseError"
| "trading_day_in (row # rows) date = and_then (field_is ''bass_dt'' date row)
     (\<lambda>hit. if hit
        then and_then (row_get row ''opnd_yn'' (Text []))
          (\<lambda>f. Inr (upper (strip (str_of f)) = ''Y''))
        else trading_day_in rows date)"

definition parse_is_trading_day :: "kis_row list option \<Rightarrow> string \<Rightarrow> exn + bool" where
  "parse_is_trading_day rows date = trading_day_in (rows_or_none rows) date"

text \<open>
  The loop body of \<^verbatim>\<open>parse_daily_closes\<close>: the date and close a row gives, if it is usable. Only
  \<open>KisParseError\<close> is caught.
\<close>

definition usable_close :: "kis_row \<Rightarrow> exn + (string \<times> pfloat) option" where
  "usable_close row = and_then (row_get row ''stck_bsop_date'' (Text [])) (\<lambda>f.
     let date = strip (str_of f) in
     if date = [] then Inr None
     else (case parse_float row ''stck_clpr'' None of
         Inl e \<Rightarrow> (if e = KisParseError then Inr None else Inl e)
       | Inr close \<Rightarrow> (if not_positive close then Inr None else Inr (Some (date, close)))))"

fun collect_closes :: "kis_row list \<Rightarrow> (string, pfloat) dict \<Rightarrow> exn + (string, pfloat) dict" where
  "collect_closes [] closes = Inr closes"
| "collect_closes (row # rows) closes = and_then (usable_close row)
     (\<lambda>entry. collect_closes rows (case entry of None \<Rightarrow> closes
        | Some (date, close) \<Rightarrow> AList.update date close closes))"

definition parse_daily_closes :: "kis_row list option \<Rightarrow> exn + (string \<times> pfloat) list" where
  "parse_daily_closes rows = and_then (collect_closes (rows_or_none rows) [])
     (\<lambda>closes. Inr (map (\<lambda>date. (date, the (map_of closes date))) (sort (dict_keys closes))))"

section \<open>Text lemmas\<close>

lemma digit_plain:
  assumes "is_digit c"
  shows "c \<noteq> CHR ''_'' \<and> c \<noteq> CHR ''-'' \<and> c \<noteq> CHR ''+'' \<and> c \<noteq> CHR '','' \<and> c \<noteq> CHR ''.'' \<and>
    \<not> is_float_space c \<and> \<not> is_space c \<and> c \<noteq> CHR ''i'' \<and> c \<noteq> CHR ''n'' \<and> ascii_lower [c] = [c]"
  using assms by (auto simp: is_digit_def is_float_space_def is_space_def ascii_lower_def)

lemma nat_digits_digits: "list_all is_digit (nat_digits n)"
  using digit_range [of _ n] by (simp add: list_all_iff is_digit_def)

lemma nat_digits_ne: "nat_digits n \<noteq> []"
  by (simp add: nat_digits.simps [of n])

lemma digits_value_nat_digits: "digits_value (nat_digits n) = n"
  by (simp add: digits_value_def nat_digits_value)

section \<open>Printed integers are read back\<close>

lemma underscores_ok_plain: "CHR ''_'' \<notin> set s \<Longrightarrow> prev \<noteq> CHR ''_'' \<Longrightarrow> underscores_ok prev s"
  by (induction s arbitrary: prev) auto

lemma int_str_plain:
  shows "CHR ''_'' \<notin> set (int_str n)" and "CHR '','' \<notin> set (int_str n)" and "int_str n \<noteq> []"
    and "c \<in> set (int_str n) \<Longrightarrow> \<not> is_float_space c \<and> \<not> is_space c"
proof -
  have d: "is_digit c" if "c \<in> set (nat_digits m)" for c m
    using nat_digits_digits [of m] that by (simp add: list_all_iff)
  show "CHR ''_'' \<notin> set (int_str n)" "CHR '','' \<notin> set (int_str n)"
    by (auto simp: int_str_def dest!: d digit_plain)
  show "int_str n \<noteq> []" by (simp add: int_str_def nat_digits_ne)
  show "c \<in> set (int_str n) \<Longrightarrow> \<not> is_float_space c \<and> \<not> is_space c"
    using d [of c] digit_plain [of c]
    by (auto simp: int_str_def is_float_space_def is_space_def split: if_splits)
qed

lemma decimal_of_digits:
  assumes "list_all is_digit ds" and "ds \<noteq> []"
  shows "decimal_of ds = Some (of_nat (digits_value ds))"
proof -
  have "takeWhile is_digit ds = ds" "dropWhile is_digit ds = []" using assms(1) by (simp_all add: list_all_iff)
  with assms(2) show ?thesis unfolding decimal_of_def Let_def by (simp only:) (simp add: exponent_of_def)
qed

lemma not_a_word:
  assumes "list_all is_digit ds" and "ds \<noteq> []"
  shows "ascii_lower ds \<noteq> ''inf'' \<and> ascii_lower ds \<noteq> ''infinity'' \<and> ascii_lower ds \<noteq> ''nan''"
proof -
  obtain c cs where ds: "ds = c # cs" "is_digit c" using assms by (cases ds) auto
  have "ascii_lower ds = c # ascii_lower cs" using digit_plain [OF ds(2)] by (simp add: ds(1) ascii_lower_def)
  with digit_plain [OF ds(2)] show ?thesis by simp
qed

lemma split_sign_digits:
  assumes "list_all is_digit ds" and "ds \<noteq> []"
  shows "split_sign ds = (False, ds)" and "split_sign (CHR ''-'' # ds) = (True, ds)"
proof -
  obtain c cs where "ds = c # cs" "is_digit c" using assms by (cases ds) auto
  with digit_plain [of c] show "split_sign ds = (False, ds)" by (simp add: split_sign_def)
  show "split_sign (CHR ''-'' # ds) = (True, ds)" by (simp add: split_sign_def)
qed

lemma in_range_int:
  assumes "\<bar>n\<bar> \<le> 2 ^ 53"
  shows "in_range (of_int n) = Finite (of_int n)"
proof -
  have "\<bar>of_int n :: rat\<bar> \<le> of_int (2 ^ 53)" using assms by (simp only: of_int_abs [symmetric] of_int_le_iff)
  moreover have "of_int (2 ^ 53) < (2 ^ 1024 - 2 ^ 970 :: rat)" by simp
  ultimately have "\<not> \<bar>of_int n :: rat\<bar> \<ge> 2 ^ 1024 - 2 ^ 970" by linarith
  moreover have "n = 0 \<or> \<not> \<bar>of_int n :: rat\<bar> \<le> 1 / 2 ^ 1075"
  proof (cases "n = 0")
    case False
    then have "1 \<le> \<bar>n\<bar>" by simp
    then have "of_int 1 \<le> \<bar>of_int n :: rat\<bar>" by (simp only: of_int_abs [symmetric] of_int_le_iff)
    moreover have "(1 / 2 ^ 1075 :: rat) < 1" by simp
    ultimately show ?thesis by simp
  qed simp
  ultimately show ?thesis by (auto simp: in_range_def)
qed

lemma float_of_int_str:
  assumes "\<bar>n\<bar> \<le> 2 ^ 53"
  shows "float_of (int_str n) = Some (Finite (of_int n))"
proof -
  have "strip_by is_float_space (int_str n) = int_str n"
    using int_str_plain(4) [of "hd (int_str n)" n] int_str_plain(4) [of "last (int_str n)" n] int_str_plain(3) [of n]
    by (intro strip_by_idle) simp
  moreover have "underscores_ok (CHR 0x00) (int_str n)"
    by (rule underscores_ok_plain) (simp_all add: int_str_plain)
  moreover have "filter (\<lambda>c. c \<noteq> CHR ''_'') (int_str n) = int_str n"
    using int_str_plain(1) by (auto simp: filter_id_conv)
  moreover have "split_sign (int_str n) = (n < 0, nat_digits (nat \<bar>n\<bar>))"
    by (simp add: int_str_def split_sign_digits [OF nat_digits_digits nat_digits_ne])
  moreover have "(if n < 0 then - rat_of_nat (nat \<bar>n\<bar>) else of_nat (nat \<bar>n\<bar>)) = of_int n"
    by (simp add: of_nat_nat)
  ultimately show ?thesis
    using not_a_word [OF nat_digits_digits nat_digits_ne]
      decimal_of_digits [OF nat_digits_digits nat_digits_ne] in_range_int [OF assms]
    by (simp add: float_of_def digits_value_nat_digits del: of_nat_nat)
qed

lemma parse_number_printed:
  assumes "map_of row name = Some (Text t)" and "without_commas (strip t) = int_str n" and "\<bar>n\<bar> \<le> 2 ^ 53"
  shows "parse_number (Some row) name d = Inr (Finite (of_int n))"
  using assms by (simp add: parse_number_def guarded_get_def row_get_def int_str_plain float_of_int_str)

text \<open>
  C32. An integer the venue prints, padded with white space and grouped with commas as it likes,
  is read back as that integer, whatever default the caller gives. The bound is the one below
  which a float holds every integer, so that the model's exact number is the program's.
\<close>

theorem printed_integers_are_read_back:
  assumes "map_of row name = Some (Text (left @ printed @ right))"
    and "list_all is_space left" and "list_all is_space right"
    and "without_commas printed = int_str n" and "strip printed = printed" and "\<bar>n\<bar> \<le> 2 ^ 53"
  shows "parse_int (Some row) name dflt = Inr n \<and> parse_float (Some row) name fdflt = Inr (Finite (of_int n))"
proof -
  have "without_commas (strip (left @ printed @ right)) = int_str n"
    using assms(2-5) by (simp add: strip_padded)
  then have "parse_number (Some row) name d = Inr (Finite (of_int n))" for d
    by (rule parse_number_printed [OF assms(1) _ assms(6)])
  then show ?thesis by (simp add: parse_int_def parse_float_def int_of_float_def)
qed

theorem printed_integers_are_read_back_witness:
  "parse_int (Some [(''rmn_qty'', Text ''0''), (''tot_ccld_qty'', Text ''  -12,500 '')]) ''tot_ccld_qty'' (Some 0)
     = Inr (-12500)"
proof -
  have "int_str (-12500) = ''-12500''" by (simp add: int_str_def nat_digits.simps char_of_eq_iff)
  then show ?thesis
    using printed_integers_are_read_back [of "[(''rmn_qty'', Text ''0''), (''tot_ccld_qty'', Text ''  -12,500 '')]"
      "''tot_ccld_qty''" "''  ''" "''-12,500''" "'' ''" "-12500"]
    by (simp add: is_space_def without_commas_def strip_by_def)
qed

section \<open>Symbols\<close>

lemma prefix_not_space: "symbol_prefix \<noteq> []" "\<not> is_space (hd symbol_prefix)"
  by (simp_all add: symbol_prefix_def is_space_def)

lemma to_venue_symbol_engine: "c = strip c \<Longrightarrow> c \<noteq> [] \<Longrightarrow> to_venue_symbol (symbol_prefix @ c) = Inr c"
  using strip_prefix [of is_space c symbol_prefix] prefix_not_space by (simp add: to_venue_symbol_def)

text \<open>
  The two symbologies: every product code that is not blank has an engine symbol, the symbol
  is read back as the code without its padding, and writing that code again gives the symbol.
  What is no engine symbol (no prefix, or nothing after it) is refused.
\<close>

theorem symbols_round_trip:
  "(strip code \<noteq> [] \<longrightarrow> (\<exists>s. to_engine_symbol (Text code) = Inr s \<and> to_venue_symbol s = Inr (strip code) \<and>
      to_engine_symbol (Text (strip code)) = Inr s)) \<and>
   (strip code = [] \<longrightarrow> to_engine_symbol (Text code) = Inl KisParseError) \<and>
   (to_venue_symbol s = Inr c \<longleftrightarrow> c \<noteq> [] \<and> strip s = symbol_prefix @ c)"
proof -
  have "to_venue_symbol s = Inr c \<longleftrightarrow> c \<noteq> [] \<and> strip s = symbol_prefix @ c"
    by (auto simp: to_venue_symbol_def Let_def) (metis append_take_drop_id)
  then show ?thesis
    using to_venue_symbol_engine [of "strip code"]
    by (auto simp: to_engine_symbol_def Let_def str_of_def)
qed

theorem symbols_round_trip_witness:
  "\<exists>s. to_engine_symbol (Text '' 005930 '') = Inr s \<and> to_venue_symbol s = Inr ''005930'' \<and>
     to_venue_symbol ''005930'' \<noteq> Inr ''005930''"
proof -
  have "strip '' 005930 '' = ''005930''" "strip ''005930'' = ''005930''" by code_simp+
  then show ?thesis
    using symbols_round_trip [of "'' 005930 ''" "''005930''" "''005930''"] by (auto simp: symbol_prefix_def)
qed

section \<open>Balances\<close>

definition holding_of :: "kis_holding \<Rightarrow> venue_holding option" where
  "holding_of h = (case kh_price h of
     Finite p \<Rightarrow> Some \<lparr>vh_symbol = kh_symbol h, vh_quantity = kh_quantity h, vh_price = p\<rparr> | _ \<Rightarrow> None)"

definition balance_of :: "kis_balance \<Rightarrow> account_balance option" where
  "balance_of b = (case (kb_cash b, kb_settled b, kb_equity b) of
     (Finite c, Finite s, Finite e) \<Rightarrow> map_option (\<lambda>hs. \<lparr>ab_cash = c, ab_settled = s, ab_equity = e, ab_holdings = hs\<rparr>)
       (those (map holding_of (kb_holdings b)))
   | _ \<Rightarrow> None)"

text \<open>What a row of the balance says of the holding read from it, and the rows that are of any.\<close>

definition reads_holding :: "kis_row \<Rightarrow> venue_holding \<Rightarrow> bool" where
  "reads_holding row h \<longleftrightarrow> parse_int row ''hldg_qty'' (Some 0) = Inr (vh_quantity h) \<and> vh_quantity h \<noteq> 0 \<and>
     parse_float row ''pchs_avg_pric'' (Some 0) = Inr (Finite (vh_price h)) \<and>
     (\<exists>pdno. row_get row ''pdno'' Null = Inr pdno \<and> vh_symbol h = symbol_prefix @ strip (str_of pdno) \<and>
       to_venue_symbol (vh_symbol h) = Inr (strip (str_of pdno)))"

definition held_rows :: "kis_row list \<Rightarrow> kis_row list" where
  "held_rows rows = filter (\<lambda>row. parse_int row ''hldg_qty'' (Some 0) \<noteq> Inr 0) rows"

lemma holding_of_Some: "holding_of k = Some h \<longleftrightarrow>
    kh_symbol k = vh_symbol h \<and> kh_quantity k = vh_quantity h \<and> kh_price k = Finite (vh_price h)"
  by (cases h) (auto simp: holding_of_def split: pfloat.split)

lemma parse_holding_rows_read:
  assumes "parse_holding_rows rows = Inr ks" and "those (map holding_of ks) = Some hs"
  shows "list_all2 reads_holding (held_rows rows) hs"
  using assms
proof (induction rows arbitrary: ks hs)
  case (Cons row rows)
  obtain q where q: "parse_int row ''hldg_qty'' (Some 0) = Inr q"
    using Cons.prems(1) by (auto simp: and_then_eq_Inr)
  show ?case
  proof (cases "q = 0")
    case True
    with Cons q show ?thesis by (simp add: held_rows_def)
  next
    case False
    with Cons.prems(1) q obtain pdno s p rest where row: "row_get row ''pdno'' Null = Inr pdno"
        "to_engine_symbol pdno = Inr s" "parse_float row ''pchs_avg_pric'' (Some 0) = Inr p"
        "parse_holding_rows rows = Inr rest" "ks = \<lparr>kh_symbol = s, kh_quantity = q, kh_price = p\<rparr> # rest"
      by (auto simp: and_then_eq_Inr)
    with Cons.prems(2) obtain h hs' where h: "hs = h # hs'" "s = vh_symbol h" "q = vh_quantity h" "p = Finite (vh_price h)"
        "those (map holding_of rest) = Some hs'"
      by (auto simp: holding_of_Some split: option.splits)
    then have "reads_holding row h"
      using row(1-3) q False to_venue_symbol_engine [of "strip (str_of pdno)"]
      by (auto simp: reads_holding_def to_engine_symbol_def Let_def split: if_splits)
    moreover have "held_rows (row # rows) = row # held_rows rows" using q False by (simp add: held_rows_def)
    ultimately show ?thesis using Cons.IH [OF row(4) h(5)] h(1) by simp
  qed
qed (simp add: held_rows_def)

lemma list_all2_second: "list_all2 P xs ys \<Longrightarrow> y \<in> set ys \<Longrightarrow> \<exists>x \<in> set xs. P x y"
  by (induction rule: list_all2_induct) auto

text \<open>
  C31. Every balance the parser lets through says what its answer says and is one the engine can seed
  its books from. The cash is the projected figure of that answer's own summary, never a default;
  and the holdings are, one by one and in order, the rows whose quantity is not zero, each with its
  quantity and price and with the symbol the order endpoint takes back as the row's code. A venue
  whose balances are all parsed ones therefore keeps the promise reconciliation rests on.
\<close>

theorem parsed_balances_can_seed_the_books:
  assumes parsed: "\<And>n bal. w_balance w n = Inr bal \<Longrightarrow>
      \<exists>kb. parse_balance (out1 n) (out2 n) = Inr kb \<and> balance_of kb = Some bal"
  shows "reports_holdings w \<and>
    (\<forall>n bal. w_balance w n = Inr bal \<longrightarrow>
      list_all2 reads_holding (held_rows (rows_or_none (out1 n))) (ab_holdings bal) \<and>
      (\<exists>t. guarded_get (summary_row (out2 n)) ''prvs_rcdl_excc_amt'' = Text t \<and>
        float_of (without_commas (strip t)) = Some (Finite (ab_cash bal))))"
proof -
  have answer: "list_all2 reads_holding (held_rows (rows_or_none (out1 n))) (ab_holdings bal) \<and>
      (\<exists>t. guarded_get (summary_row (out2 n)) ''prvs_rcdl_excc_amt'' = Text t \<and>
        float_of (without_commas (strip t)) = Some (Finite (ab_cash bal)))" if ans: "w_balance w n = Inr bal" for n bal
  proof -
    obtain kb where kb: "parse_balance (out1 n) (out2 n) = Inr kb" "balance_of kb = Some bal"
      using parsed [OF ans] by blast
    have "parse_holding_rows (rows_or_none (out1 n)) = Inr (kb_holdings kb)"
      using kb(1) by (auto simp: parse_balance_def Let_def and_then_eq_Inr parse_holdings_def split: if_splits)
    moreover have "those (map holding_of (kb_holdings kb)) = Some (ab_holdings bal)"
      using kb(2) by (auto simp: balance_of_def split: pfloat.splits)
    moreover have "parse_float (summary_row (out2 n)) ''prvs_rcdl_excc_amt'' None = Inr (Finite (ab_cash bal))"
      using kb by (auto simp: parse_balance_def Let_def and_then_eq_Inr balance_of_def split: if_splits pfloat.splits)
    ultimately show ?thesis
      using parse_holding_rows_read
      by (auto simp: parse_float_def parse_number_def Let_def split: field.splits if_splits option.splits)
  qed
  then have "reports_holdings w"
    unfolding reports_holdings_def using list_all2_second by (metis reads_holding_def)
  with answer show ?thesis by blast
qed

text \<open>A venue that answers one balance, as its rows say it: five shares and a cash of 1000.\<close>

definition parsed_rows :: "kis_row list option \<times> kis_summary" where
  "parsed_rows =
    (Some [Some [(''pdno'', Text ''A ''), (''hldg_qty'', Text ''5''), (''pchs_avg_pric'', Text '' 90'')],
       Some [(''pdno'', Text ''B''), (''hldg_qty'', Text ''0'')]],
     Many_rows [Some [(''prvs_rcdl_excc_amt'', Text ''1,000'')]])"

definition parsed_world :: world where
  "parsed_world = demo_world\<lparr>w_balance := \<lambda>n. Inr \<lparr>ab_cash = 1000, ab_settled = 0, ab_equity = 0,
     ab_holdings = [\<lparr>vh_symbol = ''EQ:A'', vh_quantity = 5, vh_price = 90\<rparr>]\<rparr>\<rparr>"

lemma parsed_rows_balance:
  "parse_balance (fst parsed_rows) (snd parsed_rows) = Inr \<lparr>kb_cash = Finite 1000, kb_settled = Finite 0,
     kb_equity = Finite 0, kb_holdings = [\<lparr>kh_symbol = ''EQ:A'', kh_quantity = 5, kh_price = Finite 90\<rparr>]\<rparr>"
proof -
  have str: "int_str 1000 = ''1000''" "int_str 90 = ''90''" "int_str 5 = ''5''" "int_str 0 = ''0''"
    by (simp_all add: int_str_def nat_digits.simps char_of_eq_iff)
  have strip: "strip ''1,000'' = ''1,000''" "strip '' 90'' = ''90''" "strip ''5'' = ''5''" "strip ''0'' = ''0''"
      "strip ''A '' = ''A''"
    by code_simp+
  show ?thesis
    using float_of_int_str [of 1000] float_of_int_str [of 90] float_of_int_str [of 5] float_of_int_str [of 0]
    by (simp add: parse_balance_def parsed_rows_def summary_row_def parse_holdings_def rows_or_none_def parse_int_def
        parse_float_def parse_number_def guarded_get_def row_get_def to_engine_symbol_def str_of_def symbol_prefix_def
        int_of_float_def without_commas_def str strip)
qed

theorem parsed_balances_can_seed_the_books_witness:
  "reports_holdings parsed_world \<and> list_all2 reads_holding (held_rows (rows_or_none (fst parsed_rows)))
     [\<lparr>vh_symbol = ''EQ:A'', vh_quantity = 5, vh_price = 90\<rparr>]"
proof -
  have "\<exists>kb. parse_balance (fst parsed_rows) (snd parsed_rows) = Inr kb \<and> balance_of kb = Some bal"
    if "w_balance parsed_world n = Inr bal" for n bal
    using that parsed_rows_balance by (auto simp: parsed_world_def balance_of_def holding_of_def)
  from parsed_balances_can_seed_the_books [where w = parsed_world, OF this] show ?thesis
    by (auto simp: parsed_world_def)
qed

text \<open>
  A holding whose product code is missing or null is not refused: \<^verbatim>\<open>str(None)\<close> is its code.
\<close>

lemma missing_code_is_none: "to_engine_symbol Null = Inr ''EQ:None''"
proof -
  have "strip ''None'' = ''None''" by code_simp
  then show ?thesis by (simp add: to_engine_symbol_def str_of_def symbol_prefix_def)
qed

section \<open>The price history\<close>

text \<open>What the rows say, in their order: the date and close of each usable one.\<close>

definition usable_closes :: "kis_row list \<Rightarrow> (string \<times> pfloat) list" where
  "usable_closes rows = concat (map (\<lambda>row. case usable_close row of Inr (Some dc) \<Rightarrow> [dc] | _ \<Rightarrow> []) rows)"

lemma parse_number_error: "parse_number row name dflt = Inl e \<Longrightarrow> e = KisParseError"
  by (auto simp: parse_number_def Let_def split: if_splits option.splits)

lemma usable_close_dict: "\<exists>r. usable_close (Some d) = Inr r"
  by (auto simp: usable_close_def row_get_def Let_def parse_float_def dest: parse_number_error split: sum.splits)

lemma usable_close_Some:
  assumes "usable_close row = Inr (Some (date, close))"
  shows "date \<noteq> [] \<and> \<not> not_positive close"
  using assms by (auto simp: usable_close_def Let_def and_then_eq_Inr split: if_splits sum.splits)

lemma usable_closes_member:
  "dc \<in> set (usable_closes rows) \<Longrightarrow> \<exists>row \<in> set rows. usable_close row = Inr (Some dc)"
proof (induction rows)
  case (Cons row rows)
  then show ?case by (cases "usable_close row") (auto simp: usable_closes_def split: option.splits)
qed (simp add: usable_closes_def)

lemma collect_closes_eq:
  assumes "None \<notin> set rows"
  shows "collect_closes rows acc = Inr (dict_update acc (usable_closes rows))"
  using assms
proof (induction rows arbitrary: acc)
  case (Cons row rows)
  then obtain d where "row = Some d" by (cases row) auto
  moreover obtain r where "usable_close (Some d) = Inr r" using usable_close_dict by blast
  ultimately show ?case using Cons by (auto simp: usable_closes_def split: option.splits)
qed (simp add: usable_closes_def)

lemma collect_closes_None: "None \<in> set rows \<Longrightarrow> collect_closes rows acc = Inl AttributeError"
proof (induction rows arbitrary: acc)
  case (Cons row rows)
  show ?case
  proof (cases row)
    case None
    then show ?thesis by (simp add: usable_close_def row_get_def)
  next
    case (Some d)
    with Cons usable_close_dict [of d] show ?thesis by auto
  qed
qed simp

lemma map_of_dict_update_rev: "map_of (dict_update a b) = map_of a ++ map_of (rev b)"
  by (induction a b rule: dict_update.induct) (auto simp: map_add_def fun_eq_iff split: option.splits)

lemma map_of_keyed: "map_of (map (\<lambda>k. (k, f k)) ks) k = (if k \<in> set ks then Some (f k) else None)"
  by (induction ks) auto

text \<open>
  The price history: the dates are strictly increasing, each date's close is that of the last
  usable row of the date, and every date with a usable row is there; a usable close is positive
  or no number at all. The only thing that raises is an entry that is no row.
\<close>

theorem daily_closes_are_sorted_and_the_last_row_wins:
  assumes "None \<notin> set rows"
  shows "\<exists>closes. parse_daily_closes (Some rows) = Inr closes \<and>
    sorted_wrt (<) (map fst closes) \<and>
    map_of closes = map_of (rev (usable_closes rows)) \<and>
    (\<forall>(date, close) \<in> set closes. date \<noteq> [] \<and> \<not> not_positive close)"
proof -
  define m where "m = dict_update [] (usable_closes rows)"
  define closes where "closes = map (\<lambda>d. (d, the (map_of m d))) (sort (dict_keys m))"
  have run: "parse_daily_closes (Some rows) = Inr closes"
    by (simp add: parse_daily_closes_def rows_or_none_def collect_closes_eq [OF assms] m_def closes_def)
  have "wf_dict m" by (simp add: m_def wf_dict_dict_update)
  then have "sorted_wrt (<) (map fst closes)"
    by (simp add: closes_def comp_def strict_sorted_iff wf_dict_def)
  moreover have same: "map_of closes = map_of m"
  proof
    fix d
    have "d \<in> set (dict_keys m) \<longleftrightarrow> map_of m d \<noteq> None" by (simp add: map_of_eq_None_iff)
    then show "map_of closes d = map_of m d" by (cases "map_of m d") (simp_all add: closes_def map_of_keyed)
  qed
  then have usable: "map_of closes = map_of (rev (usable_closes rows))"
    by (simp add: m_def map_of_dict_update_rev)
  moreover have "date \<noteq> [] \<and> \<not> not_positive close" if "(date, close) \<in> set closes" for date close
  proof -
    have "distinct (map fst closes)"
      using \<open>wf_dict m\<close> by (simp add: closes_def comp_def wf_dict_def)
    then have "map_of closes date = Some close" using that by simp
    then have "(date, close) \<in> set (usable_closes rows)" using usable by (auto dest: map_of_SomeD)
    then show ?thesis by (auto dest: usable_closes_member usable_close_Some)
  qed
  ultimately show ?thesis using run by auto
qed

text \<open>Three rows of two days, one of them corrected.\<close>

definition demo_close :: "string \<Rightarrow> string \<Rightarrow> kis_row" where
  "demo_close date close = Some [(''stck_bsop_date'', Text date), (''stck_clpr'', Text close)]"

theorem daily_closes_are_sorted_and_the_last_row_wins_witness:
  "\<exists>closes. parse_daily_closes (Some [demo_close ''0103'' ''5'', demo_close ''0102'' ''nan'', demo_close ''0103'' '' '',
      demo_close ''0103'' ''6'']) = Inr closes \<and> sorted_wrt (<) (map fst closes) \<and>
     map_of closes ''0103'' = Some (Finite 6) \<and> map_of closes ''0102'' = Some NotANumber"
proof -
  let ?rows = "[demo_close ''0103'' ''5'', demo_close ''0102'' ''nan'', demo_close ''0103'' '' '', demo_close ''0103'' ''6'']"
  have "int_str 5 = ''5''" "int_str 6 = ''6''" by (simp_all add: int_str_def nat_digits.simps char_of_eq_iff)
  then have float: "float_of ''5'' = Some (Finite 5)" "float_of ''6'' = Some (Finite 6)"
    using float_of_int_str [of 5] float_of_int_str [of 6] by simp_all
  have nan: "float_of ''nan'' = Some NotANumber"
    by (simp add: float_of_def strip_by_def is_float_space_def is_digit_def split_sign_def ascii_lower_def)
  have strip: "strip ''0103'' = ''0103''" "strip ''0102'' = ''0102''" "strip ''5'' = ''5''" "strip ''6'' = ''6''"
      "strip ''nan'' = ''nan''" "strip '' '' = ''''"
    by code_simp+
  have row: "usable_close (demo_close d c) = (case parse_float (demo_close d c) ''stck_clpr'' None of
      Inl e \<Rightarrow> Inr None | Inr x \<Rightarrow> if not_positive x then Inr None else Inr (Some (d, x)))"
      if "strip d = d" "d \<noteq> []" for d c
    using that by (auto simp: usable_close_def demo_close_def row_get_def str_of_def Let_def parse_float_def
        dest: parse_number_error split: sum.splits)
  have number: "parse_float (demo_close d c) ''stck_clpr'' None = (if without_commas (strip c) = [] then Inl KisParseError
      else (case float_of (without_commas (strip c)) of None \<Rightarrow> Inl KisParseError | Some x \<Rightarrow> Inr x))" for d c
    by (simp add: parse_float_def parse_number_def guarded_get_def row_get_def demo_close_def)
  have "usable_closes ?rows = [(''0103'', Finite 5), (''0102'', NotANumber), (''0103'', Finite 6)]"
    by (simp add: usable_closes_def row number strip without_commas_def float nan not_positive_def)
  with daily_closes_are_sorted_and_the_last_row_wins [of ?rows] show ?thesis
    by (auto simp: demo_close_def)
qed

section \<open>A report without its price\<close>

lemma unpriced_report:
  assumes "parse_order_report rows no = Inr kr" and "matching_rows no (rows_or_none rows) = Inr (before @ [Some d])"
    and "guarded_get (Some d) ''avg_prvs'' = Null" and "report_of kr = Some report"
  shows "rp_price report = 0"
proof -
  have "parse_float (Some d) ''avg_prvs'' (Some 0) = Inr (Finite 0)"
    using assms(3) by (simp add: parse_float_def parse_number_def)
  with assms(1,2) have "kr_price kr = Finite 0"
    by (auto simp: parse_order_report_def Let_def and_then_eq_Inr)
  with assms(4) show ?thesis by (auto simp: report_of_def split: pfloat.splits)
qed

text \<open>
  A price that is missing from a quote raises; a price that is missing from a fill report does
  not. The report then says a price of zero, and the fill, booked into an account that does not
  hold the asset, puts its shares into the books for nothing but the fees.
\<close>

theorem unpriced_fill_is_booked_for_nothing:
  assumes "guarded_get quote ''stck_prpr'' = Null"
    and "parse_order_report rows no = Inr kr" and "matching_rows no (rows_or_none rows) = Inr (before @ [Some d])"
    and "guarded_get (Some d) ''avg_prvs'' = Null" and "report_of kr = Some report"
    and "fm_price fl = rp_price report" and "fm_filled fl = rp_filled report" and "fm_direction fl = 1"
    and "fm_portfolio fl = lb_account b" and "map_of (lb_portfolios b) (lb_account b) = Some p"
    and "pf_dt p \<le> lb_dt b" and "map_of (pf_positions p) (fm_symbol fl) = None"
    and "booked_of b (fm_no fl) < rp_filled report"
  shows "parse_price quote = Inl KisParseError \<and>
    (\<exists>c. book_fill w fl b = ok c \<and>
      live_held c (fm_symbol fl) = of_int (rp_filled report - booked_of b (fm_no fl)) \<and>
      live_cash c = live_cash b - (fm_fees fl - charged_of b (fm_no fl)))"
proof -
  define inc where "inc = fm_filled fl - booked_of b (fm_no fl)"
  define dt where "dt = engine_time w b"
  define t where "t = fill_transaction inc (fm_fees fl - charged_of b (fm_no fl)) dt fl"
  have inc: "0 < inc" using assms(7,13) by (simp add: inc_def)
  have t: "txn_dt t = dt" "txn_asset t = fm_symbol fl" "txn_quantity t = of_int inc" "txn_price t = 0"
      "txn_commission t = fm_fees fl - charged_of b (fm_no fl)"
    using assms(6,8) unpriced_report [OF assms(2-5)] by (simp_all add: t_def fill_transaction_def)
  have "pf_dt p \<le> dt" using assms(11) by (simp add: dt_def) (rule order_trans, auto)
  moreover have "transact_position t (pf_positions p) = ok (AList.update (fm_symbol fl) (open_from_transaction t) (pf_positions p))"
    using assms(12) inc t by (simp add: transact_position_def net_quantity_open)
  ultimately obtain q where q: "transact_asset t p = ok q" "pf_cash q = pf_cash p - cost_with_commission t"
      "pf_positions q = AList.update (fm_symbol fl) (open_from_transaction t) (pf_positions p)"
    using t(1) by (auto simp: transact_asset_ok)
  define c where "c = (asked b)\<lparr>lb_dt := dt, lb_portfolios := AList.update (lb_account b) q (lb_portfolios b),
      lb_booked := AList.update (fm_no fl) (fm_filled fl) (lb_booked b),
      lb_charged := AList.update (fm_no fl) (fm_fees fl) (lb_charged b)\<rparr>"
  have "book_fill w fl b = ok c"
    unfolding book_fill_def engine_now_eq Let_def prod.case
    using inc assms(9,10) q(1) by (simp add: on_live_portfolio_def c_def flip: inc_def dt_def t_def)
  moreover have "account_of c = q" "account_of b = p" using assms(10) by (simp_all add: account_of_def c_def)
  ultimately have "\<exists>c. book_fill w fl b = ok c \<and> live_held c (fm_symbol fl) = of_int inc \<and>
      live_cash c = live_cash b - (fm_fees fl - charged_of b (fm_no fl))"
    using q t by (intro exI [of _ c]) (simp add: live_held_def live_cash_def position_in_def net_quantity_open
        cost_with_commission_def cost_without_commission_def)
  moreover have "parse_price quote = Inl KisParseError"
    using assms(1) by (simp add: parse_price_def parse_float_def parse_number_def)
  ultimately show ?thesis using assms(7) by (simp add: inc_def)
qed

text \<open>The demonstration account buys four shares of an asset it does not hold.\<close>

definition unpriced_row :: "(string, field) dict" where
  "unpriced_row = [(''odno'', Text ''0007 ''), (''tot_ccld_qty'', Text ''4'')]"

definition unpriced_fill :: fill_msg where
  "unpriced_fill = \<lparr>fm_no = ''0007'', fm_id = ''id7'', fm_portfolio = ''live'', fm_symbol = ''EQ:B'',
     fm_direction = 1, fm_price = 0, fm_fees = 0, fm_filled = 4\<rparr>"

theorem unpriced_fill_is_booked_for_nothing_witness:
  "\<exists>c. book_fill demo_world unpriced_fill demo_live = ok c \<and> live_held c ''EQ:B'' = 4 \<and>
     live_cash c = live_cash demo_live"
proof -
  have four: "int_str 4 = ''4''" by (simp add: int_str_def nat_digits.simps char_of_eq_iff)
  have strip: "strip ''0007 '' = ''0007''" "strip ''0007'' = ''0007''" "strip ''4'' = ''4''" by code_simp+
  have int: "parse_int (Some unpriced_row) name (Some 0) = Inr (if name = ''tot_ccld_qty'' then 4 else 0)"
      if "name \<noteq> ''odno''" for name
    using that float_of_int_str [of 4] four strip(3)
    by (simp add: parse_int_def parse_number_def guarded_get_def row_get_def unpriced_row_def
        without_commas_def int_of_float_def)
  have float: "parse_float (Some unpriced_row) name (Some 0) = Inr (Finite 0)"
      if "name \<notin> {''odno'', ''tot_ccld_qty''}" for name
    using that by (simp add: parse_float_def parse_number_def guarded_get_def row_get_def unpriced_row_def)
  have matching: "matching_rows ''0007'' (rows_or_none (Some [Some unpriced_row])) = Inr ([] @ [Some unpriced_row])"
    using strip by (simp add: rows_or_none_def field_is_def row_get_def unpriced_row_def str_of_def)
  have parsed: "parse_order_report (Some [Some unpriced_row]) ''0007'' = Inr \<lparr>kr_no = ''0007'', kr_filled = 4,
      kr_price = Finite 0, kr_remaining = 0, kr_rejected = 0, kr_fees = Finite 0, kr_done = True\<rparr>"
    using matching by (simp add: parse_order_report_def int float)
  define kr where "kr = \<lparr>kr_no = ''0007'', kr_filled = 4, kr_price = Finite 0, kr_remaining = 0,
      kr_rejected = 0, kr_fees = Finite 0, kr_done = True\<rparr>"
  define report where "report = \<lparr>rp_no = ''0007'', rp_filled = 4, rp_price = 0, rp_remaining = 0,
      rp_rejected = 0, rp_fees = 0, rp_done = True\<rparr>"
  obtain p where p: "map_of (lb_portfolios demo_live) (lb_account demo_live) = Some p" "pf_dt p \<le> lb_dt demo_live"
      "map_of (pf_positions p) ''EQ:B'' = None"
    using demo_books_ok by (auto simp: demo_live_account books_ok_def)
  show ?thesis
    using unpriced_fill_is_booked_for_nothing [of None "Some [Some unpriced_row]" "''0007''" kr "[]" unpriced_row
        report unpriced_fill demo_live p demo_world] p parsed matching
    by (simp add: unpriced_fill_def kr_def report_def report_of_def guarded_get_def row_get_def demo_live_account
        booked_of_def charged_of_def) (simp add: unpriced_row_def demo_live_def)
qed

section \<open>What is no number\<close>

text \<open>
  The words \<^verbatim>\<open>nan\<close> and \<^verbatim>\<open>inf\<close> are numbers to \<^verbatim>\<open>float\<close>: a price of either kind is let through,
  and a quantity of either kind raises, but not the parse error the callers are told to expect.
\<close>

lemma words_as_numbers:
  "parse_price (Some [(''stck_prpr'', Text ''nan'')]) = Inr NotANumber"
  "parse_price (Some [(''stck_prpr'', Text ''inf'')]) = Inr (Infinity False)"
  "parse_int (Some [(''rmn_qty'', Text ''nan'')]) ''rmn_qty'' d = Inl ValueError"
  "parse_int (Some [(''rmn_qty'', Text ''inf'')]) ''rmn_qty'' d = Inl OverflowError"
proof -
  have "strip ''nan'' = ''nan''" "strip ''inf'' = ''inf''" by code_simp+
  moreover have "float_of ''nan'' = Some NotANumber" "float_of ''inf'' = Some (Infinity False)"
    by (simp_all add: float_of_def strip_by_def is_float_space_def is_digit_def split_sign_def ascii_lower_def)
  ultimately show "parse_price (Some [(''stck_prpr'', Text ''nan'')]) = Inr NotANumber"
      "parse_price (Some [(''stck_prpr'', Text ''inf'')]) = Inr (Infinity False)"
      "parse_int (Some [(''rmn_qty'', Text ''nan'')]) ''rmn_qty'' d = Inl ValueError"
      "parse_int (Some [(''rmn_qty'', Text ''inf'')]) ''rmn_qty'' d = Inl OverflowError"
    by (simp_all add: parse_price_def parse_int_def parse_float_def parse_number_def guarded_get_def row_get_def
        without_commas_def not_positive_def int_of_float_def)
qed

end
