(* ===== verification/Signals.thy ===== *)
theory Signals
  imports Portfolio_Construction Live_Ledger
begin

text \<open>
  Rolling signals: the price buffers of \<^verbatim>\<open>vmtrader/signals/buffer.py\<close>, the signals of
  \<^verbatim>\<open>signal.py\<close>, \<^verbatim>\<open>sma.py\<close>, \<^verbatim>\<open>momentum.py\<close> and \<^verbatim>\<open>vol.py\<close>, their collection
  (\<^verbatim>\<open>signals_collection.py\<close>) and the warm-up of a live launch (\<^verbatim>\<open>warmup.py\<close>).

  A signal hands its asset list to its buffers, which keep the same list object: the list is
  one field of the model, in the buffers. The order in which Python iterates over a set is the
  parameter \<open>perm\<close>. What \<^verbatim>\<open>pct_change\<close> does with a missing price depends on the pandas release
  (2.x carries the last price forward, 3.x does not), which is the parameter \<open>pads\<close>.
\<close>

section \<open>Price buffers\<close>

text \<open>\<^verbatim>\<open>deque(maxlen=n)\<close>: what is appended last stays.\<close>

definition last_n :: "nat \<Rightarrow> 'a list \<Rightarrow> 'a list" where
  "last_n n xs = drop (length xs - n) xs"

record deque =
  dq_maxlen :: int
  dq_items :: "nan_rat list"

definition dq_append :: "nan_rat \<Rightarrow> deque \<Rightarrow> deque" where
  "dq_append x d = d\<lparr>dq_items := last_n (nat (dq_maxlen d)) (dq_items d @ [x])\<rparr>"

record price_buffers =
  pb_assets :: "symbol list"
  pb_lookbacks :: "int list"
  pb_prices :: "(string, deque) dict"

definition asset_lookback_key :: "symbol \<Rightarrow> int \<Rightarrow> string" where
  "asset_lookback_key asset lookback = asset @ ''_'' @ int_str lookback"

definition single_asset_buffers :: "int list \<Rightarrow> symbol \<Rightarrow> exn + (string, deque) dict" where
  "single_asset_buffers lookbacks asset =
    (if \<exists>l \<in> set lookbacks. l < 0 then Inl ValueError
     else Inr (dict_update [] (map (\<lambda>l. (asset_lookback_key asset l, \<lparr>dq_maxlen = l, dq_items = []\<rparr>)) lookbacks)))"

fun all_assets_buffers :: "int list \<Rightarrow> symbol list \<Rightarrow> (string, deque) dict \<Rightarrow> exn + (string, deque) dict" where
  "all_assets_buffers lookbacks [] prices = Inr prices"
| "all_assets_buffers lookbacks (a # as) prices =
     and_then (single_asset_buffers lookbacks a)
       (\<lambda>new. all_assets_buffers lookbacks as (dict_update prices new))"

definition new_price_buffers :: "symbol list \<Rightarrow> int list \<Rightarrow> exn + price_buffers" where
  "new_price_buffers assets lookbacks =
    and_then (all_assets_buffers lookbacks assets []) (\<lambda>prices.
      Inr \<lparr>pb_assets = assets, pb_lookbacks = lookbacks, pb_prices = prices\<rparr>)"

definition create_buffers :: "symbol \<Rightarrow> price_buffers \<Rightarrow> price_buffers outcome" where
  "create_buffers asset b =
    with_result (single_asset_buffers (pb_lookbacks b) asset)
      (\<lambda>new. ok (b\<lparr>pb_prices := dict_update (pb_prices b) new\<rparr>)) b"

definition pb_add_asset :: "symbol \<Rightarrow> price_buffers \<Rightarrow> price_buffers outcome" where
  "pb_add_asset asset b =
    (if asset \<in> set (pb_assets b) then raise ValueError b else create_buffers asset b)"

definition push_price :: "symbol \<Rightarrow> nan_rat \<Rightarrow> int \<Rightarrow> price_buffers \<Rightarrow> price_buffers outcome" where
  "push_price asset price lookback b =
    (let key = asset_lookback_key asset lookback in
     case map_of (pb_prices b) key of
       None \<Rightarrow> raise KeyError b
     | Some d \<Rightarrow> ok (b\<lparr>pb_prices := AList.update key (dq_append price d) (pb_prices b)\<rparr>))"

definition pb_append :: "symbol \<Rightarrow> nan_rat \<Rightarrow> price_buffers \<Rightarrow> price_buffers outcome" where
  "pb_append asset price b =
    (if (case price of Some p \<Rightarrow> p \<le> 0 | None \<Rightarrow> False) then raise ValueError b
     else (case pb_lookbacks b of
         [] \<Rightarrow> raise IndexError b
       | l # _ \<Rightarrow>
           then_do (if map_of (pb_prices b) (asset_lookback_key asset l) = None
                    then create_buffers asset b else ok b)
             (for_each (push_price asset price) (pb_lookbacks b))))"

section \<open>Signals\<close>

datatype signal_kind = SMASignal | MomentumSignal | VolatilitySignal

record price_signal =
  sg_kind :: signal_kind
  sg_universe :: asset_universe
  sg_buffers :: price_buffers

text \<open>\<^verbatim>\<open>__init__\<close> of the three signals: those on returns need one price more than returns.\<close>

definition stored_lookback :: "signal_kind \<Rightarrow> int \<Rightarrow> int" where
  "stored_lookback kind l = (if kind = SMASignal then l else l + 1)"

definition new_signal :: "signal_kind \<Rightarrow> timestamp \<Rightarrow> asset_universe \<Rightarrow> int list \<Rightarrow> exn + price_signal" where
  "new_signal kind start_dt u lookbacks =
    and_then (new_price_buffers (get_assets u start_dt) (map (stored_lookback kind) lookbacks))
      (\<lambda>b. Inr \<lparr>sg_kind = kind, sg_universe = u, sg_buffers = b\<rparr>)"

definition sg_assets :: "price_signal \<Rightarrow> symbol list" where
  "sg_assets s = pb_assets (sg_buffers s)"

definition sg_append :: "symbol \<Rightarrow> nan_rat \<Rightarrow> price_signal \<Rightarrow> price_signal outcome" where
  "sg_append asset price s = map_outcome (\<lambda>b. s\<lparr>sg_buffers := b\<rparr>) (pb_append asset price (sg_buffers s))"

definition update_assets :: "(symbol list \<Rightarrow> symbol list) \<Rightarrow> timestamp \<Rightarrow> price_signal \<Rightarrow> price_signal" where
  "update_assets perm dt s =
    (let extra = perm (remdups (filter (\<lambda>a. a \<notin> set (sg_assets s)) (get_assets (sg_universe s) dt))) in
     s\<lparr>sg_buffers := (sg_buffers s)\<lparr>pb_assets := sg_assets s @ extra\<rparr>\<rparr>)"

definition window :: "price_signal \<Rightarrow> symbol \<Rightarrow> int \<Rightarrow> exn + nan_rat list" where
  "window s asset lookback =
    (case map_of (pb_prices (sg_buffers s)) (asset_lookback_key asset (stored_lookback (sg_kind s) lookback)) of
       None \<Rightarrow> Inl KeyError | Some d \<Rightarrow> Inr (dq_items d))"

text \<open>\<^verbatim>\<open>np.mean\<close>: of nothing, and of anything with a NaN in it, it is NaN.\<close>

definition np_mean :: "nan_rat list \<Rightarrow> nan_rat" where
  "np_mean xs = (if xs = [] then None else map_option (\<lambda>s. s / of_nat (length xs)) (nan_sum xs))"

text \<open>\<^verbatim>\<open>series.pct_change().dropna()\<close>\<close>

fun forward_fill :: "nan_rat \<Rightarrow> nan_rat list \<Rightarrow> nan_rat list" where
  "forward_fill prev [] = []"
| "forward_fill prev (x # xs) =
     (let v = (case x of None \<Rightarrow> prev | Some _ \<Rightarrow> x) in v # forward_fill v xs)"

fun changes :: "nan_rat list \<Rightarrow> rat list" where
  "changes (x # y # xs) = (case (x, y) of (Some a, Some b) \<Rightarrow> (b / a - 1) # changes (y # xs)
     | _ \<Rightarrow> changes (y # xs))"
| "changes _ = []"

definition pct_change :: "bool \<Rightarrow> nan_rat list \<Rightarrow> rat list" where
  "pct_change pads xs = changes (if pads then forward_fill None xs else xs)"

text \<open>\<^verbatim>\<open>(np.cumprod(1.0 + returns) - 1.0)[-1]\<close>\<close>

definition cumulative_return :: "rat list \<Rightarrow> rat" where
  "cumulative_return returns = (if returns = [] then 0 else prod_list (map (\<lambda>r. 1 + r) returns) - 1)"

definition np_var :: "rat list \<Rightarrow> rat" where
  "np_var xs = (let m = sum_list xs / of_nat (length xs) in
     sum_list (map (\<lambda>x. (x - m) ^ 2) xs) / of_nat (length xs))"

definition annualised_vol :: "rat list \<Rightarrow> real" where
  "annualised_vol returns = (if returns = [] then 0 else sqrt (of_rat (np_var returns)) * sqrt 252)"

text \<open>\<^verbatim>\<open>__call__\<close> of the three kinds.\<close>

definition sma_value :: "price_signal \<Rightarrow> symbol \<Rightarrow> int \<Rightarrow> exn + nan_rat" where
  "sma_value s asset lookback = and_then (window s asset lookback) (\<lambda>xs. Inr (np_mean xs))"

definition momentum_value :: "bool \<Rightarrow> price_signal \<Rightarrow> symbol \<Rightarrow> int \<Rightarrow> exn + rat" where
  "momentum_value pads s asset lookback =
    and_then (window s asset lookback) (\<lambda>xs. Inr (cumulative_return (pct_change pads xs)))"

definition vol_value :: "bool \<Rightarrow> price_signal \<Rightarrow> symbol \<Rightarrow> int \<Rightarrow> exn + real" where
  "vol_value pads s asset lookback =
    and_then (window s asset lookback) (\<lambda>xs. Inr (annualised_vol (pct_change pads xs)))"

section \<open>The collection\<close>

text \<open>Each name has a signal object of its own.\<close>

record signals_collection =
  sc_signals :: "(string, price_signal) dict"
  sc_warmup :: int

definition append_to :: "string \<Rightarrow> symbol \<Rightarrow> nan_rat \<Rightarrow> signals_collection \<Rightarrow> signals_collection outcome" where
  "append_to name asset price c =
    (case map_of (sc_signals c) name of
       None \<Rightarrow> raise KeyError c
     | Some s \<Rightarrow> map_outcome (\<lambda>s. c\<lparr>sc_signals := AList.update name s (sc_signals c)\<rparr>) (sg_append asset price s))"

definition update_signal :: "price_feed \<Rightarrow> timestamp \<Rightarrow> string \<times> price_signal \<Rightarrow> signals_collection
    \<Rightarrow> signals_collection outcome" where
  "update_signal feed dt entry =
    for_each (\<lambda>asset. append_to (fst entry) asset (feed_mid feed dt asset)) (sg_assets (snd entry))"

definition update_signals :: "(symbol list \<Rightarrow> symbol list) \<Rightarrow> price_feed \<Rightarrow> timestamp \<Rightarrow> signals_collection
    \<Rightarrow> signals_collection outcome" where
  "update_signals perm feed dt c =
    (let signals = map (\<lambda>(name, s). (name, update_assets perm dt s)) (sc_signals c) in
     then_do (for_each (update_signal feed dt) signals (c\<lparr>sc_signals := signals\<rparr>))
       (\<lambda>c. ok (c\<lparr>sc_warmup := sc_warmup c + 1\<rparr>)))"

section \<open>Warming up\<close>

text \<open>\<open>7 / 4\<close> is \<^verbatim>\<open>CALENDAR_DAYS_PER_TRADING_DAY\<close>, \<open>10\<close> is \<^verbatim>\<open>EXTRA_CALENDAR_DAYS\<close>.\<close>

definition required_calendar_days :: "int \<Rightarrow> int" where
  "required_calendar_days lookback = py_int (of_int lookback * (7 / 4)) + 10"

text \<open>
  A frame of closes: a column of values per asset, the dates in order. The historical accessor
  of the data handler is a parameter.
\<close>

type_synonym closes_frame = "(symbol \<times> nan_rat list) list"
type_synonym history_of = "timestamp \<Rightarrow> timestamp \<Rightarrow> symbol list \<Rightarrow> bool \<Rightarrow> exn + closes_frame option"

definition frame_empty :: "closes_frame \<Rightarrow> bool" where
  "frame_empty f \<longleftrightarrow> (\<forall>(a, xs) \<in> set f. xs = [])"

definition warm_assets :: "signals_collection \<Rightarrow> symbol list" where
  "warm_assets c = sort (remdups (concat (map (\<lambda>(name, s). sg_assets s) (sc_signals c))))"

definition longest_lookbacks :: "signals_collection \<Rightarrow> int list" where
  "longest_lookbacks c = concat (map (\<lambda>(name, s). if pb_lookbacks (sg_buffers s) = [] then []
     else [Max (set (pb_lookbacks (sg_buffers s)))]) (sc_signals c))"

definition longest_lookback :: "signals_collection \<Rightarrow> int" where
  "longest_lookback c = (if longest_lookbacks c = [] then 0 else Max (set (longest_lookbacks c)))"

definition warm_price :: "symbol \<Rightarrow> rat \<Rightarrow> signals_collection \<Rightarrow> signals_collection outcome" where
  "warm_price asset price c =
    for_each (\<lambda>(name, s). append_to name asset (Some price))
      (filter (\<lambda>(name, s). asset \<in> set (sg_assets s)) (sc_signals c)) c"

text \<open>The closes of a column that are used: \<^verbatim>\<open>dropna().tail(lookback)\<close>, and of those the positive.\<close>

definition warming_prices :: "int \<Rightarrow> nan_rat list \<Rightarrow> rat list" where
  "warming_prices lookback xs =
    filter (\<lambda>p. 0 < p) (last_n (nat lookback) (map the (filter (\<lambda>x. x \<noteq> None) xs)))"

definition warm_asset :: "int \<Rightarrow> closes_frame \<Rightarrow> symbol \<Rightarrow> signals_collection \<times> (symbol, int) dict
    \<Rightarrow> (signals_collection \<times> (symbol, int) dict) outcome" where
  "warm_asset lookback closes asset st =
    (case map_of closes asset of
       None \<Rightarrow> ok (fst st, AList.update asset 0 (snd st))
     | Some xs \<Rightarrow>
         (let prices = warming_prices lookback xs in
          then_do (map_outcome (\<lambda>c. (c, snd st)) (for_each (warm_price asset) prices (fst st)))
            (\<lambda>st. ok (fst st, AList.update asset (int (length prices)) (snd st)))))"

definition warm_up_signals :: "history_of \<Rightarrow> timestamp \<Rightarrow> bool \<Rightarrow> signals_collection
    \<Rightarrow> (signals_collection \<times> (symbol, int) dict) outcome" where
  "warm_up_signals history end_dt adjusted c =
    (let assets = warm_assets c; lookback = longest_lookback c;
         start = end_dt - required_calendar_days lookback * ns_per_day in
     if assets = [] then ok (c, [])
     else if lookback \<le> 0 then ok (c, [])
     else (case history start end_dt assets adjusted of
         Inl e \<Rightarrow> raise e (c, [])
       | Inr None \<Rightarrow> ok (c, map (\<lambda>a. (a, 0)) assets)
       | Inr (Some closes) \<Rightarrow>
           if frame_empty closes then ok (c, map (\<lambda>a. (a, 0)) assets)
           else then_do (for_each (warm_asset lookback closes) assets (c, []))
             (\<lambda>st. ok ((fst st)\<lparr>sc_warmup := sc_warmup (fst st) +
                (if snd st = [] then 0 else Min (set (map snd (snd st))))\<rparr>, snd st))))"

section \<open>Sliding windows\<close>

lemma last_n_rev: "last_n n xs = rev (take n (rev xs))"
  by (simp add: last_n_def take_rev)

lemma last_n_last_n: "k \<le> n \<Longrightarrow> last_n k (last_n n xs) = last_n k xs"
  by (simp add: last_n_rev min_absorb1)

lemma last_n_append: "last_n n (last_n n xs @ ys) = last_n n (xs @ ys)"
  by (simp add: last_n_rev min_def)

lemma last_n_all: "length xs \<le> n \<Longrightarrow> last_n n xs = xs"
  by (simp add: last_n_def)

lemma length_last_n [simp]: "length (last_n n xs) = min n (length xs)"
  by (auto simp: last_n_def)

lemma set_last_n: "x \<in> set (last_n n xs) \<Longrightarrow> x \<in> set xs"
  by (auto simp: last_n_def dest: in_set_dropD)

lemma map_last_n: "map f (last_n n xs) = last_n n (map f xs)"
  by (simp add: last_n_def drop_map)

text \<open>
  What the signals rely on: a store with a window per key and lookback, into which values are
  pushed. Pushing a whole history leaves the end of it in each window.
\<close>

locale sliding_windows =
  fixes view :: "'b \<Rightarrow> 'k \<Rightarrow> nat \<Rightarrow> 'x list"
    and push :: "'k \<Rightarrow> 'x \<Rightarrow> 'b \<Rightarrow> 'b"
    and good :: "'b \<Rightarrow> bool"
    and sizes :: "'b \<Rightarrow> 'k \<Rightarrow> nat set"
    and valid :: "'x \<Rightarrow> bool"
  assumes push_good: "good b \<Longrightarrow> valid x \<Longrightarrow> good (push k x b) \<and> sizes (push k x b) = sizes b"
    and push_view: "good b \<Longrightarrow> valid x \<Longrightarrow> n \<in> sizes b j \<Longrightarrow>
      view (push k x b) j n = (if j = k then last_n n (view b j n @ [x]) else view b j n)"
    and view_fits: "good b \<Longrightarrow> n \<in> sizes b j \<Longrightarrow> length (view b j n) \<le> n"
begin

definition push_all :: "('k \<times> 'x) list \<Rightarrow> 'b \<Rightarrow> 'b" where
  "push_all kxs b = fold (\<lambda>(k, x). push k x) kxs b"

lemma push_all_good:
  "good b \<Longrightarrow> \<forall>(k, x) \<in> set kxs. valid x \<Longrightarrow> good (push_all kxs b) \<and> sizes (push_all kxs b) = sizes b"
proof (induction kxs arbitrary: b)
  case (Cons e kxs)
  then show ?case using push_good by (cases e) (simp add: push_all_def)
qed (simp add: push_all_def)

lemma push_all_view:
  assumes "good b" and "\<forall>(k, x) \<in> set kxs. valid x" and "n \<in> sizes b k"
  shows "view (push_all kxs b) k n = last_n n (view b k n @ map snd (filter (\<lambda>e. fst e = k) kxs))"
  using assms
proof (induction kxs arbitrary: b)
  case Nil
  then show ?case using view_fits by (simp add: push_all_def last_n_all)
next
  case (Cons e kxs)
  obtain j x where e: "e = (j, x)" by (cases e)
  let ?b = "push j x b"
  have step: "good ?b" "sizes ?b = sizes b" "view ?b k n = (if k = j then last_n n (view b k n @ [x]) else view b k n)"
    using Cons.prems push_good [of b x j] push_view [of b x n k j] by (auto simp: e)
  have "view (push_all kxs ?b) k n = last_n n (view ?b k n @ map snd (filter (\<lambda>e. fst e = k) kxs))"
    by (rule Cons.IH) (use Cons.prems step in auto)
  moreover have "last_n n (last_n n (view b k n @ [x]) @ ys) = last_n n (view b k n @ x # ys)" for ys
    using last_n_append [of n "view b k n @ [x]" ys] by simp
  ultimately show ?case using step(3) by (cases "k = j") (simp_all add: e push_all_def)
qed

end

section \<open>The buffers are sliding windows\<close>

lemma lookback_key_inject: "asset_lookback_key a l = asset_lookback_key a' l' \<longleftrightarrow> a = a' \<and> l = l'"
proof
  assume eq: "asset_lookback_key a l = asset_lookback_key a' l'"
  have plain: "CHR ''_'' \<notin> set (int_str k)" for k
    using digit_range [of "CHR ''_''"] by (auto simp: int_str_def)
  have split: "takeWhile (\<lambda>c. c \<noteq> CHR ''_'') (rev (asset_lookback_key x k)) = rev (int_str k)" for x k
    using plain [of k] unfolding asset_lookback_key_def rev_append append_assoc
    by (subst takeWhile_append2) auto
  have "int_str l = int_str l'" using split [of a l] split [of a' l'] eq by simp
  with eq show "a = a' \<and> l = l'" using int_str_inject by (simp add: asset_lookback_key_def)
qed simp

definition lookup_window :: "price_buffers \<Rightarrow> symbol \<Rightarrow> int \<Rightarrow> deque option" where
  "lookup_window b a l = map_of (pb_prices b) (asset_lookback_key a l)"

lemma single_asset_lookup:
  assumes "single_asset_buffers ls a = Inr new"
  shows "map_of new k = (if \<exists>l \<in> set ls. k = asset_lookback_key a l
    then Some \<lparr>dq_maxlen = THE l. k = asset_lookback_key a l, dq_items = []\<rparr> else None)" and "wf_dict new"
proof -
  have new: "new = dict_update [] (map (\<lambda>l. (asset_lookback_key a l, \<lparr>dq_maxlen = l, dq_items = []\<rparr>)) ls)"
    using assms by (auto simp: single_asset_buffers_def split: if_splits)
  then show "wf_dict new" by (simp add: wf_dict_dict_update)
  have upd: "map_of (dict_update d (map (\<lambda>l. (asset_lookback_key a l, \<lparr>dq_maxlen = l, dq_items = []\<rparr>)) ls)) k =
      (if \<exists>l \<in> set ls. k = asset_lookback_key a l
       then Some \<lparr>dq_maxlen = THE l. k = asset_lookback_key a l, dq_items = []\<rparr> else map_of d k)" for d
  proof (induction ls arbitrary: d)
    case (Cons l ls)
    have "(THE l'. asset_lookback_key a l = asset_lookback_key a l') = l"
      by (rule the_equality) (simp_all add: lookback_key_inject)
    with Cons show ?case by auto
  qed simp
  show "map_of new k = (if \<exists>l \<in> set ls. k = asset_lookback_key a l
    then Some \<lparr>dq_maxlen = THE l. k = asset_lookback_key a l, dq_items = []\<rparr> else None)"
    by (simp add: new upd)
qed

lemma create_buffers_ok:
  assumes "\<forall>l \<in> set (pb_lookbacks b). 0 \<le> l"
  shows "\<exists>c. create_buffers a b = ok c \<and> pb_lookbacks c = pb_lookbacks b \<and> pb_assets c = pb_assets b \<and>
    (\<forall>a' l. lookup_window c a' l = (if a' = a \<and> l \<in> set (pb_lookbacks b)
      then Some \<lparr>dq_maxlen = l, dq_items = []\<rparr> else lookup_window b a' l))"
proof -
  obtain new where new: "single_asset_buffers (pb_lookbacks b) a = Inr new"
    using assms by (auto simp: single_asset_buffers_def not_less)
  have the: "(THE l'. asset_lookback_key a l = asset_lookback_key a l') = l" for l
    by (rule the_equality) (simp_all add: lookback_key_inject)
  note look = single_asset_lookup [OF new]
  have "lookup_window (b\<lparr>pb_prices := dict_update (pb_prices b) new\<rparr>) a' l = (if a' = a \<and> l \<in> set (pb_lookbacks b)
      then Some \<lparr>dq_maxlen = l, dq_items = []\<rparr> else lookup_window b a' l)" for a' l
    using look(2) by (auto simp: lookup_window_def map_of_dict_update wf_dict_def look(1) lookback_key_inject the)
  then show ?thesis
    by (intro exI [of _ "b\<lparr>pb_prices := dict_update (pb_prices b) new\<rparr>"]) (simp add: create_buffers_def new)
qed

lemma push_loop:
  assumes "distinct ls" and "\<forall>l \<in> set ls. lookup_window b a l \<noteq> None"
  shows "\<exists>c. for_each (push_price a x) ls b = ok c \<and> pb_lookbacks c = pb_lookbacks b \<and> pb_assets c = pb_assets b \<and>
    (\<forall>a' l. lookup_window c a' l = (if a' = a \<and> l \<in> set ls then map_option (dq_append x) (lookup_window b a l)
      else lookup_window b a' l))"
  using assms
proof (induction ls arbitrary: b)
  case (Cons l ls)
  obtain d where d: "map_of (pb_prices b) (asset_lookback_key a l) = Some d"
    using Cons.prems(2) by (auto simp: lookup_window_def)
  let ?b = "b\<lparr>pb_prices := AList.update (asset_lookback_key a l) (dq_append x d) (pb_prices b)\<rparr>"
  have look: "lookup_window ?b a' l' = (if a' = a \<and> l' = l then Some (dq_append x d) else lookup_window b a' l')" for a' l'
    by (auto simp: lookup_window_def lookback_key_inject)
  have "\<forall>l' \<in> set ls. lookup_window ?b a l' \<noteq> None" using Cons.prems(2) by (simp add: look)
  then obtain c where c: "for_each (push_price a x) ls ?b = ok c" "pb_lookbacks c = pb_lookbacks ?b" "pb_assets c = pb_assets ?b"
      "\<forall>a' l. lookup_window c a' l = (if a' = a \<and> l \<in> set ls then map_option (dq_append x) (lookup_window ?b a l)
        else lookup_window ?b a' l)"
    using Cons.IH [of ?b] Cons.prems(1) by (metis distinct.simps(2))
  have "push_price a x l b = ok ?b" by (simp add: push_price_def d)
  moreover have "lookup_window b a l = Some d" by (simp add: lookup_window_def d)
  ultimately show ?case using c look Cons.prems(1) by (intro exI [of _ c]) auto
qed simp

definition windows_ready :: "price_buffers \<Rightarrow> symbol \<Rightarrow> bool" where
  "windows_ready b a \<longleftrightarrow> (\<forall>l \<in> set (pb_lookbacks b). \<exists>d. lookup_window b a l = Some d \<and> dq_maxlen d = l \<and>
     length (dq_items d) \<le> nat l)"

definition windows_absent :: "price_buffers \<Rightarrow> symbol \<Rightarrow> bool" where
  "windows_absent b a \<longleftrightarrow> (\<forall>l \<in> set (pb_lookbacks b). lookup_window b a l = None)"

definition wf_buffers :: "price_buffers \<Rightarrow> bool" where
  "wf_buffers b \<longleftrightarrow> pb_lookbacks b \<noteq> [] \<and> distinct (pb_lookbacks b) \<and> (\<forall>l \<in> set (pb_lookbacks b). 0 \<le> l) \<and>
    (\<forall>a. windows_ready b a \<or> windows_absent b a)"

definition prices_in :: "price_buffers \<Rightarrow> symbol \<Rightarrow> nat \<Rightarrow> nan_rat list" where
  "prices_in b a n = (case lookup_window b a (int n) of None \<Rightarrow> [] | Some d \<Rightarrow> dq_items d)"

definition usable_price :: "nan_rat \<Rightarrow> bool" where
  "usable_price x \<longleftrightarrow> (case x of Some p \<Rightarrow> 0 < p | None \<Rightarrow> True)"

text \<open>After the buffers of the asset exist, they hold what they held, or nothing.\<close>

lemma buffers_created:
  assumes "wf_buffers b" and l0: "pb_lookbacks b = l0 # ls"
  shows "\<exists>c. (if map_of (pb_prices b) (asset_lookback_key a l0) = None then create_buffers a b else ok b) = ok c \<and>
    pb_lookbacks c = pb_lookbacks b \<and> pb_assets c = pb_assets b \<and> windows_ready c a \<and>
    (\<forall>a' l. l \<in> set (pb_lookbacks b) \<longrightarrow> a' \<noteq> a \<longrightarrow> lookup_window c a' l = lookup_window b a' l) \<and>
    (\<forall>n. int n \<in> set (pb_lookbacks b) \<longrightarrow> prices_in c a n = prices_in b a n)"
proof (cases "lookup_window b a l0")
  case None
  have "\<forall>l \<in> set (pb_lookbacks b). 0 \<le> l" using assms(1) by (simp add: wf_buffers_def)
  from create_buffers_ok [OF this, of a] obtain c where c: "create_buffers a b = ok c"
      "pb_lookbacks c = pb_lookbacks b" "pb_assets c = pb_assets b"
      "\<forall>a' l. lookup_window c a' l = (if a' = a \<and> l \<in> set (pb_lookbacks b)
        then Some \<lparr>dq_maxlen = l, dq_items = []\<rparr> else lookup_window b a' l)" by blast
  have "l0 \<in> set (pb_lookbacks b)" using l0 by simp
  then have "\<not> windows_ready b a" using None unfolding windows_ready_def by (metis option.distinct(1))
  then have "windows_absent b a" using assms(1) by (auto simp: wf_buffers_def)
  then show ?thesis using None c
    by (intro exI [of _ c]) (auto simp: lookup_window_def windows_absent_def windows_ready_def prices_in_def)
next
  case (Some d)
  then have "windows_ready b a" using assms by (auto simp: wf_buffers_def windows_absent_def)
  with Some show ?thesis by (intro exI [of _ b]) (auto simp: lookup_window_def)
qed

lemma pb_append_ok:
  assumes "wf_buffers b" and "usable_price x"
  shows "\<exists>c. pb_append a x b = ok c \<and> wf_buffers c \<and> pb_lookbacks c = pb_lookbacks b \<and> pb_assets c = pb_assets b \<and>
    windows_ready c a \<and>
    (\<forall>a' n. int n \<in> set (pb_lookbacks b) \<longrightarrow>
      prices_in c a' n = (if a' = a then last_n n (prices_in b a n @ [x]) else prices_in b a' n))"
proof -
  let ?ls = "pb_lookbacks b"
  have wf: "?ls \<noteq> []" "distinct ?ls" "\<forall>l \<in> set ?ls. 0 \<le> l" "\<And>a. windows_ready b a \<or> windows_absent b a"
    using assms(1) by (auto simp: wf_buffers_def)
  obtain l0 ls where l0: "?ls = l0 # ls" using wf(1) by (cases ?ls) auto
  obtain b1 where b1: "(if map_of (pb_prices b) (asset_lookback_key a l0) = None then create_buffers a b else ok b) = ok b1"
      "pb_lookbacks b1 = ?ls" "pb_assets b1 = pb_assets b" "windows_ready b1 a"
      "\<And>a' l. l \<in> set ?ls \<Longrightarrow> a' \<noteq> a \<Longrightarrow> lookup_window b1 a' l = lookup_window b a' l"
      "\<And>n. int n \<in> set ?ls \<Longrightarrow> prices_in b1 a n = prices_in b a n"
    using buffers_created [OF assms(1) l0, of a] by blast
  have "\<forall>l \<in> set ?ls. lookup_window b1 a l \<noteq> None" using b1(2,4) by (auto simp: windows_ready_def)
  from push_loop [OF wf(2) this, of x] obtain c where c: "for_each (push_price a x) ?ls b1 = ok c"
      "pb_lookbacks c = ?ls" "pb_assets c = pb_assets b"
      "\<And>a' l. lookup_window c a' l = (if a' = a \<and> l \<in> set ?ls then map_option (dq_append x) (lookup_window b1 a l)
        else lookup_window b1 a' l)"
    using b1(2,3) by auto
  have run: "pb_append a x b = ok c"
    using assms(2) c(1) b1(1) by (auto simp: pb_append_def usable_price_def l0 split: option.splits if_splits)
  have ready: "windows_ready c a"
    using b1(2,4) c(2,4) by (fastforce simp: windows_ready_def dq_append_def)
  have "windows_ready c a' \<or> windows_absent c a'" for a'
    using ready wf(4) [of a'] b1(5) c(2,4) by (cases "a' = a") (auto simp: windows_ready_def windows_absent_def)
  then have "wf_buffers c" using wf by (simp add: wf_buffers_def c(2))
  moreover have "prices_in c a' n = (if a' = a then last_n n (prices_in b a n @ [x]) else prices_in b a' n)"
    if n: "int n \<in> set ?ls" for a' n
  proof (cases "a' = a")
    case True
    obtain d where "lookup_window b1 a (int n) = Some d" "dq_maxlen d = int n"
      using b1(2,4) n by (auto simp: windows_ready_def)
    then show ?thesis using True c(4) [of a "int n"] n b1(6) [OF n] by (simp add: prices_in_def dq_append_def)
  next
    case False
    then show ?thesis using c(4) [of a' "int n"] b1(5) [OF n] by (simp add: prices_in_def)
  qed
  ultimately show ?thesis using run c(2,3) ready by blast
qed

lemma prices_in_fit: "wf_buffers b \<Longrightarrow> int n \<in> set (pb_lookbacks b) \<Longrightarrow> length (prices_in b a n) \<le> n"
  unfolding prices_in_def
  by (cases "windows_ready b a") (force simp: wf_buffers_def windows_ready_def windows_absent_def)+

definition window_sizes :: "price_buffers \<Rightarrow> nat set" where
  "window_sizes b = {n. int n \<in> set (pb_lookbacks b)}"

interpretation buffers: sliding_windows prices_in "\<lambda>a x b. fst (pb_append a x b)" wf_buffers
    "\<lambda>b a. window_sizes b" usable_price
proof unfold_locales
  fix b x k
  assume b: "wf_buffers b" "usable_price x"
  obtain c where c: "pb_append k x b = ok c" "wf_buffers c" "pb_lookbacks c = pb_lookbacks b"
      "\<And>a' n. int n \<in> set (pb_lookbacks b) \<Longrightarrow>
        prices_in c a' n = (if a' = k then last_n n (prices_in b k n @ [x]) else prices_in b a' n)"
    using pb_append_ok [OF b, of k] by blast
  then show "wf_buffers (fst (pb_append k x b)) \<and>
      (\<lambda>a :: symbol. window_sizes (fst (pb_append k x b))) = (\<lambda>a. window_sizes b)"
    by (simp add: window_sizes_def)
  fix n j
  assume "n \<in> window_sizes b"
  then show "prices_in (fst (pb_append k x b)) j n =
      (if j = k then last_n n (prices_in b j n @ [x]) else prices_in b j n)"
    using c(1,4) by (simp add: window_sizes_def)
qed (simp add: prices_in_fit window_sizes_def)

section \<open>The collection is sliding windows\<close>

definition wf_collection :: "signals_collection \<Rightarrow> bool" where
  "wf_collection c \<longleftrightarrow> wf_dict (sc_signals c) \<and>
    (\<forall>name s. map_of (sc_signals c) name = Some s \<longrightarrow> wf_buffers (sg_buffers s) \<and> distinct (sg_assets s))"

definition signal_view :: "signals_collection \<Rightarrow> string \<times> symbol \<Rightarrow> nat \<Rightarrow> nan_rat list" where
  "signal_view c k n = (case map_of (sc_signals c) (fst k) of None \<Rightarrow> []
     | Some s \<Rightarrow> prices_in (sg_buffers s) (snd k) n)"

definition signal_sizes :: "signals_collection \<Rightarrow> string \<times> symbol \<Rightarrow> nat set" where
  "signal_sizes c k = (case map_of (sc_signals c) (fst k) of None \<Rightarrow> {} | Some s \<Rightarrow> window_sizes (sg_buffers s))"

text \<open>What an append leaves alone.\<close>

definition signal_frame :: "price_signal \<Rightarrow> signal_kind \<times> asset_universe \<times> symbol list \<times> int list" where
  "signal_frame s = (sg_kind s, sg_universe s, sg_assets s, pb_lookbacks (sg_buffers s))"

definition collection_frame :: "signals_collection \<Rightarrow> (string \<times> signal_kind \<times> asset_universe \<times> symbol list \<times> int list) list" where
  "collection_frame c = map (\<lambda>(name, s). (name, signal_frame s)) (sc_signals c)"

definition push_signal :: "string \<times> symbol \<Rightarrow> nan_rat \<Rightarrow> signals_collection \<Rightarrow> signals_collection" where
  "push_signal k x c = fst (append_to (fst k) (snd k) x c)"

lemma wf_collectionD: "wf_collection c \<Longrightarrow> map_of (sc_signals c) name = Some s \<Longrightarrow>
    wf_buffers (sg_buffers s) \<and> distinct (sg_assets s)"
  by (simp add: wf_collection_def)

lemma update_frame:
  "map_of d name = Some s \<Longrightarrow> f s' = f s \<Longrightarrow>
   map (\<lambda>(n, s). (n, f s)) (AList.update name s' d) = map (\<lambda>(n, s). (n, f s)) d"
  by (induction d) auto

lemma append_to_ok:
  assumes "wf_collection c" and "usable_price x" and "map_of (sc_signals c) name = Some s"
  shows "\<exists>s'. append_to name a x c = ok (push_signal (name, a) x c) \<and>
    push_signal (name, a) x c = c\<lparr>sc_signals := AList.update name s' (sc_signals c)\<rparr> \<and>
    signal_frame s' = signal_frame s \<and> wf_buffers (sg_buffers s') \<and>
    (\<forall>a' n. n \<in> window_sizes (sg_buffers s) \<longrightarrow> prices_in (sg_buffers s') a' n =
      (if a' = a then last_n n (prices_in (sg_buffers s) a n @ [x]) else prices_in (sg_buffers s) a' n))"
proof -
  obtain b where b: "pb_append a x (sg_buffers s) = ok b" "wf_buffers b" "pb_lookbacks b = pb_lookbacks (sg_buffers s)"
      "pb_assets b = pb_assets (sg_buffers s)"
      "\<forall>a' n. int n \<in> set (pb_lookbacks (sg_buffers s)) \<longrightarrow> prices_in b a' n =
        (if a' = a then last_n n (prices_in (sg_buffers s) a n @ [x]) else prices_in (sg_buffers s) a' n)"
    using pb_append_ok [of "sg_buffers s" x a] wf_collectionD [OF assms(1,3)] assms(2) by blast
  then show ?thesis
    by (intro exI [of _ "s\<lparr>sg_buffers := b\<rparr>"])
      (simp add: push_signal_def append_to_def sg_append_def assms(3) signal_frame_def sg_assets_def window_sizes_def)
qed

lemma push_signal_unknown: "map_of (sc_signals c) (fst k) = None \<Longrightarrow> push_signal k x c = c"
  by (simp add: push_signal_def append_to_def)

lemma push_signal_frame:
  assumes "wf_collection c" and "usable_price x"
  shows "wf_collection (push_signal k x c) \<and> collection_frame (push_signal k x c) = collection_frame c \<and>
    sc_warmup (push_signal k x c) = sc_warmup c"
proof (cases "map_of (sc_signals c) (fst k)")
  case None
  with assms(1) show ?thesis by (simp add: push_signal_unknown)
next
  case (Some s)
  obtain s' where s': "push_signal k x c = c\<lparr>sc_signals := AList.update (fst k) s' (sc_signals c)\<rparr>"
      "signal_frame s' = signal_frame s" "wf_buffers (sg_buffers s')"
    using append_to_ok [OF assms Some, of "snd k"] by auto
  have "distinct (sg_assets s')" using wf_collectionD [OF assms(1) Some] s'(2) by (simp add: signal_frame_def)
  then have "wf_collection (push_signal k x c)"
    using assms(1) s' by (auto simp: wf_collection_def split: if_splits)
  moreover have "collection_frame (push_signal k x c) = collection_frame c"
    unfolding collection_frame_def s'(1) using update_frame [OF Some s'(2)] by simp
  ultimately show ?thesis by (simp add: s'(1))
qed

lemma frame_map:
  assumes "collection_frame c' = collection_frame c" and f: "\<And>s. f s = g (signal_frame s)"
  shows "map (\<lambda>(name, s). (name, f s)) (sc_signals c') = map (\<lambda>(name, s). (name, f s)) (sc_signals c)"
proof -
  have "map (\<lambda>(name, s). (name, f s)) ss = map (\<lambda>(name, y). (name, g y)) (map (\<lambda>(name, s). (name, signal_frame s)) ss)" for ss
    by (simp add: f comp_def case_prod_unfold)
  with assms(1) show ?thesis unfolding collection_frame_def by metis
qed

lemma map_of_map_snd: "map_of (map (\<lambda>(k, v). (k, f v)) d) k = map_option f (map_of d k)"
  by (induction d) auto

lemma signal_sizes_frame:
  assumes "collection_frame c' = collection_frame c"
  shows "signal_sizes c' = signal_sizes c" and "dict_keys (sc_signals c') = dict_keys (sc_signals c)"
    and "map (\<lambda>(name, s). (name, sg_assets s)) (sc_signals c') = map (\<lambda>(name, s). (name, sg_assets s)) (sc_signals c)"
proof -
  have "map (\<lambda>(name, s). (name, window_sizes (sg_buffers s))) (sc_signals c') =
      map (\<lambda>(name, s). (name, window_sizes (sg_buffers s))) (sc_signals c)"
    by (rule frame_map [OF assms, where g = "\<lambda>(k, u, as, ls). {n. int n \<in> set ls}"])
      (simp add: signal_frame_def window_sizes_def)
  then have "map_option (\<lambda>s. window_sizes (sg_buffers s)) (map_of (sc_signals c') name) =
      map_option (\<lambda>s. window_sizes (sg_buffers s)) (map_of (sc_signals c) name)" for name
    by (metis map_of_map_snd)
  then have "signal_sizes c' k = signal_sizes c k" for k
    unfolding signal_sizes_def by (metis (no_types, lifting) option.case_eq_if option.map_disc_iff option.map_sel)
  then show "signal_sizes c' = signal_sizes c" by (simp add: fun_eq_iff)
  show "map (\<lambda>(name, s). (name, sg_assets s)) (sc_signals c') = map (\<lambda>(name, s). (name, sg_assets s)) (sc_signals c)"
    by (rule frame_map [OF assms, where g = "\<lambda>(k, u, as, ls). as"]) (simp add: signal_frame_def)
  have "map fst ss = map fst (map (\<lambda>(name, s). (name, signal_frame s)) ss)" for ss :: "(string, price_signal) dict"
    by (simp add: comp_def case_prod_unfold)
  with assms show "dict_keys (sc_signals c') = dict_keys (sc_signals c)"
    unfolding collection_frame_def by metis
qed

interpretation signals: sliding_windows signal_view push_signal wf_collection signal_sizes usable_price
proof unfold_locales
  fix c x k
  assume c: "wf_collection c" "usable_price x"
  note frame = push_signal_frame [OF c, of k]
  then show "wf_collection (push_signal k x c) \<and> signal_sizes (push_signal k x c) = signal_sizes c"
    using signal_sizes_frame(1) by blast
  fix n j
  assume n: "n \<in> signal_sizes c j"
  show "signal_view (push_signal k x c) j n = (if j = k then last_n n (signal_view c j n @ [x]) else signal_view c j n)"
  proof (cases "map_of (sc_signals c) (fst k)")
    case None
    then show ?thesis using n by (auto simp: push_signal_unknown signal_sizes_def)
  next
    case (Some s)
    then show ?thesis using append_to_ok [OF c Some, of "snd k"] n
      by (cases j; cases k) (auto simp: signal_view_def signal_sizes_def)
  qed
next
  fix c n j
  assume "wf_collection c" "n \<in> signal_sizes c j"
  then show "length (signal_view c j n) \<le> n"
    using wf_collectionD prices_in_fit
    by (auto simp: signal_sizes_def signal_view_def window_sizes_def split: option.splits)
qed

lemma append_all:
  assumes "wf_collection c" and "\<forall>(k, x) \<in> set kxs. usable_price x \<and> fst k \<in> set (dict_keys (sc_signals c))"
  shows "for_each (\<lambda>(k, x). append_to (fst k) (snd k) x) kxs c = ok (signals.push_all kxs c) \<and>
    wf_collection (signals.push_all kxs c) \<and> collection_frame (signals.push_all kxs c) = collection_frame c \<and>
    sc_warmup (signals.push_all kxs c) = sc_warmup c"
  using assms
proof (induction kxs arbitrary: c)
  case (Cons e kxs)
  obtain name a x where e: "e = ((name, a), x)" by (cases e) auto
  have x: "usable_price x" and "name \<in> set (dict_keys (sc_signals c))" using Cons.prems(2) by (auto simp: e)
  then obtain s where s: "map_of (sc_signals c) name = Some s"
    by (metis list.set_map map_of_eq_None_iff not_None_eq)
  note step = push_signal_frame [OF Cons.prems(1) x, of "(name, a)"]
  have "append_to name a x c = ok (push_signal (name, a) x c)"
    using append_to_ok [OF Cons.prems(1) x s, of a] by blast
  moreover have "dict_keys (sc_signals (push_signal (name, a) x c)) = dict_keys (sc_signals c)"
    using step signal_sizes_frame(2) by blast
  ultimately show ?case
    using Cons.IH [of "push_signal (name, a) x c"] Cons.prems step by (simp add: e signals.push_all_def)
qed (simp add: signals.push_all_def)

lemma for_each_map: "for_each f (map g xs) = for_each (\<lambda>x. f (g x)) xs"
  by (induction xs) (auto intro!: ext)

lemma for_each_concat: "for_each (\<lambda>e. for_each g (h e)) xs s = for_each g (concat (map h xs)) s"
proof (induction xs arbitrary: s)
  case (Cons x xs)
  have "for_each (\<lambda>e. for_each g (h e)) xs = for_each g (concat (map h xs))" by (rule ext) (rule Cons.IH)
  then show ?case by (simp add: for_each_append)
qed simp

section \<open>A day, and many days\<close>

definition settled :: "signals_collection \<Rightarrow> timestamp \<Rightarrow> bool" where
  "settled c dt \<longleftrightarrow> (\<forall>(name, s) \<in> set (sc_signals c). set (get_assets (sg_universe s) dt) \<subseteq> set (sg_assets s))"

definition watches :: "signals_collection \<Rightarrow> string \<Rightarrow> symbol \<Rightarrow> bool" where
  "watches c name a \<longleftrightarrow> (\<exists>s. map_of (sc_signals c) name = Some s \<and> a \<in> set (sg_assets s))"

definition day_pushes :: "price_feed \<Rightarrow> timestamp \<Rightarrow> signals_collection \<Rightarrow> ((string \<times> symbol) \<times> nan_rat) list" where
  "day_pushes feed dt c = concat (map (\<lambda>(name, s). map (\<lambda>a. ((name, a), feed_mid feed dt a)) (sg_assets s)) (sc_signals c))"

lemma settled_frame: "collection_frame c' = collection_frame c \<Longrightarrow> settled c' dt = settled c dt"
proof -
  assume "collection_frame c' = collection_frame c"
  then have frame: "map (\<lambda>(name, s). (name, set (get_assets (sg_universe s) dt) \<subseteq> set (sg_assets s))) (sc_signals c') =
      map (\<lambda>(name, s). (name, set (get_assets (sg_universe s) dt) \<subseteq> set (sg_assets s))) (sc_signals c)"
    by (rule frame_map [where g = "\<lambda>(k, u, as, ls). set (get_assets u dt) \<subseteq> set as"]) (simp add: signal_frame_def)
  have eq: "settled c dt \<longleftrightarrow> (\<forall>(n, ok) \<in> set (map (\<lambda>(name, s). (name, set (get_assets (sg_universe s) dt) \<subseteq> set (sg_assets s)))
      (sc_signals c)). ok)" for c
    by (auto simp: settled_def)
  show ?thesis unfolding eq [of c'] eq [of c] frame ..
qed

lemma assets_frame:
  "collection_frame c' = collection_frame c \<Longrightarrow>
   map (\<lambda>(name, s). (name, h (sg_assets s))) (sc_signals c') = map (\<lambda>(name, s). (name, h (sg_assets s))) (sc_signals c)"
  by (rule frame_map [where g = "\<lambda>(k, u, as, ls). h as"]) (simp_all add: signal_frame_def)

lemma day_pushes_frame: "collection_frame c' = collection_frame c \<Longrightarrow> day_pushes feed dt c' = day_pushes feed dt c"
proof -
  assume "collection_frame c' = collection_frame c"
  note frame = assets_frame [OF this, of "\<lambda>as. as"]
  have eq: "day_pushes feed dt c = concat (map (\<lambda>(name, as). map (\<lambda>a. ((name, a), feed_mid feed dt a)) as)
      (map (\<lambda>(name, s). (name, sg_assets s)) (sc_signals c)))" for c
    by (simp add: day_pushes_def comp_def case_prod_unfold)
  show ?thesis unfolding eq [of c'] eq [of c] frame ..
qed

lemma watches_frame: "collection_frame c' = collection_frame c \<Longrightarrow> watches c' name a = watches c name a"
proof -
  assume "collection_frame c' = collection_frame c"
  note frame = assets_frame [OF this, of "\<lambda>as. as"]
  have eq: "watches c name a \<longleftrightarrow> (\<exists>as. map_of (map (\<lambda>(name, s). (name, sg_assets s)) (sc_signals c)) name = Some as \<and> a \<in> set as)" for c
    by (auto simp: watches_def map_of_map_snd)
  show ?thesis unfolding eq [of c'] eq [of c] frame ..
qed

lemma filter_pushes:
  assumes "wf_dict d" and "\<And>name s. (name, s) \<in> set d \<Longrightarrow> distinct (as s)" and "map_of d name = Some s" and "a \<in> set (as s)"
  shows "filter (\<lambda>e. fst e = (name, a)) (concat (map (\<lambda>(name, s). map (\<lambda>a. ((name, a), f a)) (as s)) d)) = [((name, a), f a)]"
proof -
  have other: "filter (\<lambda>e. fst e = (name, a)) (concat (map (\<lambda>(name, s). map (\<lambda>a. ((name, a), f a)) (as s)) d)) = []"
    if "name \<notin> set (dict_keys d)" for d
    using that by (induction d) (auto simp: filter_empty_conv)
  have one: "filter (\<lambda>e. fst e = (name, a)) (map (\<lambda>a. ((name, a), f a)) xs) = (if a \<in> set xs then [((name, a), f a)] else [])"
    if "distinct xs" for xs
    using that by (induction xs) auto
  show ?thesis
    using assms(1-3)
  proof (induction d)
    case (Cons e d)
    obtain n' s' where e: "e = (n', s')" by (cases e)
    show ?case
    proof (cases "n' = name")
      case True
      with Cons.prems have "name \<notin> set (dict_keys d)" "s' = s" by (auto simp: e wf_dict_def)
      then show ?thesis using one [of "as s"] Cons.prems(2) [of name s] assms(4) True by (simp add: e other)
    next
      case False
      have "\<And>m t. (m, t) \<in> set d \<Longrightarrow> distinct (as t)" using Cons.prems(2) by (meson list.set_intros(2))
      moreover have "filter (\<lambda>e. fst e = (name, a)) (map (\<lambda>a. ((n', a), f a)) (as s')) = []"
        using False by (auto simp: filter_empty_conv)
      ultimately show ?thesis using Cons False by (simp add: e wf_dict_def)
    qed
  qed simp
qed

lemma day_pushes_one:
  assumes "wf_collection c" and "watches c name a"
  shows "map snd (filter (\<lambda>e. fst e = (name, a)) (day_pushes feed dt c)) = [feed_mid feed dt a]"
proof -
  obtain s where "map_of (sc_signals c) name = Some s" "a \<in> set (sg_assets s)"
    using assms(2) by (auto simp: watches_def)
  then show ?thesis
    unfolding day_pushes_def using filter_pushes [of "sc_signals c" sg_assets name s a "feed_mid feed dt"] assms(1)
    by (simp add: wf_collection_def wf_dict_def)
qed

lemma update_signals_pushes:
  assumes "wf_collection c" and "settled c dt" and "perm [] = []" and "\<And>a. usable_price (feed_mid feed dt a)"
  shows "update_signals perm feed dt c = ok ((signals.push_all (day_pushes feed dt c) c)\<lparr>sc_warmup := sc_warmup c + 1\<rparr>)"
proof -
  have same: "map (\<lambda>(name, s). (name, update_assets perm dt s)) (sc_signals c) = sc_signals c"
  proof (rule map_idI)
    fix e assume "e \<in> set (sc_signals c)"
    moreover obtain name s where e: "e = (name, s)" by (cases e)
    ultimately have "filter (\<lambda>a. a \<notin> set (sg_assets s)) (get_assets (sg_universe s) dt) = []"
      using assms(2) by (fastforce simp: settled_def filter_empty_conv)
    then show "(case e of (name, s) \<Rightarrow> (name, update_assets perm dt s)) = e"
      using assms(3) by (simp add: e update_assets_def sg_assets_def)
  qed
  have "for_each (update_signal feed dt) (sc_signals c) c =
      for_each (\<lambda>(k, x). append_to (fst k) (snd k) x) (day_pushes feed dt c) c"
  proof -
    have "for_each (update_signal feed dt) (sc_signals c) c =
        for_each (\<lambda>e. for_each (\<lambda>(k, x). append_to (fst k) (snd k) x) (map (\<lambda>a. ((fst e, a), feed_mid feed dt a)) (sg_assets (snd e))))
          (sc_signals c) c"
      unfolding for_each_map update_signal_def [abs_def] by simp
    then show ?thesis unfolding for_each_concat by (simp add: day_pushes_def case_prod_unfold)
  qed
  moreover have "\<forall>(k, x) \<in> set (day_pushes feed dt c). usable_price x \<and> fst k \<in> set (dict_keys (sc_signals c))"
    using assms(4) by (force simp: day_pushes_def)
  ultimately show ?thesis
    using append_all [OF assms(1), of "day_pushes feed dt c"] by (simp add: update_signals_def same)
qed

lemma wf_warmup [simp]: "wf_collection (c\<lparr>sc_warmup := n\<rparr>) = wf_collection c"
  "collection_frame (c\<lparr>sc_warmup := n\<rparr>) = collection_frame c" "signal_view (c\<lparr>sc_warmup := n\<rparr>) = signal_view c"
  "signal_sizes (c\<lparr>sc_warmup := n\<rparr>) = signal_sizes c"
  by (simp_all add: wf_collection_def collection_frame_def signal_view_def signal_sizes_def fun_eq_iff)

text \<open>
  A run of days: every window of a watched asset ends up with the end of what it held and the
  prices of the days.
\<close>

lemma days_of_updates:
  assumes "wf_collection c" and "\<And>dt. dt \<in> set dts \<Longrightarrow> settled c dt" and "perm [] = []"
    and "\<And>dt a. dt \<in> set dts \<Longrightarrow> usable_price (feed_mid feed dt a)"
  shows "\<exists>u. for_each (update_signals perm feed) dts c = ok u \<and> wf_collection u \<and>
    collection_frame u = collection_frame c \<and> sc_warmup u = sc_warmup c + int (length dts) \<and>
    (\<forall>name a n. watches c name a \<longrightarrow> n \<in> signal_sizes c (name, a) \<longrightarrow>
      signal_view u (name, a) n = last_n n (signal_view c (name, a) n @ map (\<lambda>dt. feed_mid feed dt a) dts))"
  using assms
proof (induction dts arbitrary: c)
  case Nil
  then show ?case using signals.view_fits by (auto simp: last_n_all)
next
  case (Cons dt dts)
  let ?p = "signals.push_all (day_pushes feed dt c) c"
  let ?c = "?p\<lparr>sc_warmup := sc_warmup c + 1\<rparr>"
  have run: "update_signals perm feed dt c = ok ?c"
    by (rule update_signals_pushes) (use Cons.prems in simp_all)
  have usable: "\<forall>(k, x) \<in> set (day_pushes feed dt c). usable_price x \<and> fst k \<in> set (dict_keys (sc_signals c))"
    using Cons.prems(4) by (force simp: day_pushes_def)
  have frame: "wf_collection ?c" "collection_frame ?c = collection_frame c"
    using append_all [OF Cons.prems(1) usable] by simp_all
  have view: "signal_view ?c (name, a) n = last_n n (signal_view c (name, a) n @ [feed_mid feed dt a])"
    if "watches c name a" "n \<in> signal_sizes c (name, a)" for name a n
    using signals.push_all_view [OF Cons.prems(1) _ that(2), of "day_pushes feed dt c"] usable
      day_pushes_one [OF Cons.prems(1) that(1), of feed dt] by auto
  have "settled ?c d" if "d \<in> set dts" for d using settled_frame [OF frame(2)] Cons.prems(2) that by simp
  then obtain u where u: "for_each (update_signals perm feed) dts ?c = ok u" "wf_collection u"
      "collection_frame u = collection_frame ?c" "sc_warmup u = sc_warmup ?c + int (length dts)"
      "\<forall>name a n. watches ?c name a \<longrightarrow> n \<in> signal_sizes ?c (name, a) \<longrightarrow>
        signal_view u (name, a) n = last_n n (signal_view ?c (name, a) n @ map (\<lambda>dt. feed_mid feed dt a) dts)"
    using Cons.IH [OF frame(1)] Cons.prems(3,4) by (metis list.set_intros(2))
  have "signal_view u (name, a) n = last_n n (signal_view c (name, a) n @ map (\<lambda>dt. feed_mid feed dt a) (dt # dts))"
    if "watches c name a" "n \<in> signal_sizes c (name, a)" for name a n
    using u(5) that view [OF that] watches_frame [OF frame(2)] signal_sizes_frame(1) [OF frame(2)]
      last_n_append [of n "signal_view c (name, a) n @ [feed_mid feed dt a]"] by simp
  then show ?case using run u frame(2) by (intro exI [of _ u]) simp
qed

section \<open>The warm-up\<close>

definition watchers :: "signals_collection \<Rightarrow> symbol \<Rightarrow> string list" where
  "watchers c asset = map fst (filter (\<lambda>(name, s). asset \<in> set (sg_assets s)) (sc_signals c))"

lemma watchers_frame: "collection_frame c' = collection_frame c \<Longrightarrow> watchers c' a = watchers c a"
proof -
  assume "collection_frame c' = collection_frame c"
  note frame = assets_frame [OF this, of "\<lambda>as. as"]
  have eq: "watchers c a = map fst (filter (\<lambda>(name, as). a \<in> set as) (map (\<lambda>(name, s). (name, sg_assets s)) (sc_signals c)))" for c
    by (simp add: watchers_def filter_map comp_def case_prod_unfold)
  show ?thesis unfolding eq [of c'] eq [of c] frame ..
qed

lemma set_watchers: "wf_collection c \<Longrightarrow> name \<in> set (watchers c a) \<longleftrightarrow> watches c name a"
  by (auto simp: watchers_def watches_def wf_collection_def wf_dict_def intro!: image_eqI [of _ fst] dest: map_of_SomeD)

lemma distinct_watchers: "wf_collection c \<Longrightarrow> distinct (watchers c a)"
  by (simp add: watchers_def wf_collection_def wf_dict_def distinct_map_filter)

definition price_pushes :: "string list \<Rightarrow> symbol \<Rightarrow> rat \<Rightarrow> ((string \<times> symbol) \<times> nan_rat) list" where
  "price_pushes names asset p = map (\<lambda>name. ((name, asset), Some p)) names"

lemma filter_price_pushes:
  assumes "distinct names"
  shows "map snd (filter (\<lambda>e. fst e = (name, a)) (price_pushes names asset p)) =
    (if name \<in> set names \<and> a = asset then [Some p] else [])"
  using assms by (induction names) (auto simp: price_pushes_def)

lemma warm_price_pushes:
  assumes "wf_collection c" and "0 < p"
  shows "warm_price asset p c = ok (signals.push_all (price_pushes (watchers c asset) asset p) c)"
proof -
  have "warm_price asset p c = for_each (\<lambda>(k, x). append_to (fst k) (snd k) x) (price_pushes (watchers c asset) asset p) c"
    unfolding warm_price_def price_pushes_def watchers_def map_map for_each_map by (simp add: case_prod_unfold comp_def)
  moreover have "\<forall>(k, x) \<in> set (price_pushes (watchers c asset) asset p). usable_price x \<and> fst k \<in> set (dict_keys (sc_signals c))"
    using assms(2) by (auto simp: price_pushes_def watchers_def usable_price_def)
  ultimately show ?thesis using append_all [OF assms(1)] by simp
qed

lemma warm_prices_pushes:
  assumes "wf_collection c" and "\<forall>p \<in> set ps. 0 < p"
  shows "for_each (warm_price asset) ps c = ok (signals.push_all (concat (map (price_pushes (watchers c asset) asset) ps)) c)"
  using assms
proof (induction ps arbitrary: c)
  case (Cons p ps)
  let ?c = "signals.push_all (price_pushes (watchers c asset) asset p) c"
  have p: "0 < p" using Cons.prems(2) by simp
  have "\<forall>(k, x) \<in> set (price_pushes (watchers c asset) asset p). usable_price x \<and> fst k \<in> set (dict_keys (sc_signals c))"
    using p by (auto simp: price_pushes_def watchers_def usable_price_def)
  from append_all [OF Cons.prems(1) this] have c: "wf_collection ?c" "watchers ?c asset = watchers c asset"
    by (auto intro: watchers_frame)
  show ?case
    using warm_price_pushes [OF Cons.prems(1) p] Cons.IH [OF c(1)] Cons.prems(2) c(2) by (simp add: signals.push_all_def)
qed (simp add: signals.push_all_def)

lemma filter_all_pushes:
  assumes "distinct names"
  shows "map snd (filter (\<lambda>e. fst e = (name, a)) (concat (map (price_pushes names asset) ps))) =
    (if name \<in> set names \<and> a = asset then map Some ps else [])"
  using filter_price_pushes [OF assms, of name a asset] by (induction ps) auto

lemma warm_prices_ok:
  assumes "wf_collection c" and "\<forall>p \<in> set ps. 0 < p"
  shows "\<exists>d. for_each (warm_price asset) ps c = ok d \<and> wf_collection d \<and> collection_frame d = collection_frame c \<and>
    sc_warmup d = sc_warmup c \<and>
    (\<forall>name a n. n \<in> signal_sizes c (name, a) \<longrightarrow> signal_view d (name, a) n =
      last_n n (signal_view c (name, a) n @ (if watches c name asset \<and> a = asset then map Some ps else [])))"
proof -
  let ?kxs = "concat (map (price_pushes (watchers c asset) asset) ps)"
  have ok: "\<forall>(k, x) \<in> set ?kxs. usable_price x \<and> fst k \<in> set (dict_keys (sc_signals c))"
    using assms(2) by (auto simp: price_pushes_def watchers_def usable_price_def)
  have "signal_view (signals.push_all ?kxs c) (name, a) n =
      last_n n (signal_view c (name, a) n @ (if watches c name asset \<and> a = asset then map Some ps else []))"
    if "n \<in> signal_sizes c (name, a)" for name a n
    using signals.push_all_view [OF assms(1) _ that, of ?kxs] ok
      filter_all_pushes [OF distinct_watchers [OF assms(1)], of name a asset asset ps] set_watchers [OF assms(1), of name asset]
    by fastforce
  then show ?thesis
    using warm_prices_pushes [OF assms] append_all [OF assms(1) ok] by auto
qed

lemma warm_assets_ok:
  assumes "wf_collection c" and "distinct assets"
    and "\<And>a. a \<in> set assets \<Longrightarrow> map_of closes a = Some (map Some (h a)) \<and> (\<forall>p \<in> set (h a). 0 < p)"
  shows "\<exists>d. for_each (warm_asset lookback closes) assets (c, counts) = ok (d, dict_update counts
      (map (\<lambda>a. (a, int (length (last_n (nat lookback) (h a))))) assets)) \<and>
    wf_collection d \<and> collection_frame d = collection_frame c \<and> sc_warmup d = sc_warmup c \<and>
    (\<forall>name a n. watches c name a \<longrightarrow> n \<in> signal_sizes c (name, a) \<longrightarrow> signal_view d (name, a) n =
      last_n n (signal_view c (name, a) n @ (if a \<in> set assets then map Some (last_n (nat lookback) (h a)) else [])))"
  using assms
proof (induction assets arbitrary: c counts)
  case Nil
  then show ?case using signals.view_fits by (auto simp: last_n_all)
next
  case (Cons b assets)
  let ?ps = "last_n (nat lookback) (h b)"
  have b: "map_of closes b = Some (map Some (h b))" "\<forall>p \<in> set (h b). 0 < p" using Cons.prems(3) [of b] by auto
  have ps: "warming_prices lookback (map Some (h b)) = ?ps" "\<forall>p \<in> set ?ps. 0 < p"
    using b(2) by (auto simp: warming_prices_def filter_map comp_def filter_id_conv dest: set_last_n)
  obtain d where d: "for_each (warm_price b) ?ps c = ok d" "wf_collection d" "collection_frame d = collection_frame c"
      "sc_warmup d = sc_warmup c" "\<And>name a n. n \<in> signal_sizes c (name, a) \<Longrightarrow> signal_view d (name, a) n =
      last_n n (signal_view c (name, a) n @ (if watches c name b \<and> a = b then map Some ?ps else []))"
    using warm_prices_ok [OF Cons.prems(1) ps(2), of b] by blast
  let ?counts = "AList.update b (int (length ?ps)) counts"
  have run: "warm_asset lookback closes b (c, counts) = ok (d, ?counts)"
    by (simp add: warm_asset_def b(1) ps(1) d(1))
  have same: "watches d = watches c" "signal_sizes d = signal_sizes c"
    using watches_frame [OF d(3)] signal_sizes_frame(1) [OF d(3)] by (simp_all add: fun_eq_iff)
  have ih: "\<exists>e. for_each (warm_asset lookback closes) assets (d, ?counts) = ok (e, dict_update ?counts
      (map (\<lambda>a. (a, int (length (last_n (nat lookback) (h a))))) assets)) \<and>
    wf_collection e \<and> collection_frame e = collection_frame d \<and> sc_warmup e = sc_warmup d \<and>
    (\<forall>name a n. watches d name a \<longrightarrow> n \<in> signal_sizes d (name, a) \<longrightarrow> signal_view e (name, a) n =
      last_n n (signal_view d (name, a) n @ (if a \<in> set assets then map Some (last_n (nat lookback) (h a)) else [])))"
  proof (rule Cons.IH [OF d(2)])
    show "distinct assets" using Cons.prems(2) by simp
    show "map_of closes a = Some (map Some (h a)) \<and> (\<forall>p \<in> set (h a). 0 < p)" if "a \<in> set assets" for a
      using Cons.prems(3) [of a] that by simp
  qed
  then obtain e where e: "for_each (warm_asset lookback closes) assets (d, ?counts) = ok (e, dict_update ?counts
        (map (\<lambda>a. (a, int (length (last_n (nat lookback) (h a))))) assets))"
      "wf_collection e" "collection_frame e = collection_frame d" "sc_warmup e = sc_warmup d"
      "\<And>name a n. watches c name a \<Longrightarrow> n \<in> signal_sizes c (name, a) \<Longrightarrow> signal_view e (name, a) n =
        last_n n (signal_view d (name, a) n @ (if a \<in> set assets then map Some (last_n (nat lookback) (h a)) else []))"
    by (auto simp: same)
  have "signal_view e (name, a) n = last_n n (signal_view c (name, a) n @
      (if a \<in> set (b # assets) then map Some (last_n (nat lookback) (h a)) else []))"
    if w: "watches c name a" "n \<in> signal_sizes c (name, a)" for name a n
  proof (cases "a = b")
    case True
    then show ?thesis
      using e(5) [OF w] d(5) [OF w(2)] Cons.prems(2) w(1) last_n_append [of n "signal_view c (name, a) n @ map Some ?ps" "[]"]
      by simp
  next
    case False
    then show ?thesis
      using e(5) [OF w] d(5) [OF w(2)] last_n_append [of n "signal_view c (name, a) n"] by simp
  qed
  then show ?case using run e(1-4) d(3,4) by (intro exI [of _ e]) simp
qed

section \<open>Signal values\<close>

lemma window_in_view:
  assumes "map_of (sc_signals c) name = Some s" and "wf_collection c"
    and "n \<in> signal_sizes c (name, a)" and "int n = stored_lookback (sg_kind s) l" and "signal_view c (name, a) n \<noteq> []"
  shows "window s a l = Inr (signal_view c (name, a) n)"
  using assms by (auto simp: window_def signal_view_def prices_in_def lookup_window_def split: option.splits)

lemma longest_lookback_bound:
  assumes "wf_collection c" and "n \<in> signal_sizes c (name, a)"
  shows "int n \<le> longest_lookback c"
proof -
  obtain s where s: "map_of (sc_signals c) name = Some s" "int n \<in> set (pb_lookbacks (sg_buffers s))"
    using assms(2) by (auto simp: signal_sizes_def window_sizes_def split: option.splits)
  have "(name, s) \<in> set (sc_signals c)" by (rule map_of_SomeD [OF s(1)])
  then have mem: "Max (set (pb_lookbacks (sg_buffers s))) \<in> set (longest_lookbacks c)"
    using s(2) unfolding longest_lookbacks_def set_concat set_map by force
  then have "longest_lookback c = Max (set (longest_lookbacks c))" by (auto simp: longest_lookback_def)
  moreover have "int n \<le> Max (set (pb_lookbacks (sg_buffers s)))" using s(2) by simp
  moreover have "Max (set (pb_lookbacks (sg_buffers s))) \<le> Max (set (longest_lookbacks c))" using mem by simp
  ultimately show ?thesis by simp
qed

lemma set_warm_assets: "wf_collection c \<Longrightarrow> a \<in> set (warm_assets c) \<longleftrightarrow> (\<exists>name. watches c name a)"
  by (auto simp: warm_assets_def watches_def wf_collection_def wf_dict_def dest: map_of_SomeD)

lemma dict_update_fresh:
  "distinct (map fst b) \<Longrightarrow> fst ` set a \<inter> fst ` set b = {} \<Longrightarrow> dict_update a b = a @ b"
proof (induction a b rule: dict_update.induct)
  case (2 a k v b)
  then have "map_of a k = None" by (auto simp: map_of_eq_None_iff)
  with 2 show ?case by (auto simp: update_new)
qed simp

text \<open>
  C33. A warmed launch sees what a long run sees. Take a collection whose buffers are still empty
  and the closes of a run of days, all positive: filling the buffers from the history, of which
  only the longest lookback is used, leaves in every window of every watched asset exactly the
  prices that updating the collection day by day over the whole run would have left; the counts
  say how many prices each asset got.
\<close>

theorem warm_up_equals_daily_updates:
  assumes "wf_collection c" and "perm [] = []" and "\<And>dt. dt \<in> set dts \<Longrightarrow> settled c dt"
    and fresh: "\<And>k n. n \<in> signal_sizes c k \<Longrightarrow> signal_view c k n = []"
    and "dts \<noteq> []" and "warm_assets c \<noteq> []" and "0 < longest_lookback c"
    and prices: "\<And>dt a. dt \<in> set dts \<Longrightarrow> feed_mid feed dt a = Some (price dt a) \<and> 0 < price dt a"
    and hist: "history (end_dt - required_calendar_days (longest_lookback c) * ns_per_day) end_dt (warm_assets c) adjusted =
      Inr (Some (map (\<lambda>a. (a, map (\<lambda>dt. Some (price dt a)) dts)) (warm_assets c)))"
  shows "\<exists>w counts u. warm_up_signals history end_dt adjusted c = ok (w, counts) \<and>
    for_each (update_signals perm feed) dts c = ok u \<and>
    (\<forall>name a n. watches c name a \<longrightarrow> n \<in> signal_sizes c (name, a) \<longrightarrow>
      signal_view w (name, a) n = signal_view u (name, a) n) \<and>
    counts = map (\<lambda>a. (a, min (longest_lookback c) (int (length dts)))) (warm_assets c)"
proof -
  let ?L = "longest_lookback c" and ?as = "warm_assets c"
  let ?closes = "map (\<lambda>a. (a, map (\<lambda>dt. Some (price dt a)) dts)) ?as"
  have dist: "distinct ?as" by (simp add: warm_assets_def)
  have closes: "map_of ?closes a = Some (map Some (map (\<lambda>dt. price dt a) dts)) \<and> (\<forall>p \<in> set (map (\<lambda>dt. price dt a) dts). 0 < p)"
    if "a \<in> set ?as" for a
    using that prices by (auto simp: map_of_map_restrict restrict_map_def comp_def)
  obtain w where w: "for_each (warm_asset ?L ?closes) ?as (c, []) = ok (w, dict_update []
        (map (\<lambda>a. (a, int (length (last_n (nat ?L) (map (\<lambda>dt. price dt a) dts))))) ?as))"
      "wf_collection w" "collection_frame w = collection_frame c"
      "\<And>name a n. watches c name a \<Longrightarrow> n \<in> signal_sizes c (name, a) \<Longrightarrow> signal_view w (name, a) n =
        last_n n (signal_view c (name, a) n @ (if a \<in> set ?as then map Some (last_n (nat ?L) (map (\<lambda>dt. price dt a) dts)) else []))"
    using warm_assets_ok [OF assms(1) dist closes, of ?L "[]"] by blast
  define counts where "counts = map (\<lambda>a. (a, min ?L (int (length dts)))) ?as"
  have "dict_update [] (map (\<lambda>a. (a, n)) xs) = map (\<lambda>a. (a, n)) xs" if "distinct xs" for n :: int and xs :: "symbol list"
    using that by (simp add: dict_update_fresh comp_def)
  then have counts: "dict_update [] (map (\<lambda>a. (a, int (length (last_n (nat ?L) (map (\<lambda>dt. price dt a) dts))))) ?as) = counts"
    using dist assms(7) by (simp add: counts_def min_def nat_le_iff)
  have "\<not> frame_empty ?closes" using assms(5,6) by (cases ?as) (auto simp: frame_empty_def)
  then obtain n where warm: "warm_up_signals history end_dt adjusted c = ok (w\<lparr>sc_warmup := n\<rparr>, counts)"
    using assms(6,7) hist w(1) counts by (auto simp: warm_up_signals_def Let_def)
  obtain u where u: "for_each (update_signals perm feed) dts c = ok u"
      "\<And>name a n. watches c name a \<Longrightarrow> n \<in> signal_sizes c (name, a) \<Longrightarrow>
        signal_view u (name, a) n = last_n n (signal_view c (name, a) n @ map (\<lambda>dt. feed_mid feed dt a) dts)"
    using days_of_updates [of c dts perm feed, OF assms(1) assms(3) assms(2)] prices by (auto simp: usable_price_def)
  have "signal_view w (name, a) n = signal_view u (name, a) n"
    if that: "watches c name a" "n \<in> signal_sizes c (name, a)" for name a n
  proof -
    have "a \<in> set ?as" using set_warm_assets [OF assms(1)] that(1) by blast
    moreover have "n \<le> nat ?L" using longest_lookback_bound [OF assms(1) that(2)] by simp
    moreover have "map (\<lambda>dt. feed_mid feed dt a) dts = map Some (map (\<lambda>dt. price dt a) dts)" using prices by simp
    ultimately show ?thesis
      using w(4) [OF that] u(2) [OF that] fresh [OF that(2)] by (simp add: map_last_n last_n_last_n del: map_map)
  qed
  then show ?thesis using warm u(1) by (auto simp: counts_def)
qed

section \<open>New signals\<close>

lemma all_assets_buffers_ok:
  assumes "\<forall>l \<in> set ls. 0 \<le> l"
  shows "\<exists>ps. all_assets_buffers ls as prices = Inr ps \<and> (\<forall>a l. map_of ps (asset_lookback_key a l) =
    (if a \<in> set as \<and> l \<in> set ls then Some \<lparr>dq_maxlen = l, dq_items = []\<rparr> else map_of prices (asset_lookback_key a l)))"
proof (induction as arbitrary: prices)
  case (Cons b as)
  obtain new where new: "single_asset_buffers ls b = Inr new"
    using assms by (auto simp: single_asset_buffers_def not_less)
  have the: "(THE l'. asset_lookback_key a l = asset_lookback_key a l') = l" for a l
    by (rule the_equality) (simp_all add: lookback_key_inject)
  have "map_of (dict_update prices new) (asset_lookback_key a l) =
      (if a = b \<and> l \<in> set ls then Some \<lparr>dq_maxlen = l, dq_items = []\<rparr> else map_of prices (asset_lookback_key a l))" for a l
    using single_asset_lookup [OF new] by (auto simp: map_of_dict_update wf_dict_def lookback_key_inject the)
  moreover obtain ps where "all_assets_buffers ls as (dict_update prices new) = Inr ps"
      "\<And>a l. map_of ps (asset_lookback_key a l) = (if a \<in> set as \<and> l \<in> set ls then Some \<lparr>dq_maxlen = l, dq_items = []\<rparr>
        else map_of (dict_update prices new) (asset_lookback_key a l))"
    using Cons.IH by blast
  ultimately show ?case by (intro exI [of _ ps]) (auto simp: new)
qed simp

text \<open>The constructor, with distinct lookbacks that are not negative, gives empty windows.\<close>

lemma new_signal_ok:
  assumes "ls \<noteq> []" and "distinct ls" and "\<forall>l \<in> set ls. 0 \<le> l" and "distinct (get_assets u dt)"
  shows "\<exists>s. new_signal kind dt u ls = Inr s \<and> sg_kind s = kind \<and> sg_universe s = u \<and> sg_assets s = get_assets u dt \<and>
    pb_lookbacks (sg_buffers s) = map (stored_lookback kind) ls \<and> wf_buffers (sg_buffers s) \<and>
    (\<forall>a n. prices_in (sg_buffers s) a n = [])"
proof -
  let ?ls = "map (stored_lookback kind) ls"
  have ls: "\<forall>l \<in> set ?ls. 0 \<le> l" using assms(3) by (auto simp: stored_lookback_def)
  obtain ps where ps: "all_assets_buffers ?ls (get_assets u dt) [] = Inr ps"
      "\<And>a l. map_of ps (asset_lookback_key a l) =
        (if a \<in> set (get_assets u dt) \<and> l \<in> set ?ls then Some \<lparr>dq_maxlen = l, dq_items = []\<rparr> else None)"
    using all_assets_buffers_ok [OF ls, of "get_assets u dt" "[]"] by auto
  let ?b = "\<lparr>pb_assets = get_assets u dt, pb_lookbacks = ?ls, pb_prices = ps\<rparr>"
  have look: "lookup_window ?b a l = (if a \<in> set (get_assets u dt) \<and> l \<in> set ?ls
      then Some \<lparr>dq_maxlen = l, dq_items = []\<rparr> else None)" for a l
    by (simp add: lookup_window_def ps(2))
  have "inj (stored_lookback kind)" by (auto simp: inj_def stored_lookback_def)
  then have "distinct ?ls" using assms(2) by (metis distinct_map inj_on_subset subset_UNIV)
  moreover have "windows_ready ?b a \<or> windows_absent ?b a" for a
    by (cases "a \<in> set (get_assets u dt)") (auto simp: windows_ready_def windows_absent_def look)
  ultimately have "wf_buffers ?b" using assms(1) ls by (simp add: wf_buffers_def)
  moreover have "prices_in ?b a n = []" for a n by (simp add: prices_in_def look)
  ultimately show ?thesis
    by (intro exI [of _ "\<lparr>sg_kind = kind, sg_universe = u, sg_buffers = ?b\<rparr>"])
      (simp add: new_signal_def new_price_buffers_def ps(1) sg_assets_def)
qed

section \<open>What the signals compute\<close>

lemma forward_fill_id: "forward_fill prev (map Some ps) = map Some ps"
  by (induction ps arbitrary: prev) auto

lemma changes_telescope:
  "\<forall>p \<in> set (x # xs). (0 :: rat) < p \<Longrightarrow>
   prod_list (map (\<lambda>r. 1 + r) (changes (map Some (x # xs)))) = last (x # xs) / x"
  by (induction xs arbitrary: x) auto

lemma changes_empty: "changes (map Some (x # xs)) = [] \<longleftrightarrow> xs = []"
  by (cases xs) auto

text \<open>
  C34. What a signal says of an asset once its buffer has seen the prices \<open>ps\<close>, all positive, in
  order: the moving average is the mean of the last prices; momentum is the growth from the price
  one lookback before the last (or from the first there is) to the last, the product of the daily
  returns telescoping, and zero as long as there is one price.
\<close>

theorem signals_read_the_last_prices:
  assumes "map_of (sc_signals c) name = Some s" and "wf_collection c" and "0 < l"
    and "n = nat (stored_lookback (sg_kind s) l)" and "n \<in> signal_sizes c (name, a)"
    and "signal_view c (name, a) n = last_n n (map Some ps)" and "ps \<noteq> []" and "\<forall>p \<in> set ps. 0 < p"
  shows "(sg_kind s = SMASignal \<longrightarrow> sma_value s a l =
      Inr (Some (sum_list (last_n (nat l) ps) / of_nat (min (nat l) (length ps))))) \<and>
    (sg_kind s = MomentumSignal \<longrightarrow> momentum_value pads s a l = Inr (last ps / hd (last_n (nat l + 1) ps) - 1))"
proof -
  let ?xs = "last_n n ps"
  have n: "0 < n" "int n = stored_lookback (sg_kind s) l" using assms(3,4) by (auto simp: stored_lookback_def)
  then have ne: "?xs \<noteq> []" using assms(7) by (cases ps rule: rev_cases) (auto simp: last_n_rev)
  have "last_n n (map Some ps) \<noteq> []" using ne by (simp flip: map_last_n)
  then have win: "window s a l = Inr (map Some ?xs)"
    using window_in_view [OF assms(1,2,5) n(2)] by (simp add: assms(6) map_last_n)
  have pos: "\<forall>p \<in> set ?xs. 0 < p" using assms(8) by (auto dest: set_last_n)
  have "sma_value s a l = Inr (Some (sum_list (last_n (nat l) ps) / of_nat (min (nat l) (length ps))))" if "sg_kind s = SMASignal"
  proof -
    have "n = nat l" using that by (simp add: assms(4) stored_lookback_def)
    moreover have "nan_sum (map Some xs) = Some (sum_list xs)" for xs using nan_sum_map_Some [of "\<lambda>x. x" xs] by simp
    ultimately show ?thesis using win ne by (simp add: sma_value_def np_mean_def)
  qed
  moreover have "momentum_value pads s a l = Inr (last ps / hd (last_n (nat l + 1) ps) - 1)" if "sg_kind s = MomentumSignal"
  proof -
    have n1: "n = nat l + 1" using that assms(3) by (simp add: assms(4) stored_lookback_def)
    obtain x xs where xs: "?xs = x # xs" using ne by (cases ?xs) auto
    have "last ?xs = last ps" using ne assms(7) unfolding last_n_def by (simp add: last_drop)
    then have "last (x # xs) = last ps" by (simp only: xs)
    moreover have "pct_change pads (map Some ?xs) = changes (map Some (x # xs))"
      by (cases pads) (simp_all add: pct_change_def forward_fill_id xs)
    moreover have "prod_list (map (\<lambda>r. 1 + r) (changes (map Some (x # xs)))) = last (x # xs) / x"
      by (rule changes_telescope) (use pos xs in simp)
    moreover have "0 < x" using pos xs by simp
    ultimately show ?thesis using win n1 xs changes_empty [of x xs]
      by (cases "xs = []") (auto simp: momentum_value_def cumulative_return_def)
  qed
  ultimately show ?thesis by blast
qed

text \<open>A collection of a moving average of two closes and a momentum over one, on one asset.\<close>

definition demo_signals :: signals_collection where
  "demo_signals = \<lparr>sc_signals =
     [(''sma'', projr (new_signal SMASignal 0 (StaticUniverse [''EQ:A'']) [2])),
      (''mom'', projr (new_signal MomentumSignal 0 (StaticUniverse [''EQ:A'']) [1]))], sc_warmup = 0\<rparr>"

definition rising_feed :: price_feed where
  "rising_feed = \<lparr>feed_bid_ask = (\<lambda>dt a. (Some (of_int dt), Some (of_int dt))), feed_mid = (\<lambda>dt a. Some (of_int dt)),
     feed_ask = (\<lambda>dt a. Some (of_int dt))\<rparr>"

lemma demo_signals_ok:
  "wf_collection demo_signals" "settled demo_signals dt" "watches demo_signals ''mom'' ''EQ:A''" "watches demo_signals ''sma'' ''EQ:A''"
  "signal_sizes demo_signals k = (if fst k \<in> {''sma'', ''mom''} then {2} else {})" "signal_view demo_signals k n = []"
  "warm_assets demo_signals = [''EQ:A'']" "longest_lookback demo_signals = 2"
proof -
  let ?u = "StaticUniverse [''EQ:A'']"
  obtain s where s: "new_signal SMASignal 0 ?u [2] = Inr s" "sg_universe s = ?u" "sg_assets s = [''EQ:A'']"
      "pb_lookbacks (sg_buffers s) = [2]" "wf_buffers (sg_buffers s)" "\<And>a n. prices_in (sg_buffers s) a n = []"
    using new_signal_ok [of "[2]" ?u 0 SMASignal] by (auto simp: stored_lookback_def)
  obtain m where m: "new_signal MomentumSignal 0 ?u [1] = Inr m" "sg_universe m = ?u" "sg_assets m = [''EQ:A'']"
      "pb_lookbacks (sg_buffers m) = [2]" "wf_buffers (sg_buffers m)" "\<And>a n. prices_in (sg_buffers m) a n = []"
    using new_signal_ok [of "[1]" ?u 0 MomentumSignal] by (auto simp: stored_lookback_def)
  have d: "sc_signals demo_signals = [(''sma'', s), (''mom'', m)]" by (simp add: demo_signals_def s(1) m(1))
  show "wf_collection demo_signals" by (auto simp: wf_collection_def d wf_dict_def s m)
  show "settled demo_signals dt" by (simp add: settled_def d s m)
  show "watches demo_signals ''mom'' ''EQ:A''" "watches demo_signals ''sma'' ''EQ:A''" by (simp_all add: watches_def d s m)
  have "{n. int n = 2} = {2}" by auto
  then show "signal_sizes demo_signals k = (if fst k \<in> {''sma'', ''mom''} then {2} else {})"
    by (auto simp: signal_sizes_def d s m window_sizes_def)
  show "signal_view demo_signals k n = []" by (simp add: signal_view_def d s m)
  show "warm_assets demo_signals = [''EQ:A'']" by (simp add: warm_assets_def d s m)
  show "longest_lookback demo_signals = 2" by (simp add: longest_lookback_def longest_lookbacks_def d s m)
qed

theorem warm_up_equals_daily_updates_witness:
  "\<exists>w u. warm_up_signals (\<lambda>start end assets adjusted. Inr (Some [(''EQ:A'', map Some [1, 2, 3])])) 3 True demo_signals =
       ok (w, [(''EQ:A'', 2)]) \<and>
     for_each (update_signals (\<lambda>as. as) rising_feed) [1, 2, 3] demo_signals = ok u \<and>
     signal_view w (''mom'', ''EQ:A'') 2 = signal_view u (''mom'', ''EQ:A'') 2"
proof -
  have "\<exists>w counts u. warm_up_signals (\<lambda>start end assets adjusted. Inr (Some [(''EQ:A'', map Some [1, 2, 3])])) 3 True demo_signals =
       ok (w, counts) \<and> for_each (update_signals (\<lambda>as. as) rising_feed) [1, 2, 3] demo_signals = ok u \<and>
     (\<forall>name a n. watches demo_signals name a \<longrightarrow> n \<in> signal_sizes demo_signals (name, a) \<longrightarrow>
        signal_view w (name, a) n = signal_view u (name, a) n) \<and>
     counts = map (\<lambda>a. (a, min (longest_lookback demo_signals) (int (length [1, 2, 3 :: int])))) (warm_assets demo_signals)"
    by (rule warm_up_equals_daily_updates [where price = "\<lambda>dt a. of_int dt"])
      (auto simp: demo_signals_ok rising_feed_def)
  then show ?thesis by (auto simp: demo_signals_ok)
qed

theorem signals_read_the_last_prices_witness:
  "\<exists>u s. for_each (update_signals (\<lambda>as. as) rising_feed) [1, 2, 3] demo_signals = ok u \<and>
     map_of (sc_signals u) ''mom'' = Some s \<and> momentum_value True s ''EQ:A'' 1 = Inr (1 / 2)"
proof -
  obtain u where u: "for_each (update_signals (\<lambda>as. as) rising_feed) [1, 2, 3] demo_signals = ok u"
      "wf_collection u" "collection_frame u = collection_frame demo_signals"
      "\<forall>name a n. watches demo_signals name a \<longrightarrow> n \<in> signal_sizes demo_signals (name, a) \<longrightarrow>
        signal_view u (name, a) n = last_n n (signal_view demo_signals (name, a) n @ map (\<lambda>dt. feed_mid rising_feed dt a) [1, 2, 3])"
  proof -
    have "usable_price (feed_mid rising_feed dt a)" if "dt \<in> set [1, 2, 3]" for dt a
      using that by (auto simp: rising_feed_def usable_price_def)
    with days_of_updates [of demo_signals "[1, 2, 3]" "\<lambda>as. as" rising_feed, OF demo_signals_ok(1) demo_signals_ok(2) refl] that
    show thesis by blast
  qed
  obtain s0 where "map_of (sc_signals demo_signals) ''mom'' = Some s0" "sg_kind s0 = MomentumSignal"
    using new_signal_ok [of "[1]" "StaticUniverse [''EQ:A'']" 0 MomentumSignal] by (auto simp: demo_signals_def)
  moreover have "map_option sg_kind (map_of (sc_signals u) ''mom'') = map_option sg_kind (map_of (sc_signals demo_signals) ''mom'')"
    unfolding map_of_map_snd [symmetric]
    by (subst frame_map [OF u(3), where g = fst]) (simp_all add: signal_frame_def)
  ultimately obtain s where s: "map_of (sc_signals u) ''mom'' = Some s" "sg_kind s = MomentumSignal" by auto
  have "signal_view u (''mom'', ''EQ:A'') 2 = last_n 2 (map Some [1, 2, 3])"
    using u(4) demo_signals_ok by (simp add: rising_feed_def)
  then have "momentum_value True s ''EQ:A'' 1 = Inr (last [1, 2, 3] / hd (last_n (nat 1 + 1) [1, 2, 3]) - 1)"
    using signals_read_the_last_prices [of u "''mom''" s 1 2 "''EQ:A''" "[1, 2, 3]" True] s u(2)
      signal_sizes_frame(1) [OF u(3)] demo_signals_ok(5)
    by (simp add: stored_lookback_def)
  then show ?thesis using u(1) s(1) by (auto simp: last_n_def)
qed

section \<open>Gaps in the history\<close>

text \<open>
  A price that is missing when the signals are updated is no error: it passes the test for
  non-positive prices, enters the buffer, and makes the moving average NaN for as long as it stays
  there. Momentum drops it, but how depends on the pandas release: with 2.x the move across the
  gap is kept, with 3.x it is lost. The lock file allows both.
\<close>

lemma gap_in_the_history:
  "np_mean [Some 10, None, Some 20] = None"
  "cumulative_return (pct_change True [Some 10, None, Some 20]) = 1"
  "cumulative_return (pct_change False [Some 10, None, Some 20]) = 0"
  by (simp_all add: np_mean_def pct_change_def cumulative_return_def Let_def)

text \<open>Adding an asset twice empties its buffers: \<^verbatim>\<open>add_asset\<close> does not record it.\<close>

lemma added_twice:
  assumes "\<forall>l \<in> set (pb_lookbacks b). 0 \<le> l" and "a \<notin> set (pb_assets b)" and "pb_add_asset a b = ok c"
  shows "\<exists>d. pb_add_asset a c = ok d \<and> (\<forall>l \<in> set (pb_lookbacks b). lookup_window d a l = Some \<lparr>dq_maxlen = l, dq_items = []\<rparr>)"
proof -
  have c: "pb_assets c = pb_assets b" "pb_lookbacks c = pb_lookbacks b"
    using create_buffers_ok [OF assms(1), of a] assms(2,3) by (auto simp: pb_add_asset_def)
  have "\<forall>l \<in> set (pb_lookbacks c). 0 \<le> l" using assms(1) c(2) by simp
  from create_buffers_ok [OF this, of a] show ?thesis using assms(2) c by (auto simp: pb_add_asset_def)
qed

section \<open>Volatility\<close>

lemma np_var_nonneg: "0 \<le> np_var xs"
  by (auto simp: np_var_def Let_def intro!: divide_nonneg_nonneg sum_list_nonneg)

lemma sum_squares_zero: "sum_list (map (\<lambda>x. (x - m) ^ 2) xs) = (0 :: rat) \<longleftrightarrow> (\<forall>x \<in> set xs. x = m)"
proof (induction xs)
  case (Cons x xs)
  have "0 \<le> sum_list (map (\<lambda>x. (x - m) ^ 2) xs)" by (auto intro!: sum_list_nonneg)
  with Cons show ?case by (simp add: add_nonneg_eq_0_iff)
qed simp

lemma np_var_zero: "xs \<noteq> [] \<Longrightarrow> np_var xs = 0 \<longleftrightarrow> (\<forall>x \<in> set xs. x = sum_list xs / of_nat (length xs))"
  by (simp add: np_var_def Let_def sum_squares_zero)

lemma annualised_vol_bounds:
  "0 \<le> annualised_vol xs" "annualised_vol xs = 0 \<longleftrightarrow> (\<forall>x \<in> set xs. \<forall>y \<in> set xs. x = y)"
proof -
  show "0 \<le> annualised_vol xs" using np_var_nonneg [of xs] by (simp add: annualised_vol_def)
  show "annualised_vol xs = 0 \<longleftrightarrow> (\<forall>x \<in> set xs. \<forall>y \<in> set xs. x = y)"
  proof (cases xs)
    case (Cons z zs)
    show ?thesis
    proof
      assume "annualised_vol xs = 0"
      then have "np_var xs = 0" using Cons by (simp add: annualised_vol_def)
      moreover have "xs \<noteq> []" using Cons by simp
      ultimately have "\<forall>x \<in> set xs. x = sum_list xs / of_nat (length xs)" using np_var_zero by blast
      then show "\<forall>x \<in> set xs. \<forall>y \<in> set xs. x = y" by metis
    next
      assume "\<forall>x \<in> set xs. \<forall>y \<in> set xs. x = y"
      then have "xs = replicate (length xs) z" by (intro replicate_eqI) (auto simp: Cons)
      then have "sum_list xs = of_nat (length xs) * z" by (metis sum_list_replicate)
      then have "sum_list xs / of_nat (length xs) = z" using Cons by simp
      moreover have "\<forall>x \<in> set xs. x = z" using \<open>xs = replicate (length xs) z\<close> by (metis in_set_replicate)
      ultimately have "\<forall>x \<in> set xs. x = sum_list xs / of_nat (length xs)" by blast
      moreover have "xs \<noteq> []" using Cons by simp
      ultimately have "np_var xs = 0" using np_var_zero by blast
      then show "annualised_vol xs = 0" by (simp add: annualised_vol_def)
    qed
  qed (simp add: annualised_vol_def)
qed

end
