(* ===== verification/Overnight.thy ===== *)
theory Overnight
  imports Trading_System
begin

text \<open>
  Decisions taken while the market is closed, which is what a backtest does: its schedules fall
  on the close, at which the simulated exchange no longer trades. The orders sized then wait in
  the broker's queue (\<^verbatim>\<open>broker/simulated_broker.py\<close>, \<^verbatim>\<open>execution/execution_handler.py\<close>) and are
  filled by the update of the next open, at that open's prices.
\<close>

section \<open>A closed market\<close>

lemma closed_update:
  assumes "sim_update is_open feed dt b = ok b'" and "\<not> is_open dt" and "wf_sim_broker b"
    and "map_of (sb_portfolios b) pid = Some p" and "pf_live p"
  shows "wf_sim_broker b' \<and> sb_open_orders b' = sb_open_orders b \<and> sb_fee_model b' = sb_fee_model b \<and>
    (\<exists>p'. map_of (sb_portfolios b') pid = Some p' \<and> pf_live p' \<and> books p' = books p)"
proof -
  obtain c where c: "mark_all feed dt (b\<lparr>sb_dt := dt\<rparr>) = ok c"
    using sim_update_ok_marks [OF assms(1)] by blast
  note frame = mark_all_frame [where feed = feed and dt = dt and b = "b\<lparr>sb_dt := dt\<rparr>"]
  have dt: "sb_dt c = dt" using frame c by simp
  then have "b' = c" using assms(1,2) c by (simp add: sim_update_def Let_def)
  obtain q where "map_of (sb_portfolios c) pid = Some q" "pf_live q" "books q = books p"
    by (rule live_in_update [OF c assms(3-5)])
  moreover have "wf_sim_broker b'" using update_invariant [OF assms(3), of is_open feed dt] assms(1) by simp
  ultimately show ?thesis using frame c \<open>b' = c\<close> by simp
qed

lemma closed_submit:
  assumes "submit_and_update is_open feed pid dt o' b = ok b'" and "\<not> is_open dt" and "wf_sim_broker b"
    and "map_of (sb_portfolios b) pid = Some p" and "pf_live p"
  shows "wf_sim_broker b' \<and> queue_of pid b' = queue_of pid b @ [o'] \<and>
    (\<exists>p'. map_of (sb_portfolios b') pid = Some p' \<and> pf_live p' \<and> books p' = books p)"
proof -
  obtain b1 where sub: "sim_submit_order pid o' b = ok b1" and upd: "sim_update is_open feed dt b1 = ok b'"
    using assms(1) by (auto simp: submit_and_update_def then_do_eq_ok)
  note q = submit_queues [OF sub]
  have wf: "wf_sim_broker b1" using wf_submit [OF assms(3), of pid o'] sub by simp
  have p: "map_of (sb_portfolios b1) pid = Some p" using q(3) assms(4) by simp
  note done' = closed_update [OF upd assms(2) wf p assms(5)]
  moreover have "queue_of pid b' = queue_of pid b1" using done' by (simp add: queue_of_def)
  ultimately show ?thesis using q(1) by simp
qed

lemma closed_submit_all:
  assumes "for_each (submit_and_update is_open feed pid dt) os b = ok b'" and "\<not> is_open dt" and "wf_sim_broker b"
    and "map_of (sb_portfolios b) pid = Some p" and "pf_live p"
  shows "wf_sim_broker b' \<and> queue_of pid b' = queue_of pid b @ os \<and>
    (\<exists>p'. map_of (sb_portfolios b') pid = Some p' \<and> pf_live p' \<and> books p' = books p)"
  using assms
proof (induction os arbitrary: b p)
  case (Cons x os)
  obtain b1 where first: "submit_and_update is_open feed pid dt x b = ok b1"
    and rest: "for_each (submit_and_update is_open feed pid dt) os b1 = ok b'"
    using Cons.prems(1) by (auto simp: for_each_eq_ok_Cons simp del: for_each.simps)
  obtain p1 where p1: "wf_sim_broker b1" "queue_of pid b1 = queue_of pid b @ [x]"
      "map_of (sb_portfolios b1) pid = Some p1" "pf_live p1" "books p1 = books p"
    using closed_submit [OF first Cons.prems(2-5)] by blast
  from Cons.IH [OF rest Cons.prems(2) p1(1,3,4)] p1(2,5) show ?case by simp
qed simp

section \<open>The next open\<close>

lemma held_books: "books p = books q \<Longrightarrow> held p a = held q a"
  by (simp add: books_def held_def)

text \<open>Executing orders moves the holdings by their quantities.\<close>

lemma execute_all_held:
  assumes "execute_all feed dt xs b = ok b'" and "map_of (sb_portfolios b) pid = Some p" and "pf_live p"
    and "\<forall>(i, o') \<in> set xs. i = pid \<longrightarrow> \<lfloor>ord_quantity o'\<rfloor> \<noteq> 0"
  shows "\<exists>p'. map_of (sb_portfolios b') pid = Some p' \<and> pf_live p' \<and>
    (\<forall>a. held p' a = held p a + sum_list (map (\<lambda>x. if ord_asset (snd x) = a then ord_quantity (snd x) else 0)
      (filter (\<lambda>x. fst x = pid) xs)))"
  using assms
proof (induction xs arbitrary: b p)
  case (Cons x xs)
  obtain i o1 where x: "x = (i, o1)" by (cases x)
  from Cons.prems(1) obtain b1 where b1: "execute_order feed dt i o1 b = ok b1"
    and rest: "execute_all feed dt xs b1 = ok b'"
    by (auto simp: x for_each_eq_ok_Cons simp del: for_each.simps)
  from b1 obtain q q' where q: "map_of (sb_portfolios b) i = Some q"
      "transact_asset (fill_of feed dt (sb_fee_model b) (sb_dt b) o1) q = ok q'"
      "b1 = b\<lparr>sb_portfolios := AList.update i q' (sb_portfolios b)\<rparr>"
    by (rule execute_order_ok)
  have whole: "\<forall>(i, o') \<in> set xs. i = pid \<longrightarrow> \<lfloor>ord_quantity o'\<rfloor> \<noteq> 0" using Cons.prems(4) by simp
  show ?case
  proof (cases "i = pid")
    case True
    have "p = q" using q(1) Cons.prems(2) True by simp
    moreover have "\<lfloor>txn_quantity (fill_of feed dt (sb_fee_model b) (sb_dt b) o1)\<rfloor> \<noteq> 0"
      using Cons.prems(4) True by (simp add: x)
    ultimately have "pf_live q'" "\<And>a. held q' a = held p a + (if a = ord_asset o1 then ord_quantity o1 else 0)"
      using held_transact [OF q(2)] Cons.prems(3) by simp_all
    moreover have "map_of (sb_portfolios b1) pid = Some q'" using q(3) True by simp
    ultimately show ?thesis using Cons.IH [OF rest _ _ whole, of q'] True by (auto simp: x)
  next
    case False
    then have "map_of (sb_portfolios b1) pid = Some p" using q(3) Cons.prems(2) by simp
    then show ?thesis using Cons.IH [OF rest _ Cons.prems(3) whole] False by (auto simp: x)
  qed
qed simp

lemma open_fills_the_queue:
  assumes "sim_update is_open feed dt b = ok b'" and "is_open dt" and "wf_sim_broker b"
    and "map_of (sb_portfolios b) pid = Some p" and "pf_live p" and "\<forall>o' \<in> set (queue_of pid b). \<lfloor>ord_quantity o'\<rfloor> \<noteq> 0"
  shows "wf_sim_broker b' \<and> idle b' \<and> (\<exists>p'. map_of (sb_portfolios b') pid = Some p' \<and> pf_live p' \<and>
    (\<forall>a. held p' a = held p a + sum_list (map ord_quantity (filter (\<lambda>o'. ord_asset o' = a) (queue_of pid b)))))"
proof -
  obtain c where c: "mark_all feed dt (b\<lparr>sb_dt := dt\<rparr>) = ok c"
    using sim_update_ok_marks [OF assms(1)] by blast
  note open' = sim_update_open [where is_open = is_open, OF assms(2,3) c]
  let ?xs = "filter (\<lambda>x. ord_quantity (snd x) < 0) (queued_orders b) @ filter (\<lambda>x. 0 \<le> ord_quantity (snd x)) (queued_orders b)"
  have run: "execute_all feed dt ?xs (drain_queues c) = ok b'" using assms(1) open'(1) by simp
  obtain q where q: "map_of (sb_portfolios c) pid = Some q" "pf_live q" "books q = books p"
    by (rule live_in_update [OF c assms(3-5)])
  have mine: "filter (\<lambda>x. fst x = pid) (queued_orders b) = map (Pair pid) (queue_of pid b)"
    by (rule queued_orders_of [OF assms(3,4)])
  have "\<lfloor>ord_quantity o'\<rfloor> \<noteq> 0" if "(pid, o') \<in> set (queued_orders b)" for o'
  proof -
    have "(pid, o') \<in> set (filter (\<lambda>x. fst x = pid) (queued_orders b))" using that by simp
    then show ?thesis unfolding mine using assms(6) by auto
  qed
  then have "\<forall>(i, o') \<in> set ?xs. i = pid \<longrightarrow> \<lfloor>ord_quantity o'\<rfloor> \<noteq> 0" by auto
  moreover have "map_of (sb_portfolios (drain_queues c)) pid = Some q" using q(1) by simp
  ultimately obtain p' where p': "map_of (sb_portfolios b') pid = Some p'" "pf_live p'"
      "\<And>a. held p' a = held q a + sum_list (map (\<lambda>x. if ord_asset (snd x) = a then ord_quantity (snd x) else 0)
        (filter (\<lambda>x. fst x = pid) ?xs))"
    using execute_all_held [OF run _ q(2)] by blast
  have "sum_list (map (\<lambda>o'. if ord_asset o' = a then ord_quantity o' else 0) os) =
      sum_list (map ord_quantity (filter (\<lambda>o'. ord_asset o' = a) os))" for a os
    by (induction os) simp_all
  note sums = this
  have "held p' a = held p a + sum_list (map ord_quantity (filter (\<lambda>o'. ord_asset o' = a) (queue_of pid b)))" for a
    unfolding p'(3) sum_filter_by_sign mine held_books [OF q(3)] map_map comp_def snd_conv sums ..
  moreover have "idle b'" using queue_of_drained [OF open'(2) execute_all_queues [OF run]] by simp
  moreover have "wf_sim_broker b'" using update_invariant [OF assms(3), of is_open feed dt] assms(1) by simp
  ultimately show ?thesis using p'(1,2) by blast
qed

section \<open>Properties\<close>

text \<open>
  C5. A decision at the close is carried out at the next open. When the rebalance of an idle
  account goes through while the market is closed, from whole holdings, nothing is traded yet:
  cash, event trail and holdings are what they were. The next update in an open market, whatever
  the prices then, leaves the portfolio holding exactly the quantities the sizer set as its
  target at the close's prices, and no order waiting.
\<close>

theorem close_decision_is_filled_at_the_next_open:
  assumes "size_and_submit uid sys is_open feed cmd b = ok b1" and "qts_submit sys"
    and "qts_algo sys = market_order" and "\<not> is_open (tw_dt cmd)" and "wf_sim_broker b"
    and "\<And>pid. queue_of pid b = []" and "map_of (sb_portfolios b) (qts_portfolio sys) = Some p"
    and "pf_live p" and "\<And>a. held p a \<in> \<int>"
    and "is_open dt" and "sim_update is_open feed' dt b1 = ok b2"
  shows "\<exists>v target p1 p2. sim_view (qts_portfolio sys) b = Inr v \<and>
    size_portfolio (pcm_sizer (qts_model sys)) v feed (tw_dt cmd)
      (full_asset_weights (obtain_full_asset_list (pcm_universe (qts_model sys)) v (tw_dt cmd))
        (as_dict cmd)) = Inr target \<and>
    map_of (sb_portfolios b1) (qts_portfolio sys) = Some p1 \<and> books p1 = books p \<and>
    map_of (sb_portfolios b2) (qts_portfolio sys) = Some p2 \<and> (\<forall>a. held p2 a = quantity_in target a) \<and>
    (\<forall>pid. queue_of pid b2 = [])"
proof -
  let ?dt = "tw_dt cmd" and ?pid = "qts_portfolio sys"
  obtain v target where v: "sim_view ?pid b = Inr v"
    and target: "size_portfolio (pcm_sizer (qts_model sys)) v feed ?dt
      (full_asset_weights (obtain_full_asset_list (pcm_universe (qts_model sys)) v ?dt) (as_dict cmd))
      = Inr target"
    and run: "for_each (submit_and_update is_open feed ?pid ?dt) (generate_rebalance_orders uid ?dt target
      (map (\<lambda>(a, h). (a, h_quantity h)) (bv_holdings v))) b = ok b1"
    by (rule size_and_submit_ok [OF assms(1-3)])
  let ?os = "generate_rebalance_orders uid ?dt target (holdings (pf_positions p))"
  note cur = sim_view_holdings(1) [OF v assms(7)]
  obtain p1 where p1: "wf_sim_broker b1" "queue_of ?pid b1 = ?os" "map_of (sb_portfolios b1) ?pid = Some p1"
      "pf_live p1" "books p1 = books p"
    using closed_submit_all [OF run assms(4,5,7,8)] assms(6) unfolding cur by auto
  have whole: "\<forall>o' \<in> set ?os. \<lfloor>ord_quantity o'\<rfloor> \<noteq> 0" by (rule rebalance_orders_whole [OF target assms(9)])
  obtain p2 where p2: "map_of (sb_portfolios b2) ?pid = Some p2" "idle b2"
      "\<And>a. held p2 a = held p1 a + sum_list (map ord_quantity (filter (\<lambda>o'. ord_asset o' = a) ?os))"
    using open_fills_the_queue [OF assms(11,10) p1(1,3,4)] whole unfolding p1(2) by blast
  have "held p2 a = quantity_in target a" for a
    using p2(3) [of a] rebalance_quantity [OF v assms(7) target, of a uid] held_books [OF p1(5)] by simp
  with v target p1(3,5) p2(1,2) show ?thesis by blast
qed

lemma demo_closed: "\<exists>b1 b2. size_and_submit (\<lambda>_ a. a) demo_system (\<lambda>t. t = 3)
    (backtest_feed [demo_source]) demo_command demo_idle = ok b1 \<and>
    sim_update (\<lambda>t. t = 3) (backtest_feed [demo_source]) 3 b1 = ok b2"
proof -
  have quotes: "feed_bid_ask (backtest_feed [demo_source]) dt a = (Some 20, Some 20)" for dt a
    using demo_feed_eval(1) [of dt a] by (simp add: demo_feed_def)
  let ?q = "[new_order ''EQ:AGG'' 2 ''EQ:AGG'' 5, new_order ''EQ:SPY'' 2 ''EQ:SPY'' 17]"
  let ?b1 = "demo_idle\<lparr>sb_dt := 2, sb_open_orders := [(''000001'', ?q)]\<rparr>"
  have "for_each (submit_and_update (\<lambda>t. t = 3) (backtest_feed [demo_source]) ''000001'' 2) ?q demo_idle = ok ?b1"
    by (simp add: demo_idle_def demo_broker_simps submit_and_update_def sim_update_def mark_all_def
        mark_portfolio_def)
  then have "size_and_submit (\<lambda>_ a. a) demo_system (\<lambda>t. t = 3) (backtest_feed [demo_source]) demo_command demo_idle = ok ?b1"
    using demo_orders
    by (simp add: size_and_submit_def execution_handler_def market_order_def demo_system_def demo_command_def)
  moreover have "\<exists>b2. sim_update (\<lambda>t. t = 3) (backtest_feed [demo_source]) 3 ?b1 = ok b2"
    by (simp add: demo_idle_def demo_broker_simps sim_update_def mark_all_def
        mark_portfolio_def queued_orders_def drain_queues_def execute_order_def quotes
        demo_feed_sides ord_direction_def copysign1_def transact_asset_def transact_position_def
        open_from_transaction_def net_quantity_def update_market_value_of_asset_def
        update_current_price_def check_set_dt_def)
  ultimately show ?thesis by blast
qed

theorem close_decision_is_filled_at_the_next_open_witness:
  "\<exists>b1 b2 p2. size_and_submit (\<lambda>_ a. a) demo_system (\<lambda>t. t = 3) (backtest_feed [demo_source])
      demo_command demo_idle = ok b1 \<and>
    sim_update (\<lambda>t. t = 3) (backtest_feed [demo_source]) 3 b1 = ok b2 \<and>
    map_of (sb_portfolios b2) ''000001'' = Some p2 \<and> (\<exists>target. \<forall>a. held p2 a = quantity_in target a)"
proof -
  obtain b1 b2 where run: "size_and_submit (\<lambda>_ a. a) demo_system (\<lambda>t. t = 3) (backtest_feed [demo_source])
      demo_command demo_idle = ok b1" "sim_update (\<lambda>t. t = 3) (backtest_feed [demo_source]) 3 b1 = ok b2"
    using demo_closed by blast
  let ?p = "the (map_of (sb_portfolios demo_idle) ''000001'')"
  have p: "map_of (sb_portfolios demo_idle) (qts_portfolio demo_system) = Some ?p"
    by (simp add: demo_idle_eval demo_system_def)
  have sys: "qts_submit demo_system" "qts_algo demo_system = market_order" "qts_portfolio demo_system = ''000001''"
    by (simp_all add: demo_system_def)
  have idle: "\<And>pid. queue_of pid demo_idle = []" by (simp add: queue_of_def demo_idle_eval)
  have live: "pf_live ?p" and whole: "\<And>a. held ?p a \<in> \<int>"
    by (simp_all add: demo_idle_eval held_lookup pf_live_def live_positions_def audited_def create_subscription_def)
  have closed: "\<not> tw_dt demo_command = 3" by (simp add: demo_command_def)
  show ?thesis
    using run close_decision_is_filled_at_the_next_open [where is_open = "\<lambda>t. t = 3" and dt = 3,
        OF run(1) sys(1,2) closed wf_demo_idle idle p live whole refl run(2)]
    unfolding sys(3) by blast
qed

end
