(* ===== verification/Backtest.thy ===== *)
theory Backtest
  imports Actors Signals
begin

text \<open>
  \<^verbatim>\<open>vmtrader/trading/backtest.py\<close>: a backtest, from the construction of its broker, clock, schedule
  and trading system to the run over all simulation events. Everything of the simulated side
  comes together here; the properties are about whole runs.

  An alpha model may read the session's signals, so it is a function of the collection as it
  stands at the decision. The data handler is a \<open>price_feed\<close>, the identifiers of orders are drawn
  from \<open>uid\<close>, the order in which Python iterates over a set is \<open>perm\<close>.
\<close>

section \<open>The session\<close>

text \<open>\<open>bs_stats\<close> is the collector of a run, which becomes \<open>bs_target_allocations\<close> at its end.\<close>

record backtest_session =
  bs_burn_in :: "timestamp option"
  bs_portfolio :: string
  bs_alpha :: "signals_collection option \<Rightarrow> alpha_model option"
  bs_events :: "sim_event list"
  bs_schedule :: "timestamp list"
  bs_qts :: trading_system
  bs_signals :: "signals_collection option"
  bs_broker :: sim_broker
  bs_equity_curve :: "(timestamp \<times> nan_rat) list"
  bs_target_allocations :: "(timestamp \<times> weights) list"
  bs_stats :: "(timestamp \<times> weights) list"

definition is_rebalance_event :: "backtest_session \<Rightarrow> timestamp \<Rightarrow> bool" where
  "is_rebalance_event s dt \<longleftrightarrow> dt \<in> set (bs_schedule s)"

section \<open>Construction\<close>

text \<open>The arguments of the constructor, \<^verbatim>\<open>kwargs\<close> included.\<close>

record backtest_args =
  arg_start_dt :: timestamp
  arg_end_dt :: timestamp
  arg_universe :: asset_universe
  arg_alpha :: "signals_collection option \<Rightarrow> alpha_model option"
  arg_risk :: "risk_model option"
  arg_signals :: "signals_collection option"
  arg_initial_cash :: rat
  arg_rebalance :: string
  arg_account_name :: string
  arg_portfolio_id :: string
  arg_portfolio_name :: string
  arg_long_only :: bool
  arg_base_currency :: string
  arg_fee_model :: fee_model
  arg_burn_in_dt :: "timestamp option"
  arg_optimiser :: "optimiser option"
  arg_execution_algo :: "execution_algo option"
  arg_rebalance_weekday :: "string option"
  arg_cash_buffer :: "rat option"
  arg_gross_leverage :: "rat option"

definition outcome_result :: "'s outcome \<Rightarrow> exn + 's" where
  "outcome_result r = (case snd r of None \<Rightarrow> Inr (fst r) | Some e \<Rightarrow> Inl e)"

definition create_broker :: "backtest_args \<Rightarrow> exn + sim_broker" where
  "create_broker a =
    and_then (init_sim_broker (arg_start_dt a) (Some (arg_account_name a)) (arg_base_currency a)
        (arg_initial_cash a) (arg_fee_model a)) (\<lambda>b.
      outcome_result (then_do (create_portfolio (arg_portfolio_id a) (Some (arg_portfolio_name a)) b)
        (subscribe_funds_to_portfolio (arg_portfolio_id a) (arg_initial_cash a))))"

definition create_simulation_engine :: "backtest_args \<Rightarrow> exn + sim_event list" where
  "create_simulation_engine a = sim_engine (arg_start_dt a) (arg_end_dt a) False False"

definition create_rebalance_event_times :: "backtest_args \<Rightarrow> exn + timestamp list" where
  "create_rebalance_event_times a =
    (if arg_rebalance a = ''buy_and_hold'' then Inr (buy_and_hold_rebalances (arg_start_dt a))
     else if arg_rebalance a = ''daily'' then Inr (daily_rebalances (arg_start_dt a) (arg_end_dt a) False)
     else if arg_rebalance a = ''weekly'' then
       (case arg_rebalance_weekday a of
          None \<Rightarrow> Inl ValueError
        | Some w \<Rightarrow> weekly_rebalances (arg_start_dt a) (arg_end_dt a) w False)
     else if arg_rebalance a = ''end_of_month'' then
       Inr (end_of_month_rebalances (arg_start_dt a) (arg_end_dt a) False)
     else Inl ValueError)"

text \<open>
  The risk model is passed as a sixth positional argument, which the trading system swallows: its
  own parameter \<^verbatim>\<open>risk_model\<close> can only be given by name and stays empty. The other sizer's
  keyword is not passed on.
\<close>

definition create_quant_trading_system :: "backtest_args \<Rightarrow> exn + trading_system" where
  "create_quant_trading_system a =
    (let alpha = arg_alpha a (arg_signals a) in
     if arg_long_only a then
       (case arg_cash_buffer a of
          None \<Rightarrow> Inl ValueError
        | Some pct \<Rightarrow> init_trading_system (arg_universe a) (arg_portfolio_id a) alpha None True (Some pct) None
            (arg_optimiser a) (arg_execution_algo a) True)
     else
       (case arg_gross_leverage a of
          None \<Rightarrow> Inl ValueError
        | Some lev \<Rightarrow> init_trading_system (arg_universe a) (arg_portfolio_id a) alpha None False None (Some lev)
            (arg_optimiser a) (arg_execution_algo a) True))"

definition init_backtest :: "backtest_args \<Rightarrow> exn + backtest_session" where
  "init_backtest a =
    and_then (create_broker a) (\<lambda>broker.
    and_then (create_simulation_engine a) (\<lambda>events.
    and_then (create_rebalance_event_times a) (\<lambda>schedule.
    and_then (create_quant_trading_system a) (\<lambda>qts.
      Inr \<lparr>bs_burn_in = arg_burn_in_dt a, bs_portfolio = arg_portfolio_id a, bs_alpha = arg_alpha a,
        bs_events = events, bs_schedule = schedule, bs_qts = qts, bs_signals = arg_signals a, bs_broker = broker,
        bs_equity_curve = [], bs_target_allocations = [], bs_stats = []\<rparr>))))"

section \<open>The actors of a run\<close>

text \<open>The trading system with the alpha model on the signals as they stand.\<close>

definition current_system :: "backtest_session \<Rightarrow> trading_system" where
  "current_system s =
    (bs_qts s)\<lparr>qts_model := (qts_model (bs_qts s))\<lparr>pcm_alpha := bs_alpha s (bs_signals s)\<rparr>\<rparr>"

text \<open>
  \<^verbatim>\<open>size_and_submit\<close> with the collector: \<^verbatim>\<open>build_orders\<close> records the full weights of the decision
  after reading the holdings and before sizing.
\<close>

definition record_and_submit :: "(timestamp \<Rightarrow> symbol \<Rightarrow> string) \<Rightarrow> (timestamp \<Rightarrow> bool) \<Rightarrow> price_feed
    \<Rightarrow> target_weights \<Rightarrow> backtest_session \<Rightarrow> backtest_session outcome" where
  "record_and_submit uid is_open feed cmd s =
    with_result (sim_view (qts_portfolio (bs_qts s)) (bs_broker s)) (\<lambda>v.
      let full = full_asset_weights
            (obtain_full_asset_list (pcm_universe (qts_model (bs_qts s))) v (tw_dt cmd)) (as_dict cmd) in
      map_outcome (\<lambda>b. s\<lparr>bs_stats := bs_stats s @ [(tw_dt cmd, full)], bs_broker := b\<rparr>)
        (size_and_submit uid (bs_qts s) is_open feed cmd (bs_broker s))) s"

definition backtest_handlers :: "(timestamp \<Rightarrow> symbol \<Rightarrow> string) \<Rightarrow> (timestamp \<Rightarrow> bool) \<Rightarrow> price_feed
    \<Rightarrow> backtest_session broker_handlers" where
  "backtest_handlers uid is_open feed =
    \<lparr>bh_size_and_submit = record_and_submit uid is_open feed, bh_on_error = Some raise\<rparr>"

definition backtest_strategy :: "backtest_session \<Rightarrow> unit strategy" where
  "backtest_strategy s =
    \<lparr>st_decide = qts_decide_weights (current_system s), st_on_fill = (\<lambda>event t. ok t), st_on_error = Some Some\<rparr>"

section \<open>The run\<close>

type_synonym backtest_run = "(backtest_session, unit) cycle"

abbreviation session_of :: "backtest_run \<Rightarrow> backtest_session" where
  "session_of c \<equiv> snd (snd (snd c))"

definition on_session :: "(backtest_session \<Rightarrow> backtest_session outcome) \<Rightarrow> backtest_run \<Rightarrow> backtest_run outcome" where
  "on_session f c = map_outcome (\<lambda>s. (fst c, fst (snd c), fst (snd (snd c)), s)) (f (session_of c))"

definition update_equity_curve :: "timestamp \<Rightarrow> backtest_session \<Rightarrow> backtest_session outcome" where
  "update_equity_curve dt s =
    with_result (get_account_total_equity (bs_broker s)) (\<lambda>d.
      case map_of d ''master'' of
        None \<Rightarrow> raise KeyError s
      | Some e \<Rightarrow> ok (s\<lparr>bs_equity_curve := bs_equity_curve s @ [(dt, e)]\<rparr>)) s"

definition broker_update :: "(timestamp \<Rightarrow> bool) \<Rightarrow> price_feed \<Rightarrow> timestamp \<Rightarrow> backtest_session
    \<Rightarrow> backtest_session outcome" where
  "broker_update is_open feed dt s =
    map_outcome (\<lambda>b. s\<lparr>bs_broker := b\<rparr>) (sim_update is_open feed dt (bs_broker s))"

definition signals_update :: "(symbol list \<Rightarrow> symbol list) \<Rightarrow> price_feed \<Rightarrow> sim_event \<Rightarrow> backtest_session
    \<Rightarrow> backtest_session outcome" where
  "signals_update perm feed event s =
    (case bs_signals s of
       None \<Rightarrow> ok s
     | Some c \<Rightarrow> if snd event = MarketClose
         then map_outcome (\<lambda>c. s\<lparr>bs_signals := Some c\<rparr>) (update_signals perm feed (fst event) c) else ok s)"

text \<open>Past the burn-in, if there is one.\<close>

definition past_burn_in :: "backtest_session \<Rightarrow> timestamp \<Rightarrow> bool" where
  "past_burn_in s dt \<longleftrightarrow> (case bs_burn_in s of None \<Rightarrow> True | Some b \<Rightarrow> b \<le> dt)"

definition run_event :: "(timestamp \<Rightarrow> symbol \<Rightarrow> string) \<Rightarrow> (symbol list \<Rightarrow> symbol list) \<Rightarrow> (timestamp \<Rightarrow> bool)
    \<Rightarrow> price_feed \<Rightarrow> sim_event \<Rightarrow> backtest_run \<Rightarrow> backtest_run outcome" where
  "run_event uid perm is_open feed event c =
    (let dt = fst event in
     then_do (on_session (broker_update is_open feed dt) c) (\<lambda>c.
     then_do (on_session (signals_update perm feed event) c) (\<lambda>c.
     then_do (if past_burn_in (session_of c) dt \<and> is_rebalance_event (session_of c) dt
          then ex_post_event (backtest_handlers uid is_open feed) (backtest_strategy (session_of c)) (RebalanceDue dt) c
          else ok c) (\<lambda>c.
     if snd event = MarketClose \<and> past_burn_in (session_of c) dt then on_session (update_equity_curve dt) c
     else ok c))))"

definition run_events :: "(timestamp \<Rightarrow> symbol \<Rightarrow> string) \<Rightarrow> (symbol list \<Rightarrow> symbol list) \<Rightarrow> (timestamp \<Rightarrow> bool)
    \<Rightarrow> price_feed \<Rightarrow> sim_event list \<Rightarrow> backtest_session \<Rightarrow> backtest_run outcome" where
  "run_events uid perm is_open feed events s =
    for_each (run_event uid perm is_open feed) events (fresh_actors True () (s\<lparr>bs_stats := []\<rparr>))"

text \<open>The exchange of a backtest is the simulated one.\<close>

definition run_backtest :: "(timestamp \<Rightarrow> symbol \<Rightarrow> string) \<Rightarrow> (symbol list \<Rightarrow> symbol list) \<Rightarrow> price_feed
    \<Rightarrow> backtest_session \<Rightarrow> backtest_session outcome" where
  "run_backtest uid perm feed s =
    then_do (map_outcome session_of (run_events uid perm sim_is_open feed (bs_events s) s))
      (\<lambda>s. ok (s\<lparr>bs_target_allocations := bs_stats s\<rparr>))"

section \<open>What is read afterwards\<close>

text \<open>An empty frame has no dates to take: its index has no attribute \<^verbatim>\<open>date\<close>.\<close>

definition get_equity_curve :: "backtest_session \<Rightarrow> exn + (int \<times> nan_rat) list" where
  "get_equity_curve s =
    (if bs_equity_curve s = [] then Inl AttributeError
     else Inr (map (\<lambda>(dt, e). (date_of dt, e)) (bs_equity_curve s)))"

text \<open>
  \<^verbatim>\<open>reindex(method='ffill')\<close>: per date the last row at or before it, none before the first. A
  row has a value per column, missing where its decision did not name the asset.
\<close>

definition allocation_columns :: "(timestamp \<times> weights) list \<Rightarrow> symbol list" where
  "allocation_columns rows = rev (remdups (rev (concat (map (\<lambda>(dt, ws). map fst ws) rows))))"

definition allocation_at :: "(timestamp \<times> weights) list \<Rightarrow> int \<Rightarrow> weights option" where
  "allocation_at rows d =
    (case filter (\<lambda>(dt, ws). date_of dt \<le> d) rows of [] \<Rightarrow> None | rs \<Rightarrow> Some (snd (last rs)))"

definition get_target_allocations :: "backtest_session \<Rightarrow> exn + (int \<times> (symbol \<times> nan_rat) list) list" where
  "get_target_allocations s =
    and_then (get_equity_curve s) (\<lambda>curve.
      let rows = bs_target_allocations s in
      if rows = [] then Inl KeyError
      else if \<not> sorted_wrt (<) (map (\<lambda>(dt, ws). date_of dt) rows) then Inl ValueError
      else Inr (filter (\<lambda>(d, row). case bs_burn_in s of None \<Rightarrow> True | Some b \<Rightarrow> date_of b \<le> d)
        (map (\<lambda>(d, e). (d, map (\<lambda>a. (a, case allocation_at rows d of None \<Rightarrow> None | Some ws \<Rightarrow> map_of ws a))
            (allocation_columns rows))) curve)))"

section \<open>The actors add nothing\<close>

text \<open>One event on the session alone: the loop body with the two halves of a rebalance called in turn.\<close>

definition rebalance_step :: "(timestamp \<Rightarrow> symbol \<Rightarrow> string) \<Rightarrow> (timestamp \<Rightarrow> bool) \<Rightarrow> price_feed \<Rightarrow> timestamp
    \<Rightarrow> backtest_session \<Rightarrow> backtest_session outcome" where
  "rebalance_step uid is_open feed dt s =
    (if past_burn_in s dt \<and> is_rebalance_event s dt
     then with_result (qts_decide_weights (current_system s) dt) (\<lambda>cmd. record_and_submit uid is_open feed cmd s) s
     else ok s)"

definition equity_step :: "sim_event \<Rightarrow> backtest_session \<Rightarrow> backtest_session outcome" where
  "equity_step event s =
    (if snd event = MarketClose \<and> past_burn_in s (fst event) then update_equity_curve (fst event) s else ok s)"

definition event_step :: "(timestamp \<Rightarrow> symbol \<Rightarrow> string) \<Rightarrow> (symbol list \<Rightarrow> symbol list) \<Rightarrow> (timestamp \<Rightarrow> bool)
    \<Rightarrow> price_feed \<Rightarrow> sim_event \<Rightarrow> backtest_session \<Rightarrow> backtest_session outcome" where
  "event_step uid perm is_open feed event s =
    then_do (broker_update is_open feed (fst event) s) (\<lambda>s.
    then_do (signals_update perm feed event s) (\<lambda>s.
    then_do (rebalance_step uid is_open feed (fst event) s) (equity_step event)))"

definition in_step :: "backtest_run \<Rightarrow> bool" where
  "in_step c \<longleftrightarrow> ex_synchronous (fst c) \<and> ba_synchronous (fst (snd (snd c))) \<and>
    \<not> ba_commands_refused (fst (snd (snd c)))"

text \<open>A run on the actors and a run on the session, side by side.\<close>

definition tracks :: "backtest_run outcome \<Rightarrow> backtest_session outcome \<Rightarrow> bool" where
  "tracks r q \<longleftrightarrow> in_step (fst r) \<and> session_of (fst r) = fst q \<and> snd r = snd q"

lemma tracks_then_do:
  assumes "tracks r q" and "\<And>c. in_step c \<Longrightarrow> tracks (f c) (g (session_of c))"
  shows "tracks (then_do r f) (then_do q g)"
  using assms by (cases r rule: outcome_cases; cases q rule: outcome_cases) (auto simp: tracks_def)

lemma tracks_ok: "in_step c \<Longrightarrow> tracks (ok c) (ok (session_of c))"
  by (simp add: tracks_def)

lemma tracks_on_session: "in_step c \<Longrightarrow> tracks (on_session f c) (f (session_of c))"
  by (cases "f (session_of c)" rule: outcome_cases) (auto simp: tracks_def on_session_def in_step_def)

lemma tracks_rebalance:
  assumes "in_step c"
  shows "tracks (ex_post_event (backtest_handlers uid is_open feed) (backtest_strategy (session_of c)) (RebalanceDue dt) c)
    (with_result (qts_decide_weights (current_system (session_of c)) dt)
      (\<lambda>cmd. record_and_submit uid is_open feed cmd (session_of c)) (session_of c))"
proof -
  obtain x a s where c: "c = (x, (), a, s)" by (cases c) auto
  show ?thesis
  proof (cases "qts_decide_weights (current_system s) dt")
    case (Inl e)
    then show ?thesis using assms
      by (auto simp: c in_step_def tracks_def ex_post_event_def ex_handle_def ex_dispatch_def backtest_strategy_def Let_def)
  next
    case (Inr cmd)
    then show ?thesis using assms
      by (cases "record_and_submit uid is_open feed cmd s" rule: outcome_cases)
        (auto simp: c in_step_def tracks_def ex_post_event_def ex_handle_def ex_dispatch_def backtest_strategy_def
          backtest_handlers_def ba_post_command_def ba_carry_out_def ba_dispatch_def Let_def)
  qed
qed

lemma tracks_event:
  assumes "in_step c"
  shows "tracks (run_event uid perm is_open feed event c) (event_step uid perm is_open feed event (session_of c))"
  unfolding run_event_def event_step_def Let_def
proof (intro tracks_then_do tracks_on_session [OF assms])
  fix c assume c: "in_step c"
  then show "tracks (on_session (signals_update perm feed event) c) (signals_update perm feed event (session_of c))"
    by (rule tracks_on_session)
  show "tracks (if past_burn_in (session_of c) (fst event) \<and> is_rebalance_event (session_of c) (fst event)
      then ex_post_event (backtest_handlers uid is_open feed) (backtest_strategy (session_of c)) (RebalanceDue (fst event)) c
      else ok c) (rebalance_step uid is_open feed (fst event) (session_of c))"
    using tracks_rebalance [OF c] tracks_ok [OF c] by (auto simp: rebalance_step_def)
  show "tracks (if snd event = MarketClose \<and> past_burn_in (session_of c) (fst event)
      then on_session (update_equity_curve (fst event)) c else ok c) (equity_step event (session_of c))"
    using tracks_on_session [OF c] tracks_ok [OF c] by (auto simp: equity_step_def)
qed

lemma tracks_events:
  "in_step c \<Longrightarrow> tracks (for_each (run_event uid perm is_open feed) events c)
    (for_each (event_step uid perm is_open feed) events (session_of c))"
proof (induction events arbitrary: c)
  case (Cons e es)
  then show ?case by (auto intro: tracks_then_do tracks_event)
qed (simp add: tracks_ok)

lemma run_events_loop:
  "map_outcome session_of (run_events uid perm is_open feed events s) =
    for_each (event_step uid perm is_open feed) events (s\<lparr>bs_stats := []\<rparr>)"
proof -
  have "in_step (fresh_actors True () (s\<lparr>bs_stats := []\<rparr>))"
    by (simp add: in_step_def fresh_actors_def fresh_executor_def new_broker_actor_def)
  from tracks_events [OF this, of uid perm is_open feed events] show ?thesis
    by (simp add: tracks_def run_events_def fresh_actors_def map_outcome_def prod_eq_iff)
qed

lemma run_backtest_loop:
  "run_backtest uid perm feed s =
    then_do (for_each (event_step uid perm sim_is_open feed) (bs_events s) (s\<lparr>bs_stats := []\<rparr>))
      (\<lambda>s. ok (s\<lparr>bs_target_allocations := bs_stats s\<rparr>))"
  by (simp add: run_backtest_def run_events_loop)

section \<open>What a run asks of the feed\<close>

text \<open>Two feeds that answer alike at one time.\<close>

definition agree_at :: "price_feed \<Rightarrow> price_feed \<Rightarrow> timestamp \<Rightarrow> bool" where
  "agree_at f f' dt \<longleftrightarrow> feed_bid_ask f dt = feed_bid_ask f' dt \<and> feed_mid f dt = feed_mid f' dt \<and>
    feed_ask f dt = feed_ask f' dt"

lemma agree_update:
  assumes "agree_at f f' dt"
  shows "sim_update is_open f dt = sim_update is_open f' dt"
proof -
  have "mark_portfolio f dt = mark_portfolio f' dt" "execute_order f dt = execute_order f' dt"
    using assms by (auto simp: agree_at_def mark_portfolio_def execute_order_def intro!: ext)
  note same = this
  show ?thesis by (rule ext) (unfold sim_update_def mark_all_def same, rule refl)
qed

lemma agree_sizing:
  assumes "agree_at f f' dt"
  shows "size_portfolio z v f dt ws = size_portfolio z v f' dt ws"
proof -
  have "dw_quantity v f dt e = dw_quantity v f' dt e" "ls_quantity v f dt e = ls_quantity v f' dt e" for e
    using assms by (auto simp: agree_at_def dw_quantity_def ls_quantity_def intro!: ext)
  note same = this
  show ?thesis by (cases z) (simp_all only: size_portfolio.simps same)
qed

lemma agree_submit:
  assumes "agree_at f f' (tw_dt cmd)"
  shows "size_and_submit uid sys is_open f cmd b = size_and_submit uid sys is_open f' cmd b"
proof -
  have "submit_and_update is_open f pid (tw_dt cmd) = submit_and_update is_open f' pid (tw_dt cmd)" for pid
    by (intro ext) (unfold submit_and_update_def agree_update [OF assms], rule refl)
  note same = this
  show ?thesis
    unfolding size_and_submit_def execution_handler_def build_orders_def agree_sizing [OF assms] same ..
qed

lemma backtest_decided_at: "qts_decide_weights sys dt = Inr cmd \<Longrightarrow> tw_dt cmd = dt"
  by (auto simp: qts_decide_weights_def and_then_eq_Inr)

lemma agree_signals:
  assumes "agree_at f f' dt"
  shows "update_signals perm f dt = update_signals perm f' dt"
proof -
  have "update_signal f dt = update_signal f' dt"
    using assms by (auto simp: agree_at_def update_signal_def intro!: ext)
  note same = this
  show ?thesis by (rule ext) (unfold update_signals_def same, rule refl)
qed

lemma agree_event:
  assumes "agree_at f f' (fst event)"
  shows "event_step uid perm is_open f event = event_step uid perm is_open f' event"
proof -
  have "broker_update is_open f (fst event) = broker_update is_open f' (fst event)"
    by (rule ext) (unfold broker_update_def agree_update [OF assms], rule refl)
  moreover have "signals_update perm f event = signals_update perm f' event"
    by (rule ext) (unfold signals_update_def agree_signals [OF assms], rule refl)
  moreover have "rebalance_step uid is_open f (fst event) s = rebalance_step uid is_open f' (fst event) s" for s
  proof (cases "qts_decide_weights (current_system s) (fst event)")
    case (Inr cmd)
    then show ?thesis using assms backtest_decided_at [OF Inr]
      by (simp add: rebalance_step_def record_and_submit_def agree_submit)
  qed (simp add: rebalance_step_def)
  ultimately show ?thesis by (intro ext) (simp add: event_step_def)
qed

lemma agree_events:
  assumes "\<And>event. event \<in> set events \<Longrightarrow> agree_at f f' (fst event)"
  shows "for_each (event_step uid perm is_open f) events s = for_each (event_step uid perm is_open f') events s"
  using assms
proof (induction events arbitrary: s)
  case (Cons e es)
  have "for_each (event_step uid perm is_open f) es = for_each (event_step uid perm is_open f') es"
    by (rule ext) (rule Cons.IH, use Cons.prems in simp)
  then show ?case using agree_event [of f f' e] Cons.prems by simp
qed simp

text \<open>
  Feeds built from bars that are the same up to a time answer alike up to that time.
\<close>

definition same_bars_until :: "bool \<Rightarrow> timestamp \<Rightarrow> (symbol, quote_rows) dict \<Rightarrow> (symbol, quote_rows) dict \<Rightarrow> bool" where
  "same_bars_until adjust T d d' \<longleftrightarrow> list_all2 (\<lambda>(a, rows) (a', rows'). a = a' \<and>
    (\<exists>f f'. convert_bar_frame adjust f = Inr rows \<and> convert_bar_frame adjust f' = Inr rows' \<and>
      filter (\<lambda>b. bar_ts b \<le> T) (frame_bars f) = filter (\<lambda>b. bar_ts b \<le> T) (frame_bars f'))) d d'"

lemma bars_pad_price:
  assumes "convert_bar_frame adjust f = Inr rows" and "convert_bar_frame adjust f' = Inr rows'"
    and "filter (\<lambda>b. bar_ts b \<le> T) (frame_bars f) = filter (\<lambda>b. bar_ts b \<le> T) (frame_bars f')" and "dt \<le> T"
  shows "pad_price rows dt = pad_price rows' dt"
proof -
  have "filter (\<lambda>b. bar_ts b \<le> dt) bs = filter (\<lambda>b. bar_ts b \<le> dt) (filter (\<lambda>b. bar_ts b \<le> T) bs)" for bs :: "bar list"
    using assms(4) by (auto intro: filter_cong)
  then have "filter (\<lambda>b. bar_ts b \<le> dt) (frame_bars f) = filter (\<lambda>b. bar_ts b \<le> dt) (frame_bars f')"
    using assms(3) by metis
  then show ?thesis
    using pad_price_past [OF assms(1), of dt] pad_price_past [OF assms(2), of dt] by (simp add: pad_price_def)
qed

lemma same_bars_agree:
  assumes "same_bars_until adjust T d d'" and "dt \<le> T"
  shows "agree_at (backtest_feed [daily_bar_source d]) (backtest_feed [daily_bar_source d']) dt"
proof -
  have "get_bid d dt a = get_bid d' dt a" for a
    using assms(1) unfolding same_bars_until_def get_bid_def
  proof (induction rule: list_all2_induct)
    case (Cons x xs y ys)
    obtain b rows b' rows' where xy: "x = (b, rows)" "y = (b', rows')" by (cases x; cases y) auto
    from Cons.hyps(1) obtain f f' where "b = b'" "convert_bar_frame adjust f = Inr rows"
        "convert_bar_frame adjust f' = Inr rows'"
        "filter (\<lambda>b. bar_ts b \<le> T) (frame_bars f) = filter (\<lambda>b. bar_ts b \<le> T) (frame_bars f')"
      unfolding xy by blast
    moreover from this have "pad_price rows dt = pad_price rows' dt" using bars_pad_price assms(2) by blast
    ultimately show ?case using Cons.IH by (simp add: xy)
  qed simp
  then have "get_bid d dt = get_bid d' dt" by (rule ext)
  moreover have "get_ask e = get_bid e" for e by (intro ext) (simp add: get_ask_def get_bid_def)
  ultimately have same: "ds_bid (daily_bar_source d) dt = ds_bid (daily_bar_source d') dt"
      "ds_ask (daily_bar_source d) dt = ds_ask (daily_bar_source d') dt"
    by (simp_all add: daily_bar_source_def)
  have "latest_bid [daily_bar_source d] dt = latest_bid [daily_bar_source d'] dt"
      "latest_ask [daily_bar_source d] dt = latest_ask [daily_bar_source d'] dt"
    by (intro ext, simp add: same)+
  then have "latest_bid_ask [daily_bar_source d] dt = latest_bid_ask [daily_bar_source d'] dt"
      "latest_ask [daily_bar_source d] dt = latest_ask [daily_bar_source d'] dt"
    by (auto simp: latest_bid_ask_def intro!: ext)
  moreover from this have "latest_mid [daily_bar_source d] dt = latest_mid [daily_bar_source d'] dt"
    by (intro ext) (simp add: latest_mid_def)
  ultimately show ?thesis by (simp add: agree_at_def backtest_feed_def)
qed

section \<open>What a run records\<close>

text \<open>Per event, at most one point of the curve and one decision, stamped with the event.\<close>

definition curve_stamps :: "backtest_session \<Rightarrow> timestamp list" where
  "curve_stamps s = map fst (bs_equity_curve s)"

definition same_plan :: "backtest_session \<Rightarrow> backtest_session \<Rightarrow> bool" where
  "same_plan s s' \<longleftrightarrow> bs_burn_in s' = bs_burn_in s \<and> bs_schedule s' = bs_schedule s \<and> bs_qts s' = bs_qts s \<and>
    bs_alpha s' = bs_alpha s \<and> bs_portfolio s' = bs_portfolio s \<and> bs_events s' = bs_events s \<and>
    bs_target_allocations s' = bs_target_allocations s"

lemma broker_update_frame:
  "fst (broker_update is_open feed dt s) = s\<lparr>bs_broker := fst (sim_update is_open feed dt (bs_broker s))\<rparr>"
  "snd (broker_update is_open feed dt s) = snd (sim_update is_open feed dt (bs_broker s))"
  by (simp_all add: broker_update_def map_outcome_def)

lemma signals_update_frame:
  "\<exists>c. fst (signals_update perm feed event s) = s\<lparr>bs_signals := c\<rparr>"
  by (cases "bs_signals s") (auto simp: signals_update_def map_outcome_def intro: exI [of _ "bs_signals s"])

lemma rebalance_step_cases:
  assumes "rebalance_step uid is_open feed dt s = r"
  obtains (skip) "\<not> (past_burn_in s dt \<and> is_rebalance_event s dt)" "r = ok s"
  | (undecided) e where "past_burn_in s dt \<and> is_rebalance_event s dt" "r = raise e s"
  | (sent) cmd ws b e where "past_burn_in s dt \<and> is_rebalance_event s dt"
      "qts_decide_weights (current_system s) dt = Inr cmd" "tw_dt cmd = dt"
      "size_and_submit uid (bs_qts s) is_open feed cmd (bs_broker s) = (b, e)"
      "r = (s\<lparr>bs_stats := bs_stats s @ [(dt, ws)], bs_broker := b\<rparr>, e)"
proof (cases "past_burn_in s dt \<and> is_rebalance_event s dt")
  case False
  then show ?thesis using that(1) assms by (auto simp: rebalance_step_def)
next
  case due: True
  show ?thesis
  proof (cases "qts_decide_weights (current_system s) dt")
    case (Inl e)
    then show ?thesis using that(2) assms due by (auto simp: rebalance_step_def)
  next
    case (Inr cmd)
    then have r: "r = record_and_submit uid is_open feed cmd s" using assms due by (auto simp: rebalance_step_def)
    show ?thesis
    proof (cases "sim_view (qts_portfolio (bs_qts s)) (bs_broker s)")
      case (Inl e)
      then show ?thesis using that(2) due r by (auto simp: record_and_submit_def)
    next
      case (Inr v)
      then show ?thesis
        using that(3) [OF due \<open>qts_decide_weights (current_system s) dt = Inr cmd\<close> backtest_decided_at] r
          \<open>qts_decide_weights (current_system s) dt = Inr cmd\<close>
        by (cases "size_and_submit uid (bs_qts s) is_open feed cmd (bs_broker s)")
          (auto simp: record_and_submit_def map_outcome_def Let_def backtest_decided_at)
    qed
  qed
qed

lemma equity_step_cases:
  assumes "equity_step event s = r"
  obtains (skip) "\<not> (snd event = MarketClose \<and> past_burn_in s (fst event))" "r = ok s"
  | (failed) e where "snd event = MarketClose \<and> past_burn_in s (fst event)" "r = raise e s"
  | (point) x d where "snd event = MarketClose \<and> past_burn_in s (fst event)"
      "get_account_total_equity (bs_broker s) = Inr d" "map_of d ''master'' = Some x"
      "r = ok (s\<lparr>bs_equity_curve := bs_equity_curve s @ [(fst event, x)]\<rparr>)"
  using assms that
  by (cases "get_account_total_equity (bs_broker s)")
    (auto simp: equity_step_def update_equity_curve_def split: if_splits option.splits)

lemma rebalance_step_frame:
  fixes uid is_open feed dt s
  defines "r \<equiv> rebalance_step uid is_open feed dt s"
  shows "same_plan s (fst r) \<and> bs_equity_curve (fst r) = bs_equity_curve s \<and>
    (\<exists>ws. bs_stats (fst r) = bs_stats s @ ws \<and> (\<forall>w \<in> set ws. fst w = dt) \<and>
      (snd r = None \<longrightarrow> map fst ws = (if past_burn_in s dt \<and> is_rebalance_event s dt then [dt] else [])))"
  by (rule rebalance_step_cases [of uid is_open feed dt s r]) (auto simp: r_def same_plan_def)

lemma equity_step_frame:
  fixes event s
  defines "r \<equiv> equity_step event s"
  shows "same_plan s (fst r) \<and> bs_stats (fst r) = bs_stats s \<and> bs_broker (fst r) = bs_broker s \<and>
    (\<exists>xs. bs_equity_curve (fst r) = bs_equity_curve s @ xs \<and> (\<forall>x \<in> set xs. fst x = fst event) \<and>
      (snd r = None \<longrightarrow> map fst xs = (if snd event = MarketClose \<and> past_burn_in s (fst event) then [fst event] else [])))"
  by (rule equity_step_cases [of event s r]) (auto simp: r_def same_plan_def)

lemma same_plan_trans: "same_plan s t \<Longrightarrow> same_plan t u \<Longrightarrow> same_plan s u"
  by (simp add: same_plan_def)

lemma same_plan_tests:
  "same_plan s t \<Longrightarrow> past_burn_in t dt = past_burn_in s dt \<and> is_rebalance_event t dt = is_rebalance_event s dt"
  by (simp add: same_plan_def past_burn_in_def is_rebalance_event_def)

text \<open>What one event may add: points and decisions of its own time, all of them if it goes through.\<close>

definition closes :: "backtest_session \<Rightarrow> sim_event list \<Rightarrow> timestamp list" where
  "closes s events = map fst (filter (\<lambda>e. snd e = MarketClose \<and> past_burn_in s (fst e)) events)"

definition rebalances :: "backtest_session \<Rightarrow> sim_event list \<Rightarrow> timestamp list" where
  "rebalances s events = map fst (filter (\<lambda>e. past_burn_in s (fst e) \<and> is_rebalance_event s (fst e)) events)"

definition adds :: "sim_event list \<Rightarrow> backtest_session \<Rightarrow> backtest_session outcome \<Rightarrow> bool" where
  "adds events s r \<longleftrightarrow> same_plan s (fst r) \<and>
    (\<exists>xs ws. bs_equity_curve (fst r) = bs_equity_curve s @ xs \<and> bs_stats (fst r) = bs_stats s @ ws \<and>
      fst ` set xs \<subseteq> fst ` set events \<and> fst ` set ws \<subseteq> fst ` set events \<and>
      (snd r = None \<longrightarrow> map fst xs = closes s events \<and> map fst ws = rebalances s events))"

lemma event_adds: "adds [event] s (event_step uid perm is_open feed event s)"
proof -
  let ?r1 = "broker_update is_open feed (fst event) s"
  have 1: "same_plan s (fst ?r1)" "bs_equity_curve (fst ?r1) = bs_equity_curve s" "bs_stats (fst ?r1) = bs_stats s"
    by (simp_all add: broker_update_frame same_plan_def)
  show ?thesis
  proof (cases ?r1 rule: outcome_cases)
    case (raise e s1)
    then show ?thesis using 1 by (simp add: adds_def event_step_def)
  next
    case (ok s1)
    let ?r2 = "signals_update perm feed event s1"
    have 2: "same_plan s (fst ?r2)" "bs_equity_curve (fst ?r2) = bs_equity_curve s" "bs_stats (fst ?r2) = bs_stats s"
      using 1 ok signals_update_frame [of perm feed event s1] by (auto simp: same_plan_def)
    show ?thesis
    proof (cases ?r2 rule: outcome_cases)
      case (raise e s2)
      then show ?thesis using 2 ok by (simp add: adds_def event_step_def)
    next
      case s2: (ok s2)
      let ?r3 = "rebalance_step uid is_open feed (fst event) s2"
      note r3 = rebalance_step_frame [of s2 uid is_open feed "fst event"]
      have plan2: "same_plan s s2" using 2 s2 by simp
      note tests = same_plan_tests [OF plan2]
      show ?thesis
      proof (cases ?r3 rule: outcome_cases)
        case (raise e s3)
        then show ?thesis using r3 ok s2 2 same_plan_trans [OF plan2]
          by (auto simp: adds_def event_step_def)
      next
        case s3: (ok s3)
        have plan3: "same_plan s s3" using r3 s3 same_plan_trans [OF plan2] by simp
        obtain ws where ws: "bs_stats s3 = bs_stats s @ ws" "map fst ws = rebalances s [event]"
            "bs_equity_curve s3 = bs_equity_curve s"
          using r3 s3 2 s2 tests by (auto simp: rebalances_def)
        have "fst ` set ws \<subseteq> {fst event}" using ws(2) by (auto simp: rebalances_def simp flip: set_map split: if_splits)
        moreover obtain xs where "bs_equity_curve (fst (equity_step event s3)) = bs_equity_curve s @ xs"
            "\<forall>x \<in> set xs. fst x = fst event" "bs_stats (fst (equity_step event s3)) = bs_stats s @ ws"
            "same_plan s (fst (equity_step event s3))"
            "snd (equity_step event s3) = None \<longrightarrow> map fst xs = closes s [event]"
          using equity_step_frame [of s3 event] ws same_plan_trans [OF plan3] same_plan_tests [OF plan3]
          by (auto simp: closes_def)
        ultimately show ?thesis using ok s2 s3 ws(2)
          by (auto simp: adds_def event_step_def intro!: exI [of _ xs] exI [of _ ws])
      qed
    qed
  qed
qed

lemma events_add: "adds events s (for_each (event_step uid perm is_open feed) events s)"
proof (induction events arbitrary: s)
  case Nil
  show ?case by (simp add: adds_def same_plan_def closes_def rebalances_def)
next
  case (Cons e es)
  let ?r = "event_step uid perm is_open feed e s"
  note e = event_adds [of e s uid perm is_open feed]
  show ?case
  proof (cases ?r rule: outcome_cases)
    case (raise x t)
    obtain xs ws where "bs_equity_curve t = bs_equity_curve s @ xs" "bs_stats t = bs_stats s @ ws" "same_plan s t"
        "fst ` set xs \<subseteq> {fst e}" "fst ` set ws \<subseteq> {fst e}"
      using e raise by (auto simp: adds_def)
    then show ?thesis using raise unfolding adds_def
      by (intro conjI exI [of _ xs] exI [of _ ws]) auto
  next
    case (ok t)
    let ?q = "for_each (event_step uid perm is_open feed) es t"
    have plan: "same_plan s t" using e ok by (simp add: adds_def)
    obtain xs ws where a: "bs_equity_curve t = bs_equity_curve s @ xs" "bs_stats t = bs_stats s @ ws"
        "fst ` set xs \<subseteq> {fst e}" "fst ` set ws \<subseteq> {fst e}" "map fst xs = closes s [e]" "map fst ws = rebalances s [e]"
      using e ok by (auto simp: adds_def)
    obtain ys vs where b: "bs_equity_curve (fst ?q) = bs_equity_curve t @ ys" "bs_stats (fst ?q) = bs_stats t @ vs"
        "fst ` set ys \<subseteq> fst ` set es" "fst ` set vs \<subseteq> fst ` set es" "same_plan t (fst ?q)"
        "snd ?q = None \<longrightarrow> map fst ys = closes t es \<and> map fst vs = rebalances t es"
      using Cons.IH [of t] by (auto simp: adds_def)
    have "closes t es = closes s es" "rebalances t es = rebalances s es"
      using same_plan_tests [OF plan] by (simp_all add: closes_def rebalances_def)
    moreover have "closes s (e # es) = closes s [e] @ closes s es" "rebalances s (e # es) = rebalances s [e] @ rebalances s es"
      by (simp_all add: closes_def rebalances_def)
    moreover have "same_plan s (fst ?q)" by (rule same_plan_trans [OF plan b(5)])
    ultimately show ?thesis using a b ok
      by (auto simp: adds_def intro!: exI [of _ "xs @ ys"] exI [of _ "ws @ vs"])
  qed
qed

section \<open>What a run does to the account\<close>

text \<open>
  From one broker to another by trading only: same portfolios and master account, and event
  trails that grow by trades of the time \<open>dt\<close>, and only if \<open>on\<close>.
\<close>

definition only_trades :: "bool \<Rightarrow> timestamp \<Rightarrow> sim_broker \<Rightarrow> sim_broker \<Rightarrow> bool" where
  "only_trades on dt b b' \<longleftrightarrow> dict_keys (sb_portfolios b') = dict_keys (sb_portfolios b) \<and> sb_cash b' = sb_cash b \<and>
    sb_currency b' = sb_currency b \<and> (wf_sim_broker b \<longrightarrow> wf_sim_broker b') \<and>
    (\<forall>pid. \<exists>evs. field_of pf_history pid b' = map_option (\<lambda>h. h @ evs) (field_of pf_history pid b) \<and>
      (\<forall>e \<in> set evs. on \<and> ev_dt e = dt \<and> traded e \<noteq> None))"

lemma only_trades_refl: "only_trades on dt b b"
  unfolding only_trades_def
proof (intro conjI allI)
  fix pid
  show "\<exists>evs. field_of pf_history pid b = map_option (\<lambda>h. h @ evs) (field_of pf_history pid b) \<and>
      (\<forall>e \<in> set evs. on \<and> ev_dt e = dt \<and> traded e \<noteq> None)"
    by (intro exI [of _ "[]"]) (cases "map_of (sb_portfolios b) pid"; simp)
qed simp_all

lemma only_trades_trans: "only_trades on dt b c \<Longrightarrow> only_trades on dt c d \<Longrightarrow> only_trades on dt b d"
proof -
  assume bc: "only_trades on dt b c" and cd: "only_trades on dt c d"
  have "\<exists>evs. field_of pf_history pid d = map_option (\<lambda>h. h @ evs) (field_of pf_history pid b) \<and>
      (\<forall>e \<in> set evs. on \<and> ev_dt e = dt \<and> traded e \<noteq> None)" for pid
  proof -
    obtain xs where xs: "field_of pf_history pid c = map_option (\<lambda>h. h @ xs) (field_of pf_history pid b)"
        "\<forall>e \<in> set xs. on \<and> ev_dt e = dt \<and> traded e \<noteq> None" using bc unfolding only_trades_def by blast
    obtain ys where ys: "field_of pf_history pid d = map_option (\<lambda>h. h @ ys) (field_of pf_history pid c)"
        "\<forall>e \<in> set ys. on \<and> ev_dt e = dt \<and> traded e \<noteq> None" using cd unfolding only_trades_def by blast
    have "field_of pf_history pid d = map_option (\<lambda>h. h @ (xs @ ys)) (field_of pf_history pid b)"
      unfolding ys(1) xs(1) by (cases "map_of (sb_portfolios b) pid") simp_all
    with xs(2) ys(2) show ?thesis by (intro exI [of _ "xs @ ys"]) auto
  qed
  then show ?thesis using bc cd by (simp add: only_trades_def)
qed

lemma only_trades_books:
  assumes "dict_keys (sb_portfolios b') = dict_keys (sb_portfolios b)" "sb_cash b' = sb_cash b" "sb_currency b' = sb_currency b"
    and "wf_sim_broker b \<Longrightarrow> wf_sim_broker b'" and "\<And>pid. field_of pf_history pid b' = field_of pf_history pid b"
  shows "only_trades on dt b b'"
  using assms only_trades_refl [of on dt b] by (simp add: only_trades_def)

lemma transact_asset_trail:
  "\<exists>evs. pf_history (fst (transact_asset t p)) = pf_history p @ evs \<and>
    (\<forall>e \<in> set evs. ev_dt e = txn_dt t \<and> traded e \<noteq> None)"
  by (cases "transact_position t (pf_positions p)" rule: outcome_cases)
    (auto simp: transact_asset_def Let_def trade_event_def traded_def map_outcome_def then_do_def)

lemma execute_order_trail:
  assumes "sb_dt b = dt"
  shows "only_trades True dt b (fst (execute_order feed dt pid o' b))"
proof -
  have trail: "\<exists>evs. field_of pf_history i (fst (on_portfolio pid (transact_asset t) b)) =
      map_option (\<lambda>h. h @ evs) (field_of pf_history i b) \<and> (\<forall>e \<in> set evs. ev_dt e = dt \<and> traded e \<noteq> None)"
    if "txn_dt t = dt" for t i
  proof (cases "map_of (sb_portfolios b) pid")
    case None
    have "only_trades True dt b b" by (rule only_trades_refl)
    with None show ?thesis unfolding only_trades_def on_portfolio_def by auto
  next
    case (Some p)
    obtain evs where evs: "pf_history (fst (transact_asset t p)) = pf_history p @ evs"
        "\<forall>e \<in> set evs. ev_dt e = dt \<and> traded e \<noteq> None"
      using transact_asset_trail [of t p] \<open>txn_dt t = dt\<close> by auto
    show ?thesis
    proof (cases "i = pid")
      case True
      then show ?thesis using Some evs by (intro exI [of _ evs]) (simp add: on_portfolio_def)
    next
      case False
      then show ?thesis using Some
        by (intro exI [of _ "[]"]) (cases "map_of (sb_portfolios b) i"; simp add: on_portfolio_def)
    qed
  qed
  have "only_trades True dt b (fst (on_portfolio pid (transact_asset t) b))" if "txn_dt t = dt" for t
    using trail [OF that] wf_on_portfolio [OF _ keeps_portfolio_ops(3)] by (simp add: only_trades_def)
  then show ?thesis using assms only_trades_refl
    by (auto simp: execute_order_def Let_def split: option.splits)
qed

lemma update_trail: "only_trades (is_open dt) dt b (fst (sim_update is_open feed dt b))"
proof -
  let ?b = "b\<lparr>sb_dt := dt\<rparr>"
  have wf: "wf_sim_broker (fst (sim_update is_open feed dt b))" if "wf_sim_broker b"
    using update_invariant that by blast
  have "field_of pf_history pid (fst (mark_all feed dt ?b)) = field_of pf_history pid ?b" for pid
  proof -
    have "map_option (fst \<circ> snd) (field_of books pid c) = field_of pf_history pid c" for c
      by (simp add: option.map_comp comp_def books_def)
    then show ?thesis using books_mark_all [where pid = pid and feed = feed and dt = dt and b = ?b] by metis
  qed
  then have marks: "only_trades (is_open dt) dt b (fst (mark_all feed dt ?b))"
    by (intro only_trades_books) (use mark_all_frame [of feed dt ?b] wf_mark_all [of ?b feed dt] in
      \<open>simp_all add: wf_sim_broker_def\<close>)
  show ?thesis
  proof (cases "mark_all feed dt ?b" rule: outcome_cases)
    case (raise e c)
    then show ?thesis using marks by (simp add: sim_update_def Let_def)
  next
    case (ok c)
    have dt: "sb_dt c = dt" using mark_all_frame [of feed dt ?b] ok by simp
    show ?thesis
    proof (cases "is_open dt")
      case False
      then show ?thesis using marks ok dt by (simp add: sim_update_def Let_def)
    next
      case True
      have drained: "only_trades True dt c (drain_queues c)"
        by (intro only_trades_books) (simp_all add: wf_drain_queues)
      have "only_trades True dt c (fst (execute_all feed dt xs (drain_queues c))) \<and>
          sb_dt (fst (execute_all feed dt xs (drain_queues c))) = dt" for xs
      proof (rule for_each_inv [where P = "\<lambda>d. only_trades True dt c d \<and> sb_dt d = dt"])
        show "only_trades True dt c (drain_queues c) \<and> sb_dt (drain_queues c) = dt" using drained dt by simp
        fix x :: "string \<times> order" and d assume d: "only_trades True dt c d \<and> sb_dt d = dt"
        then show "only_trades True dt c (fst ((\<lambda>(pid, o'). execute_order feed dt pid o') x d)) \<and>
            sb_dt (fst ((\<lambda>(pid, o'). execute_order feed dt pid o') x d)) = dt"
          using only_trades_trans [OF _ execute_order_trail] by (cases x) simp
      qed
      then show ?thesis using ok dt True only_trades_trans [of True dt b c] marks
        by (simp add: sim_update_def Let_def)
    qed
  qed
qed

lemma submit_trail: "only_trades on dt b (fst (sim_submit_order pid o' b))"
proof -
  have "wf_sim_broker (fst (sim_submit_order pid o' b))" if "wf_sim_broker b" using wf_submit [OF that] .
  moreover have "sb_portfolios (fst (sim_submit_order pid o' b)) = sb_portfolios b \<and>
      sb_cash (fst (sim_submit_order pid o' b)) = sb_cash b \<and> sb_currency (fst (sim_submit_order pid o' b)) = sb_currency b"
    by (auto simp: sim_submit_order_def split: option.splits)
  ultimately show ?thesis by (intro only_trades_books) auto
qed

lemma size_and_submit_trail:
  "only_trades (is_open (tw_dt cmd)) (tw_dt cmd) b (fst (size_and_submit uid sys is_open feed cmd b))"
proof -
  let ?R = "only_trades (is_open (tw_dt cmd)) (tw_dt cmd)"
  have "?R c (fst (submit_and_update is_open feed pid (tw_dt cmd) o' c))" for pid o' c
    unfolding submit_and_update_def
    by (cases "sim_submit_order pid o' c" rule: outcome_cases)
      (use submit_trail [of "is_open (tw_dt cmd)" "tw_dt cmd" c pid o'] only_trades_trans [OF _ update_trail] in auto)
  then have "?R c (fst (for_each (submit_and_update is_open feed pid (tw_dt cmd)) os c))" for pid os c
    using for_each_rel [where R = ?R and f = "submit_and_update is_open feed pid (tw_dt cmd)"] only_trades_refl only_trades_trans
    by metis
  then show ?thesis
    by (auto simp: size_and_submit_def with_result_def execution_handler_def Let_def only_trades_refl split: sum.split)
qed

lemma event_trail:
  "only_trades (is_open (fst event)) (fst event) (bs_broker s) (bs_broker (fst (event_step uid perm is_open feed event s)))"
proof -
  let ?R = "only_trades (is_open (fst event)) (fst event)"
  have 1: "?R (bs_broker s) (bs_broker (fst (broker_update is_open feed (fst event) s)))" for s
    using update_trail by (simp add: broker_update_frame)
  have 2: "bs_broker (fst (signals_update perm feed event s)) = bs_broker s" for s
    using signals_update_frame [of perm feed event s] by auto
  have 3: "?R (bs_broker s) (bs_broker (fst (rebalance_step uid is_open feed (fst event) s)))" for s
  proof (rule rebalance_step_cases [of uid is_open feed "fst event" s, OF refl], goal_cases)
    case (3 cmd ws b e)
    then have "b = fst (size_and_submit uid (bs_qts s) is_open feed cmd (bs_broker s))" by simp
    then show ?thesis using size_and_submit_trail [of is_open cmd "bs_broker s"] 3(3,5) by simp
  qed (simp_all add: only_trades_refl)
  have 4: "bs_broker (fst (equity_step event s)) = bs_broker s" for s
    using equity_step_frame [of s event] by simp
  let ?P = "\<lambda>t. ?R (bs_broker s) (bs_broker t)"
  show ?thesis unfolding event_step_def
    by (intro then_do_inv [where P = ?P]) (use 1 2 3 4 only_trades_trans in metis)+
qed

section \<open>How a run starts\<close>

lemma create_broker_start:
  assumes "create_broker a = Inr b"
  shows "wf_sim_broker b \<and> master_cash b = 0 \<and> (\<exists>p. sb_portfolios b = [(arg_portfolio_id a, p)] \<and>
    pf_cash p = arg_initial_cash a \<and> pf_positions p = [] \<and> pf_live p \<and>
    pf_history p = [create_subscription (arg_start_dt a) (arg_initial_cash a) (arg_initial_cash a)]) \<and>
    queue_of pid b = []"
proof -
  let ?cash = "arg_initial_cash a" and ?pid = "arg_portfolio_id a" and ?t = "arg_start_dt a" and ?cur = "arg_base_currency a"
  from assms have cur: "?cur \<in> set supported_currencies" and pos: "0 \<le> ?cash"
    by (auto simp: create_broker_def and_then_def init_sim_broker_def set_base_currency_def set_initial_funds_def
        split: sum.splits if_splits)
  let ?b0 = "\<lparr>sb_start_dt = ?t, sb_dt = ?t, sb_account_id = Some (arg_account_name a), sb_currency = ?cur,
    sb_fee_model = arg_fee_model a, sb_cash = set_cash_balances ?cur ?cash, sb_portfolios = [], sb_open_orders = []\<rparr>"
  have b0: "init_sim_broker ?t (Some (arg_account_name a)) ?cur ?cash (arg_fee_model a) = Inr ?b0"
    using cur pos by (simp add: init_sim_broker_def set_base_currency_def set_initial_funds_def)
  have "map_of (set_cash_balances ?cur ?cash) ?cur = Some ?cash"
    using cur pos by (auto simp: set_cash_balances_def supported_currencies_def Let_def)
  then have cash: "master_cash ?b0 = ?cash" by (simp add: master_cash_def)
  let ?p0 = "init_portfolio ?t 0 ?cur ?pid (Some (arg_portfolio_name a))"
  let ?b1 = "?b0\<lparr>sb_portfolios := [(?pid, ?p0)], sb_open_orders := [(?pid, [])]\<rparr>"
  have b1: "create_portfolio ?pid (Some (arg_portfolio_name a)) ?b0 = ok ?b1"
    by (simp add: create_portfolio_def)
  let ?p = "?p0\<lparr>pf_dt := ?t, pf_cash := ?cash, pf_history := [create_subscription ?t ?cash ?cash]\<rparr>"
  have "master_cash ?b1 = ?cash" using cash by (simp add: master_cash_def)
  then have b: "subscribe_funds_to_portfolio ?pid ?cash ?b1 =
      ok (set_master_cash 0 (?b1\<lparr>sb_portfolios := [(?pid, ?p)]\<rparr>))"
    using pos by (simp add: subscribe_funds_to_portfolio_def on_portfolio_def subscribe_funds_def Let_def
        init_portfolio_def set_master_cash_def master_cash_def)
  have made: "then_do (create_portfolio ?pid (Some (arg_portfolio_name a)) ?b0) (subscribe_funds_to_portfolio ?pid ?cash) =
      ok (set_master_cash 0 (?b1\<lparr>sb_portfolios := [(?pid, ?p)]\<rparr>))"
    unfolding b1 then_do_ok by (rule b)
  have eq: "b = set_master_cash 0 (?b1\<lparr>sb_portfolios := [(?pid, ?p)]\<rparr>)"
    using assms unfolding create_broker_def b0 and_then_simps made outcome_result_def by simp
  have "pf_wf ?p" "pf_live ?p" by (simp_all add: pf_wf_def pf_live_def live_positions_def audited_def create_subscription_def)
  then show ?thesis
    by (auto simp: eq wf_sim_broker_def wf_dict_def set_master_cash_def master_cash_def queue_of_def init_portfolio_def)
qed

lemma init_backtest_start:
  assumes "init_backtest a = Inr s"
  shows "create_broker a = Inr (bs_broker s)" and "sim_engine (arg_start_dt a) (arg_end_dt a) False False = Inr (bs_events s)"
    and "bs_equity_curve s = []" and "bs_stats s = []" and "bs_target_allocations s = []"
    and "bs_portfolio s = arg_portfolio_id a" and "bs_burn_in s = arg_burn_in_dt a"
    and "create_rebalance_event_times a = Inr (bs_schedule s)" and "create_quant_trading_system a = Inr (bs_qts s)"
    and "bs_signals s = arg_signals a" and "bs_alpha s = arg_alpha a"
  using assms by (auto simp: init_backtest_def create_simulation_engine_def and_then_eq_Inr)

text \<open>Splitting a run at a time: what comes later adds later points only.\<close>

lemma sorted_split:
  "sorted_wrt (\<lambda>x y. fst x < fst y) xs \<Longrightarrow>
   xs = filter (\<lambda>x. fst x \<le> T) xs @ filter (\<lambda>x. T < (fst x :: timestamp)) xs"
proof (induction xs)
  case (Cons x xs)
  then show ?case
  proof (cases "fst x \<le> T")
    case False
    with Cons.prems have "\<forall>y \<in> set xs. T < fst y" by auto
    then have "filter (\<lambda>x. fst x \<le> T) xs = []" "filter (\<lambda>x. T < fst x) xs = xs" by (auto simp: filter_empty_conv filter_id_conv)
    then show ?thesis using False by simp
  qed simp
qed simp

lemma late_events_add_late_points:
  fixes uid perm is_open feed T es es' s
  defines "r \<equiv> fst (then_do (for_each (event_step uid perm is_open feed) es s)
    (for_each (event_step uid perm is_open feed) (filter (\<lambda>e. T < fst e) es')))"
    and "q \<equiv> fst (for_each (event_step uid perm is_open feed) es s)"
  shows "filter (\<lambda>x. fst x \<le> T) (bs_equity_curve r) = filter (\<lambda>x. fst x \<le> T) (bs_equity_curve q) \<and>
    filter (\<lambda>x. fst x \<le> T) (bs_stats r) = filter (\<lambda>x. fst x \<le> T) (bs_stats q)"
proof (cases "for_each (event_step uid perm is_open feed) es s" rule: outcome_cases)
  case (ok t)
  let ?late = "filter (\<lambda>e. T < fst e) es'"
  have r: "r = fst (for_each (event_step uid perm is_open feed) ?late t)" and q: "q = t"
    unfolding r_def q_def ok by simp_all
  obtain xs ws where "bs_equity_curve r = bs_equity_curve t @ xs" "bs_stats r = bs_stats t @ ws"
      "fst ` set xs \<subseteq> fst ` set ?late" "fst ` set ws \<subseteq> fst ` set ?late"
    using events_add [of ?late t uid perm is_open feed] r by (auto simp: adds_def)
  moreover from this have "filter (\<lambda>x. fst x \<le> T) xs = []" "filter (\<lambda>x. fst x \<le> T) ws = []"
    by (fastforce simp: filter_empty_conv)+
  ultimately show ?thesis using q by simp
next
  case (raise e t)
  then show ?thesis by (simp add: r_def q_def)
qed

section \<open>Properties\<close>

text \<open>
  C7. The actors add nothing to a backtest. Running the events through the strategy executor
  and the broker actor, with their mailbox doors and their error policy, gives the same session,
  and the same exception if one stops it, as the plain loop that updates the broker and the
  signals, decides, sizes and submits on the session itself.
\<close>

theorem backtest_runs_the_plain_loop:
  "run_backtest uid perm feed s =
    then_do (for_each (event_step uid perm sim_is_open feed) (bs_events s) (s\<lparr>bs_stats := []\<rparr>))
      (\<lambda>s. ok (s\<lparr>bs_target_allocations := bs_stats s\<rparr>))"
  by (rule run_backtest_loop)

text \<open>
  C6. A backtest reports every close once. If the run ends normally, the equity curve has one
  point for each market close of the simulation past the burn-in, in strictly increasing time,
  and the target allocations have one entry for each event past the burn-in that is on the
  rebalance schedule, in the same order.
\<close>

theorem backtest_reports_every_close:
  assumes "init_backtest a = Inr s" and "run_backtest uid perm feed s = ok r"
  shows "map fst (bs_equity_curve r) =
      map fst (filter (\<lambda>e. snd e = MarketClose \<and> past_burn_in s (fst e)) (bs_events s)) \<and>
    sorted_wrt (<) (map fst (bs_equity_curve r)) \<and>
    map fst (bs_target_allocations r) =
      map fst (filter (\<lambda>e. past_burn_in s (fst e) \<and> is_rebalance_event s (fst e)) (bs_events s))"
proof -
  let ?s = "s\<lparr>bs_stats := []\<rparr>" and ?step = "event_step uid perm sim_is_open feed"
  obtain t where t: "for_each ?step (bs_events s) ?s = ok t" "r = t\<lparr>bs_target_allocations := bs_stats t\<rparr>"
    using assms(2) unfolding run_backtest_loop by (auto simp: then_do_eq_ok)
  have "map fst (bs_equity_curve t) = closes ?s (bs_events s) \<and> map fst (bs_stats t) = rebalances ?s (bs_events s)"
    using events_add [of "bs_events s" ?s uid perm sim_is_open feed] t(1) init_backtest_start(3,4) [OF assms(1)]
    by (auto simp: adds_def)
  moreover have "closes ?s (bs_events s) = closes s (bs_events s)" "rebalances ?s (bs_events s) = rebalances s (bs_events s)"
    by (simp_all add: closes_def rebalances_def past_burn_in_def is_rebalance_event_def)
  moreover have "sorted_wrt (<) (map fst (filter P (bs_events s)))" for P
    using sim_engine_events(1) [OF init_backtest_start(2) [OF assms(1)]] by (simp add: sorted_wrt_map sorted_wrt_filter)
  ultimately show ?thesis using t(2) by (simp add: closes_def rebalances_def)
qed

text \<open>
  C3. A backtest never sees the future, as a whole. Take two sets of daily bars that are the same
  up to a time \<open>T\<close>, in an otherwise equal session. Whatever the bars hold afterwards, and however
  the two runs end: the run over the events up to \<open>T\<close> leaves the same session and the same
  exception, and the points of the equity curve and the decisions up to \<open>T\<close> are the same.
\<close>

theorem backtest_has_no_look_ahead:
  assumes "init_backtest a = Inr s" and "same_bars_until adjust T d d'"
    and "feed = backtest_feed [daily_bar_source d]" and "feed' = backtest_feed [daily_bar_source d']"
    and "r = fst (run_backtest uid perm feed s)" and "r' = fst (run_backtest uid perm feed' s)"
  shows "map_outcome session_of (run_events uid perm sim_is_open feed (filter (\<lambda>e. fst e \<le> T) (bs_events s)) s) =
      map_outcome session_of (run_events uid perm sim_is_open feed' (filter (\<lambda>e. fst e \<le> T) (bs_events s)) s) \<and>
    filter (\<lambda>x. fst x \<le> T) (bs_equity_curve r) = filter (\<lambda>x. fst x \<le> T) (bs_equity_curve r') \<and>
    filter (\<lambda>x. fst x \<le> T) (bs_stats r) = filter (\<lambda>x. fst x \<le> T) (bs_stats r')"
proof -
  let ?early = "filter (\<lambda>e. fst e \<le> T) (bs_events s)" and ?s = "s\<lparr>bs_stats := []\<rparr>"
  let ?loop = "\<lambda>f. for_each (event_step uid perm sim_is_open f)"
  have same: "?loop feed ?early ?s = ?loop feed' ?early ?s"
    by (rule agree_events) (use same_bars_agree [OF assms(2)] assms(3,4) in auto)
  have split: "?loop f (bs_events s) ?s = then_do (?loop f ?early ?s) (?loop f (filter (\<lambda>e. T < fst e) (bs_events s)))" for f
    using sorted_split [OF sim_engine_events(1) [OF init_backtest_start(2) [OF assms(1)]], of T] for_each_append by metis
  have run: "bs_equity_curve (fst (run_backtest uid perm f s)) = bs_equity_curve (fst (?loop f (bs_events s) ?s)) \<and>
      bs_stats (fst (run_backtest uid perm f s)) = bs_stats (fst (?loop f (bs_events s) ?s))" for f
    by (cases "?loop f (bs_events s) ?s" rule: outcome_cases) (simp_all add: run_backtest_loop)
  note late = late_events_add_late_points [of T uid perm sim_is_open _ ?early ?s "bs_events s", folded split]
  show ?thesis
    unfolding assms(5,6) run_events_loop using run [of feed] run [of feed'] late [of feed] late [of feed'] same by simp
qed


text \<open>
  C4. A backtest trades at the open only. However the run ends, the portfolio's event trail is
  the initial subscription followed by trades, each dated at a market open of the simulation; the
  account stays well formed and no money moves between the portfolio and the master account.
\<close>

theorem backtest_trades_at_the_open:
  assumes "init_backtest a = Inr s" and "b = bs_broker (fst (run_backtest uid perm feed s))"
  shows "wf_sim_broker b \<and> master_cash b = 0 \<and> dict_keys (sb_portfolios b) = [arg_portfolio_id a] \<and>
    (\<exists>p trades. map_of (sb_portfolios b) (arg_portfolio_id a) = Some p \<and>
      pf_history p = create_subscription (arg_start_dt a) (arg_initial_cash a) (arg_initial_cash a) # trades \<and>
      (\<forall>e \<in> set trades. traded e \<noteq> None \<and> (ev_dt e, MarketOpen) \<in> set (bs_events s)))"
proof -
  let ?sub = "create_subscription (arg_start_dt a) (arg_initial_cash a) (arg_initial_cash a)" and ?pid = "arg_portfolio_id a"
  let ?good = "\<lambda>b. wf_sim_broker b \<and> master_cash b = 0 \<and> dict_keys (sb_portfolios b) = [?pid] \<and>
    (\<exists>trades. field_of pf_history ?pid b = Some (?sub # trades) \<and>
      (\<forall>e \<in> set trades. traded e \<noteq> None \<and> (ev_dt e, MarketOpen) \<in> set (bs_events s)))"
  let ?s = "s\<lparr>bs_stats := []\<rparr>" and ?step = "event_step uid perm sim_is_open feed"
  have "?good (bs_broker ?s)"
    using create_broker_start [OF init_backtest_start(1) [OF assms(1)], where pid = "[]"] by auto
  then have "?good (bs_broker (fst (for_each ?step (bs_events s) ?s)))"
  proof (rule for_each_inv [where P = "\<lambda>t. ?good (bs_broker t)"])
    fix e and t :: backtest_session
    assume e: "e \<in> set (bs_events s)" and good: "?good (bs_broker t)"
    have e_open: "sim_is_open (fst e) \<longrightarrow> (fst e, MarketOpen) \<in> set (bs_events s)"
      using sim_engine_events(2) [OF init_backtest_start(2) [OF assms(1)], of "fst e" "snd e"] e by (cases e) auto
    let ?c = "bs_broker (fst (?step e t))"
    have step: "only_trades (sim_is_open (fst e)) (fst e) (bs_broker t) ?c" by (rule event_trail)
    obtain trades where trades: "field_of pf_history ?pid (bs_broker t) = Some (?sub # trades)"
        "\<forall>e \<in> set trades. traded e \<noteq> None \<and> (ev_dt e, MarketOpen) \<in> set (bs_events s)" using good by blast
    obtain evs where evs: "field_of pf_history ?pid ?c = map_option (\<lambda>h. h @ evs) (field_of pf_history ?pid (bs_broker t))"
        "\<forall>x \<in> set evs. sim_is_open (fst e) \<and> ev_dt x = fst e \<and> traded x \<noteq> None"
      using step unfolding only_trades_def by blast
    have "field_of pf_history ?pid ?c = Some (?sub # trades @ evs)" using evs(1) trades(1) by simp
    moreover have "master_cash ?c = master_cash (bs_broker t)" using step by (simp add: only_trades_def master_cash_def)
    ultimately show "?good ?c"
      using step good trades(2) evs(2) e_open by (intro conjI exI [of _ "trades @ evs"]) (auto simp: only_trades_def)
  qed
  moreover have "b = bs_broker (fst (for_each ?step (bs_events s) ?s))"
    unfolding assms(2) run_backtest_loop
    by (cases "for_each ?step (bs_events s) ?s" rule: outcome_cases) simp_all
  ultimately show ?thesis by auto
qed

section \<open>A small run\<close>

definition demo_args :: backtest_args where
  "demo_args = \<lparr>arg_start_dt = combine 8 0, arg_end_dt = combine 11 0, arg_universe = StaticUniverse [''EQ:SPY''],
     arg_alpha = (\<lambda>signals. Some (fixed_signals [(''EQ:SPY'', 1)])), arg_risk = None, arg_signals = None,
     arg_initial_cash = 1000, arg_rebalance = ''weekly'', arg_account_name = ''account'', arg_portfolio_id = ''000001'',
     arg_portfolio_name = ''portfolio'', arg_long_only = True, arg_base_currency = ''USD'', arg_fee_model = ZeroFeeModel,
     arg_burn_in_dt = None, arg_optimiser = None, arg_execution_algo = None, arg_rebalance_weekday = Some ''FRI'',
     arg_cash_buffer = Some (1/20), arg_gross_leverage = None\<rparr>"

definition demo_events :: "sim_event list" where
  "demo_events = [(combine 8 (hm 14 30), MarketOpen), (combine 8 (hm 21 0), MarketClose),
     (combine 11 (hm 14 30), MarketOpen), (combine 11 (hm 21 0), MarketClose)]"

definition demo_session :: backtest_session where
  "demo_session = projr (init_backtest demo_args)"

lemma demo_schedules:
  "sim_engine (combine 8 0) (combine 11 0) False False = Inr demo_events"
  "weekly_rebalances (combine 8 0) (combine 11 0) ''FRI'' False = Inr [combine 8 (hm 21 0)]"
proof -
  have dates: "date_range is_business_day (combine 8 0) (combine 11 0) = [8, 11]"
      "date_range (\<lambda>d. weekday d = 4) (combine 8 0) (combine 11 0) = [8]"
    by (simp_all add: date_range_def date_of_combine time_of_combine)
      (simp_all add: is_business_day_def weekday_def combine_def upto_rec_numeral)
  show "sim_engine (combine 8 0) (combine 11 0) False False = Inr demo_events"
    by (simp add: sim_engine_def dates day_events_def demo_events_def) (simp add: combine_def)
  have "set_weekday ''FRI'' = Inr 4" by code_simp
  then show "weekly_rebalances (combine 8 0) (combine 11 0) ''FRI'' False = Inr [combine 8 (hm 21 0)]"
    by (simp add: weekly_rebalances_def dates market_time_def)
qed

lemma demo_init: "init_backtest demo_args = Inr demo_session"
  and demo_session_fields: "bs_events demo_session = demo_events" "bs_schedule demo_session = [combine 8 (hm 21 0)]"
    "bs_burn_in demo_session = None" "bs_signals demo_session = None"
proof -
  have "\<exists>s. init_backtest demo_args = Inr s"
    by (simp add: init_backtest_def demo_args_def create_broker_def init_sim_broker_def set_base_currency_def
        supported_currencies_def set_initial_funds_def outcome_result_def create_portfolio_def
        subscribe_funds_to_portfolio_def on_portfolio_def subscribe_funds_def master_cash_def set_cash_balances_def
        set_master_cash_def Let_def create_simulation_engine_def create_rebalance_event_times_def demo_schedules
        create_quant_trading_system_def init_trading_system_def create_order_sizer_def check_set_cash_buffer_def)
  then show init: "init_backtest demo_args = Inr demo_session" by (auto simp: demo_session_def)
  show "bs_events demo_session = demo_events" "bs_schedule demo_session = [combine 8 (hm 21 0)]"
    using init_backtest_start(2,8) [OF init] by (simp_all add: demo_args_def demo_schedules create_rebalance_event_times_def)
  show "bs_burn_in demo_session = None" "bs_signals demo_session = None"
    using init_backtest_start(7,10) [OF init] by (simp_all add: demo_args_def)
qed

lemma demo_session_parts:
  "bs_broker demo_session = \<lparr>sb_start_dt = combine 8 0, sb_dt = combine 8 0, sb_account_id = Some ''account'',
     sb_currency = ''USD'', sb_fee_model = ZeroFeeModel,
     sb_cash = [(''USD'', 0), (''GBP'', 0), (''EUR'', 0), (''KRW'', 0)],
     sb_portfolios = [(''000001'', \<lparr>pf_start_dt = combine 8 0, pf_dt = combine 8 0, pf_starting_cash = 0,
        pf_currency = ''USD'', pf_id = ''000001'', pf_name = Some ''portfolio'', pf_cash = 1000, pf_positions = [],
        pf_history = [create_subscription (combine 8 0) 1000 1000]\<rparr>)],
     sb_open_orders = [(''000001'', [])]\<rparr>"
  "bs_qts demo_session = \<lparr>qts_portfolio = ''000001'',
     qts_model = \<lparr>pcm_universe = StaticUniverse [''EQ:SPY''], pcm_sizer = DollarWeighted (1/20),
       pcm_optimiser = FixedWeight, pcm_alpha = Some (fixed_signals [(''EQ:SPY'', 1)]), pcm_risk = None\<rparr>,
     qts_algo = market_order, qts_submit = True\<rparr>"
  "bs_alpha demo_session = (\<lambda>signals. Some (fixed_signals [(''EQ:SPY'', 1)]))"
  "bs_equity_curve demo_session = []"
proof -
  note start = init_backtest_start [OF demo_init]
  show "bs_alpha demo_session = (\<lambda>signals. Some (fixed_signals [(''EQ:SPY'', 1)]))" "bs_equity_curve demo_session = []"
    using start(11,3) by (simp_all add: demo_args_def)
  show "bs_broker demo_session = \<lparr>sb_start_dt = combine 8 0, sb_dt = combine 8 0, sb_account_id = Some ''account'',
     sb_currency = ''USD'', sb_fee_model = ZeroFeeModel,
     sb_cash = [(''USD'', 0), (''GBP'', 0), (''EUR'', 0), (''KRW'', 0)],
     sb_portfolios = [(''000001'', \<lparr>pf_start_dt = combine 8 0, pf_dt = combine 8 0, pf_starting_cash = 0,
        pf_currency = ''USD'', pf_id = ''000001'', pf_name = Some ''portfolio'', pf_cash = 1000, pf_positions = [],
        pf_history = [create_subscription (combine 8 0) 1000 1000]\<rparr>)],
     sb_open_orders = [(''000001'', [])]\<rparr>"
    using start(1)
    by (simp add: demo_args_def create_broker_def init_sim_broker_def set_base_currency_def
        supported_currencies_def set_initial_funds_def outcome_result_def create_portfolio_def
        subscribe_funds_to_portfolio_def on_portfolio_def subscribe_funds_def master_cash_def set_cash_balances_def
        set_master_cash_def Let_def init_portfolio_def)
  show "bs_qts demo_session = \<lparr>qts_portfolio = ''000001'',
     qts_model = \<lparr>pcm_universe = StaticUniverse [''EQ:SPY''], pcm_sizer = DollarWeighted (1/20),
       pcm_optimiser = FixedWeight, pcm_alpha = Some (fixed_signals [(''EQ:SPY'', 1)]), pcm_risk = None\<rparr>,
     qts_algo = market_order, qts_submit = True\<rparr>"
    using start(9)
    by (simp add: demo_args_def create_quant_trading_system_def init_trading_system_def create_order_sizer_def
        check_set_cash_buffer_def)
qed

lemma demo_run: "\<exists>r. run_backtest (\<lambda>_ a. a) (\<lambda>as. as) demo_feed demo_session = ok r"
proof -
  have times: "\<not> sim_is_open (combine 8 (hm 21 0))" "sim_is_open (combine 8 (hm 14 30))"
      "\<not> sim_is_open (combine 11 (hm 21 0))" "sim_is_open (combine 11 (hm 14 30))"
    by (simp_all add: sim_is_open_def hm_values date_of_combine time_of_combine weekday_def)
  have order: "combine 8 (hm 14 30) \<noteq> combine 8 (hm 21 0)" "combine 11 (hm 14 30) \<noteq> combine 8 (hm 21 0)"
      "combine 11 (hm 21 0) \<noteq> combine 8 (hm 21 0)" "\<not> combine 11 (hm 14 30) < combine 8 0"
      "\<not> combine 11 (hm 21 0) < combine 11 (hm 14 30)"
    by (simp_all add: combine_def hm_values)
  have ask: "feed_ask demo_feed dt a = Some 20" for dt a by (simp add: demo_feed_def backtest_feed_def demo_source_def)
  note feed = demo_feed_eval ask
  show ?thesis
    by (simp add: run_backtest_loop demo_session_fields demo_session_parts demo_events_def event_step_def
        broker_update_def signals_update_def rebalance_step_def equity_step_def update_equity_curve_def
        sim_update_def mark_all_def mark_portfolio_def on_portfolio_def queued_orders_def drain_queues_def execute_order_def
        past_burn_in_def is_rebalance_event_def current_system_def qts_decide_weights_def decide_weights_def fixed_signals_def
        record_and_submit_def sim_view_def get_portfolio_total_equity_def get_portfolio_as_dict_def
        size_and_submit_def build_orders_def as_dict_def
        obtain_full_asset_list_def full_asset_weights_def constant_weights_def
        dw_normalise_weights_def dw_quantity_def estimate_trade_costs_def isclose_zero_def
        total_equity_def total_market_value_def positions_market_value_def portfolio_to_dict_def current_quantity_of_def
        calc_total_cost_def rebalance_orders_eq quantity_in_def execution_handler_def market_order_def
        submit_and_update_def sim_submit_order_def ord_direction_def copysign1_def new_order_def
        get_account_total_equity_def transact_asset_def transact_position_def
        open_from_transaction_def net_quantity_def update_market_value_of_asset_def
        update_current_price_def check_set_dt_def times order feed Let_def)
qed

theorem backtest_reports_every_close_witness:
  "\<exists>r. run_backtest (\<lambda>_ a. a) (\<lambda>as. as) demo_feed demo_session = ok r \<and>
     map fst (bs_equity_curve r) = [combine 8 (hm 21 0), combine 11 (hm 21 0)] \<and>
     map fst (bs_target_allocations r) = [combine 8 (hm 21 0)]"
proof -
  obtain r where r: "run_backtest (\<lambda>_ a. a) (\<lambda>as. as) demo_feed demo_session = ok r" using demo_run by blast
  have "combine 8 (hm 14 30) \<noteq> combine 8 (hm 21 0)" "combine 11 (hm 14 30) \<noteq> combine 8 (hm 21 0)"
      "combine 11 (hm 21 0) \<noteq> combine 8 (hm 21 0)"
    by (simp_all add: combine_def hm_values)
  then show ?thesis using r backtest_reports_every_close [OF demo_init r]
    by (simp add: demo_session_fields demo_events_def past_burn_in_def is_rebalance_event_def)
qed

definition demo_frame :: "bar list \<Rightarrow> (symbol, quote_rows) dict" where
  "demo_frame bars = [(''EQ:SPY'', projr (convert_bar_frame True \<lparr>has_adj_close = True, frame_bars = bars\<rparr>))]"

theorem backtest_has_no_look_ahead_witness:
  "filter (\<lambda>x. fst x \<le> combine 8 (hm 21 0)) (bs_equity_curve (fst (run_backtest (\<lambda>_ a. a) (\<lambda>as. as)
      (backtest_feed [daily_bar_source (demo_frame [demo_bar 8 10])]) demo_session))) =
   filter (\<lambda>x. fst x \<le> combine 8 (hm 21 0)) (bs_equity_curve (fst (run_backtest (\<lambda>_ a. a) (\<lambda>as. as)
      (backtest_feed [daily_bar_source (demo_frame [demo_bar 8 10, demo_bar 11 99])]) demo_session)))"
proof -
  have "same_bars_until True (combine 8 (hm 21 0)) (demo_frame [demo_bar 8 10]) (demo_frame [demo_bar 8 10, demo_bar 11 99])"
  proof -
    have "convert_bar_frame True \<lparr>has_adj_close = True, frame_bars = bars\<rparr> =
        Inr (projr (convert_bar_frame True \<lparr>has_adj_close = True, frame_bars = bars\<rparr>))" for bars
      by (simp add: convert_bar_frame_def)
    moreover have "filter (\<lambda>b. bar_ts b \<le> combine 8 (hm 21 0)) [demo_bar 8 10] =
        filter (\<lambda>b. bar_ts b \<le> combine 8 (hm 21 0)) [demo_bar 8 10, demo_bar 11 99]"
      by (simp add: demo_bar_def combine_def hm_values)
    ultimately show ?thesis unfolding same_bars_until_def demo_frame_def
      by (simp del: filter.simps) (metis bar_frame.select_convs(2))
  qed
  from backtest_has_no_look_ahead [OF demo_init this refl refl refl refl] show ?thesis by blast
qed

theorem backtest_trades_at_the_open_witness:
  "\<exists>p trades. map_of (sb_portfolios (bs_broker (fst (run_backtest (\<lambda>_ a. a) (\<lambda>as. as) demo_feed demo_session)))) ''000001'' = Some p \<and>
     pf_history p = create_subscription (combine 8 0) 1000 1000 # trades \<and>
     (\<forall>e \<in> set trades. ev_dt e \<in> {combine 8 (hm 14 30), combine 11 (hm 14 30)})"
proof -
  have parts: "arg_portfolio_id demo_args = ''000001''" "arg_start_dt demo_args = combine 8 0" "arg_initial_cash demo_args = 1000"
    by (simp_all add: demo_args_def)
  have "(dt, MarketOpen) \<in> set demo_events \<Longrightarrow> dt \<in> {combine 8 (hm 14 30), combine 11 (hm 14 30)}" for dt
    by (auto simp: demo_events_def)
  then show ?thesis
    using backtest_trades_at_the_open [OF demo_init refl, of "\<lambda>_ a. a" "\<lambda>as. as" demo_feed]
    unfolding parts demo_session_fields(1) by blast
qed

end
