(* ===== verification/Chart_Dates.thy ===== *)
theory Chart_Dates
  imports Kis_Parse
begin

text \<open>
  The dates of the price history as the gateway handles them (\<^verbatim>\<open>scripts/kis_gateway.py\<close>, the
  paging of \<^verbatim>\<open>get_daily_closes\<close>): text of eight digits, compared as text, read and written by the
  library's \<^verbatim>\<open>strptime\<close> and \<^verbatim>\<open>strftime\<close>. The lemmas show that the order of the text is the order of
  the dates, and that the day before a date splits them.
\<close>

section \<open>Reading and writing a date\<close>

text \<open>
  \<^verbatim>\<open>strptime(text, '%Y%m%d')\<close>: four digits, then the alternatives of the month and of the day in
  the order the library's pattern tries them; text left over and a date that does not exist
  raise. A date is its year, month and day.
\<close>

type_synonym ymd = "nat \<times> nat \<times> nat"

definition digit_in :: "nat \<Rightarrow> nat \<Rightarrow> char \<Rightarrow> bool" where
  "digit_in lo hi c \<longleftrightarrow> 48 + lo \<le> (of_char c :: nat) \<and> (of_char c :: nat) \<le> 48 + hi"

fun month_reads :: "string \<Rightarrow> (nat \<times> string) list" where
  "month_reads (a # b # r) =
    (if a = CHR ''1'' \<and> digit_in 0 2 b then [(digits_value [a, b], r)] else []) @
    (if a = CHR ''0'' \<and> digit_in 1 9 b then [(digits_value [b], r)] else []) @
    (if digit_in 1 9 a then [(digits_value [a], b # r)] else [])"
| "month_reads [a] = (if digit_in 1 9 a then [(digits_value [a], [])] else [])"
| "month_reads [] = []"

fun day_reads :: "string \<Rightarrow> (nat \<times> string) list" where
  "day_reads (a # b # r) =
    (if a = CHR ''3'' \<and> digit_in 0 1 b then [(digits_value [a, b], r)] else []) @
    (if digit_in 1 2 a \<and> digit_in 0 9 b then [(digits_value [a, b], r)] else []) @
    (if a = CHR ''0'' \<and> digit_in 1 9 b then [(digits_value [b], r)] else []) @
    (if digit_in 1 9 a then [(digits_value [a], b # r)] else []) @
    (if a = CHR '' '' \<and> digit_in 1 9 b then [(digits_value [b], r)] else [])"
| "day_reads [a] = (if digit_in 1 9 a then [(digits_value [a], [])] else [])"
| "day_reads [] = []"

definition leap_year :: "nat \<Rightarrow> bool" where
  "leap_year y \<longleftrightarrow> y mod 4 = 0 \<and> (y mod 100 \<noteq> 0 \<or> y mod 400 = 0)"

definition days_in_month :: "nat \<Rightarrow> nat \<Rightarrow> nat" where
  "days_in_month y m =
    (if m = 2 then (if leap_year y then 29 else 28) else if m \<in> {4, 6, 9, 11} then 30 else 31)"

fun real_date :: "ymd \<Rightarrow> bool" where
  "real_date (y, m, d) \<longleftrightarrow> 1 \<le> y \<and> y \<le> 9999 \<and> 1 \<le> m \<and> m \<le> 12 \<and> 1 \<le> d \<and> d \<le> days_in_month y m"

definition strptime :: "string \<Rightarrow> exn + ymd" where
  "strptime text =
    (if length text < 4 \<or> \<not> list_all is_digit (take 4 text) then Inl ValueError
     else (case concat (map (\<lambda>(m, r). map (\<lambda>(d, rest). (m, d, rest)) (day_reads r)) (month_reads (drop 4 text))) of
         [] \<Rightarrow> Inl ValueError
       | (m, d, rest) # _ \<Rightarrow>
           (if rest \<noteq> [] \<or> \<not> real_date (digits_value (take 4 text), m, d) then Inl ValueError
            else Inr (digits_value (take 4 text), m, d))))"

definition two_digits :: "nat \<Rightarrow> string" where
  "two_digits n = [char_of (48 + n div 10), char_of (48 + n mod 10)]"

text \<open>\<^verbatim>\<open>strftime('%Y%m%d')\<close>; the C library writes the year without padding.\<close>

fun strftime :: "ymd \<Rightarrow> string" where
  "strftime (y, m, d) = nat_digits y @ two_digits m @ two_digits d"

text \<open>\<^verbatim>\<open>- datetime.timedelta(days=1)\<close>\<close>

fun day_before :: "ymd \<Rightarrow> exn + ymd" where
  "day_before (y, m, d) =
    (if 1 < d then Inr (y, m, d - 1)
     else if 1 < m then Inr (y, m - 1, days_in_month y (m - 1))
     else if 1 < y then Inr (y - 1, 12, 31)
     else Inl OverflowError)"

section \<open>The order of the text\<close>

lemma digits_fold: "foldl (\<lambda>v c. 10 * v + (of_char c - 48)) a cs = a * 10 ^ length cs + digits_value cs"
proof (induction cs rule: rev_induct)
  case (snoc x xs)
  then show ?case by (simp add: digits_value_def algebra_simps)
qed (simp add: digits_value_def)

lemma digits_value_Cons: "digits_value (c # cs) = (of_char c - 48) * 10 ^ length cs + digits_value cs"
  using digits_fold [of "of_char c - 48" cs] by (simp add: digits_value_def)

lemma digits_value_bound: "list_all is_digit s \<Longrightarrow> digits_value s < 10 ^ length s"
proof (induction s)
  case (Cons c cs)
  then have "(of_char c :: nat) - 48 \<le> 9" and "digits_value cs < 10 ^ length cs"
    by (auto simp: is_digit_def)
  then have "((of_char c :: nat) - 48) * 10 ^ length cs + digits_value cs < 9 * 10 ^ length cs + 10 ^ length cs"
    by (intro add_le_less_mono mult_right_mono) simp_all
  then show ?case by (simp add: digits_value_Cons)
qed (simp add: digits_value_def)

text \<open>Numerals of one length: the text compares as the numbers do.\<close>

lemma digits_less:
  assumes "length xs = length ys" and "list_all is_digit xs" and "list_all is_digit ys"
  shows "xs < ys \<longleftrightarrow> digits_value xs < digits_value ys"
  using assms
proof (induction xs ys rule: list_induct2)
  case (Cons x xs y ys)
  define a b where "a = (of_char x :: nat) - 48" and "b = (of_char y :: nat) - 48"
  have x: "(of_char x :: nat) = a + 48" and y: "(of_char y :: nat) = b + 48"
    using Cons.prems by (auto simp: is_digit_def a_def b_def)
  have eq: "x = y \<longleftrightarrow> a = b" using x y by (metis add_right_cancel of_char_eq_iff)
  have less: "x < y \<longleftrightarrow> a < b" using x y by (simp add: less_char_def)
  have bounds: "digits_value xs < 10 ^ length ys" "digits_value ys < 10 ^ length ys"
    using Cons digits_value_bound [of xs] digits_value_bound [of ys] by simp_all
  have vals: "digits_value (x # xs) = a * 10 ^ length ys + digits_value xs"
      "digits_value (y # ys) = b * 10 ^ length ys + digits_value ys"
    using Cons.hyps by (simp_all add: digits_value_Cons a_def b_def)
  consider "a = b" | "a < b" | "b < a" by linarith
  then show ?case
  proof cases
    case 1
    with Cons vals eq show ?thesis by simp
  next
    case 2
    then have "(a + 1) * 10 ^ length ys \<le> b * 10 ^ length ys" by (intro mult_right_mono) simp_all
    with 2 less vals bounds show ?thesis by simp
  next
    case 3
    then have "(b + 1) * 10 ^ length ys \<le> a * 10 ^ length ys" by (intro mult_right_mono) simp_all
    with 3 less eq vals bounds show ?thesis by auto
  qed
qed (simp add: digits_value_def)

lemma digits_value_append: "digits_value (xs @ ys) = digits_value xs * 10 ^ length ys + digits_value ys"
  using digits_fold [of "digits_value xs" ys] by (simp add: digits_value_def)

section \<open>Dates as text\<close>

text \<open>A date of four-digit year, as the venue writes it, and the number its text reads as.\<close>

fun chart_date :: "ymd \<Rightarrow> bool" where
  "chart_date (y, m, d) \<longleftrightarrow> 1000 \<le> y \<and> real_date (y, m, d)"

fun date_key :: "ymd \<Rightarrow> nat" where
  "date_key (y, m, d) = y * 10000 + m * 100 + d"

lemma days_in_month_bounds: "28 \<le> days_in_month y m" "days_in_month y m \<le> 31"
  by (simp_all add: days_in_month_def)

lemma length_nat_digits_year:
  assumes "1000 \<le> y" and "y \<le> 9999"
  shows "length (nat_digits y) = 4"
proof -
  have "y div 1000 < 10" "\<not> y div 100 < 10" "\<not> y div 10 < 10" "\<not> y < 10" using assms by linarith+
  then show ?thesis
    by (simp add: nat_digits.simps [of y] nat_digits.simps [of "y div 10"]
        nat_digits.simps [of "y div 100"] nat_digits.simps [of "y div 1000"] div_mult2_eq [symmetric])
qed

lemma two_digits:
  assumes "n < 100"
  shows "length (two_digits n) = 2" and "list_all is_digit (two_digits n)" and "digits_value (two_digits n) = n"
proof -
  have "n div 10 < 10" "n mod 10 < 10" using assms by auto
  then show "length (two_digits n) = 2" and "list_all is_digit (two_digits n)" and "digits_value (two_digits n) = n"
    by (simp_all add: two_digits_def is_digit_def digits_value_def)
qed

lemma strftime_digits:
  assumes "chart_date x"
  shows "length (strftime x) = 8" and "list_all is_digit (strftime x)" and "digits_value (strftime x) = date_key x"
proof -
  obtain y m d where x: "x = (y, m, d)" by (cases x)
  have "m < 100" "d < 100" "1000 \<le> y" "y \<le> 9999"
    using assms days_in_month_bounds [of y m] by (auto simp: x)
  then show "length (strftime x) = 8" and "list_all is_digit (strftime x)" and "digits_value (strftime x) = date_key x"
    by (simp_all add: x length_nat_digits_year two_digits nat_digits_digits digits_value_append digits_value_nat_digits)
qed

text \<open>The order of the text is that of the dates.\<close>

lemma strftime_less: "chart_date a \<Longrightarrow> chart_date b \<Longrightarrow> strftime a < strftime b \<longleftrightarrow> date_key a < date_key b"
  using strftime_digits [of a] strftime_digits [of b] by (simp add: digits_less)

lemma month_reads_two_digits:
  assumes "1 \<le> m" and "m \<le> 12"
  shows "\<exists>later. month_reads (two_digits m @ r) = (m, r) # later"
proof (cases "m < 10")
  case True
  then have "two_digits m = [CHR ''0'', char_of (48 + m)]" by (simp add: two_digits_def char_of_eq_iff)
  with True assms show ?thesis by (simp add: digit_in_def digits_value_def)
next
  case False
  then have "m = 10 \<or> m = 11 \<or> m = 12" using assms by auto
  then have "m div 10 = 1" and "m mod 10 = m - 10" by auto
  then have "two_digits m = [CHR ''1'', char_of (48 + (m - 10))]" by (simp add: two_digits_def char_of_eq_iff)
  with False assms show ?thesis by (simp add: digit_in_def digits_value_def)
qed

lemma day_reads_two_digits:
  assumes "1 \<le> d" and "d \<le> 31"
  shows "\<exists>later. day_reads (two_digits d) = (d, []) # later"
proof -
  define a b where "a = d div 10" and "b = d mod 10"
  have d: "d = 10 * a + b" "b < 10" by (simp_all add: a_def b_def)
  have two: "two_digits d = [char_of (48 + a), char_of (48 + b)]" by (simp add: two_digits_def a_def b_def)
  consider "a = 0" | "a = 1" | "a = 2" | "a = 3" using assms d by linarith
  then show ?thesis
    using d assms unfolding two by cases (auto simp: digit_in_def digits_value_def char_of_eq_iff)
qed

lemma strptime_strftime: "chart_date x \<Longrightarrow> strptime (strftime x) = Inr x"
proof -
  assume x: "chart_date x"
  obtain y m d where parts: "x = (y, m, d)" by (cases x)
  have range: "1 \<le> m" "m \<le> 12" "1 \<le> d" "d \<le> 31" "1000 \<le> y" "y \<le> 9999"
    using x days_in_month_bounds [of y m] by (auto simp: parts)
  obtain ms where ms: "month_reads (two_digits m @ two_digits d) = (m, two_digits d) # ms"
    using month_reads_two_digits range by blast
  obtain ds where ds: "day_reads (two_digits d) = (d, []) # ds" using day_reads_two_digits range by blast
  have year: "length (nat_digits y) = 4" "digits_value (nat_digits y) = y" "list_all is_digit (nat_digits y)"
    using range by (simp_all add: length_nat_digits_year digits_value_nat_digits nat_digits_digits)
  show ?thesis
    using x ms ds year by (simp add: strptime_def parts)
qed

section \<open>The day before\<close>

lemma day_before_real:
  assumes "real_date a"
  shows "day_before a = Inr b \<Longrightarrow> real_date b"
    and "day_before a = Inr b \<Longrightarrow> real_date c \<Longrightarrow> date_key c < date_key a \<longleftrightarrow> date_key c \<le> date_key b"
    and "day_before a = Inl e \<Longrightarrow> a = (1, 1, 1)"
proof -
  obtain y m d where a: "a = (y, m, d)" by (cases a)
  obtain y' m' d' where c: "c = (y', m', d')" by (cases c)
  note bounds = days_in_month_bounds [of y "m - 1"] days_in_month_bounds [of y m] days_in_month_bounds [of y' m']
  have long: "days_in_month (y - 1) 12 = 31" by (simp add: days_in_month_def)
  show "day_before a = Inr b \<Longrightarrow> real_date b"
    using assms bounds long by (auto simp: a split: if_splits)
  show "day_before a = Inl e \<Longrightarrow> a = (1, 1, 1)"
    using assms by (auto simp: a split: if_splits)
  show "date_key c < date_key a \<longleftrightarrow> date_key c \<le> date_key b" if b: "day_before a = Inr b" and "real_date c"
  proof -
    have r: "1 \<le> m'" "m' \<le> 12" "1 \<le> d'" "d' \<le> days_in_month y' m'" "d' \<le> 31" and "1 \<le> m" "m \<le> 12" "1 \<le> d" "d \<le> 31"
      using that(2) assms bounds by (auto simp: c a)
    consider "1 < d" | "d = 1" "1 < m" | "d = 1" "m = 1" using \<open>1 \<le> m\<close> \<open>1 \<le> d\<close> by linarith
    then show ?thesis
    proof cases
      case 1
      with b show ?thesis by (auto simp: a c)
    next
      case 2
      then have "b = (y, m - 1, days_in_month y (m - 1))" using b by (auto simp: a)
      moreover have "y' = y \<and> m' = m - 1 \<Longrightarrow> d' \<le> days_in_month y (m - 1)" using r by simp
      ultimately show ?thesis
        using r 2 bounds \<open>m \<le> 12\<close> by (cases "y' = y"; cases "m' = m - 1"; auto simp: a c)
    next
      case 3
      then have "b = (y - 1, 12, 31)" "1 < y" using b by (auto simp: a split: if_splits)
      with 3 r show ?thesis by (cases "y' < y") (auto simp: a c)
    qed
  qed
qed

end
