(* ===== verification/Kis_Gateway.thy ===== *)
theory Kis_Gateway
  imports Chart_Dates
begin

text \<open>
  The gateway to the vendor's SDK (\<^verbatim>\<open>scripts/kis_gateway.py\<close>). The SDK is not part of the
  repository: a \<open>kit\<close> is what it answers to a request, how long it takes over it, and how long a
  sleep of a given length really lasts. An operation of the gateway is a function of the
  \<open>desk\<close>: the SDK's own state, the monotonic clock, the module-level time of the last throttled
  call, and the record of the requests made, in order, each with the clock's reading.
\<close>

section \<open>Servers\<close>

definition mode_for :: "string \<Rightarrow> exn + string" where
  "mode_for svr =
    (if svr = ''vps'' then Inr ''paper'' else if svr = ''prod'' then Inr ''real'' else Inl ValueError)"

definition env_dv_for :: "string \<Rightarrow> exn + string" where
  "env_dv_for svr =
    (if svr = ''vps'' then Inr ''demo'' else if svr = ''prod'' then Inr ''real'' else Inl ValueError)"

definition settle_seconds_for :: "(string, rat) dict" where
  "settle_seconds_for = [(''vps'', 1), (''prod'', 1 / 5)]"

definition min_call_interval_for :: "(string, rat) dict" where
  "min_call_interval_for = [(''vps'', 7 / 10), (''prod'', 15 / 100)]"

record kis_gateway =
  gw_env_dv :: string
  gw_cano :: string
  gw_prdt :: string
  gw_settle :: rat
  gw_interval :: rat
  gw_mode :: string

definition init_gateway :: "string \<Rightarrow> string \<Rightarrow> string \<Rightarrow> rat \<Rightarrow> rat \<Rightarrow> kis_gateway" where
  "init_gateway env_dv cano acnt_prdt_cd settle_seconds min_call_interval =
    \<lparr>gw_env_dv = env_dv, gw_cano = cano, gw_prdt = acnt_prdt_cd, gw_settle = settle_seconds,
     gw_interval = min_call_interval, gw_mode = (if env_dv = ''demo'' then ''paper'' else ''real'')\<rparr>"

section \<open>Responses\<close>

text \<open>A frame of rows or nothing; some endpoints give several of them, or one.\<close>

type_synonym frame = "kis_row list option"

datatype response = Single frame | Several "frame list"

definition frame_is_empty :: "frame \<Rightarrow> bool" where
  "frame_is_empty f = (case f of None \<Rightarrow> True | Some rows \<Rightarrow> rows = [])"

fun is_empty :: "response \<Rightarrow> bool" where
  "is_empty (Single f) = frame_is_empty f"
| "is_empty (Several fs) = list_all frame_is_empty fs"

definition rows_of :: "frame \<Rightarrow> kis_row list" where
  "rows_of f = (case f of None \<Rightarrow> [] | Some rows \<Rightarrow> rows)"

text \<open>\<^verbatim>\<open>frame[i] if isinstance(frame, tuple) else frame\<close>\<close>

definition part :: "nat \<Rightarrow> response \<Rightarrow> exn + frame" where
  "part i r = (case r of Single f \<Rightarrow> Inr f
     | Several fs \<Rightarrow> (if i < length fs then Inr (fs ! i) else Inl IndexError))"

section \<open>The desk and its operations\<close>

datatype endpoint = Order_cash | Inquire_daily_ccld | Inquire_balance | Inquire_price
  | Inquire_daily_itemchartprice | Chk_holiday

type_synonym kwargs = "(string, string) dict"

text \<open>What the record shows: a call was spaced (its time stamped), a request was made.\<close>

datatype call_event = Spaced | Asked endpoint kwargs

record 'v desk =
  dk_venue :: 'v
  dk_clock :: rat
  dk_last_call :: "rat option"
  dk_trace :: "(rat \<times> call_event) list"

type_synonym ('v, 'a) io = "'v desk \<Rightarrow> (exn + 'a) \<times> 'v desk"

text \<open>
  The SDK: the endpoints that give one frame, those that may give several, its own throttle, the
  injected sleep, and today's date. Each takes its time.
\<close>

record 'v kit =
  k_frame :: "endpoint \<Rightarrow> kwargs \<Rightarrow> 'v \<Rightarrow> (exn + frame) \<times> rat \<times> 'v"
  k_response :: "endpoint \<Rightarrow> kwargs \<Rightarrow> 'v \<Rightarrow> (exn + response) \<times> rat \<times> 'v"
  k_smart_sleep :: "'v \<Rightarrow> rat \<times> 'v"
  k_sleep :: "rat \<Rightarrow> 'v \<Rightarrow> rat \<times> 'v"
  k_today :: "'v \<Rightarrow> string"

definition give :: "'a \<Rightarrow> ('v, 'a) io" where
  "give x s = (Inr x, s)"

definition io_then :: "('v, 'a) io \<Rightarrow> ('a \<Rightarrow> ('v, 'b) io) \<Rightarrow> ('v, 'b) io" where
  "io_then m f s = (case m s of (Inl e, t) \<Rightarrow> (Inl e, t) | (Inr x, t) \<Rightarrow> f x t)"

text \<open>A value or an exception that no request is needed for.\<close>

definition io_result :: "exn + 'a \<Rightarrow> ('v, 'a) io" where
  "io_result r s = (r, s)"

definition lapse :: "('v \<Rightarrow> rat \<times> 'v) \<Rightarrow> ('v, unit) io" where
  "lapse f s = (case f (dk_venue s) of
     (d, v) \<Rightarrow> (Inr (), s\<lparr>dk_venue := v, dk_clock := dk_clock s + d\<rparr>))"

definition ask :: "(endpoint \<Rightarrow> kwargs \<Rightarrow> 'v \<Rightarrow> (exn + 'r) \<times> rat \<times> 'v) \<Rightarrow> endpoint \<Rightarrow> kwargs \<Rightarrow> ('v, 'r) io" where
  "ask sdk e args s = (case sdk e args (dk_venue s) of
     (r, d, v) \<Rightarrow> (r, s\<lparr>dk_venue := v, dk_clock := dk_clock s + d,
       dk_trace := dk_trace s @ [(dk_clock s, Asked e args)]\<rparr>))"

text \<open>\<^verbatim>\<open>call_with_retry\<close>: the loop over the attempts still to make, with the last answer.\<close>

fun retrying :: "'v kit \<Rightarrow> ('r \<Rightarrow> bool) \<Rightarrow> nat \<Rightarrow> rat \<Rightarrow> ('v, 'r) io \<Rightarrow> nat list \<Rightarrow> 'r \<Rightarrow> ('v, 'r) io" where
  "retrying k vacant attempts backoff fn [] result = give result"
| "retrying k vacant attempts backoff fn (attempt # later) result =
     io_then fn (\<lambda>result.
       if \<not> vacant result then give result
       else io_then
         (if attempt + 1 < attempts then lapse (k_sleep k (backoff * of_nat (attempt + 1))) else give ())
         (\<lambda>_. retrying k vacant attempts backoff fn later result))"

definition call_with_retry :: "'v kit \<Rightarrow> ('r \<Rightarrow> bool) \<Rightarrow> 'r \<Rightarrow> nat \<Rightarrow> rat \<Rightarrow> ('v, 'r) io \<Rightarrow> ('v, 'r) io" where
  "call_with_retry k vacant none attempts backoff fn =
     retrying k vacant attempts backoff fn [0..<attempts] none"

definition frame_query :: "'v kit \<Rightarrow> endpoint \<Rightarrow> kwargs \<Rightarrow> ('v, frame) io" where
  "frame_query k e args = call_with_retry k frame_is_empty None 3 (1 / 2) (ask (k_frame k) e args)"

definition response_query :: "'v kit \<Rightarrow> endpoint \<Rightarrow> kwargs \<Rightarrow> ('v, response) io" where
  "response_query k e args =
     call_with_retry k is_empty (Single None) 3 (1 / 2) (ask (k_response k) e args)"

text \<open>
  \<^verbatim>\<open>_throttle\<close>. The clock is read twice; the second reading is the stamp the next call is
  spaced from.
\<close>

definition space_call :: "kis_gateway \<Rightarrow> 'v kit \<Rightarrow> ('v, unit) io" where
  "space_call g k s =
    (let now = dk_clock s;
         wait = (case dk_last_call s of None \<Rightarrow> give ()
           | Some since \<Rightarrow> (let waited = now - since in
               if waited < gw_interval g then lapse (k_sleep k (gw_interval g - waited)) else give ()));
         t = snd (wait s) in
     (Inr (), t\<lparr>dk_last_call := Some (dk_clock t), dk_trace := dk_trace t @ [(dk_clock t, Spaced)]\<rparr>))"

definition throttle :: "kis_gateway \<Rightarrow> 'v kit \<Rightarrow> ('v, unit) io" where
  "throttle g k =
    io_then (if 0 < gw_interval g then space_call g k else give ()) (\<lambda>_. lapse (k_smart_sleep k))"

section \<open>The client operations\<close>

definition order_args :: "kis_gateway \<Rightarrow> string \<Rightarrow> int \<Rightarrow> kwargs" where
  "order_args g pdno quantity =
    [(''env_dv'', gw_env_dv g), (''ord_dv'', if 0 < quantity then ''buy'' else ''sell''),
     (''cano'', gw_cano g), (''acnt_prdt_cd'', gw_prdt g), (''pdno'', pdno), (''ord_dvsn'', ''01''),
     (''ord_qty'', int_str \<bar>quantity\<bar>), (''ord_unpr'', ''0''), (''excg_id_dvsn_cd'', ''KRX'')]"

definition place_market_order :: "kis_gateway \<Rightarrow> 'v kit \<Rightarrow> symbol \<Rightarrow> int \<Rightarrow> ('v, string) io" where
  "place_market_order g k s quantity =
    io_then (throttle g k) (\<lambda>_.
    io_then (if 0 < gw_settle g then lapse (k_sleep k (gw_settle g)) else give ()) (\<lambda>_.
    io_then (io_result (to_venue_symbol s)) (\<lambda>pdno.
    io_then (ask (k_frame k) Order_cash (order_args g pdno quantity)) (\<lambda>frame.
      (let rows = rows_of frame in
       if rows = [] then io_result (Inl RuntimeError)
       else io_result (parse_order_no (hd rows)))))))"

definition get_order_report :: "kis_gateway \<Rightarrow> 'v kit \<Rightarrow> string \<Rightarrow> ('v, kis_report) io" where
  "get_order_report g k order_no =
    io_then (throttle g k) (\<lambda>_ s.
      (let today = k_today k (dk_venue s) in
       io_then (ask (k_response k) Inquire_daily_ccld
         [(''env_dv'', gw_env_dv g), (''pd_dv'', ''inner''), (''cano'', gw_cano g),
          (''acnt_prdt_cd'', gw_prdt g), (''inqr_strt_dt'', today), (''inqr_end_dt'', today),
          (''sll_buy_dvsn_cd'', ''00''), (''ccld_dvsn'', ''00''), (''inqr_dvsn'', ''00''),
          (''inqr_dvsn_3'', ''00''), (''odno'', order_no)]) (\<lambda>r.
       io_then (io_result (part 0 r)) (\<lambda>output1.
         io_result (parse_order_report (Some (rows_of output1)) order_no))) s))"

definition get_balance :: "kis_gateway \<Rightarrow> 'v kit \<Rightarrow> ('v, kis_balance) io" where
  "get_balance g k =
    io_then (throttle g k) (\<lambda>_.
    io_then (response_query k Inquire_balance
      [(''env_dv'', gw_env_dv g), (''cano'', gw_cano g), (''acnt_prdt_cd'', gw_prdt g),
       (''afhr_flpr_yn'', ''N''), (''inqr_dvsn'', ''01''), (''unpr_dvsn'', ''01''),
       (''fund_sttl_icld_yn'', ''N''), (''fncg_amt_auto_rdpt_yn'', ''N''), (''prcs_dvsn'', ''00'')]) (\<lambda>r.
    io_then (io_result (part 0 r)) (\<lambda>output1.
    io_then (io_result (case r of Single _ \<Rightarrow> Inr None | Several _ \<Rightarrow> part 1 r)) (\<lambda>output2.
      io_result (parse_balance (Some (rows_of output1)) (Many_rows (rows_of output2)))))))"

definition get_price :: "kis_gateway \<Rightarrow> 'v kit \<Rightarrow> symbol \<Rightarrow> ('v, pfloat) io" where
  "get_price g k s =
    io_then (throttle g k) (\<lambda>_.
    io_then (io_result (to_venue_symbol s)) (\<lambda>pdno.
    io_then (frame_query k Inquire_price
      [(''env_dv'', gw_env_dv g), (''fid_cond_mrkt_div_code'', ''J''), (''fid_input_iscd'', pdno)]) (\<lambda>frame.
      (let rows = rows_of frame in
       if rows = [] then io_result (Inl RuntimeError) else io_result (parse_price (hd rows))))))"

text \<open>\<^verbatim>\<open>except KisParseError ... raise HolidayServiceUnavailable\<close>\<close>

definition get_trading_day :: "kis_gateway \<Rightarrow> 'v kit \<Rightarrow> string \<Rightarrow> ('v, bool) io" where
  "get_trading_day g k date_str =
    io_then (throttle g k) (\<lambda>_.
    io_then (frame_query k Chk_holiday [(''bass_dt'', date_str)]) (\<lambda>frame.
      io_result (case parse_is_trading_day (Some (rows_of frame)) date_str of
          Inl e \<Rightarrow> Inl (if e = KisParseError then HolidayServiceUnavailable else e)
        | Inr b \<Rightarrow> Inr b)))"

section \<open>The price history\<close>

definition chart_page_size :: nat where
  "chart_page_size = 100"

definition max_chart_pages :: nat where
  "max_chart_pages = 10"

definition chart_args :: "kis_gateway \<Rightarrow> string \<Rightarrow> string \<Rightarrow> string \<Rightarrow> bool \<Rightarrow> kwargs" where
  "chart_args g pdno start_date cursor adjusted =
    [(''env_dv'', gw_env_dv g), (''fid_cond_mrkt_div_code'', ''J''), (''fid_input_iscd'', pdno),
     (''fid_input_date_1'', start_date), (''fid_input_date_2'', cursor), (''fid_period_div_code'', ''D''),
     (''fid_org_adj_prc'', if adjusted then ''0'' else ''1'')]"

text \<open>The page of a cursor: throttled, asked with retries, and parsed.\<close>

definition chart_page :: "kis_gateway \<Rightarrow> 'v kit \<Rightarrow> string \<Rightarrow> string \<Rightarrow> bool \<Rightarrow> string \<Rightarrow>
    ('v, (string \<times> pfloat) list) io" where
  "chart_page g k pdno start_date adjusted cursor =
    io_then (throttle g k) (\<lambda>_.
    io_then (response_query k Inquire_daily_itemchartprice (chart_args g pdno start_date cursor adjusted)) (\<lambda>r.
    io_then (io_result (part 1 r)) (\<lambda>output2.
      io_result (parse_daily_closes (Some (rows_of output2))))))"

text \<open>The loop over the pages still allowed.\<close>

fun chart_pages :: "kis_gateway \<Rightarrow> 'v kit \<Rightarrow> string \<Rightarrow> string \<Rightarrow> bool \<Rightarrow> nat \<Rightarrow> string \<Rightarrow>
    (string, pfloat) dict \<Rightarrow> ('v, (string, pfloat) dict) io" where
  "chart_pages g k pdno start_date adjusted 0 cursor collected = give collected"
| "chart_pages g k pdno start_date adjusted (Suc pages) cursor collected =
    (if cursor < start_date then give collected
     else io_then (chart_page g k pdno start_date adjusted cursor) (\<lambda>page.
       if page = [] then give collected
       else (let collected = dict_update collected page in
         if length page < chart_page_size then give collected
         else io_then (io_result (and_then (strptime (fst (hd page))) day_before)) (\<lambda>earlier.
           chart_pages g k pdno start_date adjusted pages (strftime earlier) collected))))"

definition get_daily_closes :: "kis_gateway \<Rightarrow> 'v kit \<Rightarrow> symbol \<Rightarrow> string \<Rightarrow> string \<Rightarrow> bool \<Rightarrow>
    ('v, (string \<times> pfloat) list) io" where
  "get_daily_closes g k s start_date end_date adjusted =
    io_then (io_result (to_venue_symbol s)) (\<lambda>pdno.
    io_then (chart_pages g k pdno start_date adjusted max_chart_pages end_date []) (\<lambda>collected.
      give (map (\<lambda>date. (date, the (map_of collected date)))
        (filter (\<lambda>date. start_date \<le> date \<and> date \<le> end_date) (sort (dict_keys collected))))))"

section \<open>Connecting\<close>

text \<open>
  \<^verbatim>\<open>impose_http_timeout\<close>: what the SDK module carries under \<^verbatim>\<open>requests\<close>, and the limit a call
  through it is made with: \<^verbatim>\<open>setdefault\<close> keeps what the caller gives, and no limit is \<open>None\<close>.
\<close>

datatype http_module = No_requests | Plain_requests | Timeout_requests "rat \<times> rat"

definition http_timeout :: "rat \<times> rat" where
  "http_timeout = (5, 15)"

definition impose_http_timeout :: "rat \<times> rat \<Rightarrow> http_module \<Rightarrow> bool \<times> http_module" where
  "impose_http_timeout timeout m = (case m of
     Timeout_requests t \<Rightarrow> (False, m) | No_requests \<Rightarrow> (False, m)
   | Plain_requests \<Rightarrow> (True, Timeout_requests timeout))"

definition call_timeout :: "http_module \<Rightarrow> (rat \<times> rat) option option \<Rightarrow> (rat \<times> rat) option" where
  "call_timeout m given = (case given of Some t \<Rightarrow> t
     | None \<Rightarrow> (case m of Timeout_requests t \<Rightarrow> Some t | _ \<Rightarrow> None))"

text \<open>
  \<^verbatim>\<open>add_ota_to_path\<close>. The file system, the environment and the authentication are the host's;
  the import path is a list, searched from its front.
\<close>

record host =
  is_dir :: "string \<Rightarrow> bool"
  abspath :: "string \<Rightarrow> string"
  ota_home_variable :: "string option"
  sdk_auth :: "string \<Rightarrow> http_module \<Rightarrow> exn + (string \<times> string)"

definition path_join :: "string \<Rightarrow> string \<Rightarrow> string" where
  "path_join a b = (if take 1 b = ''/'' then b
     else if a = [] \<or> last a = CHR ''/'' then a @ b else a @ ''/'' @ b)"

definition ota_path_candidates :: "string list" where
  "ota_path_candidates =
    [''examples_user'', path_join ''examples_user'' ''domestic_stock'', ''examples_llm'']"

text \<open>\<^verbatim>\<open>a or b or default\<close> over strings that may be missing or empty\<close>

fun first_given :: "string option list \<Rightarrow> string \<Rightarrow> string" where
  "first_given [] dflt = dflt"
| "first_given (Some s # later) dflt = (if s = [] then first_given later dflt else s)"
| "first_given (None # later) dflt = first_given later dflt"

fun add_candidates :: "host \<Rightarrow> string \<Rightarrow> string list \<Rightarrow> string list \<Rightarrow> string list \<Rightarrow> string list \<times> string list" where
  "add_candidates h home [] path added = (path, added)"
| "add_candidates h home (c # cs) path added =
    (let sub = path_join home c in
     if is_dir h sub
     then add_candidates h home cs (if sub \<in> set path then path else sub # path) (added @ [sub])
     else add_candidates h home cs path added)"

definition add_ota_to_path :: "host \<Rightarrow> string option \<Rightarrow> string list \<Rightarrow> (exn + string) \<times> string list" where
  "add_ota_to_path h ota_home path =
    (let home = abspath h (first_given [ota_home, ota_home_variable h] ''../open-trading-api'') in
     if \<not> is_dir h home then (Inl FileNotFoundError, path)
     else (case add_candidates h home ota_path_candidates path [] of
       (path, added) \<Rightarrow> (if added = [] then Inl FileNotFoundError else Inr home, path)))"

text \<open>
  \<^verbatim>\<open>connect\<close>: the process carries the import path and the SDK module, whose import is taken to
  succeed once the path is set.
\<close>

record process =
  pr_path :: "string list"
  pr_http :: http_module

definition connect :: "host \<Rightarrow> string \<Rightarrow> string option \<Rightarrow> process \<Rightarrow> (exn + kis_gateway) \<times> process" where
  "connect h svr ota_home p =
    (case env_dv_for svr of Inl e \<Rightarrow> (Inl e, p) | Inr env_dv \<Rightarrow>
      (case add_ota_to_path h ota_home (pr_path p) of
         (Inl e, path) \<Rightarrow> (Inl e, p\<lparr>pr_path := path\<rparr>)
       | (Inr _, path) \<Rightarrow>
         (let q = p\<lparr>pr_path := path, pr_http := snd (impose_http_timeout http_timeout (pr_http p))\<rparr> in
          case sdk_auth h svr (pr_http q) of
            Inl e \<Rightarrow> (Inl e, q)
          | Inr (acct, prdt) \<Rightarrow> (Inr (init_gateway env_dv acct prdt
              (case map_of settle_seconds_for svr of Some x \<Rightarrow> x | None \<Rightarrow> 1)
              (case map_of min_call_interval_for svr of Some x \<Rightarrow> x | None \<Rightarrow> 7 / 10)), q))))"

text \<open>The server a caller gets without naming one.\<close>

definition connect_default :: "host \<Rightarrow> process \<Rightarrow> (exn + kis_gateway) \<times> process" where
  "connect_default h p = connect h ''vps'' None p"

section \<open>Programs of client calls\<close>

datatype client_call = Place symbol int | Report string | Balance | Price symbol
  | Closes symbol string string bool | Trading_day string

definition forget :: "(exn + 'a) \<times> 'v desk \<Rightarrow> (exn + unit) \<times> 'v desk" where
  "forget r = (case fst r of Inl e \<Rightarrow> Inl e | Inr _ \<Rightarrow> Inr (), snd r)"

fun perform :: "kis_gateway \<Rightarrow> 'v kit \<Rightarrow> client_call \<Rightarrow> ('v, unit) io" where
  "perform g k (Place s q) d = forget (place_market_order g k s q d)"
| "perform g k (Report no) d = forget (get_order_report g k no d)"
| "perform g k Balance d = forget (get_balance g k d)"
| "perform g k (Price s) d = forget (get_price g k s d)"
| "perform g k (Closes s from until adjusted) d = forget (get_daily_closes g k s from until adjusted d)"
| "perform g k (Trading_day date) d = forget (get_trading_day g k date d)"

text \<open>
  Calls one after another, each by a gateway of its own; a call that raises is handled by its
  caller, which goes on. The gateways share the desk, as the module-level clock is shared.
\<close>

fun run_calls :: "'v kit \<Rightarrow> (kis_gateway \<times> client_call) list \<Rightarrow> 'v desk \<Rightarrow> 'v desk" where
  "run_calls k [] d = d"
| "run_calls k ((g, c) # calls) d = run_calls k calls (snd (perform g k c d))"

section \<open>What the operations keep\<close>

lemma snd_forget [simp]: "snd (forget r) = snd r"
  by (simp add: forget_def)

lemma io_then_simps [simp]:
  "m s = (Inr x, t) \<Longrightarrow> io_then m f s = f x t"
  "m s = (Inl e, t) \<Longrightarrow> io_then m f s = (Inl e, t)"
  by (simp_all add: io_then_def)

lemma give_eq [simp]: "give x s = (Inr x, s)" and io_result_eq [simp]: "io_result r s = (r, s)"
  by (simp_all add: give_def io_result_def)

text \<open>
  A relation between the desk before and after that sleeping and the requests of some endpoints
  keep is kept by every query of these endpoints; if the throttle keeps it too, by the client
  operations.
\<close>

locale request_io =
  fixes k :: "'v kit" and allowed :: "endpoint \<Rightarrow> bool" and R :: "'v desk \<Rightarrow> 'v desk \<Rightarrow> bool"
  assumes refl: "R s s"
    and trans: "R s t \<Longrightarrow> R t u \<Longrightarrow> R s u"
    and slept: "0 \<le> d \<Longrightarrow> R s (snd (lapse (k_sleep k d) s))"
    and frame: "allowed e \<Longrightarrow> R s (snd (ask (k_frame k) e args s))"
    and response: "allowed e \<Longrightarrow> R s (snd (ask (k_response k) e args s))"
begin

lemma io_then: "R s (snd (m s)) \<Longrightarrow> (\<And>x t. R t (snd (f x t))) \<Longrightarrow> R s (snd (io_then m f s))"
  by (auto simp: io_then_def split: prod.splits sum.splits) (metis trans)

lemma result: "R s (snd (io_result r s))" and given: "R s (snd (give x s))"
  by (simp_all add: refl)

lemma retrying:
  assumes "\<And>s. R s (snd (fn s))" and "0 \<le> backoff"
  shows "R s (snd (retrying k vacant n backoff fn as r s))"
proof (induction as arbitrary: r s)
  case (Cons a as)
  have "R t (snd ((if a + 1 < n then lapse (k_sleep k (backoff * of_nat (a + 1))) else give ()) t))" for t
    using assms(2) by (simp add: slept refl del: of_nat_Suc of_nat_add)
  with Cons show ?case by (auto intro!: io_then assms(1) simp: refl)
qed (simp add: refl)

lemma frame_query: "allowed e \<Longrightarrow> R s (snd (frame_query k e args s))"
  by (simp add: frame_query_def call_with_retry_def) (rule retrying, rule frame, simp_all)

lemma response_query: "allowed e \<Longrightarrow> R s (snd (response_query k e args s))"
  by (simp add: response_query_def call_with_retry_def) (rule retrying, rule response, simp_all)

lemmas io_intros = io_then result given frame response frame_query response_query

end

locale gateway_io = request_io k allowed R
  for k :: "'v kit" and allowed :: "endpoint \<Rightarrow> bool" and R :: "'v desk \<Rightarrow> 'v desk \<Rightarrow> bool" +
  fixes g :: kis_gateway
  assumes throttled: "R s (snd (throttle g k s))"
begin

lemma order_kept: "allowed Order_cash \<Longrightarrow> R s (snd (place_market_order g k x q s))"
  by (auto simp: place_market_order_def Let_def refl intro!: io_intros throttled slept)

lemma report_kept: "allowed Inquire_daily_ccld \<Longrightarrow> R s (snd (get_order_report g k no s))"
  unfolding get_order_report_def Let_def by (intro io_intros throttled)

lemma balance_kept: "allowed Inquire_balance \<Longrightarrow> R s (snd (get_balance g k s))"
  unfolding get_balance_def by (intro io_intros throttled)

lemma price_kept: "allowed Inquire_price \<Longrightarrow> R s (snd (get_price g k x s))"
  by (auto simp: get_price_def Let_def refl intro!: io_intros throttled)

lemma trading_day_kept: "allowed Chk_holiday \<Longrightarrow> R s (snd (get_trading_day g k date s))"
  unfolding get_trading_day_def by (intro io_intros throttled)

lemma chart_page_kept:
  "allowed Inquire_daily_itemchartprice \<Longrightarrow> R s (snd (chart_page g k pdno from adjusted cursor s))"
  unfolding chart_page_def by (intro io_intros throttled)

lemma chart_pages_kept:
  assumes "allowed Inquire_daily_itemchartprice"
  shows "R s (snd (chart_pages g k pdno from adjusted pages cursor collected s))"
proof (induction pages arbitrary: cursor collected s)
  case (Suc pages)
  have "R t (snd (chart_page g k pdno from adjusted cursor t))" for t
    using assms by (rule chart_page_kept)
  with Suc show ?case by (auto simp: Let_def refl intro!: io_intros)
qed (simp add: refl)

lemma closes_kept:
  "allowed Inquire_daily_itemchartprice \<Longrightarrow> R s (snd (get_daily_closes g k x from until adjusted s))"
  unfolding get_daily_closes_def by (intro io_intros chart_pages_kept)

end

section \<open>Orders\<close>

text \<open>The orders of a record: what each was sent with.\<close>

definition orders_sent :: "'v desk \<Rightarrow> kwargs list" where
  "orders_sent d = concat (map (\<lambda>(t, ev). case ev of Asked e args \<Rightarrow> if e = Order_cash then [args] else []
     | Spaced \<Rightarrow> []) (dk_trace d))"

definition spaced_at :: "'v desk \<Rightarrow> rat list" where
  "spaced_at d = map fst (filter (\<lambda>(t, ev). ev = Spaced) (dk_trace d))"

lemma lapse_keeps [simp]:
  "dk_trace (snd (lapse f s)) = dk_trace s" "dk_last_call (snd (lapse f s)) = dk_last_call s"
  "fst (lapse f s) = Inr ()" "dk_clock (snd (lapse f s)) = dk_clock s + fst (f (dk_venue s))"
  by (simp_all add: lapse_def split: prod.splits)

lemma ask_keeps [simp]:
  "dk_trace (snd (ask sdk e args s)) = dk_trace s @ [(dk_clock s, Asked e args)]"
  "dk_last_call (snd (ask sdk e args s)) = dk_last_call s"
  "dk_clock (snd (ask sdk e args s)) = dk_clock s + fst (snd (sdk e args (dk_venue s)))"
  by (simp_all add: ask_def split: prod.splits)

lemma ask_run:
  assumes "ask sdk e args s = (r, t)"
  shows "dk_trace t = dk_trace s @ [(dk_clock s, Asked e args)]"
    and "dk_clock t = dk_clock s + fst (snd (sdk e args (dk_venue s)))"
  using ask_keeps(1,3) [of sdk e args s] assms by simp_all

lemma lapse_orders [simp]: "orders_sent (snd (lapse f s)) = orders_sent s"
  and ask_orders [simp]: "orders_sent (snd (ask sdk e args s)) = orders_sent s @ (if e = Order_cash then [args] else [])"
  and lapse_spaced [simp]: "spaced_at (snd (lapse f s)) = spaced_at s"
  and ask_spaced [simp]: "spaced_at (snd (ask sdk e args s)) = spaced_at s"
  by (simp_all add: orders_sent_def spaced_at_def)

text \<open>The throttle's two parts: the stamp, after a sleep where the last one is too close.\<close>

definition wait_time :: "kis_gateway \<Rightarrow> 'v kit \<Rightarrow> 'v desk \<Rightarrow> rat" where
  "wait_time g k s = (case dk_last_call s of None \<Rightarrow> 0 | Some since \<Rightarrow>
     if dk_clock s - since < gw_interval g
     then fst (k_sleep k (gw_interval g - (dk_clock s - since)) (dk_venue s)) else 0)"

lemma space_call:
  "fst (space_call g k s) = Inr ()"
  "dk_clock (snd (space_call g k s)) = dk_clock s + wait_time g k s"
  "dk_last_call (snd (space_call g k s)) = Some (dk_clock s + wait_time g k s)"
  "dk_trace (snd (space_call g k s)) = dk_trace s @ [(dk_clock s + wait_time g k s, Spaced)]"
  by (simp_all add: space_call_def wait_time_def Let_def split: option.splits)

lemma throttle_eq:
  "throttle g k s = lapse (k_smart_sleep k) (if 0 < gw_interval g then snd (space_call g k s) else s)"
  using space_call(1) [of g k s] by (cases "space_call g k s") (simp add: throttle_def io_then_def)

lemma throttle_ok [simp]: "fst (throttle g k s) = Inr ()"
  by (simp add: throttle_eq)

lemma throttle_orders [simp]: "orders_sent (snd (throttle g k s)) = orders_sent s"
  by (simp add: throttle_eq) (simp add: orders_sent_def space_call)

lemma throttle_spaced [simp]: "0 < gw_interval g \<Longrightarrow>
    spaced_at (snd (throttle g k s)) = spaced_at s @ [dk_clock s + wait_time g k s]"
  by (simp add: throttle_eq) (simp add: spaced_at_def space_call)

interpretation no_orders: gateway_io k "\<lambda>e. e \<noteq> Order_cash" "\<lambda>s t. orders_sent t = orders_sent s" g
  for k g
  by unfold_locales simp_all

lemma io_then_ok: "fst (m s) = Inr x \<Longrightarrow> io_then m f s = f x (snd (m s))"
  by (cases "m s") (simp add: io_then_def)

lemma placed_orders:
  "orders_sent (snd (place_market_order g k s q d)) =
    orders_sent d @ (case to_venue_symbol s of Inl _ \<Rightarrow> [] | Inr pdno \<Rightarrow> [order_args g pdno q])"
proof -
  define t where "t = snd ((if 0 < gw_settle g then lapse (k_sleep k (gw_settle g)) else give ()) (snd (throttle g k d)))"
  have t: "orders_sent t = orders_sent d" by (simp add: t_def)
  have run: "place_market_order g k s q d =
      io_then (io_result (to_venue_symbol s)) (\<lambda>pdno.
      io_then (ask (k_frame k) Order_cash (order_args g pdno q)) (\<lambda>frame.
        let rows = rows_of frame in
        if rows = [] then io_result (Inl RuntimeError) else io_result (parse_order_no (hd rows)))) t"
    by (simp add: place_market_order_def t_def io_then_ok)
  show ?thesis
  proof (cases "to_venue_symbol s")
    case (Inr pdno)
    obtain r u where "ask (k_frame k) Order_cash (order_args g pdno q) t = (r, u)" by fastforce
    moreover from this have "orders_sent u = orders_sent d @ [order_args g pdno q]"
      using ask_orders [of "k_frame k" Order_cash "order_args g pdno q" t] t by simp
    ultimately show ?thesis by (cases r) (simp_all add: run Inr Let_def)
  qed (simp add: run t)
qed

fun orders_of_call :: "kis_gateway \<times> client_call \<Rightarrow> kwargs list" where
  "orders_of_call (g, Place s q) =
     (case to_venue_symbol s of Inl _ \<Rightarrow> [] | Inr pdno \<Rightarrow> [order_args g pdno q])"
| "orders_of_call (g, c) = []"

lemma performed_orders: "orders_sent (snd (perform g k c d)) = orders_sent d @ orders_of_call (g, c)"
  by (cases c) (simp_all add: placed_orders no_orders.report_kept no_orders.balance_kept no_orders.price_kept
      no_orders.closes_kept no_orders.trading_day_kept)

text \<open>
  C28. Whatever the SDK answers, raises or leaves empty, and however often the queries around them
  are repeated, the orders that reach the venue are exactly those asked for: one for each placement
  whose symbol the venue can be told, in their order, with its side, its size and the account of
  the gateway that placed it; no query sends one and no order is sent a second time.
\<close>

theorem every_placement_is_sent_once:
  "orders_sent (run_calls k calls d) = orders_sent d @ concat (map orders_of_call calls)"
  by (induction k calls d rule: run_calls.induct) (simp_all add: performed_orders)

section \<open>Spacing\<close>

text \<open>Nothing takes a negative time, and a sleep lasts at least as long as it was asked to.\<close>

definition honest_time :: "'v kit \<Rightarrow> bool" where
  "honest_time k \<longleftrightarrow> (\<forall>v. 0 \<le> fst (k_smart_sleep k v) \<and> (\<forall>d \<ge> 0. d \<le> fst (k_sleep k d v)) \<and>
     (\<forall>e args. 0 \<le> fst (snd (k_frame k e args v)) \<and> 0 \<le> fst (snd (k_response k e args v))))"

definition paced :: "rat \<Rightarrow> 'v desk \<Rightarrow> bool" where
  "paced m d \<longleftrightarrow> sorted_wrt (\<lambda>a b. a + m \<le> b) (spaced_at d) \<and>
     (\<forall>since. dk_last_call d = Some since \<longrightarrow> since \<le> dk_clock d \<and> (\<forall>t \<in> set (spaced_at d). t \<le> since)) \<and>
     (dk_last_call d = None \<longrightarrow> spaced_at d = [])"

lemma honest_timeD:
  assumes "honest_time k"
  shows "0 \<le> d \<Longrightarrow> d \<le> fst (k_sleep k d v)" and "0 \<le> d \<Longrightarrow> 0 \<le> fst (k_sleep k d v)"
    and "0 \<le> fst (k_smart_sleep k v)" and "0 \<le> fst (snd (k_frame k e args v))"
    and "0 \<le> fst (snd (k_response k e args v))"
proof -
  show le: "d \<le> fst (k_sleep k d v)" if "0 \<le> d" using assms that by (simp add: honest_time_def)
  show "0 \<le> fst (k_sleep k d v)" if "0 \<le> d" using le [OF that] that by simp
qed (use assms in \<open>simp_all add: honest_time_def\<close>)

lemma paced_later: "paced m s \<Longrightarrow> spaced_at t = spaced_at s \<Longrightarrow> dk_last_call t = dk_last_call s \<Longrightarrow>
    dk_clock s \<le> dk_clock t \<Longrightarrow> paced m t"
  by (auto simp: paced_def)

lemma wait_time_bounds:
  assumes "honest_time k" and "dk_last_call d = Some since"
  shows "since + gw_interval g \<le> dk_clock d + wait_time g k d" and "0 \<le> wait_time g k d"
proof -
  define left where "left = gw_interval g - (dk_clock d - since)"
  have "0 < left \<Longrightarrow> left \<le> fst (k_sleep k left (dk_venue d))"
    using assms(1) by (simp add: honest_time_def)
  then show "since + gw_interval g \<le> dk_clock d + wait_time g k d" "0 \<le> wait_time g k d"
    using assms(2) by (auto simp: wait_time_def left_def)
qed

lemma paced_throttle:
  assumes "honest_time k" and "0 < m" and "m \<le> gw_interval g" and "paced m d"
  shows "paced m (snd (throttle g k d))"
proof -
  have pos: "0 < gw_interval g" using assms by simp
  define now where "now = dk_clock d + wait_time g k d"
  have d: "spaced_at (snd (throttle g k d)) = spaced_at d @ [now]" "dk_last_call (snd (throttle g k d)) = Some now"
      "now \<le> dk_clock (snd (throttle g k d))"
    using assms(1) pos by (simp_all add: now_def) (simp_all add: throttle_eq space_call honest_time_def)
  have "\<forall>t \<in> set (spaced_at d). t + m \<le> now"
  proof (cases "dk_last_call d")
    case (Some since)
    then show ?thesis
      using assms wait_time_bounds [OF assms(1) Some, of g] by (fastforce simp: paced_def now_def)
  qed (use assms in \<open>simp add: paced_def\<close>)
  then show ?thesis
    using assms(2,4) d by (fastforce simp: paced_def sorted_wrt_append)
qed

interpretation pacing: gateway_io k "\<lambda>_. True"
    "\<lambda>s t. honest_time k \<and> 0 < m \<and> m \<le> gw_interval g \<and> paced m s \<longrightarrow> paced m t" g
  for k g m
  by unfold_locales (auto elim!: paced_later simp: honest_timeD paced_throttle)

lemma performed_paced:
  "honest_time k \<Longrightarrow> 0 < m \<Longrightarrow> m \<le> gw_interval g \<Longrightarrow> paced m d \<Longrightarrow> paced m (snd (perform g k c d))"
  by (cases c) (simp_all add: pacing.order_kept pacing.report_kept pacing.balance_kept pacing.price_kept
      pacing.closes_kept pacing.trading_day_kept)

text \<open>Every call but the price history's is stamped once.\<close>

interpretation unstamped: request_io k "\<lambda>_. True" "\<lambda>s t. spaced_at t = spaced_at s" for k
  by unfold_locales simp_all

lemma stamped_once:
  assumes "0 < gw_interval g" and "\<And>t. spaced_at (snd (f () t)) = spaced_at t"
  shows "length (spaced_at (snd (io_then (throttle g k) f s))) = Suc (length (spaced_at s))"
  using assms by (simp add: io_then_ok)

interpretation longer: gateway_io k "\<lambda>_. True" "\<lambda>s t. length (spaced_at s) \<le> length (spaced_at t)" g for k g
  by unfold_locales (auto simp: throttle_eq, simp add: spaced_at_def space_call)

lemma performed_stamps:
  assumes "0 < gw_interval g"
  shows "length (spaced_at d) + (case c of Closes s start until adjusted \<Rightarrow> 0 | _ \<Rightarrow> 1)
    \<le> length (spaced_at (snd (perform g k c d)))"
proof -
  note io = unstamped.io_intros
  have "length (spaced_at (snd (place_market_order g k x q d))) = Suc (length (spaced_at d))" for x q
    unfolding place_market_order_def
    by (rule stamped_once [OF assms]) (auto simp: Let_def intro!: io unstamped.slept)
  moreover have "length (spaced_at (snd (get_order_report g k no d))) = Suc (length (spaced_at d))" for no
    unfolding get_order_report_def by (rule stamped_once [OF assms]) (auto simp: Let_def intro!: io)
  moreover have "length (spaced_at (snd (get_balance g k d))) = Suc (length (spaced_at d))"
    unfolding get_balance_def by (rule stamped_once [OF assms]) (auto simp: Let_def intro!: io)
  moreover have "length (spaced_at (snd (get_price g k x d))) = Suc (length (spaced_at d))" for x
    unfolding get_price_def by (rule stamped_once [OF assms]) (auto simp: Let_def intro!: io)
  moreover have "length (spaced_at (snd (get_trading_day g k x d))) = Suc (length (spaced_at d))" for x
    unfolding get_trading_day_def by (rule stamped_once [OF assms]) (auto simp: Let_def intro!: io)
  moreover have "length (spaced_at d) \<le> length (spaced_at (snd (get_daily_closes g k x start until adjusted d)))" for x start until adjusted
    by (rule longer.closes_kept) simp
  ultimately show ?thesis by (cases c) simp_all
qed

lemma run_calls_paced:
  assumes "honest_time k" and "0 < m" and "\<forall>(g, c) \<in> set calls. m \<le> gw_interval g" and "paced m d"
  shows "paced m (run_calls k calls d)"
  using assms by (induction k calls d rule: run_calls.induct) (simp_all add: performed_paced)

definition stamped_call :: "kis_gateway \<times> client_call \<Rightarrow> bool" where
  "stamped_call gc = (case snd gc of Closes s start until adjusted \<Rightarrow> False | _ \<Rightarrow> True)"

lemma run_calls_stamps:
  assumes "\<forall>(g, c) \<in> set calls. 0 < gw_interval g"
  shows "length (spaced_at d) + length (filter stamped_call calls) \<le> length (spaced_at (run_calls k calls d))"
  using assms
proof (induction k calls d rule: run_calls.induct)
  case (2 k g c calls d)
  then have "length (spaced_at (snd (perform g k c d))) + length (filter stamped_call calls)
      \<le> length (spaced_at (run_calls k ((g, c) # calls) d))"
    by simp
  moreover have "length (spaced_at d) + (if stamped_call (g, c) then 1 else 0) \<le> length (spaced_at (snd (perform g k c d)))"
    using performed_stamps [of g d c k] 2 by (cases c) (simp_all add: stamped_call_def)
  ultimately show ?case by (cases "stamped_call (g, c)") simp_all
qed simp

text \<open>
  C30. However many gateways share the process and in whatever order they call: the stamps of the
  calls are at least the smallest of their intervals apart, each from every earlier one, and every
  call but a price history (which stamps each of its pages) has a stamp of its own.
\<close>

theorem calls_are_stamped_apart:
  assumes "honest_time k" and "0 < m" and "\<forall>(g, c) \<in> set calls. m \<le> gw_interval g"
    and "dk_trace d = []" and "dk_last_call d = None"
  shows "sorted_wrt (\<lambda>a b. a + m \<le> b) (spaced_at (run_calls k calls d)) \<and>
    length (filter stamped_call calls) \<le> length (spaced_at (run_calls k calls d))"
proof
  have none: "spaced_at d = []" using assms(4) by (simp add: spaced_at_def)
  with assms(5) have "paced m d" by (simp add: paced_def)
  then have "paced m (run_calls k calls d)" by (rule run_calls_paced [OF assms(1-3)])
  then show "sorted_wrt (\<lambda>a b. a + m \<le> b) (spaced_at (run_calls k calls d))"
    by (simp only: paced_def)
  have "\<forall>(g, c) \<in> set calls. 0 < gw_interval g" using assms(2,3) by fastforce
  then show "length (filter stamped_call calls) \<le> length (spaced_at (run_calls k calls d))"
    using run_calls_stamps [of calls d k] none by simp
qed

text \<open>An SDK that answers at once, whose own throttle takes half a second on the paper server.\<close>

definition paper_gateway :: kis_gateway where
  "paper_gateway = init_gateway ''demo'' ''50000000'' ''01'' 1 (7 / 10)"

definition quick_kit :: "unit kit" where
  "quick_kit = \<lparr>k_frame = (\<lambda>e args v. (Inr None, 0, v)), k_response = (\<lambda>e args v. (Inr (Single None), 0, v)),
     k_smart_sleep = (\<lambda>v. (1 / 2, v)), k_sleep = (\<lambda>d v. (d, v)), k_today = (\<lambda>v. ''20240102'')\<rparr>"

definition fresh_desk :: "'v \<Rightarrow> 'v desk" where
  "fresh_desk v = \<lparr>dk_venue = v, dk_clock = 0, dk_last_call = None, dk_trace = []\<rparr>"

lemma honest_quick_kit: "honest_time quick_kit"
  by (simp add: honest_time_def quick_kit_def)

theorem calls_are_stamped_apart_witness:
  "sorted_wrt (\<lambda>a b. a + 7 / 10 \<le> b) (spaced_at (run_calls quick_kit
      [(paper_gateway, Balance), (paper_gateway, Price ''EQ:005930''), (paper_gateway, Report ''17'')] (fresh_desk ()))) \<and>
   3 \<le> length (spaced_at (run_calls quick_kit
      [(paper_gateway, Balance), (paper_gateway, Price ''EQ:005930''), (paper_gateway, Report ''17'')] (fresh_desk ())))"
  using calls_are_stamped_apart [OF honest_quick_kit, of "7 / 10"
      "[(paper_gateway, Balance), (paper_gateway, Price ''EQ:005930''), (paper_gateway, Report ''17'')]" "fresh_desk ()"]
  by (simp add: paper_gateway_def init_gateway_def fresh_desk_def stamped_call_def)

text \<open>
  The stamps are apart; the requests need not be. The stamp of an order is taken before its
  settling pause, so the call after the order is not held back at all, and the repetitions of a
  query are not stamped: on the paper server, whose interval is 0.7 seconds, a fill enquiry can
  follow the order, and the second attempt of a query the first, by half a second.
\<close>

definition asked_at :: "'v desk \<Rightarrow> rat list" where
  "asked_at d = map fst (filter (\<lambda>(t, ev). ev \<noteq> Spaced) (dk_trace d))"

theorem requests_can_be_closer_than_the_interval:
  "asked_at (run_calls quick_kit [(paper_gateway, Place ''EQ:005930'' 1), (paper_gateway, Report ''17'')]
      (fresh_desk ())) = [3 / 2, 2]"
  "asked_at (run_calls quick_kit [(paper_gateway, Price ''EQ:005930'')] (fresh_desk ())) = [1 / 2, 1, 2]"
  "gw_interval paper_gateway = 7 / 10"
proof -
  have symbol: "to_venue_symbol ''EQ:005930'' = Inr ''005930''" by code_simp
  note defs = asked_at_def perform.simps place_market_order_def get_order_report_def get_price_def throttle_def
    space_call_def io_then_def lapse_def ask_def frame_query_def call_with_retry_def quick_kit_def fresh_desk_def
    paper_gateway_def init_gateway_def symbol Let_def upt_rec rows_of_def frame_is_empty_def part_def
  show "asked_at (run_calls quick_kit [(paper_gateway, Place ''EQ:005930'' 1), (paper_gateway, Report ''17'')]
      (fresh_desk ())) = [3 / 2, 2]"
    by (simp add: defs)
  show "asked_at (run_calls quick_kit [(paper_gateway, Price ''EQ:005930'')] (fresh_desk ())) = [1 / 2, 1, 2]"
    by (simp add: defs)
  show "gw_interval paper_gateway = 7 / 10" by (simp add: defs)
qed

section \<open>Retries\<close>

definition retry_times :: "rat list \<Rightarrow> bool" where
  "retry_times ts \<longleftrightarrow> ts \<noteq> [] \<and> length ts \<le> 3 \<and>
     (\<forall>i. Suc i < length ts \<longrightarrow> ts ! i + of_nat (Suc i) / 2 \<le> ts ! Suc i)"

text \<open>
  A query is put at most three times, and fewer only if the answer before had rows or raised;
  between one attempt and the next lie at least the growing waits of half a second and a second.
\<close>

theorem queries_are_put_at_most_three_times:
  assumes "honest_time k"
  shows "\<exists>ts. dk_trace (snd (frame_query k e args d)) = dk_trace d @ map (\<lambda>t. (t, Asked e args)) ts \<and>
    retry_times ts \<and>
    (length ts = 3 \<or> (case fst (frame_query k e args d) of Inl _ \<Rightarrow> True | Inr f \<Rightarrow> \<not> frame_is_empty f))"
proof -
  let ?ask = "ask (k_frame k) e args"
  let ?pause = "\<lambda>x. lapse (k_sleep k x)"
  obtain r1 d1 where 1: "?ask d = (r1, d1)" by fastforce
  define p1 where "p1 = snd (?pause (1 / 2) d1)"
  obtain r2 d2 where 2: "?ask p1 = (r2, d2)" by fastforce
  define p2 where "p2 = snd (?pause 1 d2)"
  obtain r3 d3 where 3: "?ask p2 = (r3, d3)" by fastforce
  have pauses: "?pause (1 / 2) d1 = (Inr (), p1)" "?pause 1 d2 = (Inr (), p2)"
    by (simp_all add: p1_def p2_def prod_eq_iff)
  have traces: "dk_trace d1 = dk_trace d @ [(dk_clock d, Asked e args)]" "dk_trace p1 = dk_trace d1"
      "dk_trace d2 = dk_trace p1 @ [(dk_clock p1, Asked e args)]" "dk_trace p2 = dk_trace d2"
      "dk_trace d3 = dk_trace p2 @ [(dk_clock p2, Asked e args)]"
    using ask_run(1) [OF 1] ask_run(1) [OF 2] ask_run(1) [OF 3] by (simp_all add: p1_def p2_def)
  have "dk_clock d \<le> dk_clock d1" "dk_clock p1 \<le> dk_clock d2"
    using ask_run(2) [OF 1] ask_run(2) [OF 2] honest_timeD(4) [OF assms] by simp_all
  moreover have "dk_clock d1 + 1 / 2 \<le> dk_clock p1" "dk_clock d2 + 1 \<le> dk_clock p2"
    using honest_timeD(1) [OF assms, of "1 / 2" "dk_venue d1"] honest_timeD(1) [OF assms, of 1 "dk_venue d2"]
    by (simp_all add: p1_def p2_def)
  ultimately have clocks: "dk_clock d + 1 / 2 \<le> dk_clock p1" "dk_clock p1 + 1 \<le> dk_clock p2" by simp_all
  note run = frame_query_def call_with_retry_def upt_rec io_then_def 1 2 3 pauses
  show ?thesis
  proof (cases "\<exists>f1. r1 = Inr f1 \<and> frame_is_empty f1")
    case False
    then show ?thesis
      by (intro exI [of _ "[dk_clock d]"]) (cases r1; auto simp: run traces retry_times_def)
  next
    case one: True
    show ?thesis
    proof (cases "\<exists>f2. r2 = Inr f2 \<and> frame_is_empty f2")
      case False
      with one show ?thesis
        by (intro exI [of _ "[dk_clock d, dk_clock p1]"]) (cases r2; auto simp: run traces retry_times_def clocks)
    next
      case True
      with one show ?thesis
        by (intro exI [of _ "[dk_clock d, dk_clock p1, dk_clock p2]"])
          (cases r3; auto simp: run traces retry_times_def clocks less_Suc_eq)
    qed
  qed
qed

theorem queries_are_put_at_most_three_times_witness:
  "\<exists>ts. dk_trace (snd (frame_query quick_kit Inquire_price [] (fresh_desk ()))) =
      map (\<lambda>t. (t, Asked Inquire_price [])) ts \<and> retry_times ts"
  using queries_are_put_at_most_three_times [OF honest_quick_kit, of Inquire_price "[]" "fresh_desk ()"]
  by (auto simp: fresh_desk_def)

section \<open>The server\<close>

text \<open>
  Real money takes the word: a gateway is in real mode exactly when the caller named the real
  server, it declares the mode that server's name stands for, and it waits between calls and
  before orders; an unknown name is refused before anything is touched. Once connected, a call of
  the SDK that names no limit of its own is bounded, unless the module exposes nothing to bound.
\<close>

theorem real_money_is_named:
  "case connect h svr ota_home p of
     (Inr g, q) \<Rightarrow> mode_for svr = Inr (gw_mode g) \<and> (gw_mode g = ''real'' \<longleftrightarrow> svr = ''prod'') \<and>
       0 < gw_settle g \<and> 0 < gw_interval g \<and>
       (pr_http p \<noteq> No_requests \<longrightarrow> call_timeout (pr_http q) None \<noteq> None)
   | (Inl e, q) \<Rightarrow> svr \<notin> {''vps'', ''prod''} \<longrightarrow> e = ValueError \<and> q = p"
  by (auto simp: connect_def env_dv_for_def mode_for_def init_gateway_def settle_seconds_for_def
      min_call_interval_for_def impose_http_timeout_def call_timeout_def Let_def
      split: prod.splits sum.splits http_module.splits if_splits)

theorem real_money_is_named_witness:
  "\<exists>g q. connect \<lparr>is_dir = (\<lambda>_. True), abspath = (\<lambda>s. s), ota_home_variable = None,
        sdk_auth = (\<lambda>svr m. Inr (''50000000'', ''01''))\<rparr> ''vps'' None \<lparr>pr_path = [], pr_http = Plain_requests\<rparr> = (Inr g, q) \<and>
     gw_mode g = ''paper'' \<and> call_timeout (pr_http q) None \<noteq> None"
proof -
  let ?h = "\<lparr>is_dir = (\<lambda>_. True), abspath = (\<lambda>s. s), ota_home_variable = None,
        sdk_auth = (\<lambda>svr m. Inr (''50000000'', ''01''))\<rparr> :: host"
  let ?p = "\<lparr>pr_path = [], pr_http = Plain_requests\<rparr>"
  have "\<exists>g q. connect ?h ''vps'' None ?p = (Inr g, q)"
    by (simp add: connect_def env_dv_for_def add_ota_to_path_def ota_path_candidates_def Let_def split: prod.splits)
  then obtain g q where run: "connect ?h ''vps'' None ?p = (Inr g, q)" by blast
  with real_money_is_named [where h = ?h and svr = "''vps''" and ota_home = None and p = ?p] show ?thesis by (simp add: mode_for_def)
qed

text \<open>
  Each directory of the clone goes to the front of the import path as it is found, so the one
  listed last is searched first: with all three present, the tree of single-API modules comes
  before the aggregate tree, and a module both trees ship is taken from the former.
\<close>

theorem last_candidate_is_searched_first:
  assumes "abspath h (first_given [ota_home, ota_home_variable h] ''../open-trading-api'') = home"
    and "is_dir h home" and "\<forall>c \<in> set ota_path_candidates. is_dir h (path_join home c) \<and> path_join home c \<notin> set path"
  shows "add_ota_to_path h ota_home path =
    (Inr home, path_join home ''examples_llm'' # path_join home (path_join ''examples_user'' ''domestic_stock'') #
      path_join home ''examples_user'' # path)"
proof -
  have join: "path_join home c = (if home = [] \<or> last home = CHR ''/'' then home @ c else home @ ''/'' @ c)"
    if "take 1 c \<noteq> ''/''" for c
    using that by (simp add: path_join_def)
  have "path_join home c \<noteq> path_join home c'"
    if "c \<noteq> c'" "take 1 c \<noteq> ''/''" "take 1 c' \<noteq> ''/''" for c c'
    using that by (simp add: join)
  then have "distinct (map (path_join home) ota_path_candidates)"
    by (simp add: ota_path_candidates_def path_join_def [of "''examples_user''"])
  with assms show ?thesis
    by (simp add: add_ota_to_path_def ota_path_candidates_def Let_def eq_commute)
qed

theorem last_candidate_is_searched_first_witness:
  "add_ota_to_path \<lparr>is_dir = (\<lambda>_. True), abspath = (\<lambda>s. s), ota_home_variable = Some ''/sdk'',
      sdk_auth = (\<lambda>svr m. Inl (VenueFailure []))\<rparr> None [''/usr/lib''] =
    (Inr ''/sdk'', [''/sdk/examples_llm'', ''/sdk/examples_user/domestic_stock'', ''/sdk/examples_user'', ''/usr/lib''])"
proof -
  let ?h = "\<lparr>is_dir = (\<lambda>_. True), abspath = (\<lambda>s. s), ota_home_variable = Some ''/sdk'',
      sdk_auth = (\<lambda>svr m. Inl (VenueFailure []))\<rparr> :: host"
  show ?thesis
    using last_candidate_is_searched_first [where h = ?h and ota_home = None and home = "''/sdk''" and path = "[''/usr/lib'']"]
    by (simp add: ota_path_candidates_def path_join_def)
qed

end
