(* ===== verification/Kis_Charts.thy ===== *)
theory Kis_Charts
  imports Kis_Gateway
begin

text \<open>
  What the paging of the price history (\<^verbatim>\<open>KisGateway.get_daily_closes\<close>) amounts to, against a venue
  with a history of its own that answers each enquiry with the newest hundred bars of the window
  asked for: the newest thousand bars of the range; and what it amounts to when a page carries a
  row the parser drops.
\<close>

section \<open>Sorted histories\<close>

type_synonym bars = "(string \<times> pfloat) list"

definition newest :: "nat \<Rightarrow> 'a list \<Rightarrow> 'a list" where
  "newest n xs = drop (length xs - n) xs"

definition in_window :: "string \<Rightarrow> string \<Rightarrow> bars \<Rightarrow> bars" where
  "in_window lo hi bars = filter (\<lambda>(d, c). lo \<le> d \<and> d \<le> hi) bars"

lemma sorted_keys_filter:
  assumes "sorted_wrt (<) (map fst xs)" and "i < length xs"
  shows "filter (\<lambda>(d, c). d < fst (xs ! i)) xs = take i (xs :: ('k :: linorder \<times> 'v) list)"
proof -
  have split: "xs = take i xs @ xs ! i # drop (Suc i) xs" using assms(2) by (simp add: id_take_nth_drop)
  have "sorted_wrt (<) (map fst (take i xs @ xs ! i # drop (Suc i) xs))" using assms(1) split by simp
  then have below: "\<forall>p \<in> set (take i xs). fst p < fst (xs ! i)" and above: "\<forall>p \<in> set (drop (Suc i) xs). fst (xs ! i) < fst p"
    by (auto simp: sorted_wrt_append)
  have "filter (\<lambda>(d, c). d < fst (xs ! i)) (take i xs) = take i xs"
    using below by (auto simp: filter_id_conv)
  moreover have "filter (\<lambda>(d, c). d < fst (xs ! i)) (drop (Suc i) xs) = []"
    using above by (fastforce simp: filter_empty_conv)
  moreover have "filter P xs = filter P (take i xs @ xs ! i # drop (Suc i) xs)" for P
    using split by (rule arg_cong)
  ultimately show ?thesis by (simp only: filter_append) (simp add: case_prod_unfold)
qed

lemma distinct_sorted_keys: "sorted_wrt (<) (map fst xs) \<Longrightarrow> distinct (map fst (xs :: ('k :: linorder \<times> 'v) list))"
  by (simp add: strict_sorted_iff)

text \<open>A dictionary read back in the order of its keys.\<close>

lemma sorted_readback:
  assumes "wf_dict c" and "map_of c = map_of xs" and "sorted_wrt (<) (map fst xs)"
  shows "map (\<lambda>d. (d, the (map_of c d))) (sort (dict_keys c)) = (xs :: ('k :: linorder \<times> 'v) list)"
proof -
  have "set (dict_keys c) = set (map fst xs)"
    using assms(2) by (metis dom_map_of_conv_image_fst set_map)
  moreover have "distinct (dict_keys c)" using assms(1) by (simp add: wf_dict_def)
  ultimately have keys: "sort (dict_keys c) = map fst xs"
    using assms(3) by (intro sorted_distinct_set_unique) (simp_all add: strict_sorted_iff)
  have "the (map_of xs (fst p)) = snd p" if "p \<in> set xs" for p
    using map_of_is_SomeI [OF distinct_sorted_keys [OF assms(3)], of "fst p" "snd p"] that by simp
  then show ?thesis
    by (simp add: keys assms(2) comp_def map_idI)
qed

lemma dict_update_Nil: "distinct (map fst xs) \<Longrightarrow> map_of (dict_update [] xs) = map_of xs"
  by (rule ext) (simp add: map_of_dict_update split: option.splits)

lemma parse_sorted_rows:
  assumes "None \<notin> set rows" and "sorted_wrt (<) (map fst (usable_closes rows))"
  shows "parse_daily_closes (Some rows) = Inr (usable_closes rows)"
  using assms sorted_readback [OF wf_dict_dict_update [OF wf_dict_Nil, of "usable_closes rows"] dict_update_Nil]
  by (simp add: parse_daily_closes_def rows_or_none_def collect_closes_eq distinct_sorted_keys)

section \<open>The venue's side\<close>

text \<open>A history: strictly by date, on dates of four-digit years past 1000.\<close>

definition chart_history :: "bars \<Rightarrow> bool" where
  "chart_history bars \<longleftrightarrow> sorted_wrt (<) (map fst bars) \<and>
     (\<forall>(d, c) \<in> set bars. \<exists>x. chart_date x \<and> 1000 < fst x \<and> d = strftime x)"

text \<open>
  The venue answers every enquiry, within the attempts a query has, with the newest hundred bars
  of the window.
\<close>

definition answers_charts :: "kis_gateway \<Rightarrow> 'v kit \<Rightarrow> string \<Rightarrow> string \<Rightarrow> bool \<Rightarrow> bars \<Rightarrow> bool" where
  "answers_charts g k pdno start adjusted bars \<longleftrightarrow>
    (\<forall>cursor d. \<exists>r f. fst (response_query k Inquire_daily_itemchartprice
        (chart_args g pdno start cursor adjusted) d) = Inr r \<and>
      part 1 r = Inr f \<and> parse_daily_closes (Some (rows_of f)) = Inr (newest 100 (in_window start cursor bars)))"

lemma chart_page_answer:
  assumes "\<exists>r f. fst (response_query k Inquire_daily_itemchartprice
        (chart_args g pdno start cursor adjusted) (snd (throttle g k d))) = Inr r \<and>
      part 1 r = Inr f \<and> parse_daily_closes (Some (rows_of f)) = Inr page"
  shows "fst (chart_page g k pdno start adjusted cursor d) = Inr page"
  using assms by (auto simp: chart_page_def io_then_ok)

text \<open>The window below a full page is cut off by the day before its first bar.\<close>

declare chart_date.simps [simp del] strftime.simps [simp del] date_key.simps [simp del]

lemma chart_history_date:
  "chart_history bars \<Longrightarrow> (d, c) \<in> set bars \<Longrightarrow> \<exists>x. chart_date x \<and> 1000 < fst x \<and> d = strftime x"
  unfolding chart_history_def by blast

lemma next_window:
  assumes bars: "chart_history bars" and i: "i < length (in_window start cursor bars)"
    and x: "fst (in_window start cursor bars ! i) = strftime x" "chart_date x" "1000 < fst x"
    and b: "day_before x = Inr b"
  shows "in_window start (strftime b) bars = take i (in_window start cursor bars)"
proof -
  let ?W = "in_window start cursor bars"
  have real: "real_date x" using x(2) by (cases x) (simp add: chart_date.simps)
  then have "chart_date b"
    using day_before_real(1) [OF real b] x(3) b by (cases x; cases b) (auto simp: chart_date.simps split: if_splits)
  have cut: "d \<le> strftime b \<longleftrightarrow> d < strftime x" if "(d, c) \<in> set bars" for d c
  proof -
    obtain y where y: "chart_date y" "d = strftime y" using chart_history_date [OF bars \<open>(d, c) \<in> set bars\<close>] by blast
    then have "real_date y" by (cases y) (simp add: chart_date.simps)
    then have "date_key y < date_key x \<longleftrightarrow> date_key y \<le> date_key b"
      by (rule day_before_real(2) [OF real b])
    then show ?thesis
      using strftime_less [OF y(1) x(2)] strftime_less [OF \<open>chart_date b\<close> y(1)] y(2) by (metis leD leI)
  qed
  have "\<forall>p \<in> set ?W. fst p \<le> cursor" by (auto simp: in_window_def)
  then have "strftime x \<le> cursor" using nth_mem [OF i] x(1) by metis
  then have "in_window start (strftime b) bars = filter (\<lambda>(d, c). d < strftime x) ?W"
    using cut by (auto simp: in_window_def intro!: filter_cong)
  also have "\<dots> = take i ?W"
    using sorted_keys_filter [OF _ i] bars x(1)
    by (simp add: in_window_def chart_history_def sorted_wrt_map sorted_wrt_filter)
  finally show ?thesis .
qed

section \<open>The pages\<close>

lemma newest_take: "m \<le> length xs \<Longrightarrow> newest n (take m xs) = drop (m - n) (take m xs)"
  by (simp add: newest_def min_def)

lemma window_sorted: "chart_history bars \<Longrightarrow> sorted_wrt (<) (map fst (in_window lo hi bars))"
  by (simp add: chart_history_def in_window_def sorted_wrt_map sorted_wrt_filter)

lemma chart_pages_newest:
  fixes bars :: bars and start until :: string
  defines "W \<equiv> in_window start until bars"
  assumes bars: "chart_history bars" and answers: "answers_charts g k pdno start adjusted bars"
    and m: "in_window start cursor bars = take m W" "m \<le> length W"
    and collected: "wf_dict collected" "map_of collected = map_of (drop m W)"
  shows "\<exists>c. fst (chart_pages g k pdno start adjusted pages cursor collected d) = Inr c \<and> wf_dict c \<and>
    map_of c = map_of (drop (m - chart_page_size * pages) W)"
  using m collected
proof (induction pages arbitrary: cursor m collected d)
  case 0
  then show ?case by simp
next
  case (Suc pages)
  define page where "page = drop (m - 100) (take m W)"
  have page: "fst (chart_page g k pdno start adjusted cursor d) = Inr page"
    using answers Suc.prems unfolding answers_charts_def page_def
    by (intro chart_page_answer) (metis newest_take)
  have len: "length page = min m 100" using Suc.prems by (simp add: page_def)
  show ?case
  proof (cases "cursor < start")
    case True
    then have "in_window start cursor bars = []" by (fastforce simp: in_window_def filter_empty_conv)
    then have "m = 0" using Suc.prems by auto
    with True Suc.prems show ?thesis by simp
  next
    case started: False
    have sorted: "sorted_wrt (<) (map fst page)"
      using window_sorted [OF bars] unfolding page_def W_def
      by (simp add: drop_map [symmetric] take_map [symmetric] sorted_wrt_drop sorted_wrt_take)
    define now where "now = dict_update collected page"
    have "drop (m - 100) (take m W @ drop m W) = page @ drop m W"
      using Suc.prems(2) by (simp add: page_def del: append_take_drop_id)
    then have "drop (m - 100) W = page @ drop m W" by simp
    moreover have same: "map_of collected = map_of (drop m W)" using Suc.prems by blast
    have "map_of now e = (map_of (drop m W) ++ map_of page) e" for e
      by (cases "map_of page e") (simp_all add: now_def map_of_dict_update [OF distinct_sorted_keys [OF sorted]] same map_add_def)
    ultimately have now: "wf_dict now" "map_of now = map_of (drop (m - 100) W)"
      using Suc.prems by (simp_all add: now_def wf_dict_dict_update fun_eq_iff)
    show ?thesis
    proof (cases "m < 100")
      case True
      with started page now len Suc.prems show ?thesis
        by (auto simp: io_then_ok Let_def chart_page_size_def simp flip: now_def)
    next
      case False
      define first where "first = W ! (m - 100)"
      have first: "hd page = first" "m - 100 < length W" "first \<in> set W"
        using False Suc.prems len by (simp_all add: page_def first_def hd_drop_conv_nth)
      then obtain x where x: "fst first = strftime x" "chart_date x" "1000 < fst x"
        using chart_history_date [OF bars, of "fst first" "snd first"] by (auto simp: W_def in_window_def)
      then obtain b where b: "day_before x = Inr b"
        using day_before_real(3) [of x] by (cases "day_before x"; cases x) (auto simp: chart_date.simps)
      have "in_window start (strftime b) bars = take (m - 100) (in_window start cursor bars)"
        using False Suc.prems first x b by (intro next_window [OF bars]) (simp_all add: first_def)
      then have "in_window start (strftime b) bars = take (m - 100) W" using Suc.prems by simp
      then have ih: "\<exists>c. fst (chart_pages g k pdno start adjusted pages (strftime b) now e) = Inr c \<and> wf_dict c \<and>
          map_of c = map_of (drop (m - 100 - chart_page_size * pages) W)" for e
        using now Suc.prems by (intro Suc.IH) simp_all
      have "chart_pages g k pdno start adjusted (Suc pages) cursor collected d =
          chart_pages g k pdno start adjusted pages (strftime b) now (snd (chart_page g k pdno start adjusted cursor d))"
        using started len False first x b strptime_strftime [OF x(2)]
        by (auto simp: io_then_ok [where m = "chart_page g k pdno start adjusted cursor", OF page]
            chart_page_size_def simp flip: now_def)
      with ih show ?thesis by (simp add: chart_page_size_def)
    qed
  qed
qed

lemma closes_read_back:
  assumes "to_venue_symbol s = Inr pdno"
    and "fst (chart_pages g k pdno start adjusted max_chart_pages until [] d) = Inr c"
    and "wf_dict c" and "map_of c = map_of xs" and "sorted_wrt (<) (map fst xs)"
    and "\<forall>(date, v) \<in> set xs. start \<le> date \<and> date \<le> until"
  shows "fst (get_daily_closes g k s start until adjusted d) = Inr xs"
proof -
  have "set (dict_keys c) = set (map fst xs)"
    using assms(4) by (metis dom_map_of_conv_image_fst set_map)
  then have "filter (\<lambda>date. start \<le> date \<and> date \<le> until) (sort (dict_keys c)) = sort (dict_keys c)"
    using assms(6) by (fastforce simp: filter_id_conv)
  then show ?thesis
    using sorted_readback [OF assms(3-5)] by (simp add: get_daily_closes_def assms(1) io_then_ok [where m = "chart_pages g k pdno start adjusted max_chart_pages until []", OF assms(2)])
qed

text \<open>
  C29. Against a venue that answers each enquiry with the newest hundred bars of the window, the ten
  pages make one range: the gateway returns exactly the newest thousand bars between the two dates,
  each once, oldest first, and so the whole range where it has no more than a thousand.
\<close>

theorem price_history_is_the_newest_thousand:
  assumes "to_venue_symbol s = Inr pdno" and "chart_history bars"
    and "answers_charts g k pdno start adjusted bars"
  shows "fst (get_daily_closes g k s start until adjusted d) = Inr (newest 1000 (in_window start until bars))"
proof -
  let ?W = "in_window start until bars"
  obtain c where c: "fst (chart_pages g k pdno start adjusted max_chart_pages until [] d) = Inr c" "wf_dict c"
      "map_of c = map_of (drop (length ?W - chart_page_size * max_chart_pages) ?W)"
    using chart_pages_newest [OF assms(2,3), where cursor = until and until = until and m = "length ?W" and collected = "[]"
        and pages = max_chart_pages and d = d] by auto
  then have "map_of c = map_of (newest 1000 ?W)"
    by (simp add: newest_def chart_page_size_def max_chart_pages_def)
  moreover have "sorted_wrt (<) (map fst (newest 1000 ?W))"
    using window_sorted [OF assms(2)] by (simp add: newest_def drop_map [symmetric] sorted_wrt_drop)
  moreover have "\<forall>(date, v) \<in> set (newest 1000 ?W). start \<le> date \<and> date \<le> until"
    by (auto simp: newest_def in_window_def dest!: in_set_dropD)
  ultimately show ?thesis by (intro closes_read_back [OF assms(1) c(1,2)])
qed

text \<open>
  A venue with two hundred and fifty bars, the first on the second of January 1900 and one in every
  year after, that leaves every other call unanswered.
\<close>

definition yearly_date :: "nat \<Rightarrow> string" where
  "yearly_date i = strftime (1900 + i, 1, 2)"

definition yearly_bars :: bars where
  "yearly_bars = map (\<lambda>i. (yearly_date i, Finite 5)) [0..<250]"

definition chart_rows :: "bars \<Rightarrow> kis_row list" where
  "chart_rows bars = map (\<lambda>(d, c). demo_close d ''5'') bars"

definition kwarg :: "kwargs \<Rightarrow> string \<Rightarrow> string" where
  "kwarg args name = (case map_of args name of None \<Rightarrow> [] | Some v \<Rightarrow> v)"

definition moody_kit :: "bool kit" where
  "moody_kit = \<lparr>k_frame = (\<lambda>e args v. (Inr None, 0, v)),
     k_response = (\<lambda>e args v. (if v then (Inr (Single None), 0, False)
       else (Inr (Several [Some [Some []], Some (chart_rows (newest 100
         (in_window (kwarg args ''fid_input_date_1'') (kwarg args ''fid_input_date_2'') yearly_bars)))]), 0, True))),
     k_smart_sleep = (\<lambda>v. (0, v)), k_sleep = (\<lambda>d v. (d, v)), k_today = (\<lambda>v. ''20240102'')\<rparr>"

declare upt_rec_numeral [simp del]

lemma yearly_bars_member: "(d, v) \<in> set yearly_bars \<longleftrightarrow> (\<exists>i < 250. d = yearly_date i \<and> v = Finite 5)"
  by (auto simp: yearly_bars_def image_iff)

lemma yearly_chart_date: "i < 250 \<Longrightarrow> chart_date (1900 + i, 1, 2)"
  by (simp add: chart_date.simps days_in_month_def)

lemma yearly_date_less: "i < j \<Longrightarrow> j < 250 \<Longrightarrow> yearly_date i < yearly_date j"
  using strftime_less [OF yearly_chart_date yearly_chart_date, of i j]
  by (simp add: yearly_date_def date_key.simps)

lemma yearly_history: "chart_history yearly_bars"
proof -
  have "sorted_wrt (\<lambda>i j. yearly_date i < yearly_date j) [0..<250]"
    by (rule sorted_wrt_mono_rel [of _ "(<)"]) (auto intro: yearly_date_less)
  moreover have "\<exists>x. chart_date x \<and> 1000 < fst x \<and> yearly_date i = strftime x" if "i < 250" for i
    using yearly_chart_date [OF that] by (intro exI [of _ "(1900 + i, 1, 2)"]) (simp add: yearly_date_def)
  ultimately show ?thesis
    by (auto simp: chart_history_def yearly_bars_def sorted_wrt_map comp_def)
qed

lemma chart_date_text:
  assumes "chart_date x"
  shows "strip (strftime x) = strftime x" and "strftime x \<noteq> []"
proof -
  show ne: "strftime x \<noteq> []" using strftime_digits(1) [OF assms] by auto
  have "is_digit (hd (strftime x))" "is_digit (last (strftime x))"
    using strftime_digits(2) [OF assms] ne by (simp_all add: list_all_iff)
  then show "strip (strftime x) = strftime x"
    by (intro strip_by_idle) (auto dest: digit_plain)
qed

lemma float_of_five: "float_of ''5'' = Some (Finite 5)"
proof -
  have "int_str 5 = ''5''" by (simp add: int_str_def nat_digits.simps char_of_eq_iff)
  then show ?thesis using float_of_int_str [of 5] by simp
qed

lemma usable_demo_close:
  assumes "strip d = d" and "d \<noteq> []"
  shows "usable_close (demo_close d ''5'') = Inr (Some (d, Finite 5))"
proof -
  have "strip ''5'' = ''5''" by code_simp
  with assms float_of_five show ?thesis
    by (simp add: usable_close_def demo_close_def row_get_def str_of_def Let_def parse_float_def parse_number_def
        guarded_get_def without_commas_def not_positive_def)
qed

lemma parse_chart_rows:
  assumes "sorted_wrt (<) (map fst bars)" and "set bars \<subseteq> set yearly_bars"
  shows "parse_daily_closes (Some (chart_rows bars)) = Inr bars"
proof -
  have "usable_close (demo_close d ''5'') = Inr (Some (d, v))" if dv: "(d, v) \<in> set bars" for d v
  proof -
    obtain i where "i < 250" "d = yearly_date i" "v = Finite 5"
      using dv assms(2) yearly_bars_member [of d v] by blast
    then show ?thesis
      using chart_date_text [OF yearly_chart_date] by (simp add: usable_demo_close yearly_date_def)
  qed
  then have "usable_closes (chart_rows bars) = concat (map (\<lambda>b. [b]) bars)"
    unfolding usable_closes_def chart_rows_def map_map by (intro arg_cong [of _ _ concat] map_cong) auto
  then have "usable_closes (chart_rows bars) = bars" by simp
  moreover have "None \<notin> set (chart_rows bars)" by (auto simp: chart_rows_def demo_close_def)
  ultimately show ?thesis using parse_sorted_rows [of "chart_rows bars"] assms(1) by simp
qed

lemma moody_answers: "answers_charts g moody_kit pdno start adjusted yearly_bars"
proof -
  have "\<exists>r f. fst (response_query moody_kit Inquire_daily_itemchartprice (chart_args g pdno start cursor adjusted) d) = Inr r \<and>
      part 1 r = Inr f \<and> parse_daily_closes (Some (rows_of f)) = Inr (newest 100 (in_window start cursor yearly_bars))" for cursor d
  proof -
    let ?P = "newest 100 (in_window start cursor yearly_bars)"
    have "sorted_wrt (<) (map fst ?P)"
      using window_sorted [OF yearly_history] by (simp add: newest_def drop_map [symmetric] sorted_wrt_drop)
    moreover have "set ?P \<subseteq> set yearly_bars"
      by (auto simp: newest_def in_window_def dest!: in_set_dropD)
    ultimately have "parse_daily_closes (Some (chart_rows ?P)) = Inr ?P" by (rule parse_chart_rows)
    moreover have "fst (response_query moody_kit Inquire_daily_itemchartprice (chart_args g pdno start cursor adjusted) d) =
        Inr (Several [Some [Some []], Some (chart_rows ?P)])"
      by (cases "dk_venue d") (simp_all add: response_query_def call_with_retry_def upt_rec io_then_def ask_def lapse_def
          moody_kit_def kwarg_def chart_args_def frame_is_empty_def)
    ultimately show ?thesis by (simp add: part_def rows_of_def)
  qed
  then show ?thesis by (simp add: answers_charts_def)
qed

theorem price_history_is_the_newest_thousand_witness:
  "fst (get_daily_closes paper_gateway moody_kit ''EQ:005930'' (yearly_date 0) (yearly_date 249) True (fresh_desk True)) =
    Inr yearly_bars"
proof -
  have "to_venue_symbol ''EQ:005930'' = Inr ''005930''" by code_simp
  from price_history_is_the_newest_thousand [OF this yearly_history moody_answers]
  have "fst (get_daily_closes paper_gateway moody_kit ''EQ:005930'' (yearly_date 0) (yearly_date 249) True (fresh_desk True)) =
      Inr (newest 1000 (in_window (yearly_date 0) (yearly_date 249) yearly_bars))" .
  moreover have "yearly_date 0 \<le> yearly_date i \<and> yearly_date i \<le> yearly_date 249" if "i < 250" for i
    using that yearly_date_less [of 0 i] yearly_date_less [of i 249] by (cases "i = 0"; cases "i = 249") auto
  then have "in_window (yearly_date 0) (yearly_date 249) yearly_bars = yearly_bars"
    by (auto simp: in_window_def yearly_bars_def filter_id_conv)
  ultimately show ?thesis by (simp add: newest_def yearly_bars_def)
qed

section \<open>A page with a row that is dropped\<close>

lemma length_sorted_closes:
  assumes "None \<notin> set rows" and "parse_daily_closes (Some rows) = Inr page"
  shows "length page \<le> length (usable_closes rows)" and "set (map fst page) \<subseteq> set (map fst (usable_closes rows))"
    and "distinct (map fst page)"
proof -
  let ?m = "dict_update [] (usable_closes rows)"
  have page: "page = map (\<lambda>date. (date, the (map_of ?m date))) (sort (dict_keys ?m))"
    using assms by (simp add: parse_daily_closes_def rows_or_none_def collect_closes_eq)
  have wf: "distinct (dict_keys ?m)" using wf_dict_dict_update [OF wf_dict_Nil] by (simp add: wf_dict_def)
  have "dom (map_of ?m) = dom (map_of (rev (usable_closes rows)))" by (simp add: map_of_dict_update_rev)
  then have keys: "set (dict_keys ?m) = set (map fst (usable_closes rows))"
    by (simp add: dom_map_of_conv_image_fst)
  then have "length (dict_keys ?m) \<le> length (map fst (usable_closes rows))"
    using distinct_card [OF wf] card_length [of "map fst (usable_closes rows)"] by simp
  then show "length page \<le> length (usable_closes rows)" "set (map fst page) \<subseteq> set (map fst (usable_closes rows))"
      "distinct (map fst page)"
    using keys wf by (simp_all add: page comp_def)
qed

lemma usable_closes_fewer:
  "row \<in> set rows \<Longrightarrow> usable_close row = Inr None \<Longrightarrow> length (usable_closes rows) < length rows"
proof (induction rows)
  case (Cons r rows)
  have le: "length (usable_closes xs) \<le> length xs" for xs
    by (induction xs) (auto simp: usable_closes_def split: sum.splits option.splits)
  show ?case
    using Cons le [of rows] by (cases "r = row") (auto simp: usable_closes_def split: sum.splits option.splits)
qed simp

text \<open>
  The paging takes a page shorter than a hundred for the last, and measures it after the parser
  has dropped the rows without a usable close: one such row in the full first page, and the gateway
  returns fewer than a hundred bars, all from that page, however much history lies before it.
\<close>

theorem a_dropped_row_ends_the_history:
  assumes "to_venue_symbol s = Inr pdno" and "start \<le> until"
    and "\<And>d. fst (response_query k Inquire_daily_itemchartprice (chart_args g pdno start until adjusted) d) = Inr r"
    and "part 1 r = Inr (Some rows)" and "length rows = 100" and "None \<notin> set rows"
    and "row \<in> set rows" and "usable_close row = Inr None"
  shows "\<exists>closes. fst (get_daily_closes g k s start until adjusted d) = Inr closes \<and> length closes < 100 \<and>
    set (map fst closes) \<subseteq> set (map fst (usable_closes rows))"
proof -
  obtain page where page: "parse_daily_closes (Some rows) = Inr page"
    by (simp add: parse_daily_closes_def rows_or_none_def collect_closes_eq [OF assms(6)])
  note sorted = length_sorted_closes [OF assms(6) page]
  have short: "length page < 100" using sorted(1) usable_closes_fewer [OF assms(7,8)] assms(5) by simp
  have at: "fst (chart_page g k pdno start adjusted until e) = Inr page" for e
    using assms(3,4) page by (intro chart_page_answer) (simp add: rows_of_def)
  have "fst (chart_pages g k pdno start adjusted (Suc n) until [] d) = Inr (dict_update [] page)" for n
    using assms(2) short
    by (auto simp: io_then_ok [where m = "chart_page g k pdno start adjusted until", OF at] chart_page_size_def Let_def)
  from this [of 9] have asked: "fst (chart_pages g k pdno start adjusted max_chart_pages until [] d) = Inr (dict_update [] page)"
    by (simp add: max_chart_pages_def)
  have "dom (map_of (dict_update [] page)) = dom (map_of page)"
    by (simp add: dict_update_Nil [OF sorted(3)])
  then have keys: "set (dict_keys (dict_update [] page)) = set (map fst page)"
    by (simp add: dom_map_of_conv_image_fst)
  have "distinct (dict_keys (dict_update [] page))"
    using wf_dict_dict_update [OF wf_dict_Nil] by (simp add: wf_dict_def)
  then have "length (dict_update [] page) \<le> length page"
    using distinct_card keys card_length [of "map fst page"] by (metis length_map)
  then have few: "length (filter P (sort (dict_keys (dict_update [] page)))) < 100" for P
    using short by (intro le_less_trans [OF length_filter_le]) simp
  define ds where "ds = filter (\<lambda>date. start \<le> date \<and> date \<le> until) (sort (dict_keys (dict_update [] page)))"
  define close where "close = (\<lambda>date. the (map_of (dict_update [] page) date))"
  have "set ds \<subseteq> set (dict_keys (dict_update [] page))" by (auto simp: ds_def)
  also have "\<dots> = set (map fst page)" by (rule keys)
  finally have "set ds \<subseteq> set (map fst (usable_closes rows))" using sorted(2) by (rule order_trans)
  then have "set (map fst (map (\<lambda>date. (date, close date)) ds)) \<subseteq> set (map fst (usable_closes rows))"
    by (simp add: comp_def)
  moreover have "fst (get_daily_closes g k s start until adjusted d) = Inr (map (\<lambda>date. (date, close date)) ds)"
    by (simp add: get_daily_closes_def assms(1) ds_def close_def
        io_then_ok [where m = "chart_pages g k pdno start adjusted max_chart_pages until []", OF asked])
  moreover have "length (map (\<lambda>date. (date, close date)) ds) < 100" unfolding length_map ds_def by (rule few)
  ultimately show ?thesis by blast
qed

text \<open>The venue of yearly bars, whose last bar is a day without a trade.\<close>

definition halted_rows :: "kis_row list" where
  "halted_rows = demo_close (yearly_date 249) ''0'' # chart_rows (drop 150 (take 249 yearly_bars))"

definition halted_kit :: "unit kit" where
  "halted_kit = quick_kit\<lparr>k_response := \<lambda>e args v. (Inr (Several [Some [Some []], Some halted_rows]), 0, v)\<rparr>"

theorem a_dropped_row_ends_the_history_witness:
  "\<exists>closes. fst (get_daily_closes paper_gateway halted_kit ''EQ:005930'' (yearly_date 0) (yearly_date 249) True (fresh_desk ())) =
     Inr closes \<and> length closes < 100"
proof -
  have symbol: "to_venue_symbol ''EQ:005930'' = Inr ''005930''" by code_simp
  have answer: "fst (response_query halted_kit Inquire_daily_itemchartprice args d) =
      Inr (Several [Some [Some []], Some halted_rows])" for args d
    by (simp add: halted_kit_def quick_kit_def response_query_def call_with_retry_def upt_rec io_then_def ask_def
        frame_is_empty_def)
  have "int_str 0 = ''0''" by (simp add: int_str_def nat_digits.simps char_of_eq_iff)
  then have zero: "float_of ''0'' = Some (Finite 0)" using float_of_int_str [of 0] by simp
  have "strip ''0'' = ''0''" by code_simp
  then have "usable_close (demo_close (yearly_date 249) ''0'') = Inr None"
    using zero chart_date_text [OF yearly_chart_date, of 249]
    by (simp add: usable_close_def demo_close_def row_get_def str_of_def Let_def parse_float_def parse_number_def
        guarded_get_def without_commas_def not_positive_def yearly_date_def)
  moreover have "length halted_rows = 100" by (simp add: halted_rows_def chart_rows_def yearly_bars_def)
  moreover have "None \<notin> set halted_rows" by (auto simp: halted_rows_def chart_rows_def demo_close_def)
  moreover have "yearly_date 0 \<le> yearly_date 249" using yearly_date_less [of 0 249] by simp
  ultimately show ?thesis
    using a_dropped_row_ends_the_history [OF symbol _ answer, where rows = halted_rows
        and row = "demo_close (yearly_date 249) ''0''" and start = "yearly_date 0" and until = "yearly_date 249"
        and d = "fresh_desk ()" and g = paper_gateway and adjusted = True]
    by (auto simp: part_def halted_rows_def)
qed

end
