(* ===== verification/Worker.thy ===== *)
theory Worker
  imports Prelude
begin

text \<open>
  The task worker of the live broker (\<^verbatim>\<open>broker/live/worker.py\<close>): one queue, one thread, a poison pill.
  The queue's own operations and a task are atomic; the thread's moves and the main thread's calls
  interleave in a step relation. The fields \<open>wk_posted\<close>, \<open>wk_ran\<close> and \<open>wk_pill_at\<close> only record what
  happened: the tasks queued and the tasks taken up, in order, and how many had been queued when
  the pill was.
\<close>

section \<open>State and calls\<close>

datatype 't queued = Work 't | Pill

text \<open>
  Where the thread stands: waiting for the queue, in a task, with the pill in hand, past the loop,
  and gone, by its own end or by an exception nothing caught.
\<close>

datatype 't phase = Waiting | Working 't | Pilled | Leaving | Ended | Crashed

definition alive :: "'t phase \<Rightarrow> bool" where
  "alive p \<longleftrightarrow> p \<noteq> Ended \<and> p \<noteq> Crashed"

record 't worker =
  wk_queue :: "'t queued list"
  wk_unfinished :: nat
  wk_stop_called :: bool
  wk_thread :: "'t phase option"
  wk_posted :: "'t list"
  wk_ran :: "'t list"
  wk_pill_at :: nat

definition init_worker :: "'t worker" where
  "init_worker = \<lparr>wk_queue = [], wk_unfinished = 0, wk_stop_called = False, wk_thread = None,
     wk_posted = [], wk_ran = [], wk_pill_at = 0\<rparr>"

text \<open>
  What the worker is given: whether a task carries something callable, what running it raises,
  and the two callbacks, where there are any, with what they raise.
\<close>

record 't hooks =
  hk_callable :: "'t \<Rightarrow> bool"
  hk_run :: "'t \<Rightarrow> exn option"
  hk_on_error :: "(exn \<Rightarrow> exn option) option"
  hk_on_terminate :: "exn option option"

definition put :: "'t queued \<Rightarrow> 't worker \<Rightarrow> 't worker" where
  "put x w = w\<lparr>wk_queue := wk_queue w @ [x], wk_unfinished := wk_unfinished w + 1\<rparr>"

definition post_task :: "'t hooks \<Rightarrow> 't option \<Rightarrow> 't worker \<Rightarrow> 't worker outcome" where
  "post_task h task w = (case task of None \<Rightarrow> raise ValueError w
     | Some t \<Rightarrow> (if \<not> hk_callable h t then raise ValueError w
         else ok (put (Work t) w\<lparr>wk_posted := wk_posted w @ [t]\<rparr>)))"

definition start_worker :: "'t worker \<Rightarrow> 't worker" where
  "start_worker w = (if wk_thread w \<noteq> None then w else w\<lparr>wk_thread := Some Waiting\<rparr>)"

text \<open>
  \<^verbatim>\<open>stop\<close>, in two moves: the request, which returns at once or leaves the caller at the join, and
  what the join finds when it ends.
\<close>

datatype stop_request = Returned bool | Joining

definition request_stop :: "bool \<Rightarrow> 't worker \<Rightarrow> exn + stop_request \<times> 't worker" where
  "request_stop on_the_thread w =
    (if wk_thread w = None then Inr (Returned True, w)
     else if on_the_thread then Inl RuntimeError
     else Inr (Joining, if wk_stop_called w then w
       else put Pill w\<lparr>wk_stop_called := True, wk_pill_at := length (wk_posted w)\<rparr>))"

definition is_running :: "'t worker \<Rightarrow> bool" where
  "is_running w = (case wk_thread w of None \<Rightarrow> False | Some p \<Rightarrow> alive p)"

definition finish_stop :: "'t worker \<Rightarrow> bool \<times> 't worker" where
  "finish_stop w = (if is_running w then (False, w) else (True, w\<lparr>wk_thread := None\<rparr>))"

text \<open>
  \<^verbatim>\<open>join_tasks\<close>. \<open>look i\<close> is the count of unfinished tasks at the \<open>i\<close>-th look; without a limit the
  queue's own join blocks until the count is zero, so it returns only then.
\<close>

function join_looks :: "(nat \<Rightarrow> nat) \<Rightarrow> rat \<Rightarrow> nat \<Rightarrow> bool" where
  "join_looks look timeout i =
    (if of_nat i / 100 < timeout
     then (if look i = 0 then True else join_looks look timeout (i + 1))
     else look i = 0)"
  by auto

termination
proof (relation "measure (\<lambda>(look, timeout, i). nat \<lceil>timeout * 100\<rceil> - i)")
  fix look :: "nat \<Rightarrow> nat" and timeout :: rat and i :: nat
  assume "of_nat i / 100 < timeout"
  then have "(of_int (int i) :: rat) < timeout * 100" by (simp add: field_simps)
  then have "int i < \<lceil>timeout * 100\<rceil>" by (simp add: less_ceiling_iff)
  then show "((look, timeout, i + 1), look, timeout, i) \<in> measure (\<lambda>(look, timeout, i). nat \<lceil>timeout * 100\<rceil> - i)"
    by simp
qed simp

declare join_looks.simps [simp del]

definition join_tasks :: "(nat \<Rightarrow> nat) \<Rightarrow> rat option \<Rightarrow> 't worker \<Rightarrow> bool option" where
  "join_tasks look timeout w =
    (if wk_thread w = None then Some (wk_unfinished w = 0)
     else (case timeout of
         None \<Rightarrow> (if look 0 = 0 then Some True else None)
       | Some t \<Rightarrow> Some (join_looks look t 0)))"

section \<open>The thread\<close>

text \<open>
  An exception of a task goes to the callback, unless it is none the handler names; so does one of
  the callback on the way out. What escapes ends the thread.
\<close>

definition swallowed :: "'t hooks \<Rightarrow> exn option \<Rightarrow> bool" where
  "swallowed h r = (case r of None \<Rightarrow> True
     | Some e \<Rightarrow> (if e = Interrupted then False
         else (case hk_on_error h of None \<Rightarrow> True | Some f \<Rightarrow> f e = None)))"

definition task_done :: "'t worker \<Rightarrow> 't worker" where
  "task_done w = w\<lparr>wk_unfinished := wk_unfinished w - 1\<rparr>"

definition thread_step :: "'t hooks \<Rightarrow> 't worker \<Rightarrow> 't worker" where
  "thread_step h w = (case wk_thread w of
     None \<Rightarrow> w
   | Some p \<Rightarrow> (case p of
       Waiting \<Rightarrow> (case wk_queue w of
           [] \<Rightarrow> w
         | Pill # later \<Rightarrow> w\<lparr>wk_queue := later, wk_thread := Some Pilled\<rparr>
         | Work t # later \<Rightarrow> w\<lparr>wk_queue := later, wk_thread := Some (Working t), wk_ran := wk_ran w @ [t]\<rparr>)
     | Working t \<Rightarrow> (task_done w)\<lparr>wk_thread := Some (if swallowed h (hk_run h t) then Waiting else Crashed)\<rparr>
     | Pilled \<Rightarrow> (task_done w)\<lparr>wk_thread := Some Leaving\<rparr>
     | Leaving \<Rightarrow> w\<lparr>wk_thread := Some (case hk_on_terminate h of None \<Rightarrow> Ended
         | Some r \<Rightarrow> if swallowed h r then Ended else Crashed)\<rparr>
     | Ended \<Rightarrow> w
     | Crashed \<Rightarrow> w))"

text \<open>The moves of the main thread and of the worker, in any order.\<close>

inductive worker_step :: "'t hooks \<Rightarrow> 't worker \<Rightarrow> 't worker \<Rightarrow> bool" for h where
  Post: "post_task h (Some t) w = ok w' \<Longrightarrow> worker_step h w w'"
| Start: "worker_step h w (start_worker w)"
| Request: "request_stop False w = Inr (r, w') \<Longrightarrow> worker_step h w w'"
| Finish: "wk_stop_called w \<Longrightarrow> finish_stop w = (b, w') \<Longrightarrow> worker_step h w w'"
| Thread: "worker_step h w (thread_step h w)"

abbreviation worker_steps :: "'t hooks \<Rightarrow> 't worker \<Rightarrow> 't worker \<Rightarrow> bool" where
  "worker_steps h \<equiv> (worker_step h)\<^sup>*\<^sup>*"

inductive_cases worker_stepE: "worker_step h w w'"

section \<open>Invariant\<close>

fun tasks_of :: "'t queued list \<Rightarrow> 't list" where
  "tasks_of [] = []"
| "tasks_of (Work t # q) = t # tasks_of q"
| "tasks_of (Pill # q) = tasks_of q"

lemma tasks_of_append [simp]: "tasks_of (q @ r) = tasks_of q @ tasks_of r"
  by (induction q rule: tasks_of.induct) auto

lemma tasks_of_works [simp]: "tasks_of (map Work xs) = xs"
  by (induction xs) auto

lemma no_pill: "Pill \<notin> set q \<Longrightarrow> q = map Work (tasks_of q)"
  by (induction q rule: tasks_of.induct) auto

definition in_hand :: "'t phase option \<Rightarrow> nat" where
  "in_hand p = (case p of Some (Working t) \<Rightarrow> 1 | Some Pilled \<Rightarrow> 1 | _ \<Rightarrow> 0)"

definition past_pill :: "'t phase option \<Rightarrow> bool" where
  "past_pill p \<longleftrightarrow> p \<in> {Some Pilled, Some Leaving, Some Ended}"

text \<open>
  Everything posted is run or still queued, in order; the count is that of the queue and of what
  is in hand; and the pill, once asked for, stands behind exactly the tasks posted before it.
\<close>

definition pill_waits :: "'t worker \<Rightarrow> bool" where
  "pill_waits w \<longleftrightarrow> (\<exists>xs ys. wk_queue w = map Work xs @ Pill # map Work ys \<and>
     length (wk_ran w) + length xs = wk_pill_at w) \<and> \<not> past_pill (wk_thread w)"

definition worker_inv :: "'t worker \<Rightarrow> bool" where
  "worker_inv w \<longleftrightarrow>
     wk_posted w = wk_ran w @ tasks_of (wk_queue w) \<and>
     wk_unfinished w = length (wk_queue w) + in_hand (wk_thread w) \<and>
     (if wk_stop_called w then pill_waits w \<or> (Pill \<notin> set (wk_queue w) \<and> wk_pill_at w \<le> length (wk_ran w))
      else Pill \<notin> set (wk_queue w) \<and> \<not> past_pill (wk_thread w))"

lemma init_worker_inv: "worker_inv init_worker"
  by (simp add: worker_inv_def init_worker_def in_hand_def past_pill_def)

lemma post_inv:
  assumes "worker_inv w" and "post_task h task w = ok w'"
  shows "worker_inv w'"
proof -
  obtain t where w': "w' = (put (Work t) w)\<lparr>wk_posted := wk_posted w @ [t]\<rparr>"
    using assms(2) by (auto simp: post_task_def split: option.splits if_splits)
  have "pill_waits w'" if waits: "pill_waits w"
  proof -
    obtain xs ys where q: "wk_queue w = map Work xs @ Pill # map Work ys" "length (wk_ran w) + length xs = wk_pill_at w"
      using waits by (auto simp: pill_waits_def)
    then have "wk_queue w' = map Work xs @ Pill # map Work (ys @ [t])" by (simp add: w' put_def)
    moreover have "length (wk_ran w') + length xs = wk_pill_at w'" "\<not> past_pill (wk_thread w')"
      using q(2) waits by (simp_all add: w' put_def pill_waits_def)
    ultimately show ?thesis unfolding pill_waits_def by blast
  qed
  with assms(1) show ?thesis by (auto simp: worker_inv_def w' put_def)
qed

lemma start_inv: "worker_inv w \<Longrightarrow> worker_inv (start_worker w)"
  by (auto simp: start_worker_def worker_inv_def in_hand_def past_pill_def pill_waits_def)

lemma request_inv:
  assumes "worker_inv w" and "request_stop on w = Inr (r, w')"
  shows "worker_inv w'"
proof (cases "w' = w")
  case False
  then have w': "w' = put Pill w\<lparr>wk_stop_called := True, wk_pill_at := length (wk_posted w)\<rparr>"
      and stop: "\<not> wk_stop_called w"
    using assms(2) by (auto simp: request_stop_def split: if_splits)
  then have "wk_queue w = map Work (tasks_of (wk_queue w))" "\<not> past_pill (wk_thread w)"
    using assms(1) no_pill by (auto simp: worker_inv_def)
  then have "wk_queue w' = map Work (tasks_of (wk_queue w)) @ Pill # map Work []" "\<not> past_pill (wk_thread w')"
    by (simp_all add: w' put_def)
  moreover have "length (wk_ran w') + length (tasks_of (wk_queue w)) = wk_pill_at w'"
    using assms(1) by (simp add: w' put_def worker_inv_def)
  ultimately have "pill_waits w'" unfolding pill_waits_def by blast
  with assms(1) show ?thesis by (simp add: w' worker_inv_def put_def)
qed (use assms in simp)

lemma finish_inv: "worker_inv w \<Longrightarrow> wk_stop_called w \<Longrightarrow> worker_inv (snd (finish_stop w))"
  by (auto simp: finish_stop_def is_running_def alive_def worker_inv_def in_hand_def past_pill_def pill_waits_def
      split: option.splits)

lemma thread_inv:
  assumes "worker_inv w"
  shows "worker_inv (thread_step h w)"
proof (cases "wk_thread w")
  case (Some p)
  note step = thread_step_def task_done_def worker_inv_def in_hand_def past_pill_def pill_waits_def
  show ?thesis
  proof (cases p)
    case Waiting
    show ?thesis
    proof (cases "wk_queue w")
      case (Cons x q)
      show ?thesis
      proof (cases x)
        case (Work t)
        have "pill_waits (thread_step h w)" if waits: "pill_waits w"
        proof -
          obtain xs ys where "wk_queue w = map Work xs @ Pill # map Work ys" "length (wk_ran w) + length xs = wk_pill_at w"
            using waits by (auto simp: pill_waits_def)
          then show ?thesis
            using Cons Work Some Waiting by (cases xs) (auto simp: step)
        qed
        with assms Some Waiting Cons Work show ?thesis
          by (auto simp: worker_inv_def) (auto simp: step)
      next
        case Pill
        then have "pill_waits w" using assms Cons by (auto simp: worker_inv_def split: if_splits)
        then obtain xs ys where "wk_queue w = map Work xs @ Pill # map Work ys" "length (wk_ran w) + length xs = wk_pill_at w"
          by (auto simp: pill_waits_def)
        then show ?thesis
          using assms Some Waiting Cons Pill by (cases xs) (auto simp: step split: if_splits)
      qed
    qed (use assms Some Waiting in \<open>simp add: thread_step_def\<close>)
  qed (use assms Some in \<open>auto simp: step split: option.splits if_splits\<close>)
qed (use assms in \<open>simp add: thread_step_def\<close>)

lemma worker_step_inv: "worker_step h w w' \<Longrightarrow> worker_inv w \<Longrightarrow> worker_inv w'"
  by (elim worker_stepE) (auto intro: post_inv start_inv request_inv thread_inv dest: finish_inv)

lemma reachable_inv: "worker_steps h init_worker w \<Longrightarrow> worker_inv w"
  by (induction rule: rtranclp_induct) (auto intro: init_worker_inv worker_step_inv)

section \<open>The drain barrier\<close>

definition drained :: "'t worker \<Rightarrow> bool" where
  "drained w \<longleftrightarrow> wk_ran w = wk_posted w \<and> wk_queue w = [] \<and> (\<forall>t. wk_thread w \<noteq> Some (Working t))"

lemma unfinished_zero: "worker_inv w \<Longrightarrow> wk_unfinished w = 0 \<Longrightarrow> drained w"
  by (auto simp: worker_inv_def drained_def in_hand_def)

lemma join_looks_zero: "join_looks look timeout i \<Longrightarrow> \<exists>j \<ge> i. look j = 0"
proof (induction look timeout i rule: join_looks.induct)
  case (1 look timeout i)
  show ?case
  proof (cases "look i = 0")
    case False
    with 1 have "\<exists>j \<ge> i + 1. look j = 0" by (auto simp: join_looks.simps [of look timeout i] split: if_splits)
    then show ?thesis by (meson add_leD1)
  qed auto
qed

text \<open>
  C26. The drain barrier holds: if \<^verbatim>\<open>join_tasks\<close> answers that the queue is drained, there was a moment
  during the call (with no thread, the moment of the call) at which every task ever posted had been
  run to its end, whether it raised or not, in the order of posting and none twice. The states at
  the looks are any the interleaving of posts, starts, stops and the thread can reach.
\<close>

theorem drain_barrier_waits_for_every_task:
  assumes "\<And>j. worker_steps h init_worker (seen j)" and "\<And>j. look j = wk_unfinished (seen j)"
    and "worker_steps h init_worker w" and "join_tasks look timeout w = Some True"
  shows "if wk_thread w = None then drained w else \<exists>j. drained (seen j)"
proof (cases "wk_thread w")
  case None
  then show ?thesis
    using assms(4) unfinished_zero [OF reachable_inv [OF assms(3)]] by (simp add: join_tasks_def)
next
  case (Some p)
  then obtain j where "look j = 0"
    using assms(4) join_looks_zero by (fastforce simp: join_tasks_def split: option.splits if_splits)
  then show ?thesis
    using Some assms(1,2) reachable_inv unfinished_zero by (metis option.distinct(1))
qed

text \<open>One task posted to a started worker, and its thread's two moves.\<close>

definition quiet_hooks :: "nat hooks" where
  "quiet_hooks = \<lparr>hk_callable = (\<lambda>t. True), hk_run = (\<lambda>t. if t = 7 then Some KeyError else None),
     hk_on_error = None, hk_on_terminate = None\<rparr>"

definition posted_worker :: "nat worker" where
  "posted_worker = start_worker (put (Work 7) init_worker\<lparr>wk_posted := [7]\<rparr>)"

lemma posted_worker_reachable: "worker_steps quiet_hooks init_worker posted_worker"
proof -
  have "post_task quiet_hooks (Some 7) init_worker = ok (put (Work 7) init_worker\<lparr>wk_posted := [7]\<rparr>)"
    by (simp add: post_task_def quiet_hooks_def init_worker_def)
  then have "worker_step quiet_hooks init_worker (put (Work 7) init_worker\<lparr>wk_posted := [7]\<rparr>)"
    by (rule worker_step.Post)
  moreover have "worker_step quiet_hooks (put (Work 7) init_worker\<lparr>wk_posted := [7]\<rparr>) posted_worker"
    unfolding posted_worker_def by (rule worker_step.Start)
  ultimately show ?thesis by (rule converse_rtranclp_into_rtranclp [OF _ r_into_rtranclp])
qed

lemma thread_steps_reachable: "worker_steps h w ((thread_step h ^^ n) w)"
  by (induction n) (auto intro: rtranclp.rtrancl_into_rtrancl worker_step.Thread)

theorem drain_barrier_waits_for_every_task_witness:
  "\<exists>j. drained ((thread_step quiet_hooks ^^ j) posted_worker)"
proof -
  let ?at = "\<lambda>j. (thread_step quiet_hooks ^^ j) posted_worker"
  have at: "worker_steps quiet_hooks init_worker (?at j)" for j
    using posted_worker_reachable thread_steps_reachable by (rule rtranclp_trans)
  have "wk_unfinished (?at 2) = 0"
    by (simp add: numeral_2_eq_2 thread_step_def posted_worker_def start_worker_def put_def init_worker_def quiet_hooks_def
        task_done_def swallowed_def)
  then have "join_looks (\<lambda>j. wk_unfinished (?at j)) 1 2"
    by (simp add: join_looks.simps [of _ 1 2])
  moreover have "join_looks (\<lambda>j. wk_unfinished (?at j)) 1 0"
    using calculation by (simp add: join_looks.simps [of _ 1 0] join_looks.simps [of _ 1 "Suc 0"] numeral_2_eq_2)
  ultimately have "join_tasks (\<lambda>j. wk_unfinished (?at j)) (Some 1) posted_worker = Some True"
    by (simp add: join_tasks_def posted_worker_def start_worker_def put_def init_worker_def)
  from drain_barrier_waits_for_every_task [where seen = ?at, OF at refl posted_worker_reachable this]
  show ?thesis by (simp add: posted_worker_def start_worker_def put_def init_worker_def)
qed

section \<open>Stopping\<close>

text \<open>
  A worker whose thread came to its end has taken up every task posted before the pill, in their
  order, whatever was posted meanwhile and however the moves interleaved.
\<close>

theorem stop_runs_what_was_posted_before:
  assumes "worker_steps h init_worker w" and "wk_thread w = Some Ended"
  shows "take (wk_pill_at w) (wk_ran w) = take (wk_pill_at w) (wk_posted w) \<and> wk_pill_at w \<le> length (wk_ran w)"
proof -
  have inv: "worker_inv w" using assms(1) by (rule reachable_inv)
  then have "wk_stop_called w" "\<not> pill_waits w" using assms(2) by (auto simp: worker_inv_def pill_waits_def past_pill_def split: if_splits)
  with inv show ?thesis by (auto simp: worker_inv_def)
qed

text \<open>
  The way to the end once the pill is queued: the tasks before it, the one in hand, and the pill's
  own moves. A post goes behind the pill and makes the way no longer.
\<close>

definition harmless :: "'t hooks \<Rightarrow> bool" where
  "harmless h \<longleftrightarrow> (\<forall>t. swallowed h (hk_run h t)) \<and> (\<forall>r. hk_on_terminate h = Some r \<longrightarrow> swallowed h r)"

definition before_pill :: "'t worker \<Rightarrow> 't queued list" where
  "before_pill w = takeWhile (\<lambda>x. x \<noteq> Pill) (wk_queue w)"

definition moves_left :: "'t worker \<Rightarrow> nat" where
  "moves_left w = (case wk_thread w of Some (Working t) \<Rightarrow> 2 * length (before_pill w) + 4
     | Some Waiting \<Rightarrow> 2 * length (before_pill w) + 3 | Some Pilled \<Rightarrow> 2 | Some Leaving \<Rightarrow> 1 | _ \<Rightarrow> 0)"

definition on_the_way_out :: "'t worker \<Rightarrow> bool" where
  "on_the_way_out w \<longleftrightarrow> (case wk_thread w of
     Some Waiting \<Rightarrow> Pill \<in> set (wk_queue w) \<and> length (wk_ran w) + length (before_pill w) = wk_pill_at w
   | Some (Working t) \<Rightarrow> Pill \<in> set (wk_queue w) \<and> length (wk_ran w) + length (before_pill w) = wk_pill_at w
   | Some Crashed \<Rightarrow> False
   | None \<Rightarrow> False
   | _ \<Rightarrow> length (wk_ran w) = wk_pill_at w)"

lemma thread_step_out:
  assumes "harmless h" and "on_the_way_out w"
  shows "on_the_way_out (thread_step h w) \<and> moves_left (thread_step h w) = moves_left w - 1"
  using assms
  by (auto simp: thread_step_def on_the_way_out_def moves_left_def before_pill_def task_done_def harmless_def
      split: option.splits phase.splits list.splits queued.splits)

lemma post_out:
  assumes "on_the_way_out w" and "post_task h (Some t) w = (w', e)"
  shows "on_the_way_out w' \<and> moves_left w' = moves_left w"
proof -
  have "takeWhile (\<lambda>x. x \<noteq> Pill) (q @ [Work t]) = takeWhile (\<lambda>x. x \<noteq> Pill) q" if "Pill \<in> set q" for q
    using that by (simp add: takeWhile_append1)
  with assms show ?thesis
    by (auto simp: post_task_def put_def on_the_way_out_def moves_left_def before_pill_def ok_def raise_def
        split: option.splits phase.splits if_splits)
qed

text \<open>What happens after a stop was asked for: moves of the thread (\<open>None\<close>) and posts of tasks, in any order.\<close>

fun meanwhile :: "'t hooks \<Rightarrow> 't option list \<Rightarrow> 't worker \<Rightarrow> 't worker" where
  "meanwhile h [] w = w"
| "meanwhile h (None # ms) w = meanwhile h ms (thread_step h w)"
| "meanwhile h (Some t # ms) w = meanwhile h ms (fst (post_task h (Some t) w))"

definition thread_moves :: "'t option list \<Rightarrow> nat" where
  "thread_moves ms = length (filter (\<lambda>m. m = None) ms)"

lemma meanwhile_out:
  assumes "harmless h"
  shows "on_the_way_out w \<Longrightarrow>
    on_the_way_out (meanwhile h ms w) \<and> moves_left (meanwhile h ms w) = moves_left w - thread_moves ms"
proof (induction ms arbitrary: w)
  case (Cons m ms)
  show ?case
  proof (cases m)
    case None
    with Cons thread_step_out [OF assms, of w] show ?thesis by (simp add: thread_moves_def)
  next
    case (Some t)
    with Cons post_out [of w h t] show ?thesis by (cases "post_task h (Some t) w") (simp add: thread_moves_def)
  qed
qed (simp add: thread_moves_def)

lemma meanwhile_reachable: "worker_steps h w (meanwhile h ms w)"
proof (induction h ms w rule: meanwhile.induct)
  case (2 h ms w)
  then show ?case by (auto intro: converse_rtranclp_into_rtranclp worker_step.Thread)
next
  case (3 h t ms w)
  show ?case
  proof (cases "post_task h (Some t) w" rule: outcome_cases)
    case (ok w')
    with 3 show ?thesis by (auto intro: converse_rtranclp_into_rtranclp worker_step.Post)
  next
    case (raise e w')
    then have "w' = w" by (auto simp: post_task_def split: if_splits)
    with 3 raise show ?thesis by simp
  qed
qed simp

lemma meanwhile_posted:
  "wk_pill_at (meanwhile h ms w) = wk_pill_at w \<and> (\<exists>more. wk_posted (meanwhile h ms w) = wk_posted w @ more)"
proof (induction h ms w rule: meanwhile.induct)
  case (2 h ms w)
  have "wk_pill_at (thread_step h w) = wk_pill_at w" "wk_posted (thread_step h w) = wk_posted w"
    by (simp_all add: thread_step_def task_done_def split: option.split phase.split list.split queued.split)
  with 2 show ?case by simp
next
  case (3 h t ms w)
  then show ?case by (auto simp: post_task_def put_def)
qed simp

text \<open>
  A thread that an exception ended, the only consumer of the queue, leaves the drain barrier
  without an answer: as long as nobody stops the worker, whatever is posted and whenever
  \<^verbatim>\<open>join_tasks\<close> without a limit looks, a task that was left or posted later keeps it waiting.
\<close>

lemma dead_thread_keeps:
  "wk_thread w = Some Crashed \<Longrightarrow> wk_thread (meanwhile h ms w) = Some Crashed \<and>
    wk_unfinished w \<le> wk_unfinished (meanwhile h ms w)"
proof (induction h ms w rule: meanwhile.induct)
  case (2 h ms w)
  then show ?case by (simp add: thread_step_def)
next
  case (3 h t ms w)
  from 3(2) have "wk_thread (fst (post_task h (Some t) w)) = Some Crashed"
    by (simp add: post_task_def put_def)
  moreover have "wk_unfinished w \<le> wk_unfinished (fst (post_task h (Some t) w))"
    by (simp add: post_task_def put_def)
  ultimately show ?case using 3(1) by (auto intro: le_trans)
qed simp

theorem dead_thread_never_drains:
  assumes "wk_thread w = Some Crashed" and "0 < wk_unfinished w"
    and "\<And>i. look i = wk_unfinished (meanwhile h (sched i) w)"
  shows "join_tasks look None (meanwhile h ms w) = None"
  using assms dead_thread_keeps [OF assms(1), of h ms] dead_thread_keeps [OF assms(1), of h "sched 0"]
  by (simp add: join_tasks_def)

text \<open>A worker whose only task exits the interpreter, with a second task behind it.\<close>

definition exit_hooks :: "nat hooks" where
  "exit_hooks = quiet_hooks\<lparr>hk_run := \<lambda>t. Some Interrupted\<rparr>"

theorem dead_thread_never_drains_witness:
  "join_tasks (\<lambda>i. wk_unfinished (meanwhile exit_hooks [None, None, Some 8] posted_worker)) None
     (meanwhile exit_hooks [None, None, Some 8] posted_worker) = None"
proof -
  let ?w = "meanwhile exit_hooks [None, None, Some 8] posted_worker"
  have "wk_thread ?w = Some Crashed" "0 < wk_unfinished ?w"
    by (simp_all add: posted_worker_def start_worker_def put_def init_worker_def thread_step_def exit_hooks_def
        quiet_hooks_def swallowed_def task_done_def post_task_def)
  then show ?thesis
    using dead_thread_never_drains [of ?w "\<lambda>i. wk_unfinished ?w" exit_hooks "\<lambda>i. []" "[]"] by simp
qed

text \<open>A worker nothing escapes from never crashes; one not yet asked to stop has not seen a pill.\<close>

lemma harmless_reachable:
  assumes "harmless h" and "worker_steps h init_worker w"
  shows "wk_thread w \<noteq> Some Crashed"
  using assms(2)
proof (induction rule: rtranclp_induct)
  case (step w w')
  from step(2) show ?case
  proof cases
    case Thread
    with step(3) assms(1) show ?thesis
      by (auto simp: thread_step_def task_done_def harmless_def split: option.splits phase.splits list.splits queued.splits)
  qed (use step(3) in \<open>auto simp: post_task_def put_def start_worker_def request_stop_def finish_stop_def
        split: if_splits\<close>)
qed (simp add: init_worker_def)

lemma request_out:
  assumes "worker_inv w" and "wk_thread w \<noteq> Some Crashed" and "\<not> wk_stop_called w"
    and "request_stop False w = Inr (Joining, w')"
  shows "on_the_way_out w' \<and> moves_left w' \<le> 2 * length (wk_queue w) + 4 \<and> wk_pill_at w' = length (wk_posted w) \<and>
    wk_posted w' = wk_posted w"
proof -
  have w': "w' = put Pill w\<lparr>wk_stop_called := True, wk_pill_at := length (wk_posted w)\<rparr>"
      and thread: "wk_thread w \<noteq> None"
    using assms(3,4) by (auto simp: request_stop_def split: if_splits)
  have q: "Pill \<notin> set (wk_queue w)" "\<not> past_pill (wk_thread w)"
    using assms(1,3) by (auto simp: worker_inv_def)
  then have "before_pill w' = wk_queue w" "wk_queue w = map Work (tasks_of (wk_queue w))"
    using no_pill by (auto simp: before_pill_def w' put_def takeWhile_eq_all_conv takeWhile_tail)
  moreover from this(2) have "length (wk_posted w) = length (wk_ran w) + length (wk_queue w)"
    using assms(1) by (metis length_append length_map worker_inv_def)
  ultimately show ?thesis
    using thread q assms(2)
    by (auto simp: w' put_def on_the_way_out_def moves_left_def past_pill_def split: option.split phase.split)
qed

text \<open>
  C27. A worker that is asked to stop ends. Whatever was done with it before, if it was not stopped yet
  and nothing its tasks and callbacks raise escapes it, then from the request on every schedule that
  gives the thread two moves per task in the queue, and four more, ends it, however many tasks are
  posted meanwhile: \<^verbatim>\<open>stop\<close> returns true, and what was run is exactly what had been posted before the
  request.
\<close>

theorem stopping_worker_ends:
  assumes "harmless h" and "worker_steps h init_worker w" and "\<not> wk_stop_called w"
    and "request_stop False w = Inr (Joining, w')" and "2 * length (wk_queue w) + 4 \<le> thread_moves ms"
  shows "wk_thread (meanwhile h ms w') = Some Ended \<and> fst (finish_stop (meanwhile h ms w')) \<and>
    wk_ran (meanwhile h ms w') = wk_posted w"
proof -
  let ?v = "meanwhile h ms w'"
  note out = request_out [OF reachable_inv [OF assms(2)] harmless_reachable [OF assms(1,2)] assms(3,4)]
  then have v: "on_the_way_out ?v" "moves_left ?v = 0"
    using meanwhile_out [OF assms(1), of w' ms] assms(5) by auto
  then have ended: "wk_thread ?v = Some Ended" "length (wk_ran ?v) = wk_pill_at ?v"
    by (auto simp: on_the_way_out_def moves_left_def split: option.splits phase.splits)
  have "worker_steps h init_worker ?v"
    using assms(2) worker_step.Request [OF assms(4)] meanwhile_reachable [of h w' ms]
    by (meson rtranclp.rtrancl_into_rtrancl rtranclp_trans)
  from reachable_inv [OF this] have "wk_posted ?v = wk_ran ?v @ tasks_of (wk_queue ?v)" by (simp add: worker_inv_def)
  moreover obtain more where "wk_posted ?v = wk_posted w @ more" "wk_pill_at ?v = length (wk_posted w)"
    using meanwhile_posted [of h ms w'] out by auto
  ultimately have "wk_ran ?v = wk_posted w" using ended(2) by (metis append_eq_append_conv)
  with ended show ?thesis by (simp add: finish_stop_def is_running_def alive_def)
qed

definition stopping_worker :: "nat worker" where
  "stopping_worker = put Pill posted_worker\<lparr>wk_stop_called := True, wk_pill_at := 1\<rparr>"

lemma stopping_worker_reachable: "worker_steps quiet_hooks init_worker stopping_worker"
proof -
  have "request_stop False posted_worker = Inr (Joining, stopping_worker)"
    by (simp add: request_stop_def stopping_worker_def posted_worker_def start_worker_def put_def init_worker_def)
  then show ?thesis
    by (rule rtranclp.rtrancl_into_rtrancl [OF posted_worker_reachable worker_step.Request])
qed

theorem stopping_worker_ends_witness:
  "wk_ran (meanwhile quiet_hooks [None, Some 8, None, None, None, Some 9, None, None] stopping_worker) = [7]"
proof -
  have "harmless quiet_hooks" by (simp add: harmless_def quiet_hooks_def swallowed_def)
  moreover have "request_stop False posted_worker = Inr (Joining, stopping_worker)"
      "\<not> wk_stop_called posted_worker" "length (wk_queue posted_worker) = 1" "wk_posted posted_worker = [7]"
    by (simp_all add: request_stop_def stopping_worker_def posted_worker_def start_worker_def put_def init_worker_def)
  moreover have "thread_moves [None, Some 8, None, None, None, Some 9, None, None :: nat option] = 6"
    by (simp add: thread_moves_def)
  ultimately show ?thesis
    using stopping_worker_ends [OF _ posted_worker_reachable, where ms = "[None, Some 8, None, None, None, Some 9, None, None]"]
    by simp
qed

definition stopped_worker :: "nat worker" where
  "stopped_worker = \<lparr>wk_queue = [], wk_unfinished = 0, wk_stop_called = True, wk_thread = Some Ended,
     wk_posted = [7], wk_ran = [7], wk_pill_at = 1\<rparr>"

lemma stopped_worker_reachable: "worker_steps quiet_hooks init_worker stopped_worker"
proof -
  have "(thread_step quiet_hooks ^^ 5) stopping_worker = stopped_worker"
    by (simp add: eval_nat_numeral thread_step_def stopping_worker_def posted_worker_def start_worker_def put_def
        init_worker_def quiet_hooks_def task_done_def swallowed_def stopped_worker_def)
  then show ?thesis
    using stopping_worker_reachable thread_steps_reachable [of quiet_hooks stopping_worker 5] rtranclp_trans by metis
qed

theorem stop_runs_what_was_posted_before_witness:
  "take 1 (wk_ran stopped_worker) = take 1 (wk_posted stopped_worker) \<and> wk_posted stopped_worker = [7]"
  using stop_runs_what_was_posted_before [OF stopped_worker_reachable] by (simp add: stopped_worker_def)

section \<open>Started again\<close>

definition unstoppable :: "'t worker \<Rightarrow> bool" where
  "unstoppable w \<longleftrightarrow> wk_stop_called w \<and> Pill \<notin> set (wk_queue w) \<and>
     (case wk_thread w of Some Waiting \<Rightarrow> True | Some (Working t) \<Rightarrow> True | _ \<Rightarrow> False)"

lemma unstoppable_step:
  assumes "harmless h" and "worker_step h w w'" and "unstoppable w"
  shows "unstoppable w'"
  using assms(2)
proof cases
  case Thread
  with assms(1,3) show ?thesis
    by (auto simp: thread_step_def unstoppable_def task_done_def harmless_def split: option.splits phase.splits list.splits queued.splits)
qed (use assms(3) in \<open>auto simp: unstoppable_def post_task_def put_def start_worker_def request_stop_def finish_stop_def
      is_running_def alive_def split: option.splits phase.splits if_splits\<close>)

text \<open>
  A worker that was stopped and is started again runs, and can never be stopped again: the flag
  that the pill went in is not cleared, so no second pill follows, and whatever is posted or asked
  from then on, \<^verbatim>\<open>stop\<close> finds the thread running, for ever if it waits without a limit.
\<close>

theorem restarted_worker_never_stops:
  assumes "harmless h" and "worker_steps h init_worker w" and "wk_stop_called w" and "wk_thread w = None"
    and "wk_queue w = []" and "worker_steps h (start_worker w) w'"
  shows "is_running w' \<and> finish_stop w' = (False, w') \<and> request_stop False w' = Inr (Joining, w')"
proof -
  have "unstoppable (start_worker w)" using assms(3-5) by (simp add: unstoppable_def start_worker_def)
  with assms(6) have "unstoppable w'"
    by (induction rule: rtranclp_induct) (auto intro: unstoppable_step [OF assms(1)])
  then show ?thesis
    by (auto simp: unstoppable_def is_running_def alive_def finish_stop_def request_stop_def split: option.splits phase.splits)
qed

theorem restarted_worker_never_stops_witness:
  "is_running (start_worker (snd (finish_stop stopped_worker)))"
proof -
  let ?w = "snd (finish_stop stopped_worker)"
  have "worker_step quiet_hooks stopped_worker ?w"
    by (rule worker_step.Finish [where b = "fst (finish_stop stopped_worker)"]) (simp_all add: stopped_worker_def)
  with stopped_worker_reachable have "worker_steps quiet_hooks init_worker ?w"
    by (rule rtranclp.rtrancl_into_rtrancl)
  moreover have "harmless quiet_hooks" by (simp add: harmless_def quiet_hooks_def swallowed_def)
  moreover have "wk_stop_called ?w" "wk_thread ?w = None" "wk_queue ?w = []"
    by (simp_all add: stopped_worker_def finish_stop_def is_running_def alive_def)
  ultimately show ?thesis
    using restarted_worker_never_stops [of quiet_hooks ?w] by blast
qed

end
