(* ===== verification/Civil_Years.thy ===== *)
theory Civil_Years
  imports Calendar
begin

text \<open>
  The calendar of \<open>civil_month\<close> is the Gregorian one: the year it gives a day is the one between whose
  first of January and the next the day lies, and the days it gives one month lie together.
\<close>


section \<open>The civil year of a day\<close>

text \<open>A day of an era of 400 years that starts in March, by century, leap cycle, year and day of the year.\<close>

lemma era_day_split:
  fixes e :: int
  assumes "0 \<le> e" and "e < 146097"
  obtains c q i r where "e = 36524 * c + 1461 * q + 365 * i + r" "0 \<le> c" "c \<le> 3" "0 \<le> q" "q \<le> 24"
    "0 \<le> i" "i \<le> 3" "0 \<le> r" "r \<le> 365" "r = 365 \<longrightarrow> i = 3 \<and> (q = 24 \<longrightarrow> c = 3)"
proof -
  define c where "c = (if e = 146096 then 3 else e div 36524)"
  define e1 where "e1 = e - 36524 * c"
  have c: "0 \<le> c" "c \<le> 3" "0 \<le> e1" "e1 \<le> 36524" "e1 = 36524 \<longrightarrow> c = 3"
    using assms by (auto simp: c_def e1_def minus_mult_div_eq_mod)
  define q where "q = (if e1 = 36524 then 24 else e1 div 1461)"
  define e2 where "e2 = e1 - 1461 * q"
  have q: "0 \<le> q" "q \<le> 24" "0 \<le> e2" "e2 \<le> 1460" "e2 = 1460 \<longrightarrow> q = 24 \<longrightarrow> c = 3"
    using c by (auto simp: q_def e2_def minus_mult_div_eq_mod)
  define i where "i = (if e2 = 1460 then 3 else e2 div 365)"
  define r where "r = e2 - 365 * i"
  have i: "0 \<le> i" "i \<le> 3" "0 \<le> r" "r \<le> 365" "r = 365 \<longrightarrow> e2 = 1460"
    using q by (auto simp: i_def r_def minus_mult_div_eq_mod)
  have "r = 365 \<longrightarrow> i = 3 \<and> (q = 24 \<longrightarrow> c = 3)" using i q by (auto simp: i_def)
  moreover have "e = 36524 * c + 1461 * q + 365 * i + r" by (simp add: e1_def e2_def r_def)
  ultimately show ?thesis using that [of c q i r] c q i by blast
qed

lemma year_of_era:
  fixes e :: int
  assumes "0 \<le> e" and "e < 146097"
  defines "y \<equiv> (e - e div 1460 + e div 36524 - e div 146096) div 365"
  shows "0 \<le> y" and "y \<le> 399" and "365 * y + y div 4 - y div 100 \<le> e"
    and "e < 365 * (y + 1) + (y + 1) div 4 - (y + 1) div 100 + (y + 1) div 400"
proof -
  obtain c q i r where e: "e = 36524 * c + 1461 * q + 365 * i + r" and
      b: "0 \<le> c" "c \<le> 3" "0 \<le> q" "q \<le> 24" "0 \<le> i" "i \<le> 3" "0 \<le> r" "r \<le> 365"
      "r = 365 \<longrightarrow> i = 3 \<and> (q = 24 \<longrightarrow> c = 3)"
    using era_day_split [OF assms(1,2)] by blast
  define carry where "carry = (if 24 * c + q + 365 * i + r < 1460 then 0 else 1 :: int)"
  have d1460: "e div 1460 = 25 * c + q + carry"
    using b by (intro int_div_pos_eq [where r = "24 * c + q + 365 * i + r - 1460 * carry"]) (auto simp: e carry_def algebra_simps)
  have "e div 36524 - e div 146096 = c"
  proof (cases "e = 146096")
    case True
    then have "c = 3" using b e by linarith
    with True show ?thesis by simp
  next
    case False
    then have lt: "e < 146096" using assms(2) by linarith
    have "1461 * q + 365 * i + r < 36524"
      using b False e by linarith
    then have "e div 36524 = c" using b by (intro int_div_pos_eq [where r = "1461 * q + 365 * i + r"]) (auto simp: e)
    moreover have "e div 146096 = 0" using lt assms(1) by (simp add: div_pos_pos_trivial)
    ultimately show ?thesis by simp
  qed
  then have "e - e div 1460 + e div 36524 - e div 146096 = 365 * (100 * c + 4 * q + i) + (r - carry)"
    using d1460 by (simp add: e)
  moreover have "0 \<le> r - carry" "r - carry \<le> 364" using b by (auto simp: carry_def)
  ultimately have y: "y = 100 * c + 4 * q + i"
    unfolding y_def by (intro int_div_pos_eq [where r = "r - carry"]) auto
  then show "0 \<le> y" "y \<le> 399" using b by simp_all
  have d4: "y div 4 = 25 * c + q" using b by (intro int_div_pos_eq [where r = i]) (auto simp: y)
  have d100: "y div 100 = c" using b by (intro int_div_pos_eq [where r = "4 * q + i"]) (auto simp: y)
  show "365 * y + y div 4 - y div 100 \<le> e" using b by (simp add: d4 d100) (simp add: y e)
  show "e < 365 * (y + 1) + (y + 1) div 4 - (y + 1) div 100 + (y + 1) div 400"
  proof (cases "i = 3")
    case True
    then have n4: "(y + 1) div 4 = 25 * c + q + 1" by (simp add: y)
    show ?thesis
    proof (cases "q = 24")
      case True
      then have "(y + 1) div 100 = c + 1" "(y + 1) div 400 = (if c = 3 then 1 else 0)" using \<open>i = 3\<close> b by (auto simp: y)
      with n4 True \<open>i = 3\<close> b show ?thesis by (auto simp: y e)
    next
      case False
      then have "(y + 1) div 100 = c" using b by (intro int_div_pos_eq [where r = "4 * q + i + 1"]) (auto simp: y)
      moreover have "0 \<le> (y + 1) div 400" using \<open>0 \<le> y\<close> by simp
      ultimately show ?thesis using n4 b by (simp add: y e)
    qed
  next
    case False
    then have "(y + 1) div 4 = 25 * c + q" using b by (intro int_div_pos_eq [where r = "i + 1"]) (auto simp: y)
    moreover have "(y + 1) div 100 = c" using b False by (intro int_div_pos_eq [where r = "4 * q + i + 1"]) (auto simp: y)
    moreover have "0 \<le> (y + 1) div 400" using \<open>0 \<le> y\<close> by simp
    ultimately show ?thesis using b False by (simp add: y e)
  qed
qed

text \<open>The first of January in terms of the March-based era.\<close>

lemma jan_first_era:
  assumes "0 \<le> y"
  shows "jan_first (y + 400 * era + 1) = 365 * y + y div 4 - y div 100 + y div 400 + 306 + 146097 * era - 719468"
proof -
  have "(y + 400 * era) div 4 = y div 4 + 100 * era" "(y + 400 * era) div 100 = y div 100 + 4 * era"
      "(y + 400 * era) div 400 = y div 400 + era"
    by (simp_all add: div_add)
  then show ?thesis by (simp add: jan_first_def)
qed

lemma century_step: "(z :: int) div 100 - (z - 1) div 100 \<le> z div 4 - (z - 1) div 4"
proof -
  define p q where "p = z div 4" and "q = (z - 1) div 4"
  have pq: "q = p \<or> q = p - 1" unfolding p_def q_def by presburger
  have "z div (4 * 25) = p div 25" "(z - 1) div (4 * 25) = q div 25"
    unfolding p_def q_def by (rule zdiv_zmult2_eq; simp)+
  moreover have "p div 25 - (p - 1) div 25 \<le> 1" by presburger
  ultimately show ?thesis using pq by (auto simp flip: p_def q_def)
qed

lemma jan_first_step_ge: "jan_first y + 365 \<le> jan_first (y + 1)"
proof -
  have "(y - 1) div 400 \<le> y div 400" by (rule zdiv_mono1) simp_all
  with century_step [of y] show ?thesis by (simp add: jan_first_def)
qed

lemma jan_first_step_le: "jan_first (y + 1) \<le> jan_first y + 366"
proof -
  define p q where "p = y div 100" and "q = (y - 1) div 100"
  have "q \<le> p" unfolding p_def q_def by (rule zdiv_mono1) simp_all
  moreover have "p \<le> (y - 1 + 100) div 100" unfolding p_def by (rule zdiv_mono1) simp_all
  ultimately have pq: "q = p \<or> q = p - 1" by (auto simp: q_def)
  have "y div (100 * 4) = p div 4" "(y - 1) div (100 * 4) = q div 4"
    unfolding p_def q_def by (rule zdiv_zmult2_eq; simp)+
  moreover have "p div 4 - (p - 1) div 4 \<le> 1" by presburger
  ultimately have "y div 400 - (y - 1) div 400 \<le> y div 100 - (y - 1) div 100" using pq by (auto simp flip: p_def q_def)
  moreover have "y div 4 - (y - 1) div 4 \<le> 1" by presburger
  ultimately show ?thesis by (simp add: jan_first_def)
qed

lemma jan_first_mono: "y \<le> z \<Longrightarrow> jan_first y \<le> jan_first z"
proof (induction z rule: int_ge_induct)
  case (step z)
  then show ?case using jan_first_step_ge [of z] by simp
qed simp

text \<open>What \<open>civil_month\<close> computes: the era, the year that starts in March, the day of it and its month.\<close>

lemma civil_month_parts:
  obtains era y t mp where "d = 365 * y + y div 4 - y div 100 + t + 146097 * era - 719468"
    and "0 \<le> y" and "y \<le> 399" and "0 \<le> t" and "0 \<le> mp" and "mp < 12" and "153 * mp \<le> 5 * t + 2"
    and "5 * t + 2 < 153 * mp + 153" and "d < jan_first (y + 400 * era + 1 + 1) - 306"
    and "civil_month d = (y + era * 400 + (if mp < 10 then 0 else 1), if mp < 10 then mp + 3 else mp - 9)"
proof -
  define era where "era = (d + 719468) div 146097"
  define e where "e = (d + 719468) mod 146097"
  define y where "y = (e - e div 1460 + e div 36524 - e div 146096) div 365"
  define t where "t = e - (365 * y + y div 4 - y div 100)"
  define mp where "mp = (5 * t + 2) div 153"
  have d: "d = e + 146097 * era - 719468" by (simp add: era_def e_def mult.commute [of 146097])
  have "0 \<le> e" "e < 146097" by (simp_all add: e_def)
  note y = year_of_era [OF this, folded y_def]
  have t: "0 \<le> t" "e = 365 * y + y div 4 - y div 100 + t" using y(3) by (simp_all add: t_def)
  have next_year: "d < jan_first (y + 400 * era + 1 + 1) - 306"
    using jan_first_era [of "y + 1" era] y(1,4) d by (simp add: algebra_simps)
  have "y div 400 = 0" using y by (simp add: div_pos_pos_trivial)
  then have this_year: "jan_first (y + 400 * era + 1) = d - t + 306"
    using jan_first_era [of y era] y(1) t(2) d by simp
  have "t \<le> 365" using next_year this_year jan_first_step_le [of "y + 400 * era + 1"] by simp
  moreover have m: "153 * mp \<le> 5 * t + 2" "5 * t + 2 < 153 * mp + 153"
    using div_mult_mod_eq [of "5 * t + 2" 153] pos_mod_sign [of 153 "5 * t + 2"] pos_mod_bound [of 153 "5 * t + 2"]
    unfolding mp_def by linarith+
  ultimately have mp: "0 \<le> mp" "mp < 12" using t(1) by linarith+
  have "civil_month d = (y + era * 400 + (if (if mp < 10 then mp + 3 else mp - 9) \<le> 2 then 1 else 0),
      if mp < 10 then mp + 3 else mp - 9)"
    by (simp only: civil_month_def Let_def era_def e_def y_def t_def mp_def)
  moreover have "(if mp < 10 then mp + 3 else mp - 9) \<le> 2 \<longleftrightarrow> \<not> mp < 10" using mp by auto
  ultimately have "civil_month d = (y + era * 400 + (if mp < 10 then 0 else 1), if mp < 10 then mp + 3 else mp - 9)" by simp
  moreover have "d = 365 * y + y div 4 - y div 100 + t + 146097 * era - 719468" using d t(2) by simp
  ultimately show ?thesis using that y(1,2) t(1) mp m next_year by blast
qed

definition in_year :: "int \<Rightarrow> int \<Rightarrow> bool" where
  "in_year d y \<longleftrightarrow> jan_first y \<le> d \<and> d < jan_first (y + 1)"

lemma in_year_unique:
  assumes "in_year d y" and "in_year d z"
  shows "y = z"
proof (rule ccontr)
  assume "y \<noteq> z"
  then consider "y + 1 \<le> z" | "z + 1 \<le> y" by linarith
  then show False using assms jan_first_mono [of "y + 1" z] jan_first_mono [of "z + 1" y] by cases (auto simp: in_year_def)
qed

lemma in_civil_year: "in_year d (fst (civil_month d))"
proof -
  obtain era y t mp where d: "d = 365 * y + y div 4 - y div 100 + t + 146097 * era - 719468"
    and y: "0 \<le> y" "y \<le> 399" and t: "0 \<le> t" and mp: "0 \<le> mp" "mp < 12" "153 * mp \<le> 5 * t + 2" "5 * t + 2 < 153 * mp + 153"
    and next_year: "d < jan_first (y + 400 * era + 1 + 1) - 306"
    and civil: "civil_month d = (y + era * 400 + (if mp < 10 then 0 else 1), if mp < 10 then mp + 3 else mp - 9)"
    by (rule civil_month_parts [of d])
  have "y div 400 = 0" using y by (simp add: div_pos_pos_trivial)
  then have this_year: "jan_first (y + 400 * era + 1) = d - t + 306"
    using jan_first_era [of y era] y(1) d by simp
  have "mp < 10 \<longleftrightarrow> t < 306" using mp by linarith
  with civil have year: "fst (civil_month d) = y + 400 * era + (if t < 306 then 0 else 1)" by simp
  show ?thesis
  proof (cases "t < 306")
    case True
    with this_year t jan_first_step_ge [of "y + 400 * era"] show ?thesis by (simp add: in_year_def year)
  next
    case False
    with this_year next_year show ?thesis by (simp add: in_year_def year)
  qed
qed

lemma civil_year_iff: "fst (civil_month d) = y \<longleftrightarrow> in_year d y"
  using in_civil_year in_year_unique by blast

text \<open>The days of a month lie together.\<close>

lemma same_month_near:
  assumes "civil_month a = civil_month b"
  shows "\<bar>a - b\<bar> \<le> 30"
proof -
  obtain era y t mp where a: "a = 365 * y + y div 4 - y div 100 + t + 146097 * era - 719468"
    and y: "0 \<le> y" "y \<le> 399" and mp: "0 \<le> mp" "mp < 12" "153 * mp \<le> 5 * t + 2" "5 * t + 2 < 153 * mp + 153"
    and civil: "civil_month a = (y + era * 400 + (if mp < 10 then 0 else 1), if mp < 10 then mp + 3 else mp - 9)"
    by (rule civil_month_parts [of a])
  obtain era' y' t' mp' where b: "b = 365 * y' + y' div 4 - y' div 100 + t' + 146097 * era' - 719468"
    and y': "0 \<le> y'" "y' \<le> 399" and mp': "0 \<le> mp'" "mp' < 12" "153 * mp' \<le> 5 * t' + 2" "5 * t' + 2 < 153 * mp' + 153"
    and civil': "civil_month b = (y' + era' * 400 + (if mp' < 10 then 0 else 1), if mp' < 10 then mp' + 3 else mp' - 9)"
    by (rule civil_month_parts [of b])
  have same: "mp = mp'" using assms mp(1,2) mp'(1,2) unfolding civil civil' by (simp split: if_splits)
  with assms have "y + era * 400 = y' + era' * 400" unfolding civil civil' by simp
  moreover from this have "(y + era * 400) mod 400 = (y' + era' * 400) mod 400" by simp
  then have "y = y'" using y y' by simp
  ultimately have "era = era'" "y = y'" by simp_all
  moreover have "\<bar>t - t'\<bar> \<le> 30" using mp(3,4) mp'(3,4) same by linarith
  ultimately show ?thesis unfolding a b by simp
qed

end
