(* ===== verification/Performance.thy ===== *)
theory Performance
  imports Civil_Years "HOL-Library.Sublist"
begin

text \<open>
  The performance figures of a finished run (\<^verbatim>\<open>statistics/performance.py\<close>). A value of a series is a
  number, an infinity or no number, as in numpy; numbers are reals, because the code takes
  logarithms, exponentials and roots. Negative zero is not told apart from zero. A series indexed by time is the list of
  its dates and values.
\<close>

section \<open>Numbers of a series\<close>

datatype np_float = Num real | Pos_inf | Neg_inf | Not_num

fun np_add :: "np_float \<Rightarrow> np_float \<Rightarrow> np_float" where
  "np_add (Num a) (Num b) = Num (a + b)"
| "np_add Not_num y = Not_num"
| "np_add x Not_num = Not_num"
| "np_add Pos_inf Neg_inf = Not_num"
| "np_add Neg_inf Pos_inf = Not_num"
| "np_add Pos_inf y = Pos_inf"
| "np_add Neg_inf y = Neg_inf"
| "np_add (Num a) y = y"

fun np_neg :: "np_float \<Rightarrow> np_float" where
  "np_neg (Num a) = Num (- a)"
| "np_neg Pos_inf = Neg_inf"
| "np_neg Neg_inf = Pos_inf"
| "np_neg Not_num = Not_num"

definition signed_inf :: "real \<Rightarrow> np_float" where
  "signed_inf s = (if 0 < s then Pos_inf else if s < 0 then Neg_inf else Not_num)"

definition np_sign :: "np_float \<Rightarrow> real" where
  "np_sign x = (case x of Num a \<Rightarrow> sgn a | Pos_inf \<Rightarrow> 1 | Neg_inf \<Rightarrow> - 1 | Not_num \<Rightarrow> 0)"

definition np_mul :: "np_float \<Rightarrow> np_float \<Rightarrow> np_float" where
  "np_mul x y = (case (x, y) of (Num a, Num b) \<Rightarrow> Num (a * b)
     | _ \<Rightarrow> if x = Not_num \<or> y = Not_num then Not_num else signed_inf (np_sign x * np_sign y))"

fun np_div :: "np_float \<Rightarrow> np_float \<Rightarrow> np_float" where
  "np_div (Num a) (Num b) = (if b = 0 then signed_inf a else Num (a / b))"
| "np_div Not_num y = Not_num"
| "np_div x Not_num = Not_num"
| "np_div (Num a) y = Num 0"
| "np_div x (Num b) = (if b < 0 then np_neg x else x)"
| "np_div x y = Not_num"

fun np_log :: "np_float \<Rightarrow> np_float" where
  "np_log (Num a) = (if 0 < a then Num (ln a) else if a = 0 then Neg_inf else Not_num)"
| "np_log Pos_inf = Pos_inf"
| "np_log Neg_inf = Not_num"
| "np_log Not_num = Not_num"

fun np_exp :: "np_float \<Rightarrow> np_float" where
  "np_exp (Num a) = Num (exp a)"
| "np_exp Pos_inf = Pos_inf"
| "np_exp Neg_inf = Num 0"
| "np_exp Not_num = Not_num"

fun np_sqrt :: "np_float \<Rightarrow> np_float" where
  "np_sqrt (Num a) = (if a < 0 then Not_num else Num (sqrt a))"
| "np_sqrt Pos_inf = Pos_inf"
| "np_sqrt Neg_inf = Not_num"
| "np_sqrt Not_num = Not_num"

text \<open>\<^verbatim>\<open>x ** e\<close> for an exponent other than zero; a negative base wants a whole one.\<close>

definition np_pow :: "np_float \<Rightarrow> real \<Rightarrow> np_float" where
  "np_pow x e = (case x of
     Num b \<Rightarrow> (if 0 < b then Num (b powr e)
       else if b = 0 then (if 0 < e then Num 0 else Pos_inf)
       else if of_int \<lfloor>e\<rfloor> = e then Num (b powi \<lfloor>e\<rfloor>) else Not_num)
   | Pos_inf \<Rightarrow> (if 0 < e then Pos_inf else Num 0)
   | Neg_inf \<Rightarrow> (if e < 0 then Num 0 else if of_int \<lfloor>e\<rfloor> = e \<and> odd \<lfloor>e\<rfloor> then Neg_inf else Pos_inf)
   | Not_num \<Rightarrow> Not_num)"

text \<open>\<^verbatim>\<open>a < b\<close>, false where either is no number.\<close>

fun np_less :: "np_float \<Rightarrow> np_float \<Rightarrow> bool" where
  "np_less (Num a) (Num b) \<longleftrightarrow> a < b"
| "np_less (Num a) Pos_inf \<longleftrightarrow> True"
| "np_less Neg_inf (Num b) \<longleftrightarrow> True"
| "np_less Neg_inf Pos_inf \<longleftrightarrow> True"
| "np_less x y \<longleftrightarrow> False"

section \<open>Returns\<close>

text \<open>\<^verbatim>\<open>cumsum()\<close> of a series: a place that is no number stays one and adds nothing.\<close>

fun cumsum_from :: "np_float \<Rightarrow> np_float list \<Rightarrow> np_float list" where
  "cumsum_from acc [] = []"
| "cumsum_from acc (x # xs) =
     (if x = Not_num then Not_num # cumsum_from acc xs
      else np_add acc x # cumsum_from (np_add acc x) xs)"

text \<open>\<^verbatim>\<open>np.exp(np.log(1 + x).cumsum())\<close>\<close>

definition cum_returns :: "np_float list \<Rightarrow> np_float list" where
  "cum_returns rs = map np_exp (cumsum_from (Num 0) (map (\<lambda>r. np_log (np_add (Num 1) r)) rs))"

text \<open>\<^verbatim>\<open>pct_change().fillna(0.0)\<close>\<close>

definition fillna :: "np_float \<Rightarrow> np_float" where
  "fillna x = (if x = Not_num then Num 0 else x)"

fun pct_changes :: "real \<Rightarrow> real list \<Rightarrow> np_float list" where
  "pct_changes a [] = []"
| "pct_changes a (b # bs) = fillna (np_add (np_div (Num b) (Num a)) (Num (- 1))) # pct_changes b bs"

definition returns_of :: "real list \<Rightarrow> np_float list" where
  "returns_of es = (case es of [] \<Rightarrow> [] | a # bs \<Rightarrow> Num 0 # pct_changes a bs)"

section \<open>Aggregation\<close>

text \<open>\<^verbatim>\<open>isocalendar()[1]\<close>: the week belongs to the year of its Thursday.\<close>

definition iso_week :: "int \<Rightarrow> int" where
  "iso_week d = (let thursday = d - weekday d + 3 in (thursday - jan_first (fst (civil_month thursday))) div 7 + 1)"

definition period_key :: "string \<Rightarrow> exn + (int \<Rightarrow> int list)" where
  "period_key convert_to =
    (if convert_to = ''weekly'' then Inr (\<lambda>d. [fst (civil_month d), snd (civil_month d), iso_week d])
     else if convert_to = ''monthly'' then Inr (\<lambda>d. [fst (civil_month d), snd (civil_month d)])
     else if convert_to = ''yearly'' then Inr (\<lambda>d. [fst (civil_month d)])
     else Inl ValueError)"

definition cumulate_returns :: "np_float list \<Rightarrow> np_float" where
  "cumulate_returns x = np_add (last (cum_returns x)) (Num (- 1))"

text \<open>The groups of a \<^verbatim>\<open>groupby\<close>, in the order of their keys.\<close>

definition groups_by :: "(int \<Rightarrow> int list) \<Rightarrow> (int \<times> 'v) list \<Rightarrow> (int list \<times> 'v list) list" where
  "groups_by key xs = map (\<lambda>k. (k, map snd (filter (\<lambda>(d, v). key d = k) xs))) (sort (remdups (map (key \<circ> fst) xs)))"

definition aggregate_returns :: "(int \<times> np_float) list \<Rightarrow> string \<Rightarrow> exn + (int list \<times> np_float) list" where
  "aggregate_returns returns convert_to = and_then (period_key convert_to)
     (\<lambda>key. Inr (map (\<lambda>(k, rs). (k, cumulate_returns rs)) (groups_by key returns)))"

section \<open>Ratios\<close>

definition create_cagr :: "np_float list \<Rightarrow> int \<Rightarrow> exn + np_float" where
  "create_cagr equity periods =
    (if periods = 0 then Inl ZeroDivisionError
     else if equity = [] then Inl IndexError
     else (let years = of_nat (length equity) / of_int periods in
       Inr (np_add (np_pow (last equity) (1 / years)) (Num (- 1)))))"

text \<open>\<^verbatim>\<open>np.mean\<close> and \<^verbatim>\<open>np.std\<close> of a series leave out what is no number; the deviation is that of the population.\<close>

definition np_average :: "np_float list \<Rightarrow> np_float" where
  "np_average xs = np_div (foldl np_add (Num 0) xs) (Num (of_nat (length xs)))"

definition series_mean :: "np_float list \<Rightarrow> np_float" where
  "series_mean xs = np_average (filter (\<lambda>x. x \<noteq> Not_num) xs)"

definition series_std :: "np_float list \<Rightarrow> np_float" where
  "series_std xs = (let ys = filter (\<lambda>x. x \<noteq> Not_num) xs; m = np_average ys in
     np_sqrt (np_average (map (\<lambda>y. let d = np_add y (np_neg m) in np_mul d d) ys)))"

definition create_sharpe_ratio :: "np_float list \<Rightarrow> int \<Rightarrow> np_float" where
  "create_sharpe_ratio returns periods =
    np_div (np_mul (np_sqrt (Num (of_int periods))) (series_mean returns)) (series_std returns)"

definition create_sortino_ratio :: "np_float list \<Rightarrow> int \<Rightarrow> np_float" where
  "create_sortino_ratio returns periods =
    np_div (np_mul (np_sqrt (Num (of_int periods))) (series_mean returns))
      (series_std (filter (\<lambda>r. np_less r (Num 0)) returns))"

section \<open>Drawdowns\<close>

definition py_max :: "np_float \<Rightarrow> np_float \<Rightarrow> np_float" where
  "py_max a b = (if np_less a b then b else a)"

fun high_water :: "np_float \<Rightarrow> np_float list \<Rightarrow> np_float list" where
  "high_water h [] = []"
| "high_water h (e # es) = py_max h e # high_water (py_max h e) es"

text \<open>\<^verbatim>\<open>itertools.groupby\<close>: the runs of equal values.\<close>

function runs :: "'a list \<Rightarrow> 'a list list" where
  "runs [] = []"
| "runs (x # xs) = (x # takeWhile (\<lambda>y. y = x) xs) # runs (dropWhile (\<lambda>y. y = x) xs)"
  by pat_completeness auto

termination
  by (relation "measure length") (auto simp: less_Suc_eq_le length_dropWhile_le)

text \<open>\<^verbatim>\<open>np.max\<close> of a series\<close>

definition np_max :: "np_float list \<Rightarrow> np_float" where
  "np_max xs = (case filter (\<lambda>x. x \<noteq> Not_num) xs of [] \<Rightarrow> Not_num | y # ys \<Rightarrow> foldl py_max y ys)"

definition duration_check :: "np_float list \<Rightarrow> nat list" where
  "duration_check drawdown = map (\<lambda>d. if d = Num 0 then 0 else 1) drawdown"

definition longest_run :: "nat list \<Rightarrow> nat" where
  "longest_run flags = Max (set (map (\<lambda>g. length (filter (\<lambda>i. i = 1) g)) (runs flags)))"

definition create_drawdowns :: "np_float list \<Rightarrow> exn + np_float list \<times> np_float \<times> nat" where
  "create_drawdowns equity = (case equity of [] \<Rightarrow> Inl IndexError
     | e # es \<Rightarrow>
       (let hwm = e # high_water e es;
            drawdown = map (\<lambda>(h, x). np_div (np_add h (np_neg x)) h) (zip hwm equity) in
        Inr (drawdown, np_max drawdown, longest_run (duration_check drawdown))))"

section \<open>The normalised curve\<close>

lemma cum_from_pct:
  assumes "0 < a" and "\<forall>b \<in> set bs. 0 < b"
  shows "map np_exp (cumsum_from (Num s) (map (\<lambda>r. np_log (np_add (Num 1) r)) (pct_changes a bs))) =
    map (\<lambda>b. Num (exp s * b / a)) bs"
  using assms
proof (induction bs arbitrary: a s)
  case (Cons b bs)
  have b: "0 < b" using Cons.prems by simp
  then have "exp (s + ln (b / a)) = exp s * b / a" using Cons.prems(1) by (simp add: exp_add)
  with b Cons show ?case by (simp add: fillna_def)
qed simp

text \<open>
  The cumulative returns are the equity curve divided by its first value: the changes, their
  logarithms, the running sum and the exponential cancel out, for every curve above zero.
\<close>

theorem cumulative_returns_normalise_the_curve:
  assumes "es \<noteq> []" and "\<forall>e \<in> set es. 0 < e"
  shows "cum_returns (returns_of es) = map (\<lambda>e. Num (e / hd es)) es"
proof -
  obtain a bs where es: "es = a # bs" using assms(1) by (cases es) auto
  then show ?thesis using assms(2) cum_from_pct [of a bs 0] by (simp add: cum_returns_def returns_of_def)
qed

theorem cumulative_returns_normalise_the_curve_witness:
  "cum_returns (returns_of [200, 250, 150]) = [Num 1, Num (5 / 4), Num (3 / 4)]"
  using cumulative_returns_normalise_the_curve [of "[200, 250, 150]"] by simp

section \<open>Runs\<close>

lemma runs_constant: "g \<in> set (runs xs) \<Longrightarrow> y \<in> set g \<Longrightarrow> y = hd g"
proof (induction xs rule: runs.induct)
  case (2 x xs)
  show ?case
  proof (cases "g = x # takeWhile (\<lambda>y. y = x) xs")
    case True
    then show ?thesis using 2(3) set_takeWhileD [of y "\<lambda>y. y = x" xs] by auto
  next
    case False
    then show ?thesis using 2 by simp
  qed
qed simp

lemma runs_sublist: "g \<in> set (runs xs) \<Longrightarrow> sublist g xs"
proof (induction xs rule: runs.induct)
  case (2 x xs)
  define pre post where "pre = x # takeWhile (\<lambda>y. y = x) xs" and "post = dropWhile (\<lambda>y. y = x) xs"
  have split: "x # xs = pre @ post" by (simp add: pre_def post_def)
  consider "g = pre" | "g \<in> set (runs post)" using 2(2) by (auto simp: pre_def post_def)
  then show ?case
  proof cases
    case 1
    then show ?thesis unfolding split by simp
  next
    case 2
    then obtain ps ss where "post = ps @ g @ ss" using "2.IH" by (auto simp: post_def sublist_def)
    then have "pre @ post = (pre @ ps) @ g @ ss" by simp
    then show ?thesis unfolding split sublist_def by blast
  qed
qed simp

lemma constant_sublist_in_run:
  assumes "sublist r xs" and "\<forall>y \<in> set r. y = c" and "r \<noteq> []"
  shows "\<exists>g \<in> set (runs xs). hd g = c \<and> length r \<le> length g"
  using assms
proof (induction xs rule: runs.induct)
  case (2 x xs)
  define g rest where "g = x # takeWhile (\<lambda>y. y = x) xs" and "rest = dropWhile (\<lambda>y. y = x) xs"
  have "sublist r (g @ rest)" using 2(2) by (simp add: g_def rest_def)
  then consider "sublist r g" | "sublist r rest" | r1 r2 where "r = r1 @ r2" "suffix r1 g" "prefix r2 rest" "r1 \<noteq> []" "r2 \<noteq> []"
    by (auto simp: sublist_append) (metis append_Nil append_Nil2 prefix_imp_sublist suffix_imp_sublist)
  then show ?case
  proof cases
    case 1
    moreover have "hd r \<in> set r" using 2 by simp
    moreover have "set r \<subseteq> set g" "length r \<le> length g"
      using 1 by (simp_all add: set_mono_sublist sublist_length_le)
    moreover have "\<forall>y \<in> set g. y = x" by (auto simp: g_def dest: set_takeWhileD)
    ultimately have "x = c" using 2(3) by auto
    then show ?thesis using \<open>length r \<le> length g\<close> by (simp add: g_def)
  next
    case 2
    then show ?thesis using "2.IH" "2.prems" by (auto simp: rest_def)
  next
    case 3
    have "hd r2 = c" "last r1 = c" using 3 2(3) by auto
    moreover have "last r1 \<in> set g" using set_mono_suffix [OF 3(2)] last_in_set [OF 3(4)] by blast
    then have "last r1 = x" by (auto simp: g_def dest: set_takeWhileD)
    moreover have "hd r2 = hd rest" "rest \<noteq> []" using 3 by (auto simp: prefix_def)
    ultimately show ?thesis using hd_dropWhile [of "\<lambda>y. y = x" xs] by (simp add: rest_def)
  qed
qed simp

lemma runs_Nil_iff [simp]: "runs xs = [] \<longleftrightarrow> xs = []"
  by (cases xs) simp_all

lemma longest_run_bound:
  assumes "sublist r flags" and "\<forall>y \<in> set r. y = 1" and "r \<noteq> []"
  shows "length r \<le> longest_run flags"
proof -
  obtain g where g: "g \<in> set (runs flags)" "hd g = 1" "length r \<le> length g"
    using constant_sublist_in_run [OF assms] by blast
  then have "filter (\<lambda>i. i = 1) g = g" using runs_constant [OF g(1)] by (simp add: filter_id_conv)
  moreover have "length (filter (\<lambda>i. i = 1) g) \<le> longest_run flags"
    unfolding longest_run_def using g(1) by (intro Max_ge) simp_all
  ultimately show ?thesis using g(3) by simp
qed

lemma longest_run_attained:
  assumes "flags \<noteq> []"
  shows "\<exists>r. sublist r flags \<and> (\<forall>y \<in> set r. y = 1) \<and> length r = longest_run flags"
proof -
  have "longest_run flags \<in> set (map (\<lambda>g. length (filter (\<lambda>i. i = 1) g)) (runs flags))"
    unfolding longest_run_def using assms by (intro Max_in) simp_all
  then obtain g where g: "g \<in> set (runs flags)" "longest_run flags = length (filter (\<lambda>i. i = 1) g)" by auto
  show ?thesis
  proof (cases "hd g = 1")
    case True
    then have "filter (\<lambda>i. i = 1) g = g" using runs_constant [OF g(1)] by (simp add: filter_id_conv)
    with g runs_sublist runs_constant [OF g(1)] True show ?thesis by (intro exI [of _ g]) simp
  next
    case False
    then have "filter (\<lambda>i. i = 1) g = []" using runs_constant [OF g(1)] by (auto simp: filter_empty_conv)
    with g show ?thesis by (intro exI [of _ "[]"]) simp
  qed
qed

section \<open>The peak\<close>

definition peak :: "real list \<Rightarrow> nat \<Rightarrow> real" where
  "peak es i = Max (set (take (Suc i) es))"

definition fall :: "real list \<Rightarrow> nat \<Rightarrow> real" where
  "fall es i = (peak es i - es ! i) / peak es i"

lemma py_max_Num [simp]: "py_max (Num a) (Num b) = Num (max a b)"
  by (simp add: py_max_def max_def)

lemma Max_insert_max: "finite A \<Longrightarrow> Max (insert (max h e) A) = Max (insert h (insert e A))" for h e :: real
  by (cases "A = {}") (simp_all add: max.assoc max.left_commute)

lemma high_water_Num:
  "high_water (Num h) (map Num es) = map (\<lambda>i. Num (Max (insert h (set (take (Suc i) es))))) [0..<length es]"
proof (induction es arbitrary: h)
  case (Cons e es)
  have "[0..<length (e # es)] = 0 # map Suc [0..<length es]"
    by (simp add: map_Suc_upt upt_conv_Cons del: upt_Suc)
  then show ?case
    by (simp only: high_water.simps list.map py_max_Num Cons.IH map_map comp_def take_Suc_Cons list.set Max_insert_max finite_set)
      (simp add: Max_insert2)
qed simp

lemma np_max_Num: "xs \<noteq> [] \<Longrightarrow> np_max (map Num xs) = Num (Max (set xs))"
proof -
  have fold: "foldl py_max (Num a) (map Num ys) = Num (Max (insert a (set ys)))" for a ys
    by (induction ys arbitrary: a) (simp_all only: foldl.simps list.map py_max_Num Max_insert_max finite_set list.set, simp)
  assume "xs \<noteq> []"
  then obtain a ys where "xs = a # ys" by (cases xs) auto
  then show ?thesis by (simp add: np_max_def fold comp_def)
qed

lemma peak_bounds:
  assumes "i < length es" and "\<forall>e \<in> set es. 0 < e"
  shows "0 < es ! i" and "es ! i \<le> peak es i"
proof -
  show "0 < es ! i" using assms by simp
  have "take (Suc i) es = take i es @ [es ! i]" using assms(1) by (rule take_Suc_conv_app_nth)
  then show "es ! i \<le> peak es i" by (simp add: peak_def)
qed

lemma fall_range:
  assumes "i < length es" and "\<forall>e \<in> set es. 0 < e"
  shows "0 \<le> fall es i" and "fall es i < 1" and "fall es i = 0 \<longleftrightarrow> es ! i = peak es i"
proof -
  have "0 < es ! i" "es ! i \<le> peak es i" using peak_bounds [OF assms] by simp_all
  then show "0 \<le> fall es i" "fall es i < 1" "fall es i = 0 \<longleftrightarrow> es ! i = peak es i"
    by (auto simp: fall_def field_simps)
qed

lemma drawdowns_Num:
  assumes "es \<noteq> []" and "\<forall>e \<in> set es. 0 < e"
  shows "create_drawdowns (map Num es) = Inr (map (\<lambda>i. Num (fall es i)) [0..<length es],
    Num (Max (fall es ` {..<length es})), longest_run (map (\<lambda>i. if fall es i = 0 then 0 else 1) [0..<length es]))"
proof -
  obtain a bs where es: "es = a # bs" using assms(1) by (cases es) auto
  define draw where "draw = map (\<lambda>i. Num (fall es i)) [0..<length es]"
  have "Num a # high_water (Num a) (map Num bs) = map (\<lambda>i. Num (peak es i)) [0..<length es]"
  proof (rule nth_equalityI)
    show "length (Num a # high_water (Num a) (map Num bs)) = length (map (\<lambda>i. Num (peak es i)) [0..<length es])"
      by (simp add: es high_water_Num)
    fix i assume "i < length (Num a # high_water (Num a) (map Num bs))"
    then have "i < length es" by (simp add: es high_water_Num)
    then show "(Num a # high_water (Num a) (map Num bs)) ! i = map (\<lambda>i. Num (peak es i)) [0..<length es] ! i"
      by (cases i) (simp_all add: es peak_def high_water_Num del: upt_Suc)
  qed
  then have "map (\<lambda>(h, x). np_div (np_add h (np_neg x)) h) (zip (Num a # high_water (Num a) (map Num bs)) (map Num es)) =
      map (\<lambda>(h, x). np_div (np_add h (np_neg x)) h) (zip (map (\<lambda>i. Num (peak es i)) [0..<length es]) (map Num es))"
    by (rule arg_cong)
  also have "\<dots> = draw"
  proof (rule nth_equalityI)
    fix i assume "i < length (map (\<lambda>(h, x). np_div (np_add h (np_neg x)) h) (zip (map (\<lambda>i. Num (peak es i)) [0..<length es]) (map Num es)))"
    then have i: "i < length es" by simp
    moreover have "0 < peak es i" using peak_bounds [OF i assms(2)] by simp
    ultimately show "map (\<lambda>(h, x). np_div (np_add h (np_neg x)) h) (zip (map (\<lambda>i. Num (peak es i)) [0..<length es]) (map Num es)) ! i = draw ! i"
      by (simp add: draw_def fall_def)
  qed (simp add: draw_def)
  finally have draw: "map (\<lambda>(h, x). np_div (np_add h (np_neg x)) h) (zip (Num a # high_water (Num a) (map Num bs)) (map Num es)) = draw" .
  have "create_drawdowns (map Num es) = Inr (draw, np_max draw, longest_run (duration_check draw))"
    using draw unfolding es list.map create_drawdowns_def list.case Let_def by simp
  moreover have "np_max draw = Num (Max (fall es ` {..<length es}))"
    using np_max_Num [of "map (fall es) [0..<length es]"] assms(1)
    by (simp add: draw_def comp_def atLeast0LessThan [symmetric] atLeast_upt)
  moreover have "duration_check draw = map (\<lambda>i. if fall es i = 0 then 0 else 1) [0..<length es]"
    by (simp add: duration_check_def draw_def)
  ultimately show ?thesis by (simp add: draw_def)
qed

text \<open>Under water for \<open>n\<close> points from the \<open>i\<close>-th on.\<close>

definition under_water :: "real list \<Rightarrow> nat \<Rightarrow> nat \<Rightarrow> bool" where
  "under_water es i n \<longleftrightarrow> i + n \<le> length es \<and> (\<forall>j < n. es ! (i + j) < peak es (i + j))"

lemma under_water_flags:
  assumes "\<forall>e \<in> set es. 0 < e" and "i + n \<le> length es"
  shows "under_water es i n \<longleftrightarrow>
    (\<forall>y \<in> set (take n (drop i (map (\<lambda>i. if fall es i = 0 then 0 else 1) [0..<length es]))). y = (1 :: nat))"
proof -
  let ?flag = "\<lambda>i. if fall es i = 0 then 0 else (1 :: nat)"
  have flag: "?flag k = 1 \<longleftrightarrow> es ! k < peak es k" if "k < length es" for k
    using fall_range(3) [OF that assms(1)] peak_bounds(2) [OF that assms(1)] by auto
  have "take n (drop i (map ?flag [0..<length es])) = map ?flag [i..<i + n]"
    using assms(2) by (simp add: drop_map take_map)
  also have "(\<forall>y \<in> set (map ?flag [i..<i + n]). y = 1) \<longleftrightarrow> (\<forall>k \<in> {i..<i + n}. ?flag k = 1)"
    unfolding set_map set_upt ball_simps by (rule refl)
  also have "\<dots> \<longleftrightarrow> (\<forall>k \<in> {i..<i + n}. es ! k < peak es k)"
  proof (rule ball_cong [OF refl])
    fix k assume "k \<in> {i..<i + n}"
    then show "?flag k = 1 \<longleftrightarrow> es ! k < peak es k" using assms(2) by (intro flag) simp
  qed
  also have "\<dots> \<longleftrightarrow> (\<forall>j < n. es ! (i + j) < peak es (i + j))"
  proof (intro iffI allI impI ballI)
    fix k assume "\<forall>j < n. es ! (i + j) < peak es (i + j)" and "k \<in> {i..<i + n}"
    then show "es ! k < peak es k" by (elim allE [of _ "k - i"]) auto
  qed simp
  finally show ?thesis using assms(2) by (simp add: under_water_def)
qed

text \<open>
  C35. The drawdown of a curve above zero is at every point the fall from the highest value so far,
  from zero up to but not one; the maximum is the deepest of them; and the duration is the length of
  the longest stretch below the peak: there is one of that length, and none is longer.
\<close>

theorem drawdowns_measure_the_fall_from_the_peak:
  assumes "es \<noteq> []" and "\<forall>e \<in> set es. 0 < e"
  shows "\<exists>dur. create_drawdowns (map Num es) =
      Inr (map (\<lambda>i. Num (fall es i)) [0..<length es], Num (Max (fall es ` {..<length es})), dur) \<and>
    (\<forall>i < length es. 0 \<le> fall es i \<and> fall es i < 1) \<and>
    (\<exists>i. under_water es i dur) \<and> (\<forall>i n. under_water es i n \<longrightarrow> n \<le> dur)"
proof -
  define flags where "flags = map (\<lambda>i. if fall es i = 0 then 0 else (1 :: nat)) [0..<length es]"
  have len: "length flags = length es" by (simp add: flags_def)
  have run: "create_drawdowns (map Num es) =
      Inr (map (\<lambda>i. Num (fall es i)) [0..<length es], Num (Max (fall es ` {..<length es})), longest_run flags)"
    unfolding flags_def by (rule drawdowns_Num [OF assms])
  have "flags \<noteq> []" using assms(1) len by auto
  then obtain r where r: "sublist r flags" "\<forall>y \<in> set r. y = 1" "length r = longest_run flags"
    using longest_run_attained by blast
  then obtain ps ss where "flags = ps @ r @ ss" by (auto simp: sublist_def)
  then have "take (longest_run flags) (drop (length ps) flags) = r" "length ps + longest_run flags \<le> length es"
    using r(3) len by auto
  then have "under_water es (length ps) (longest_run flags)"
    using r(2) under_water_flags [OF assms(2)] by (simp add: flags_def)
  moreover have "n \<le> longest_run flags" if "under_water es i n" for i n
  proof (cases "n = 0")
    case False
    have le: "i + n \<le> length es" using that by (simp add: under_water_def)
    have "sublist (take n (drop i flags)) flags"
      unfolding sublist_def by (metis append_take_drop_id)
    moreover have "\<forall>y \<in> set (take n (drop i flags)). y = 1"
      using that under_water_flags [OF assms(2) le] by (simp add: flags_def)
    moreover have "length (take n (drop i flags)) = n" using le len by simp
    ultimately show ?thesis using longest_run_bound [of "take n (drop i flags)" flags] False by auto
  qed simp
  ultimately show ?thesis using run fall_range [OF _ assms(2)] by blast
qed

theorem drawdowns_measure_the_fall_from_the_peak_witness:
  "\<exists>draw deepest dur. create_drawdowns (map Num [1, 5 / 4, 1, 3 / 4]) = Inr (draw, deepest, dur) \<and> 2 \<le> dur"
proof -
  let ?es = "[1, 5 / 4, 1, 3 / 4] :: real list"
  have "?es ! (2 + j) < peak ?es (2 + j)" if "j < 2" for j
    using that by (cases j) (simp_all add: peak_def)
  then have "under_water ?es 2 2" by (simp add: under_water_def)
  moreover have "?es \<noteq> []" "\<forall>e \<in> set ?es. 0 < e" by simp_all
  ultimately show ?thesis using drawdowns_measure_the_fall_from_the_peak [of ?es] by blast
qed

section \<open>Compounding\<close>

lemma cumsum_logs:
  assumes "\<forall>r \<in> set rs. - 1 < r" and "rs \<noteq> []"
  shows "last (map np_exp (cumsum_from (Num s) (map (\<lambda>r. np_log (np_add (Num 1) r)) (map Num rs)))) =
    Num (exp s * prod_list (map (\<lambda>r. 1 + r) rs))"
  using assms
proof (induction rs arbitrary: s)
  case (Cons r rs)
  have "0 < 1 + r" using Cons.prems by simp
  then have "exp (s + ln (1 + r)) = exp s * (1 + r)" by (simp add: exp_add)
  with Cons \<open>0 < 1 + r\<close> show ?case
    by (cases "rs = []") (auto simp: mult.assoc neq_Nil_conv)
qed simp

lemma cumulate_returns_Num:
  assumes "\<forall>r \<in> set rs. - 1 < r" and "rs \<noteq> []"
  shows "cumulate_returns (map Num rs) = Num (prod_list (map (\<lambda>r. 1 + r) rs) - 1)"
  using cumsum_logs [OF assms, of 0] by (simp add: cumulate_returns_def cum_returns_def del: map_map)

lemma prod_groups:
  fixes g :: "'a \<Rightarrow> real"
  assumes "finite K" and "key ` set xs \<subseteq> K"
  shows "(\<Prod>k\<in>K. prod_list (map g (filter (\<lambda>x. key x = k) xs))) = prod_list (map g xs)"
  using assms(2)
proof (induction xs)
  case (Cons x xs)
  have "(\<Prod>k\<in>K. prod_list (map g (filter (\<lambda>x. key x = k) (x # xs)))) =
      (\<Prod>k\<in>K. (if k = key x then g x else 1) * prod_list (map g (filter (\<lambda>x. key x = k) xs)))"
    by (intro prod.cong) auto
  also have "\<dots> = g x * prod_list (map g xs)"
    using Cons assms(1) by (simp add: prod.distrib prod.delta)
  finally show ?case by simp
qed simp

section \<open>Periods\<close>

definition monday :: "int \<Rightarrow> int" where
  "monday d = d - weekday d"

text \<open>Two days of one year; of one month; of one month and one week, from Monday to Sunday.\<close>

definition same_period :: "string \<Rightarrow> int \<Rightarrow> int \<Rightarrow> bool" where
  "same_period convert_to d e \<longleftrightarrow>
    (if convert_to = ''yearly'' then \<exists>y. in_year d y \<and> in_year e y
     else if convert_to = ''monthly'' then civil_month d = civil_month e
     else civil_month d = civil_month e \<and> monday d = monday e)"

text \<open>The label of a day's period: its year, its month, and the week of the year its Thursday lies in.\<close>

definition labels :: "string \<Rightarrow> int list \<Rightarrow> int \<Rightarrow> bool" where
  "labels convert_to k d \<longleftrightarrow> (\<exists>y. in_year d y \<and>
    (if convert_to = ''yearly'' then k = [y]
     else if convert_to = ''monthly'' then k = [y, snd (civil_month d)]
     else \<exists>w z. k = [y, snd (civil_month d), w] \<and> in_year (monday d + 3) z \<and>
       jan_first z + 7 * (w - 1) \<le> monday d + 3 \<and> monday d + 3 < jan_first z + 7 * w))"

lemma monday_week: "monday d = 7 * ((d + 3) div 7) - 3"
  by (simp add: monday_def weekday_def minus_mod_eq_mult_div [symmetric])

lemma iso_week_of: "in_year (monday d + 3) z \<Longrightarrow> iso_week d = (monday d + 3 - jan_first z) div 7 + 1"
  by (simp add: iso_week_def Let_def monday_def flip: civil_year_iff)

lemma iso_week_range:
  assumes "in_year (monday d + 3) z"
  shows "jan_first z + 7 * (iso_week d - 1) \<le> monday d + 3" and "monday d + 3 < jan_first z + 7 * iso_week d"
proof -
  define x where "x = monday d + 3 - jan_first z"
  have "7 * (x div 7) \<le> x" "x < 7 * (x div 7) + 7" by presburger+
  then show "jan_first z + 7 * (iso_week d - 1) \<le> monday d + 3" "monday d + 3 < jan_first z + 7 * iso_week d"
    by (simp_all add: iso_week_of [OF assms] flip: x_def) (simp_all add: x_def)
qed

text \<open>The weeks that meet one month have different numbers, also around the turn of a year.\<close>

lemma iso_week_less:
  assumes "monday d < monday e" and "monday e \<le> monday d + 35"
  shows "iso_week d \<noteq> iso_week e"
proof -
  obtain y z where in_years: "in_year (monday d + 3) y" "in_year (monday e + 3) z" using in_civil_year by blast
  note d = iso_week_range [OF in_years(1)] and e = iso_week_range [OF in_years(2)]
  consider "y = z" | "y + 1 \<le> z" | "z + 1 \<le> y" by linarith
  then show ?thesis
  proof cases
    case 1
    have "monday d + 7 \<le> monday e" using assms(1) by (simp add: monday_week)
    with d e 1 show ?thesis by auto
  next
    case 2
    then have "jan_first (y + 1) \<le> jan_first z" by (rule jan_first_mono)
    with d e assms(2) in_years jan_first_step_ge [of y] show ?thesis by (auto simp: in_year_def)
  next
    case 3
    then have "jan_first (z + 1) \<le> jan_first y" by (rule jan_first_mono)
    with assms(1) in_years show ?thesis by (auto simp: in_year_def)
  qed
qed

lemma iso_week_monday:
  assumes "civil_month d = civil_month e"
  shows "iso_week d = iso_week e \<longleftrightarrow> monday d = monday e"
proof
  assume eq: "iso_week d = iso_week e"
  have "(x + 3) div 7 \<le> (y + 3) div 7 + 5" if "x \<le> y + 30" for x y :: int
    using zdiv_mono1 [of "x + 3" "y + 3 + 35" 7] that by simp
  from this [of d e] this [of e d] have "\<bar>monday d - monday e\<bar> \<le> 35"
    using same_month_near [OF assms] by (simp add: monday_week abs_le_iff)
  with eq show "monday d = monday e"
    using iso_week_less [of d e] iso_week_less [of e d] by (cases "monday d" "monday e" rule: linorder_cases) auto
next
  assume "monday d = monday e"
  then show "iso_week d = iso_week e" by (simp add: iso_week_def Let_def flip: monday_def)
qed

lemma period_keys:
  assumes "period_key convert_to = Inr key"
  shows "key d = key e \<longleftrightarrow> same_period convert_to d e" and "labels convert_to (key d) d"
proof -
  consider "convert_to = ''weekly''" "key = (\<lambda>d. [fst (civil_month d), snd (civil_month d), iso_week d])"
    | "convert_to = ''monthly''" "key = (\<lambda>d. [fst (civil_month d), snd (civil_month d)])"
    | "convert_to = ''yearly''" "key = (\<lambda>d. [fst (civil_month d)])"
    using assms by (auto simp: period_key_def split: if_splits)
  then show "key d = key e \<longleftrightarrow> same_period convert_to d e"
  proof cases
    case 1
    have "key d = key e \<longleftrightarrow> civil_month d = civil_month e \<and> iso_week d = iso_week e"
      by (auto simp: 1(2) prod_eq_iff)
    with iso_week_monday [of d e] show ?thesis by (auto simp: 1(1) same_period_def)
  next
    case 2
    then show ?thesis by (simp add: same_period_def prod_eq_iff)
  next
    case 3
    then show ?thesis using civil_year_iff in_civil_year by (auto simp: same_period_def) metis
  qed
  note week = in_civil_year [of "monday d + 3"]
  from assms show "labels convert_to (key d) d"
    using in_civil_year [of d] week iso_week_range [OF week]
    by (auto simp: labels_def period_key_def split: if_splits)
qed

text \<open>
  C36. Aggregating by week, month or year groups the days of one period, and only those, and compounds
  them. There is one row for every period with a return, and none other: its label is the year, the
  month and the ISO week of the period, its return compounds to what the daily returns of the period
  compound to. A period is a year, a month, or what of a week lies in one month. The rows come in the
  order of the labels, each once, and together compound to what all the daily returns compound to.
\<close>

theorem aggregation_compounds_to_the_whole:
  fixes returns :: "(int \<times> real) list" and convert_to
  defines "growth \<equiv> \<lambda>d. prod_list (map (\<lambda>(e, r). 1 + r) (filter (\<lambda>(e, r). same_period convert_to d e) returns))"
  assumes "\<forall>(d, r) \<in> set returns. - 1 < r"
    and "aggregate_returns (map (\<lambda>(d, r). (d, Num r)) returns) convert_to = Inr out"
  shows "\<exists>days. list_all2 (\<lambda>(k, x) d. labels convert_to k d \<and> x = Num (growth d - 1)) out days \<and>
    (\<forall>(e, r) \<in> set returns. \<exists>!i. i < length days \<and> same_period convert_to (days ! i) e) \<and>
    set days \<subseteq> fst ` set returns \<and> sorted_wrt (<) (map fst out) \<and>
    prod_list (map growth days) = prod_list (map (\<lambda>(e, r). 1 + r) returns)"
proof -
  obtain key where key: "period_key convert_to = Inr key"
    using assms(3) by (auto simp: aggregate_returns_def and_then_eq_Inr)
  define keys where "keys = sort (remdups (map (key \<circ> fst) returns))"
  define day where "day = (\<lambda>k. fst (hd (filter (\<lambda>(d, r). key d = k) returns)))"
  have day: "day k \<in> fst ` set returns \<and> key (day k) = k" if "k \<in> set keys" for k
  proof -
    have "filter (\<lambda>(d, r). key d = k) returns \<noteq> []" using that by (auto simp: keys_def filter_empty_conv)
    from hd_in_set [OF this] show ?thesis by (auto simp: day_def)
  qed
  have group: "filter (\<lambda>(d, r). same_period convert_to (day k) d) returns = filter (\<lambda>(d, r). key d = k) returns"
    if "k \<in> set keys" for k
    using day [OF that] by (intro filter_cong refl) (auto simp flip: period_keys(1) [OF key])
  have cumulated: "cumulate_returns (map snd (filter (\<lambda>(d, v). key d = k) (map (\<lambda>(d, r). (d, Num r)) returns))) =
      Num (growth (day k) - 1)" if "k \<in> set keys" for k
  proof -
    define rs where "rs = map snd (filter (\<lambda>(d, r). key d = k) returns)"
    have "map snd (filter (\<lambda>(d, v). key d = k) (map (\<lambda>(d, r). (d, Num r)) returns)) = map Num rs"
      unfolding rs_def by (induction returns) auto
    moreover have "rs \<noteq> []" using that by (auto simp: rs_def keys_def filter_empty_conv)
    moreover have "\<forall>r \<in> set rs. - 1 < r" using assms(2) by (auto simp: rs_def)
    moreover have "prod_list (map (\<lambda>r. 1 + r) rs) = growth (day k)"
      unfolding rs_def growth_def group [OF that] by (simp add: comp_def case_prod_unfold)
    ultimately show ?thesis using cumulate_returns_Num [of rs] by simp
  qed
  define series where "series = map (\<lambda>(d, r). (d, Num r)) returns"
  have "map (key \<circ> fst) series = map (key \<circ> fst) returns" by (auto simp: series_def)
  then have "out = map (\<lambda>k. (k, cumulate_returns (map snd (filter (\<lambda>(d, v). key d = k) series)))) keys"
    using assms(3) key unfolding series_def [symmetric] by (simp add: aggregate_returns_def groups_by_def keys_def comp_def)
  also have "\<dots> = map (\<lambda>k. (k, Num (growth (day k) - 1))) keys"
    using cumulated by (simp add: series_def)
  finally have out: "out = map (\<lambda>k. (k, Num (growth (day k) - 1))) keys" .
  have sorted: "sorted_wrt (<) keys" by (simp add: keys_def strict_sorted_iff)
  have rows: "list_all2 (\<lambda>(k, x) d. labels convert_to k d \<and> x = Num (growth d - 1)) out (map day keys)"
    using day period_keys(2) [OF key] by (auto simp: out list_all2_map1 list_all2_map2 list_all2_same) metis
  have one: "\<exists>!i. i < length (map day keys) \<and> same_period convert_to (map day keys ! i) e" if "(e, r) \<in> set returns" for e r
  proof -
    have "key e \<in> set keys" using that by (force simp: keys_def)
    then obtain i where i: "i < length keys" "keys ! i = key e" by (auto simp: in_set_conv_nth)
    have hit: "same_period convert_to (day (keys ! j)) e \<longleftrightarrow> keys ! j = key e" if "j < length keys" for j
      using day [of "keys ! j"] that period_keys(1) [OF key, of "day (keys ! j)" e] by auto
    have "distinct keys" by (simp add: keys_def)
    then have only: "j = i" if "j < length keys" "keys ! j = key e" for j
      using that i nth_eq_iff_index_eq [of keys j i] by simp
    show ?thesis
    proof (rule ex1I [of _ i])
      show "i < length (map day keys) \<and> same_period convert_to (map day keys ! i) e" using i hit [OF i(1)] by simp
      fix j assume j: "j < length (map day keys) \<and> same_period convert_to (map day keys ! j) e"
      then have "j < length keys" by simp
      with j show "j = i" using hit only by (metis nth_map)
    qed
  qed
  have whole: "prod_list (map growth (map day keys)) = prod_list (map (\<lambda>(e, r). 1 + r) returns)"
  proof -
    have "prod_list (map growth (map day keys)) = (\<Prod>k\<in>set keys. growth (day k))"
      using sorted by (simp add: strict_sorted_iff prod.distinct_set_conv_list comp_def)
    also have "\<dots> = (\<Prod>k\<in>set keys. prod_list (map (\<lambda>(e, r). 1 + r) (filter (\<lambda>(d, r). key d = k) returns)))"
      by (intro prod.cong refl) (simp only: growth_def group)
    also have "\<dots> = prod_list (map (\<lambda>(e, r). 1 + r) returns)"
      unfolding case_prod_unfold by (rule prod_groups) (auto simp: keys_def)
    finally show ?thesis .
  qed
  have "set (map day keys) \<subseteq> fst ` set returns" "sorted_wrt (<) (map fst out)"
    using day sorted by (auto simp: out comp_def)
  moreover have "\<forall>(e, r) \<in> set returns. \<exists>!i. i < length (map day keys) \<and> same_period convert_to (map day keys ! i) e"
    using one by blast
  ultimately show ?thesis using rows whole by blast
qed

theorem aggregation_compounds_to_the_whole_witness:
  "\<exists>out (days :: int list). aggregate_returns [(18262, Num (1 / 10)), (18300, Num (- 1 / 2)), (18301, Num 1)] ''monthly'' = Inr out \<and>
     length out = length days \<and> set days \<subseteq> {18262, 18300, 18301} \<and> sorted_wrt (<) (map fst out)"
proof -
  let ?r = "[(18262, 1 / 10), (18300, - 1 / 2), (18301, 1)] :: (int \<times> real) list"
  obtain out where out: "aggregate_returns (map (\<lambda>(d, r). (d, Num r)) ?r) ''monthly'' = Inr out"
    by (simp add: aggregate_returns_def period_key_def)
  have "\<forall>(d, r) \<in> set ?r. - 1 < r" by simp
  from aggregation_compounds_to_the_whole [OF this out] obtain days where
      "list_all2 (\<lambda>(k, x) d. labels ''monthly'' k d \<and> x = Num (prod_list (map (\<lambda>(e, r). 1 + r)
        (filter (\<lambda>(e, r). same_period ''monthly'' d e) ?r)) - 1)) out days"
      "set days \<subseteq> fst ` set ?r" "sorted_wrt (<) (map fst out)"
    by blast
  then have "length out = length days" "set days \<subseteq> {18262, 18300, 18301}" by (simp_all add: list_all2_lengthD)
  with out \<open>sorted_wrt (<) (map fst out)\<close> show ?thesis by auto
qed

text \<open>
  A week that a month's end divides gives two rows, and the rows are not in the order of time: in
  January 2021 the week of the first days, the 53rd of the year before, stands after the 1st.
\<close>

theorem weekly_rows_are_parts_of_weeks:
  "monday 18292 = monday 18293 \<and> \<not> same_period ''weekly'' 18292 18293 \<and>
   (\<exists>key. period_key ''weekly'' = Inr key \<and> key 18631 < key 18628)"
proof -
  have "monday 18292 = monday 18293" "civil_month 18292 \<noteq> civil_month 18293"
      "[fst (civil_month 18631), snd (civil_month 18631), iso_week 18631] <
        [fst (civil_month 18628), snd (civil_month 18628), iso_week 18628]"
    by code_simp+
  then show ?thesis by (simp add: same_period_def period_key_def)
qed

text \<open>
  The annual growth rate is the one that, compounded over the years the curve lasts, gives the
  curve's last value.
\<close>

theorem growth_rate_compounds_to_the_end:
  assumes "es \<noteq> []" and "0 < last es" and "0 < periods"
  shows "\<exists>g. create_cagr (map Num es) periods = Inr (Num g) \<and> - 1 < g \<and>
    (1 + g) powr (of_nat (length es) / of_int periods) = last es"
proof -
  define years where "years = of_nat (length es) / (of_int periods :: real)"
  have "0 < years" using assms by (simp add: years_def)
  then have "(last es powr (1 / years)) powr years = last es"
    using assms(2) by (simp add: powr_powr)
  then show ?thesis
    using assms by (intro exI [of _ "last es powr (1 / years) - 1"])
      (simp add: create_cagr_def np_pow_def last_map Let_def flip: years_def)
qed

theorem growth_rate_compounds_to_the_end_witness:
  "\<exists>g. create_cagr (map Num [1, 2]) 1 = Inr (Num g) \<and> (1 + g) powr 2 = 2"
  using growth_rate_compounds_to_the_end [of "[1, 2]" 1] by auto

section \<open>Ratios of extreme curves\<close>

lemma fold_np_add: "foldl np_add (Num a) (map Num xs) = Num (a + sum_list xs)"
  by (induction xs arbitrary: a) (simp_all add: add.assoc)

lemma filter_Num: "filter (\<lambda>x. x \<noteq> Not_num) (map Num xs) = map Num xs"
  by (simp add: filter_id_conv)

lemma series_mean_Num: "xs \<noteq> [] \<Longrightarrow> series_mean (map Num xs) = Num (sum_list xs / of_nat (length xs))"
  unfolding series_mean_def filter_Num np_average_def fold_np_add by simp

lemma series_std_constant: "series_std (map Num (replicate (Suc n) x)) = Num 0"
proof -
  have "np_average (map Num (replicate (Suc n) x)) = Num x"
    using series_mean_Num [of "replicate (Suc n) x"]
    by (simp add: series_mean_def filter_Num sum_list_replicate del: replicate_Suc)
  moreover have "np_average (replicate (Suc n) (Num 0)) = Num 0"
    using fold_np_add [of 0 "replicate (Suc n) 0"]
    by (simp add: np_average_def sum_list_replicate del: replicate_Suc)
  ultimately show ?thesis
    by (simp add: series_std_def filter_Num Let_def np_mul_def map_replicate_const comp_def del: replicate_Suc)
qed

text \<open>
  A curve that does not move has no ratio at all, and a curve with exactly one losing day and
  a gain on the whole has an infinite Sortino ratio, whatever it lost that day: the deviation of a
  single return from its own mean is zero.
\<close>

theorem extreme_curves_have_no_finite_ratio:
  assumes "0 < periods" and "0 < sum_list rs" and "filter (\<lambda>r. r < 0) rs = [loss]"
  shows "create_sharpe_ratio (map Num (replicate (Suc n) 0)) periods = Not_num"
    and "create_sortino_ratio (map Num rs) periods = Pos_inf"
proof -
  show "create_sharpe_ratio (map Num (replicate (Suc n) 0)) periods = Not_num"
    using assms(1) series_std_constant [of n 0]
    by (simp add: create_sharpe_ratio_def series_mean_Num [of "replicate (Suc n) 0", unfolded map_replicate]
        map_replicate np_mul_def sum_list_replicate signed_inf_def del: replicate_Suc)
  have ne: "rs \<noteq> []" using assms(3) by auto
  have "filter (\<lambda>r. np_less r (Num 0)) (map Num rs) = map Num (filter (\<lambda>r. r < 0) rs)"
    by (simp add: filter_map comp_def)
  also have "\<dots> = map Num (replicate (Suc 0) loss)" using assms(3) by simp
  finally have "series_std (filter (\<lambda>r. np_less r (Num 0)) (map Num rs)) = Num 0"
    using series_std_constant [of 0 loss] by simp
  then show "create_sortino_ratio (map Num rs) periods = Pos_inf"
    using assms(1,2) ne by (simp add: create_sortino_ratio_def series_mean_Num np_mul_def signed_inf_def)
qed

theorem extreme_curves_have_no_finite_ratio_witness:
  "create_sortino_ratio (map Num [1, - 1 / 2, 1 / 4]) 252 = Pos_inf"
  using extreme_curves_have_no_finite_ratio(2) [of 252 "[1, - 1 / 2, 1 / 4]" "- 1 / 2"] by simp

text \<open>The ISO weeks around the turns of the years 2020, 2021, 2024 and 2025.\<close>

lemma iso_weeks_around_new_year: "map iso_week [18259, 18262, 18627, 19722, 19723, 20088] = [52, 1, 53, 52, 1, 1]"
  by code_simp

end
