(* ===== verification/Report.thy ===== *)
theory Report
  imports Performance
begin

text \<open>
  The reports of a finished run: the statistics dictionary of \<^verbatim>\<open>statistics/json_statistics.py\<close> and the
  results of \<^verbatim>\<open>statistics/tearsheet.py\<close>; the plots and the writing of the file are left out. A curve is
  the list of its dates and equities. The milliseconds of a local midnight are the time-zone
  library's: \<open>midnight\<close> gives its seconds since the epoch. Quantiles are those of finite numbers.
\<close>

section \<open>Columns\<close>

record curve =
  cv_dates :: "int list"
  cv_equity :: "real list"
  cv_returns :: "np_float list"
  cv_cum_returns :: "np_float list"

text \<open>\<^verbatim>\<open>_calculate_returns\<close>: the two columns appended to the frame.\<close>

definition calculate_returns :: "(int \<times> real) list \<Rightarrow> curve" where
  "calculate_returns equity_curve =
    (let returns = returns_of (map snd equity_curve) in
     \<lparr>cv_dates = map fst equity_curve, cv_equity = map snd equity_curve, cv_returns = returns,
      cv_cum_returns = cum_returns returns\<rparr>)"

definition epoch_ms :: "(int \<Rightarrow> rat) \<Rightarrow> int \<Rightarrow> int" where
  "epoch_ms midnight d = py_int (midnight d * 1000)"

text \<open>\<^verbatim>\<open>series.to_dict()\<close> keeps one value per date.\<close>

definition series_to_tuple_list :: "(int \<Rightarrow> rat) \<Rightarrow> (int \<times> np_float) list \<Rightarrow> (int \<times> np_float) list" where
  "series_to_tuple_list midnight series =
    map (\<lambda>(k, v). (epoch_ms midnight k, fillna v)) (dict_update [] series)"

text \<open>\<^verbatim>\<open>k.replace('EQ:', '')\<close>\<close>

fun without_eq :: "string \<Rightarrow> string" where
  "without_eq (a # b # c # s) =
    (if [a, b, c] = ''EQ:'' then without_eq s else a # without_eq (b # c # s))"
| "without_eq s = s"

definition dataframe_to_column_list :: "(int \<Rightarrow> rat) \<Rightarrow> (string \<times> (int \<times> np_float) list) list \<Rightarrow>
    (string \<times> (int \<times> np_float) list) list" where
  "dataframe_to_column_list midnight df =
    map (\<lambda>(k, v). (without_eq k, series_to_tuple_list midnight v)) (dict_update [] df)"

section \<open>Aggregated returns\<close>

definition monthly_returns :: "(int \<times> np_float) list \<Rightarrow> exn + (int list \<times> np_float) list" where
  "monthly_returns returns = aggregate_returns returns ''monthly''"

definition yearly_returns :: "(int \<times> np_float) list \<Rightarrow> exn + (int \<times> np_float) list" where
  "yearly_returns returns = and_then (aggregate_returns returns ''yearly'') (\<lambda>ys. Inr (map (\<lambda>(k, r). (hd k, r)) ys))"

text \<open>The chart's grid: month by month and year by year, what there is.\<close>

definition index_years :: "(int list \<times> np_float) list \<Rightarrow> int list" where
  "index_years monthly = sort (remdups (map (hd \<circ> fst) monthly))"

definition month_grid :: "(int list \<times> np_float) list \<Rightarrow> (nat \<times> nat \<times> np_float) list" where
  "month_grid monthly = (let years = index_years monthly in
    concat (map (\<lambda>month. concat (map (\<lambda>year.
      case map_of monthly [years ! year, int month + 1] of None \<Rightarrow> []
      | Some r \<Rightarrow> [(month, year, np_mul (Num 100) r)]) [0..<length years])) [0..<12]))"

definition yearly_hc :: "(int \<times> np_float) list \<Rightarrow> np_float list" where
  "yearly_hc yearly = map (\<lambda>(y, r). np_mul r (Num 100)) yearly"

section \<open>Quantiles\<close>

record quantiles =
  q_min :: real
  q_lq :: real
  q_med :: real
  q_uq :: real
  q_max :: real

text \<open>\<^verbatim>\<open>np.percentile\<close>: linear between the two nearest of the sorted values.\<close>

definition percentile :: "real list \<Rightarrow> real \<Rightarrow> real" where
  "percentile xs q = (let s = sort xs; pos = of_nat (length xs - 1) * q / 100; lo = nat \<lfloor>pos\<rfloor>;
     hi = min (lo + 1) (length xs - 1) in s ! lo + (s ! hi - s ! lo) * (pos - of_nat lo))"

definition median :: "real list \<Rightarrow> real" where
  "median xs = (let s = sort xs; n = length xs in
     if odd n then s ! (n div 2) else (s ! (n div 2 - 1) + s ! (n div 2)) / 2)"

definition quantiles_dict :: "real list \<Rightarrow> exn + quantiles" where
  "quantiles_dict returns = (if returns = [] then Inl ValueError
     else Inr \<lparr>q_min = Min (set returns), q_lq = percentile returns 25, q_med = median returns,
       q_uq = percentile returns 75, q_max = Max (set returns)\<rparr>)"

definition quantiles_hc :: "quantiles \<Rightarrow> real list" where
  "quantiles_hc q = map (\<lambda>v. v * 100) [q_min q, q_lq q, q_med q, q_uq q, q_max q]"

text \<open>The numbers of a series, where all of it are.\<close>

fun finite_values :: "np_float list \<Rightarrow> real list option" where
  "finite_values [] = Some []"
| "finite_values (Num a # xs) = map_option (\<lambda>ys. a # ys) (finite_values xs)"
| "finite_values (x # xs) = None"

definition returns_quantiles :: "np_float list \<Rightarrow> (exn + quantiles) option" where
  "returns_quantiles xs = map_option quantiles_dict (finite_values xs)"

section \<open>The statistics dictionary\<close>

record json_stats =
  js_equity_curve :: "(int \<times> np_float) list"
  js_returns :: "(int \<times> np_float) list"
  js_cum_returns :: "(int \<times> np_float) list"
  js_monthly :: "(int list \<times> np_float) list"
  js_monthly_hc :: "(nat \<times> nat \<times> np_float) list"
  js_yearly :: "(int \<times> np_float) list"
  js_yearly_hc :: "np_float list"
  js_quantiles :: "(exn + quantiles) option list"
  js_drawdowns :: "(int \<times> np_float) list"
  js_max_drawdown :: np_float
  js_max_drawdown_duration :: nat
  js_mean_returns :: np_float
  js_stdev_returns :: np_float
  js_cagr :: np_float
  js_annualised_vol :: np_float
  js_sharpe :: np_float
  js_sortino :: np_float

definition calculate_statistics :: "(int \<Rightarrow> rat) \<Rightarrow> int \<Rightarrow> curve \<Rightarrow> exn + json_stats" where
  "calculate_statistics midnight periods c =
    and_then (create_drawdowns (cv_cum_returns c)) (\<lambda>(dd_s, max_dd, dd_dur).
    and_then (monthly_returns (zip (cv_dates c) (cv_returns c))) (\<lambda>monthly.
    and_then (yearly_returns (zip (cv_dates c) (cv_returns c))) (\<lambda>yearly.
    and_then (create_cagr (cv_cum_returns c) periods) (\<lambda>cagr.
      (let tuples = (\<lambda>xs. series_to_tuple_list midnight (zip (cv_dates c) xs)) in
       Inr \<lparr>js_equity_curve = tuples (map Num (cv_equity c)), js_returns = tuples (cv_returns c),
         js_cum_returns = tuples (cv_cum_returns c), js_monthly = monthly, js_monthly_hc = month_grid monthly,
         js_yearly = yearly, js_yearly_hc = yearly_hc yearly,
         js_quantiles = [returns_quantiles (cv_returns c), returns_quantiles (map snd monthly),
           returns_quantiles (map snd yearly)],
         js_drawdowns = tuples dd_s, js_max_drawdown = max_dd, js_max_drawdown_duration = dd_dur,
         js_mean_returns = series_mean (cv_returns c), js_stdev_returns = series_std (cv_returns c),
         js_cagr = cagr, js_annualised_vol = np_mul (series_std (cv_returns c)) (np_sqrt (Num (of_int periods))),
         js_sharpe = create_sharpe_ratio (cv_returns c) periods,
         js_sortino = create_sortino_ratio (cv_returns c) periods\<rparr>)))))"

record json_report =
  jr_strategy :: json_stats
  jr_target_allocations :: "(string \<times> (int \<times> np_float) list) list"
  jr_benchmark :: "json_stats option"
  jr_names :: "(string, string) dict"

definition named_entries :: "(string \<times> string option) list \<Rightarrow> (string, string) dict" where
  "named_entries xs = concat (map (\<lambda>(k, v). case v of None \<Rightarrow> [] | Some s \<Rightarrow> [(k, s)]) xs)"

definition create_full_statistics :: "(int \<Rightarrow> rat) \<Rightarrow> int \<Rightarrow> (int \<times> real) list \<Rightarrow>
    (string \<times> (int \<times> np_float) list) list \<Rightarrow> (int \<times> real) list option \<Rightarrow> (string \<times> string option) list \<Rightarrow>
    exn + json_report" where
  "create_full_statistics midnight periods equity_curve allocations benchmark_curve names =
    and_then (calculate_statistics midnight periods (calculate_returns equity_curve)) (\<lambda>strategy.
    and_then (case benchmark_curve of None \<Rightarrow> Inr None
        | Some b \<Rightarrow> and_then (calculate_statistics midnight periods (calculate_returns b)) (\<lambda>s. Inr (Some s))) (\<lambda>benchmark.
      Inr \<lparr>jr_strategy = strategy, jr_target_allocations = dataframe_to_column_list midnight allocations,
        jr_benchmark = benchmark, jr_names = named_entries names\<rparr>))"

section \<open>The tear sheet's results\<close>

record tearsheet_results =
  ts_sharpe :: np_float
  ts_drawdowns :: "np_float list"
  ts_max_drawdown :: np_float
  ts_max_drawdown_duration :: nat
  ts_equity :: "real list"
  ts_returns :: "np_float list"
  ts_cum_returns :: "np_float list"

definition get_results :: "int \<Rightarrow> (int \<times> real) list \<Rightarrow> exn + tearsheet_results" where
  "get_results periods equity_df =
    (let returns = returns_of (map snd equity_df); cum = cum_returns returns in
     and_then (create_drawdowns cum) (\<lambda>(dd_s, max_dd, dd_dur).
       Inr \<lparr>ts_sharpe = create_sharpe_ratio returns periods, ts_drawdowns = dd_s, ts_max_drawdown = max_dd,
         ts_max_drawdown_duration = dd_dur, ts_equity = map snd equity_df, ts_returns = returns, ts_cum_returns = cum\<rparr>))"

section \<open>Quantiles lie in order\<close>

definition interpolate :: "real list \<Rightarrow> real \<Rightarrow> real" where
  "interpolate s p = s ! nat \<lfloor>p\<rfloor> +
     (s ! min (nat \<lfloor>p\<rfloor> + 1) (length s - 1) - s ! nat \<lfloor>p\<rfloor>) * (p - of_nat (nat \<lfloor>p\<rfloor>))"

lemma percentile_interpolate: "percentile xs q = interpolate (sort xs) (of_nat (length xs - 1) * q / 100)"
  by (simp add: percentile_def interpolate_def Let_def)

lemma interpolate_between:
  assumes "sorted s" and "s \<noteq> []" and "0 \<le> p" and "p \<le> of_nat (length s - 1)"
  shows "nat \<lfloor>p\<rfloor> < length s" and "s ! nat \<lfloor>p\<rfloor> \<le> interpolate s p"
    and "interpolate s p \<le> s ! min (nat \<lfloor>p\<rfloor> + 1) (length s - 1)"
proof -
  define lo hi where "lo = nat \<lfloor>p\<rfloor>" and "hi = min (lo + 1) (length s - 1)"
  have lo: "of_nat lo \<le> p" "p < of_nat lo + 1" using assms(3) by (simp_all add: lo_def)
  then have "(of_nat lo :: real) \<le> of_nat (length s - 1)" using assms(4) by linarith
  then have "lo \<le> length s - 1" by simp
  then show len: "nat \<lfloor>p\<rfloor> < length s" using assms(2) by (simp add: lo_def flip: length_greater_0_conv)
  have "0 < length s" using assms(2) by simp
  then have "lo \<le> hi" "hi < length s" using \<open>lo \<le> length s - 1\<close> by (simp_all add: hi_def min_def, arith)
  then have step: "s ! lo \<le> s ! hi" using assms(1) by (intro sorted_nth_mono)
  have frac: "0 \<le> p - of_nat lo" "p - of_nat lo \<le> 1" using lo by simp_all
  have "interpolate s p = s ! lo + (s ! hi - s ! lo) * (p - of_nat lo)"
    by (simp add: interpolate_def lo_def hi_def)
  moreover have "0 \<le> (s ! hi - s ! lo) * (p - of_nat lo)" using step frac by simp
  moreover have "(s ! hi - s ! lo) * (p - of_nat lo) \<le> s ! hi - s ! lo" using step frac by (simp add: mult_left_le)
  ultimately show "s ! nat \<lfloor>p\<rfloor> \<le> interpolate s p" "interpolate s p \<le> s ! min (nat \<lfloor>p\<rfloor> + 1) (length s - 1)"
    by (simp_all add: hi_def lo_def)
qed

lemma interpolate_mono:
  assumes "sorted s" and "s \<noteq> []" and "0 \<le> p" and "p \<le> p'" and "p' \<le> of_nat (length s - 1)"
  shows "interpolate s p \<le> interpolate s p'"
proof (cases "nat \<lfloor>p\<rfloor> = nat \<lfloor>p'\<rfloor>")
  case True
  define lo hi where "lo = nat \<lfloor>p\<rfloor>" and "hi = min (lo + 1) (length s - 1)"
  have "lo < length s" using interpolate_between(1) [of s p] assms by (simp add: lo_def)
  then have "lo \<le> hi" "hi < length s" by (auto simp: hi_def)
  then have "s ! lo \<le> s ! hi" using assms(1) by (intro sorted_nth_mono)
  then have "(s ! hi - s ! lo) * (p - of_nat lo) \<le> (s ! hi - s ! lo) * (p' - of_nat lo)"
    using assms(4) by (intro mult_left_mono) simp_all
  then show ?thesis using True by (simp add: interpolate_def hi_def lo_def)
next
  case False
  have "nat \<lfloor>p\<rfloor> \<le> nat \<lfloor>p'\<rfloor>" using assms(4) by (simp add: floor_mono nat_mono)
  then have le: "min (nat \<lfloor>p\<rfloor> + 1) (length s - 1) \<le> nat \<lfloor>p'\<rfloor>" using False by simp
  have "interpolate s p \<le> s ! min (nat \<lfloor>p\<rfloor> + 1) (length s - 1)"
    using assms by (intro interpolate_between(3)) simp_all
  also have "\<dots> \<le> s ! nat \<lfloor>p'\<rfloor>"
    using le interpolate_between(1) [of s p'] assms by (intro sorted_nth_mono) simp_all
  also have "\<dots> \<le> interpolate s p'" using assms by (intro interpolate_between(2)) simp_all
  finally show ?thesis .
qed

lemma interpolate_bounds:
  assumes "sorted s" and "s \<noteq> []" and "0 \<le> p" and "p \<le> of_nat (length s - 1)"
  shows "Min (set s) \<le> interpolate s p" and "interpolate s p \<le> Max (set s)"
proof -
  have "nat \<lfloor>p\<rfloor> < length s" by (rule interpolate_between(1) [OF assms])
  then have "s ! nat \<lfloor>p\<rfloor> \<in> set s" "s ! min (nat \<lfloor>p\<rfloor> + 1) (length s - 1) \<in> set s" by simp_all
  then have "Min (set s) \<le> s ! nat \<lfloor>p\<rfloor>" "s ! min (nat \<lfloor>p\<rfloor> + 1) (length s - 1) \<le> Max (set s)" by simp_all
  then show "Min (set s) \<le> interpolate s p" "interpolate s p \<le> Max (set s)"
    using interpolate_between(2,3) [OF assms] by simp_all
qed

lemma median_percentile: "xs \<noteq> [] \<Longrightarrow> median xs = percentile xs 50"
proof -
  assume ne: "xs \<noteq> []"
  show ?thesis
  proof (cases "odd (length xs)")
    case True
    then obtain k where k: "length xs = 2 * k + 1" by (auto elim: oddE)
    then have "of_nat (length xs - 1) * 50 / 100 = (of_nat k :: real)" by simp
    then show ?thesis using True k by (simp add: median_def percentile_def Let_def)
  next
    case False
    then obtain k where k: "length xs = 2 * k" by (auto elim: evenE)
    with ne have "0 < k" by (cases k) simp_all
    then have pos: "of_nat (length xs - 1) * 50 / 100 = (of_nat (k - 1) + 1 / 2 :: real)"
      by (simp add: k of_nat_diff)
    have "\<lfloor>of_nat (k - 1) + 1 / 2 :: real\<rfloor> = int (k - 1)" by (simp add: floor_eq_iff)
    then have "nat \<lfloor>of_nat (length xs - 1) * 50 / 100 :: real\<rfloor> = k - 1" unfolding pos by simp
    then show ?thesis
      using False k \<open>0 < k\<close> pos by (simp add: median_def percentile_def Let_def field_simps)
  qed
qed

text \<open>
  The five quantiles of a series of returns are in order: the least is the smallest, then the
  quartiles with the median between them, and the greatest is the largest; and the median, which
  the code takes from another function, is the fiftieth percentile.
\<close>

theorem quantiles_are_in_order:
  assumes "returns \<noteq> []"
  shows "\<exists>q. quantiles_dict returns = Inr q \<and> q_min q \<in> set returns \<and> q_max q \<in> set returns \<and>
    sorted [q_min q, q_lq q, q_med q, q_uq q, q_max q] \<and> q_med q = percentile returns 50"
proof -
  let ?s = "sort returns" and ?n = "of_nat (length returns - 1) :: real"
  have ne: "?s \<noteq> []" using assms by (metis length_0_conv length_sort)
  have 1: "Min (set ?s) \<le> percentile returns 25" "percentile returns 75 \<le> Max (set ?s)"
    unfolding percentile_interpolate using interpolate_bounds [OF sorted_sort ne] by simp_all
  have 2: "percentile returns 25 \<le> percentile returns 50" "percentile returns 50 \<le> percentile returns 75"
    unfolding percentile_interpolate by (intro interpolate_mono sorted_sort ne; simp)+
  have "Min (set returns) \<in> set returns" "Max (set returns) \<in> set returns" using assms by simp_all
  with 1 2 assms show ?thesis by (simp add: quantiles_dict_def median_percentile)
qed

theorem quantiles_are_in_order_witness:
  "\<exists>q. quantiles_dict [3, 1, 4, 1] = Inr q \<and> q_lq q \<le> q_med q \<and> q_med q = percentile [3, 1, 4, 1] 50"
  using quantiles_are_in_order [of "[3, 1, 4, 1]"] by auto

section \<open>The grid of months\<close>

lemma month_grid_member:
  "(m, i, v) \<in> set (month_grid monthly) \<longleftrightarrow> m < 12 \<and> i < length (index_years monthly) \<and>
    (\<exists>r. map_of monthly [index_years monthly ! i, int m + 1] = Some r \<and> v = np_mul (Num 100) r)"
proof
  assume "(m, i, v) \<in> set (month_grid monthly)"
  then show "m < 12 \<and> i < length (index_years monthly) \<and>
      (\<exists>r. map_of monthly [index_years monthly ! i, int m + 1] = Some r \<and> v = np_mul (Num 100) r)"
    by (auto simp: month_grid_def Let_def split: option.splits dest!: sym [of "Some _"])
next
  assume "m < 12 \<and> i < length (index_years monthly) \<and>
      (\<exists>r. map_of monthly [index_years monthly ! i, int m + 1] = Some r \<and> v = np_mul (Num 100) r)"
  then show "(m, i, v) \<in> set (month_grid monthly)"
    by (simp add: month_grid_def Let_def) (rule bexI [of _ m], rule bexI [of _ i], auto)
qed

text \<open>
  The grid of the chart holds every month there is a return for, in percent, at its month and at
  the place of its year among the years, and nothing else.
\<close>

theorem month_grid_shows_every_month:
  assumes "distinct (map fst monthly)" and "\<forall>(k, r) \<in> set monthly. \<exists>y m. k = [y, m] \<and> 1 \<le> m \<and> m \<le> 12"
  shows "(\<forall>(k, r) \<in> set monthly. \<exists>i < length (index_years monthly). index_years monthly ! i = hd k \<and>
      (nat (last k - 1), i, np_mul (Num 100) r) \<in> set (month_grid monthly)) \<and>
    (\<forall>(m, i, v) \<in> set (month_grid monthly). \<exists>r. v = np_mul (Num 100) r \<and>
      ([index_years monthly ! i, int m + 1], r) \<in> set monthly)"
proof (intro conjI ballI)
  fix e assume e: "e \<in> set monthly"
  obtain y m r where parts: "e = ([y, m], r)" "1 \<le> m" "m \<le> 12" using assms(2) e by fastforce
  have "y \<in> set (index_years monthly)" using e parts(1) by (force simp: index_years_def)
  then obtain i where i: "i < length (index_years monthly)" "index_years monthly ! i = y"
    by (auto simp: in_set_conv_nth)
  have "map_of monthly [y, m] = Some r" using assms(1) e parts(1) by simp
  then have "(nat (m - 1), i, np_mul (Num 100) r) \<in> set (month_grid monthly)"
    using i parts(2,3) by (simp add: month_grid_member)
  then show "case e of (k, r) \<Rightarrow> \<exists>i < length (index_years monthly). index_years monthly ! i = hd k \<and>
      (nat (last k - 1), i, np_mul (Num 100) r) \<in> set (month_grid monthly)"
    using i by (auto simp: parts(1))
next
  fix e assume e: "e \<in> set (month_grid monthly)"
  obtain m i v where parts: "e = (m, i, v)" by (rule prod_cases3)
  show "case e of (m, i, v) \<Rightarrow> \<exists>r. v = np_mul (Num 100) r \<and> ([index_years monthly ! i, int m + 1], r) \<in> set monthly"
    using e by (auto simp: parts month_grid_member dest: map_of_SomeD)
qed

theorem month_grid_shows_every_month_witness:
  "(11, 0, np_mul (Num 100) (Num 2)) \<in> set (month_grid [([2020, 12], Num 2), ([2021, 1], Num 3)])"
  using month_grid_shows_every_month [of "[([2020, 12], Num 2), ([2021, 1], Num 3)]"]
  by (auto simp: index_years_def less_Suc_eq)

section \<open>Reports of a curve\<close>

lemma tuples_of_curve:
  assumes "distinct dates" and "length dates = length xs" and "Not_num \<notin> set xs"
  shows "series_to_tuple_list midnight (zip dates xs) = zip (map (epoch_ms midnight) dates) xs"
proof -
  have fresh: "dict_update a b = a @ b" if "distinct (map fst (a @ b))" for a b :: "(int \<times> np_float) list"
    using that
  proof (induction a b rule: dict_update.induct)
    case (2 a k v b)
    then have "map_of a k = None" by (auto simp: map_of_eq_None_iff)
    with 2 show ?case by (simp add: update_new)
  qed simp
  have "dict_update [] (zip dates xs) = zip dates xs" using assms(1,2) by (subst fresh) simp_all
  moreover have "fillna (xs ! i) = xs ! i" if "i < length xs" for i
    using assms(3) nth_mem [OF that] by (auto simp: fillna_def)
  ultimately show ?thesis
    using assms(2) by (intro nth_equalityI) (simp_all add: series_to_tuple_list_def)
qed

text \<open>
  A run whose equity stays above zero is reported: with one point per date, the dictionary has
  the curve and its normalisation at those dates, a maximum drawdown from zero up to but not one, a
  growth rate above minus one and returns by month that compound to the last value of the curve.
\<close>

theorem positive_curve_is_reported:
  assumes "curve \<noteq> []" and "distinct (map fst curve)" and "\<forall>(d, e) \<in> set curve. 0 < e" and "0 < periods"
  shows "\<exists>s x g. calculate_statistics midnight periods (calculate_returns curve) = Inr s \<and>
    js_equity_curve s = map (\<lambda>(d, e). (epoch_ms midnight d, Num e)) curve \<and>
    js_cum_returns s = map (\<lambda>(d, e). (epoch_ms midnight d, Num (e / snd (hd curve)))) curve \<and>
    js_max_drawdown s = Num x \<and> 0 \<le> x \<and> x < 1 \<and> js_cagr s = Num g \<and> - 1 < g \<and>
    monthly_returns (zip (map fst curve) (returns_of (map snd curve))) = Inr (js_monthly s)"
proof -
  define dates es where "dates = map fst curve" and "es = map snd curve"
  have es: "es \<noteq> []" "\<forall>e \<in> set es. 0 < e" "length dates = length es"
    using assms(1,3) by (auto simp: dates_def es_def)
  define norm where "norm = map (\<lambda>e. e / hd es) es"
  have hd: "0 < hd es" using es by simp
  have norm: "norm \<noteq> []" "\<forall>e \<in> set norm. 0 < e" using es hd by (auto simp: norm_def)
  obtain b bs where b: "es = b # bs" using es(1) by (cases es) auto
  have cum: "cum_returns (returns_of es) = map Num norm"
    using cum_from_pct [of b bs 0] es(2) by (simp add: b norm_def cum_returns_def returns_of_def)
  obtain draw dur where dd: "create_drawdowns (map Num norm) = Inr (draw, Num (Max (fall norm ` {..<length norm})), dur)"
    using drawdowns_Num [OF norm] by auto
  have range: "0 \<le> Max (fall norm ` {..<length norm})" "Max (fall norm ` {..<length norm}) < 1"
  proof -
    have fin: "finite (fall norm ` {..<length norm})" "fall norm ` {..<length norm} \<noteq> {}" using norm(1) by auto
    then have "Max (fall norm ` {..<length norm}) \<in> fall norm ` {..<length norm}" by (rule Max_in)
    then show "0 \<le> Max (fall norm ` {..<length norm})" "Max (fall norm ` {..<length norm}) < 1"
      using fall_range [OF _ norm(2)] by auto
  qed
  obtain monthly yearly where groups: "monthly_returns (zip dates (returns_of es)) = Inr monthly"
      "yearly_returns (zip dates (returns_of es)) = Inr yearly"
    by (simp add: monthly_returns_def yearly_returns_def aggregate_returns_def period_key_def)
  have "0 < last norm" using norm by simp
  then obtain g where g: "create_cagr (map Num norm) periods = Inr (Num g)" "- 1 < g"
    using norm(1) assms(4) by (auto simp: create_cagr_def np_pow_def last_map Let_def)
  define s where "s = (case calculate_statistics midnight periods (calculate_returns curve) of Inr s \<Rightarrow> s)"
  have run: "calculate_statistics midnight periods (calculate_returns curve) = Inr s"
    by (simp add: s_def calculate_statistics_def calculate_returns_def Let_def cum dd groups g flip: dates_def es_def)
  then have fields: "js_equity_curve s = series_to_tuple_list midnight (zip dates (map Num es))"
      "js_cum_returns s = series_to_tuple_list midnight (zip dates (map Num norm))"
      "js_max_drawdown s = Num (Max (fall norm ` {..<length norm}))" "js_cagr s = Num g" "js_monthly s = monthly"
    by (auto simp: calculate_statistics_def calculate_returns_def Let_def cum dd groups g simp flip: dates_def es_def)
  have zips: "zip (map (epoch_ms midnight) dates) (map Num es) = map (\<lambda>(d, e). (epoch_ms midnight d, Num e)) curve"
    "zip (map (epoch_ms midnight) dates) (map Num norm) = map (\<lambda>(d, e). (epoch_ms midnight d, Num (e / snd (hd curve)))) curve"
    using assms(1) by (simp_all add: dates_def es_def norm_def hd_map zip_map_map zip_same_conv_map comp_def case_prod_unfold)
  have tuples: "series_to_tuple_list midnight (zip dates (map Num xs)) = zip (map (epoch_ms midnight) dates) (map Num xs)"
    if "length xs = length es" for xs
    using that assms(2) es(3) by (intro tuples_of_curve) (auto simp: dates_def)
  show ?thesis
    using run fields range g groups(1) tuples [of es] tuples [of norm] zips
    by (intro exI [of _ s] exI [of _ "Max (fall norm ` {..<length norm})"] exI [of _ g])
      (simp add: norm_def dates_def es_def)
qed

theorem positive_curve_is_reported_witness:
  "\<exists>s. calculate_statistics (\<lambda>d. of_int d * 86400) 252 (calculate_returns [(18262, 200), (18263, 300), (18264, 100)]) = Inr s \<and>
     map snd (js_cum_returns s) = [Num 1, Num (3 / 2), Num (1 / 2)]"
  using positive_curve_is_reported [of "[(18262, 200), (18263, 300), (18264, 100)]" 252 "\<lambda>d. of_int d * 86400"]
  by auto

text \<open>The tear sheet and the dictionary say the same of a curve.\<close>

lemma tearsheet_agrees:
  assumes "calculate_statistics midnight periods (calculate_returns curve) = Inr s"
  shows "\<exists>t. get_results periods curve = Inr t \<and> ts_sharpe t = js_sharpe s \<and> ts_max_drawdown t = js_max_drawdown s \<and>
    ts_max_drawdown_duration t = js_max_drawdown_duration s"
  using assms by (auto simp: calculate_statistics_def calculate_returns_def get_results_def and_then_eq_Inr Let_def)

end
