(* ===== verification/Promotion.thy ===== *)
theory Promotion
  imports Live_Reconcile Py_Text
begin

text \<open>
  \<^verbatim>\<open>scripts/promotion_check.py\<close>: the criteria a ledger is checked by before a deployment may
  trade real money. The script reads the tables of \<open>Live_Ledger\<close>, all of which are there: a missing
  table of identities is caught and is an empty one here, any other missing table would raise, and no
  ledger this repository writes lacks one. The rows need not keep the keys of today's schema. Ratios are exact.
  What is printed is left out but for the line of a criterion.
\<close>

section \<open>Criteria\<close>

record criterion =
  cr_name :: string
  cr_passed :: bool
  cr_detail :: string

definition pad_right :: "nat \<Rightarrow> string \<Rightarrow> string" where
  "pad_right n s = s @ replicate (n - length s) CHR '' ''"

definition criterion_line :: "criterion \<Rightarrow> string" where
  "criterion_line c = (if cr_passed c then ''PASS'' else ''FAIL'') @ '' '' @ pad_right 28 (cr_name c) @ '' '' @ cr_detail c"

definition count_str :: "nat \<Rightarrow> string" where
  "count_str n = int_str (int n)"

section \<open>Whose ledger it is\<close>

definition identity_keys :: "string list" where
  "identity_keys = [''venue'', ''mode'', ''account_id'']"

definition identity :: "ledger \<Rightarrow> (string, string) dict option" where
  "identity l =
    (let rows = filter (\<lambda>kv. fst kv \<in> set identity_keys) (l_meta l) in
     if length rows < 3 then None else Some (rev rows))"

text \<open>\<^verbatim>\<open>GROUP BY mode\<close>, as a dictionary of the number of rows of each mode.\<close>

definition equity_modes :: "ledger \<Rightarrow> string list" where
  "equity_modes l = map (\<lambda>(dt, equity, mode). mode) (l_equity l)"

definition mode_counts :: "ledger \<Rightarrow> (string, nat) dict" where
  "mode_counts l = map (\<lambda>m. (m, count_list (equity_modes l) m)) (remdups (equity_modes l))"

definition ledger_is_paper :: "ledger \<Rightarrow> exn + criterion" where
  "ledger_is_paper l =
    (let verdict = (\<lambda>p d. Inr \<lparr>cr_name = ''ledger-is-paper'', cr_passed = p, cr_detail = d\<rparr>) in
     case identity l of
       None \<Rightarrow> verdict False ''no deployment identity recorded; cannot confirm this is a paper ledger''
     | Some ident \<Rightarrow>
         let counts = mode_counts l;
             foreign = filter (\<lambda>(mode, n). mode \<noteq> ''paper'') counts;
             total = sum_list (map snd counts) in
         (case (map_of ident ''mode'', map_of ident ''venue'', map_of ident ''account_id'') of
           (Some mode, Some venue, Some account) \<Rightarrow>
             if mode \<noteq> ''paper'' then
               verdict False (''ledger belongs to mode='' @ mode @ '' (venue='' @ venue @ '', account='' @ account @ '')'')
             else if foreign \<noteq> [] then
               verdict False (''mixed: '' @ join_by '', '' (map (\<lambda>(mode, n). count_str n @ '' row(s) mode='' @ mode)
                 (sort_key fst foreign)))
             else
               verdict True (count_str total @ '' row(s), all mode=paper (venue='' @ venue @ '', account='' @ account @ '')'')
         | _ \<Rightarrow> Inl KeyError))"

section \<open>What the deployment did\<close>

definition check_days_run :: "int \<Rightarrow> ledger \<Rightarrow> criterion" where
  "check_days_run minimum l =
    (let days = length (l_equity l) in
     \<lparr>cr_name = ''days-run'', cr_passed = int days \<ge> minimum,
       cr_detail = count_str days @ '' day(s) recorded, '' @ int_str minimum @ '' required''\<rparr>)"

definition numbered_count :: "ledger \<Rightarrow> nat" where
  "numbered_count l = length (filter (\<lambda>r. or_no r \<noteq> None) (l_orders l))"

definition check_orders_placed :: "ledger \<Rightarrow> criterion" where
  "check_orders_placed l =
    (let submitted = numbered_count l in
     \<lparr>cr_name = ''orders-placed'', cr_passed = submitted > 0, cr_detail = count_str submitted @ '' order(s) accepted''\<rparr>)"

definition check_fills_booked :: "ledger \<Rightarrow> criterion" where
  "check_fills_booked l =
    (let fills = length (l_fills l) in
     \<lparr>cr_name = ''fills-booked'', cr_passed = fills > 0, cr_detail = count_str fills @ '' fill(s) recorded''\<rparr>)"

definition check_no_orphan_intents :: "ledger \<Rightarrow> criterion" where
  "check_no_orphan_intents l =
    (let orphans = length (filter (\<lambda>r. or_no r = None \<and> or_state r = INTENT) (l_orders l)) in
     \<lparr>cr_name = ''no-orphan-intents'', cr_passed = orphans = 0, cr_detail = count_str orphans @ '' unresolved''\<rparr>)"

text \<open>\<^verbatim>\<open>'%.0f'\<close>: to the nearest integer, halves to the even one.\<close>

definition whole_str :: "rat \<Rightarrow> string" where
  "whole_str x = int_str (py_round x)"

definition max_stale_ratio :: rat where
  "max_stale_ratio = 1 / 5"

definition check_stale_ratio :: "ledger \<Rightarrow> criterion" where
  "check_stale_ratio l =
    (let total = numbered_count l;
         stale = length (filter (\<lambda>r. or_state r = STALE) (l_orders l));
         ratio = if total \<noteq> 0 then of_nat stale / of_nat total else 0 in
     \<lparr>cr_name = ''stale-ratio'', cr_passed = total > 0 \<and> ratio \<le> max_stale_ratio,
       cr_detail = count_str stale @ '' of '' @ count_str total @ '' stale ('' @ whole_str (ratio * 100) @ ''%, limit ''
         @ whole_str (max_stale_ratio * 100) @ ''%)''\<rparr>)"

definition check_no_duplicate_fills :: "ledger \<Rightarrow> criterion" where
  "check_no_duplicate_fills l =
    (let ks = map fr_key (l_fills l);
         duplicates = length (filter (\<lambda>k. count_list ks k > 1) (remdups ks)) in
     \<lparr>cr_name = ''no-duplicate-fills'', cr_passed = duplicates = 0, cr_detail = count_str duplicates @ '' duplicated key(s)''\<rparr>)"

text \<open>\<^verbatim>\<open>LIKE '%...%'\<close>: somewhere in the text, whatever the case of its letters.\<close>

fun contains :: "string \<Rightarrow> string \<Rightarrow> bool" where
  "contains p [] = (p = [])"
| "contains p (c # s) = (take (length p) (c # s) = p \<or> contains p s)"

definition like_inside :: "string \<Rightarrow> string \<Rightarrow> bool" where
  "like_inside p s = contains (ascii_lower p) (ascii_lower s)"

text \<open>\<^verbatim>\<open>str(err)\<close> of the stops is their message; of the other exceptions it is \<open>text_of\<close>.\<close>

definition err_text :: "(exn \<Rightarrow> string) \<Rightarrow> exn \<Rightarrow> string" where
  "err_text text_of e =
    (case e of
       KillSwitchEngaged path \<Rightarrow> ''Kill switch file '' @ [CHR 0x27] @ path @ [CHR 0x27] @ '' is present. Trading is halted.''
     | TradingHalted reason \<Rightarrow> reason
     | _ \<Rightarrow> text_of e)"

fun note_text :: "(exn \<Rightarrow> string) \<Rightarrow> ledger_note \<Rightarrow> string" where
  "note_text text_of (Note s) = s"
| "note_text text_of (NoteOf e) = err_text text_of e"

definition kill_refusal :: "(exn \<Rightarrow> string) \<Rightarrow> order_row \<Rightarrow> bool" where
  "kill_refusal text_of r \<longleftrightarrow> or_state r = REJECTED \<and>
    (case or_note r of None \<Rightarrow> False | Some n \<Rightarrow> like_inside ''Kill switch'' (note_text text_of n))"

definition check_kill_switch_exercised :: "(exn \<Rightarrow> string) \<Rightarrow> ledger \<Rightarrow> criterion" where
  "check_kill_switch_exercised text_of l =
    (let fired = length (filter (kill_refusal text_of) (l_orders l)) in
     \<lparr>cr_name = ''kill-switch-exercised'', cr_passed = fired > 0,
       cr_detail = count_str fired @ '' order(s) refused by the kill switch''\<rparr>)"

definition check_ledger :: "(exn \<Rightarrow> string) \<Rightarrow> ledger \<Rightarrow> int \<Rightarrow> exn + criterion list" where
  "check_ledger text_of l min_trading_days =
    (case ledger_is_paper l of
       Inl e \<Rightarrow> Inl e
     | Inr paper \<Rightarrow> Inr
         [paper, check_days_run min_trading_days l, check_orders_placed l, check_fills_booked l,
          check_no_orphan_intents l, check_stale_ratio l, check_no_duplicate_fills l,
          check_kill_switch_exercised text_of l])"

definition default_min_trading_days :: int where
  "default_min_trading_days = 20"

text \<open>The exit code of the script, \<open>min_days\<close> being the option where it was given.\<close>

definition promotion_main :: "(exn \<Rightarrow> string) \<Rightarrow> ledger \<Rightarrow> int option \<Rightarrow> exn + int" where
  "promotion_main text_of l min_days =
    (case check_ledger text_of l (case min_days of None \<Rightarrow> default_min_trading_days | Some n \<Rightarrow> n) of
       Inl e \<Rightarrow> Inl e
     | Inr criteria \<Rightarrow> Inr (if filter (\<lambda>c. \<not> cr_passed c) criteria \<noteq> [] then 1 else 0))"

section \<open>What a pass shows\<close>

lemma none_counted: "length (filter P xs) = 0 \<longleftrightarrow> (\<forall>x \<in> set xs. \<not> P x)"
  by (auto simp: filter_empty_conv)

lemma some_counted: "0 < length (filter P xs) \<longleftrightarrow> (\<exists>x \<in> set xs. P x)"
  using none_counted [of P xs] by auto

lemma distinct_counts: "distinct xs \<longleftrightarrow> (\<forall>x \<in> set xs. \<not> 1 < count_list xs x)"
proof (induction xs)
  case (Cons x xs)
  have "0 < count_list xs x \<longleftrightarrow> x \<in> set xs" using count_list_0_iff [of xs x] by auto
  with Cons show ?case by auto
qed simp

lemma no_duplicate_fills_iff: "cr_passed (check_no_duplicate_fills l) \<longleftrightarrow> distinct (map fr_key (l_fills l))"
  by (simp only: check_no_duplicate_fills_def Let_def criterion.select_convs none_counted set_remdups distinct_counts)

lemma stale_ratio_iff:
  "cr_passed (check_stale_ratio l) \<longleftrightarrow>
    0 < numbered_count l \<and> 5 * length (filter (\<lambda>r. or_state r = STALE) (l_orders l)) \<le> numbered_count l"
proof -
  have "(of_nat s / of_nat t :: rat) \<le> 1 / 5 \<longleftrightarrow> 5 * s \<le> t" if "0 < t" for s t :: nat
  proof -
    have "(of_nat s / of_nat t :: rat) \<le> 1 / 5 \<longleftrightarrow> (of_nat (5 * s) :: rat) \<le> of_nat t" using that by (simp add: field_simps)
    then show ?thesis by (simp only: of_nat_le_iff)
  qed
  then show ?thesis by (auto simp: check_stale_ratio_def Let_def max_stale_ratio_def)
qed

text \<open>The identity the script reads is the one the engine stamps and checks.\<close>

lemma identity_eq:
  assumes "distinct (dict_keys (l_meta l))"
  shows "(case identity l of None \<Rightarrow> get_identity l = None
    | Some ident \<Rightarrow> \<exists>v m a. get_identity l = Some (v, m, a) \<and> map_of ident ''venue'' = Some v \<and>
        map_of ident ''mode'' = Some m \<and> map_of ident ''account_id'' = Some a)"
proof -
  let ?rows = "filter (\<lambda>kv. fst kv \<in> set identity_keys) (l_meta l)"
  have d: "distinct (map fst ?rows)" using assms by (rule distinct_map_filter)
  have lookup: "map_of (rev ?rows) k = map_of (l_meta l) k" if "k \<in> set identity_keys" for k
  proof -
    have "map_of xs k = map_of (l_meta l) k" if "set xs = set ?rows" "distinct (map fst xs)" for xs
    proof -
      have "map_of xs k = Some y \<longleftrightarrow> map_of (l_meta l) k = Some y" for y
        using that assms \<open>k \<in> set identity_keys\<close> by auto
      then show ?thesis by (metis not_None_eq)
    qed
    then show ?thesis using d by (simp add: rev_map [symmetric])
  qed
  have "length ?rows = card (fst ` set ?rows)" using distinct_card [OF d] by simp
  moreover have "fst ` set ?rows = set identity_keys \<inter> fst ` set (l_meta l)" by auto
  moreover have "card (set identity_keys) = 3" by (simp add: identity_keys_def)
  ultimately have "3 \<le> length ?rows \<longleftrightarrow> card (set identity_keys) \<le> card (set identity_keys \<inter> fst ` set (l_meta l))" by simp
  also have "\<dots> \<longleftrightarrow> set identity_keys \<subseteq> fst ` set (l_meta l)"
    using card_seteq [of "set identity_keys" "set identity_keys \<inter> fst ` set (l_meta l)"] by (auto simp: Int_absorb2)
  finally have "3 \<le> length ?rows \<longleftrightarrow> set identity_keys \<subseteq> fst ` set (l_meta l)" .
  then have all: "3 \<le> length ?rows \<longleftrightarrow> (\<forall>k \<in> set identity_keys. map_of (l_meta l) k \<noteq> None)"
    by (auto simp: map_of_eq_None_iff)
  show ?thesis
  proof (cases "3 \<le> length ?rows")
    case True
    with all lookup show ?thesis by (auto simp: identity_def Let_def get_identity_def identity_keys_def)
  next
    case False
    with all show ?thesis by (auto simp: identity_def Let_def get_identity_def identity_keys_def split: option.splits)
  qed
qed

lemma foreign_modes:
  "filter (\<lambda>(mode, n). mode \<noteq> ''paper'') (mode_counts l) = [] \<longleftrightarrow> (\<forall>row \<in> set (l_equity l). snd (snd row) = ''paper'')"
  by (auto simp: mode_counts_def equity_modes_def filter_empty_conv)

lemma ledger_is_paper_verdict:
  assumes "distinct (dict_keys (l_meta l))"
  obtains c where "ledger_is_paper l = Inr c"
    and "cr_passed c \<longleftrightarrow> (\<exists>v a. get_identity l = Some (v, ''paper'', a)) \<and> (\<forall>row \<in> set (l_equity l). snd (snd row) = ''paper'')"
proof (cases "identity l")
  case None
  with identity_eq [OF assms] have "get_identity l = None" by simp
  with None that show ?thesis by (simp add: ledger_is_paper_def Let_def)
next
  case (Some ident)
  with identity_eq [OF assms] obtain v m a where i: "get_identity l = Some (v, m, a)" "map_of ident ''venue'' = Some v"
      "map_of ident ''mode'' = Some m" "map_of ident ''account_id'' = Some a" by auto
  note f = foreign_modes [of l]
  show ?thesis
    by (cases "m = ''paper''"; cases "filter (\<lambda>(mode, n). mode \<noteq> ''paper'') (mode_counts l) = []")
      (rule that, simp add: ledger_is_paper_def Let_def Some i, use i f in simp)+
qed

lemma orphan_intents_iff:
  "cr_passed (check_no_orphan_intents l) \<longleftrightarrow> (\<forall>r \<in> set (l_orders l). or_no r = None \<longrightarrow> or_state r \<noteq> INTENT)"
  by (simp only: check_no_orphan_intents_def Let_def criterion.select_convs none_counted) blast

lemma kill_switch_iff:
  "cr_passed (check_kill_switch_exercised text_of l) \<longleftrightarrow> (\<exists>r \<in> set (l_orders l). kill_refusal text_of r)"
  by (simp only: check_kill_switch_exercised_def Let_def criterion.select_convs some_counted)

text \<open>
  C37. The exit code is zero exactly on a ledger that carries the identity of a paper deployment and
  no equity of another mode, has the days asked for, an order the venue took, a fill, no intent
  without a number, at most one order in five stale, no fill twice, and an order the kill switch
  refused; on every other ledger it is one, and the script does not raise.
\<close>

theorem promotion_needs_every_criterion:
  assumes "distinct (dict_keys (l_meta l))"
  shows "promotion_main text_of l min_days = Inr
    (if (\<exists>v a. get_identity l = Some (v, ''paper'', a)) \<and> (\<forall>row \<in> set (l_equity l). snd (snd row) = ''paper'') \<and>
       (case min_days of None \<Rightarrow> 20 | Some n \<Rightarrow> n) \<le> int (length (l_equity l)) \<and>
       (\<exists>r \<in> set (l_orders l). or_no r \<noteq> None) \<and> l_fills l \<noteq> [] \<and>
       (\<forall>r \<in> set (l_orders l). or_no r = None \<longrightarrow> or_state r \<noteq> INTENT) \<and>
       5 * length (filter (\<lambda>r. or_state r = STALE) (l_orders l)) \<le> length (filter (\<lambda>r. or_no r \<noteq> None) (l_orders l)) \<and>
       distinct (map fr_key (l_fills l)) \<and>
       (\<exists>r \<in> set (l_orders l). kill_refusal text_of r)
     then 0 else 1)"
proof -
  obtain c where c: "ledger_is_paper l = Inr c" and p: "cr_passed c \<longleftrightarrow> (\<exists>v a. get_identity l = Some (v, ''paper'', a)) \<and>
      (\<forall>row \<in> set (l_equity l). snd (snd row) = ''paper'')"
    using ledger_is_paper_verdict [OF assms] .
  have placed: "cr_passed (check_orders_placed l) \<longleftrightarrow> (\<exists>r \<in> set (l_orders l). or_no r \<noteq> None)"
    by (simp only: check_orders_placed_def numbered_count_def Let_def criterion.select_convs some_counted)
  have stale: "cr_passed (check_stale_ratio l) \<longleftrightarrow>
      5 * length (filter (\<lambda>r. or_state r = STALE) (l_orders l)) \<le> length (filter (\<lambda>r. or_no r \<noteq> None) (l_orders l))"
    if "\<exists>r \<in> set (l_orders l). or_no r \<noteq> None"
    using that by (simp add: stale_ratio_iff numbered_count_def filter_empty_conv)
  have days: "cr_passed (check_days_run (case min_days of None \<Rightarrow> default_min_trading_days | Some n \<Rightarrow> n) l) \<longleftrightarrow>
      (case min_days of None \<Rightarrow> 20 | Some n \<Rightarrow> n) \<le> int (length (l_equity l))"
    unfolding check_days_run_def Let_def default_min_trading_days_def by simp
  have fills: "cr_passed (check_fills_booked l) \<longleftrightarrow> l_fills l \<noteq> []" by (simp add: check_fills_booked_def Let_def)
  have "promotion_main text_of l min_days = Inr (if cr_passed c \<and>
      cr_passed (check_days_run (case min_days of None \<Rightarrow> default_min_trading_days | Some n \<Rightarrow> n) l) \<and>
      cr_passed (check_orders_placed l) \<and> cr_passed (check_fills_booked l) \<and> cr_passed (check_no_orphan_intents l) \<and>
      cr_passed (check_stale_ratio l) \<and> cr_passed (check_no_duplicate_fills l) \<and>
      cr_passed (check_kill_switch_exercised text_of l) then 0 else 1)"
    unfolding promotion_main_def check_ledger_def c by simp
  then show ?thesis
    unfolding p placed days fills orphan_intents_iff no_duplicate_fills_iff kill_switch_iff using stale
    by (elim trans) (intro arg_cong [where f = Inr] if_cong refl, blast)
qed

definition demo_paper :: ledger where
  "demo_paper = ledger_record_equity 2 500 ''paper'' (ledger_record_equity 1 400 ''paper''
    (record_state ''id2'' REJECTED 2 (Some (NoteOf (KillSwitchEngaged ''/run/HALT'')))
    (record_intent ''id2'' ''EQ:A'' 3 2 (record_state ''id1'' FILLED 1 None
    (fst (record_fill ''id1'' ''7'' 3 3 70 1 1 None (record_submitted ''id1'' ''7'' 1 (record_intent ''id1'' ''EQ:A'' 3 1
    (fst (stamp_identity ''kis'' ''paper'' ''live'' empty_ledger))))))))))"

lemma demo_paper_tables:
  "get_identity demo_paper = Some (''kis'', ''paper'', ''live'')" "distinct (dict_keys (l_meta demo_paper))"
  "map (snd \<circ> snd) (l_equity demo_paper) = [''paper'', ''paper'']"
  "map (\<lambda>r. (or_state r, or_no r)) (l_orders demo_paper) = [(FILLED, Some ''7''), (REJECTED, None)]"
  "map fr_key (l_fills demo_paper) = [''7:3'']"
  "list_ex (kill_refusal (\<lambda>e. '''')) (l_orders demo_paper)"
  unfolding demo_paper_def by code_simp+

theorem promotion_needs_every_criterion_witness:
  "promotion_main (\<lambda>e. '''') demo_paper (Some 2) = Inr 0 \<and> promotion_main (\<lambda>e. '''') demo_paper None = Inr 1"
proof -
  have "\<forall>row \<in> set (l_equity demo_paper). snd (snd row) = ''paper''"
    using arg_cong [OF demo_paper_tables(3), where f = set] by auto
  moreover have "l_orders demo_paper \<noteq> []" "length (l_equity demo_paper) = 2"
    using demo_paper_tables(4) arg_cong [OF demo_paper_tables(3), where f = length] by auto
  moreover have "\<exists>a b. l_orders demo_paper = [a, b] \<and> or_state a = FILLED \<and> or_no a = Some ''7'' \<and> or_state b = REJECTED"
    using demo_paper_tables(4) by (auto simp: map_eq_Cons_conv)
  moreover have "l_fills demo_paper \<noteq> []" using demo_paper_tables(5) by auto
  moreover have "Bex (set (l_orders demo_paper)) (kill_refusal (\<lambda>e. ''''))" using demo_paper_tables(6) by (simp add: list_ex_iff)
  ultimately show ?thesis
    using promotion_needs_every_criterion [OF demo_paper_tables(2), of "\<lambda>e. ''''" "Some 2"]
      promotion_needs_every_criterion [OF demo_paper_tables(2), of "\<lambda>e. ''''" None] demo_paper_tables(1,5)
    by auto
qed

section \<open>Evidence a live session leaves\<close>

text \<open>An order the kill switch refused is found by the script, whatever the file is called.\<close>

lemma contains_prefix: "contains p (p @ s)"
proof (cases "p @ s")
  case (Cons c t)
  then have "take (length p) (c # t) = p" by (metis append_eq_conv_conj)
  then show ?thesis unfolding Cons by simp
qed simp

lemma kill_note: "like_inside ''Kill switch'' (err_text text_of (KillSwitchEngaged path))"
  using contains_prefix [of "ascii_lower ''Kill switch''" "ascii_lower ('' file '' @ [CHR 0x27] @ path @ [CHR 0x27] @ '' is present. Trading is halted.'')"]
  by (simp add: like_inside_def err_text_def ascii_lower_def)

lemma get_order_in: "get_order oid l = Some r \<Longrightarrow> r \<in> set (l_orders l)"
  by (auto simp: get_order_def find_Some_iff)

theorem kill_switch_refusal_is_found:
  assumes "snd (live_submit_order w pid o' b) = Some (KillSwitchEngaged path)"
    and "lb_ledger (fst (live_submit_order w pid o' b)) \<noteq> lb_ledger b" and "get_order (ord_id o') (lb_ledger b) = None"
  shows "cr_passed (check_kill_switch_exercised text_of (lb_ledger (fst (live_submit_order w pid o' b))))"
proof -
  let ?b = "fst (live_submit_order w pid o' b)"
  obtain m c where m: "get_mark w (ord_asset o') (asked b) = (m, c)" by fastforce
  then have c: "lb_ledger c = lb_ledger b" using get_mark_frame [of w "ord_asset o'" "asked b"] by simp
  have "\<exists>r. get_order (ord_id o') (lb_ledger ?b) = Some r \<and> or_state r = REJECTED \<and>
      or_note r = Some (NoteOf (KillSwitchEngaged path))"
    using assms c m
    by (auto simp: live_submit_order_def engine_now_eq refuse_order_def place_order_def Let_def get_order_intent
        split: if_splits sum.splits option.splits)
  then show ?thesis
    using get_order_in kill_note [of text_of path] by (force simp: kill_switch_iff kill_refusal_def)
qed

text \<open>
  The criterion of the orphans never fails on a ledger that was launched once more: the reconciliation
  has rejected every order without a number, also those whose fate nobody has established.
\<close>

theorem relaunch_clears_the_orphan_criterion:
  assumes "reconcile w halt b = (Inr res, c)" and "fresh_on b" and "prices_its_fills w"
  shows "cr_passed (check_no_orphan_intents (lb_ledger c))"
  unfolding orphan_intents_iff
proof (intro ballI impI notI)
  fix r assume r: "r \<in> set (l_orders (lb_ledger c))" "or_no r = None" "or_state r = INTENT"
  have wf: "wf_orders (lb_ledger c)" using wf_orders_reconcile [OF assms] .
  then have "r \<in> set (get_open_orders (lb_ledger c))" using r by (simp add: get_open_orders_def terminal_states_def)
  then have "get_order (or_id r) (lb_ledger c) = Some r" using get_open_orders_iff [OF wf] by simp
  moreover have "numbered {} (lb_ledger c)"
    using reconcile_numbered [OF assms(1)] assms(2) by (simp add: fresh_on_def ledger_sound_def)
  ultimately show False using r by (fastforce simp: numbered_def terminal_states_def)
qed

end
