(* ===== verification/Env_File.thy ===== *)
theory Env_File
  imports Py_Text
begin

text \<open>
  \<^verbatim>\<open>vmtrader/env_file.py\<close>: settings kept in a \<^verbatim>\<open>.env\<close> file. The environment is a dictionary; which
  paths are files, the working directory and what reading a file answers are the file system's.
  Paths are POSIX paths (\<^verbatim>\<open>os.path\<close>). The summary it may print is left out.
\<close>

section \<open>Paths\<close>

record file_system =
  fs_isfile :: "string \<Rightarrow> bool"
  fs_cwd :: string
  fs_text :: "string \<Rightarrow> exn + string"

definition slash :: char where
  "slash = CHR ''/''"

definition path_join :: "string \<Rightarrow> string \<Rightarrow> string" where
  "path_join a b =
    (if b \<noteq> [] \<and> hd b = slash then b else if a = [] \<or> last a = slash then a @ b else a @ slash # b)"

definition dirname :: "string \<Rightarrow> string" where
  "dirname p =
    (let head = rev (dropWhile (\<lambda>c. c \<noteq> slash) (rev p)) in
     if \<exists>c \<in> set head. c \<noteq> slash then rev (dropWhile (\<lambda>c. c = slash) (rev head)) else head)"

definition leading_slashes :: "string \<Rightarrow> string" where
  "leading_slashes p =
    (let s = takeWhile (\<lambda>c. c = slash) p in if length s = 2 then s else take 1 s)"

definition norm_step :: "bool \<Rightarrow> string \<Rightarrow> string list \<Rightarrow> string list" where
  "norm_step rooted part parts =
    (if part = [] \<or> part = ''.'' then parts
     else if part \<noteq> ''..'' \<or> (\<not> rooted \<and> parts = []) \<or> (parts \<noteq> [] \<and> last parts = ''..'') then parts @ [part]
     else butlast parts)"

definition normpath :: "string \<Rightarrow> string" where
  "normpath p =
    (if p = [] then ''.''
     else let root = leading_slashes p;
              q = root @ join_by [slash] (fold (norm_step (root \<noteq> [])) (split_on slash p) []) in
          if q = [] then ''.'' else q)"

definition abspath :: "file_system \<Rightarrow> string \<Rightarrow> string" where
  "abspath fs p = normpath (if p \<noteq> [] \<and> hd p = slash then p else path_join (fs_cwd fs) p)"

section \<open>Finding the file\<close>

definition env_filename :: string where
  "env_filename = ''.env''"

lemma rstrip_shorter: "rev (dropWhile P (rev s)) = s \<or> length (rev (dropWhile P (rev s))) < length s"
proof (cases "takeWhile P (rev s)")
  case Nil
  then have "dropWhile P (rev s) = rev s" using takeWhile_dropWhile_id [of P "rev s"] by simp
  then show ?thesis by simp
next
  case (Cons c cs)
  have "length (rev s) = length (takeWhile P (rev s)) + length (dropWhile P (rev s))"
    by (simp only: length_append [symmetric] takeWhile_dropWhile_id)
  with Cons show ?thesis by simp
qed

lemma dirname_shorter: "dirname d \<noteq> d \<Longrightarrow> length (dirname d) < length d"
proof -
  assume ne: "dirname d \<noteq> d"
  define h where "h = rev (dropWhile (\<lambda>c. c \<noteq> slash) (rev d))"
  define t where "t = rev (dropWhile (\<lambda>c. c = slash) (rev h))"
  have "dirname d = h \<or> dirname d = t" 
    unfolding dirname_def Let_def h_def [symmetric] t_def [symmetric] by presburger
  moreover have "h = d \<or> length h < length d" unfolding h_def by (rule rstrip_shorter)
  moreover have "t = h \<or> length t < length h" unfolding t_def by (rule rstrip_shorter)
  ultimately show ?thesis using ne by auto
qed

function find_up :: "(string \<Rightarrow> bool) \<Rightarrow> string \<Rightarrow> string option" where
  "find_up isfile directory =
    (let candidate = path_join directory env_filename in
     if isfile candidate then Some candidate
     else (let parent = dirname directory in
       if parent = directory then None else find_up isfile parent))"
  by auto

termination
  by (relation "measure (length \<circ> snd)") (auto dest: dirname_shorter)

declare find_up.simps [simp del]

definition find_env_file :: "file_system \<Rightarrow> (string, string) dict \<Rightarrow> string option \<Rightarrow> string option" where
  "find_env_file fs environ start_dir =
    (case map_of environ ''VMTRADER_ENV_FILE'' of
       Some explicit \<Rightarrow>
         if explicit \<noteq> [] then (if fs_isfile fs explicit then Some explicit else None)
         else find_up (fs_isfile fs) (abspath fs (case start_dir of None \<Rightarrow> fs_cwd fs | Some d \<Rightarrow> d))
     | None \<Rightarrow> find_up (fs_isfile fs) (abspath fs (case start_dir of None \<Rightarrow> fs_cwd fs | Some d \<Rightarrow> d)))"

section \<open>Reading it\<close>

text \<open>A \<^verbatim>\<open>#\<close> at the start or after white space begins a comment; \<open>free\<close> says that it would.\<close>

fun cut_comment :: "bool \<Rightarrow> string \<Rightarrow> string" where
  "cut_comment free [] = []"
| "cut_comment free (c # s) = (if c = CHR ''#'' \<and> free then [] else c # cut_comment (is_space c) s)"

definition is_quote :: "char \<Rightarrow> bool" where
  "is_quote c \<longleftrightarrow> c = CHR 0x22 \<or> c = CHR 0x27"

definition parse_env_value :: "string \<Rightarrow> string" where
  "parse_env_value raw =
    (let v = strip raw in
     if 2 \<le> length v \<and> hd v = last v \<and> is_quote (hd v) then butlast (tl v)
     else strip (cut_comment True v))"

text \<open>The lines of a text file, each with its end: \<^verbatim>\<open>\r\n\<close> and \<^verbatim>\<open>\r\<close> are read as \<^verbatim>\<open>\n\<close>.\<close>

definition newline :: char where
  "newline = CHR 0x0A"

definition carriage_return :: char where
  "carriage_return = CHR 0x0D"

fun universal_newlines :: "string \<Rightarrow> string" where
  "universal_newlines [] = []"
| "universal_newlines [c] = [if c = carriage_return then newline else c]"
| "universal_newlines (c # d # s) =
    (if c = carriage_return then newline # universal_newlines (if d = newline then s else d # s)
     else c # universal_newlines (d # s))"

definition file_lines :: "string \<Rightarrow> string list" where
  "file_lines text =
    (let ls = split_on newline (universal_newlines text) in
     map (\<lambda>l. l @ [newline]) (butlast ls) @ (if last ls = [] then [] else [last ls]))"

definition parse_env_line :: "string \<Rightarrow> (string, string) dict \<Rightarrow> (string, string) dict" where
  "parse_env_line line settings =
    (let line = strip line in
     if line = [] \<or> hd line = CHR ''#'' then settings
     else
       let line = (if take 7 line = ''export '' then drop 7 line else line) in
       if CHR ''='' \<notin> set line then settings
       else
         let key = strip (takeWhile (\<lambda>c. c \<noteq> CHR ''='') line);
             raw = tl (dropWhile (\<lambda>c. c \<noteq> CHR ''='') line) in
         if key = [] then settings else AList.update key (parse_env_value raw) settings)"

definition parse_env_file :: "file_system \<Rightarrow> string \<Rightarrow> exn + (string, string) dict" where
  "parse_env_file fs path =
    (case fs_text fs path of
       Inl e \<Rightarrow> Inl e
     | Inr text \<Rightarrow> Inr (fold parse_env_line (file_lines text) []))"

section \<open>Applying it\<close>

text \<open>\<^verbatim>\<open>os.environ[key] = value\<close> raises on a null byte, and on an equals sign in the name.\<close>

definition set_environ :: "string \<Rightarrow> string \<Rightarrow> (string, string) dict \<Rightarrow> (string, string) dict outcome" where
  "set_environ key v environ =
    (if CHR 0x00 \<in> set key \<union> set v \<or> CHR ''='' \<in> set key then raise ValueError environ
     else ok (AList.update key v environ))"

text \<open>The state is what was applied and the environment.\<close>

type_synonym loading = "(string, string) dict \<times> (string, string) dict"

definition apply_setting :: "string \<times> string \<Rightarrow> loading \<Rightarrow> loading outcome" where
  "apply_setting kv l =
    (case (kv, l) of ((key, v), (applied, environ)) \<Rightarrow>
       if key \<in> set (dict_keys environ) then ok l
       else then_do (map_outcome (\<lambda>environ. (applied, environ)) (set_environ key v environ))
         (\<lambda>(applied, environ). ok (AList.update key v applied, environ)))"

definition load_env_file :: "file_system \<Rightarrow> string option \<Rightarrow> (string, string) dict \<Rightarrow> loading outcome" where
  "load_env_file fs path environ =
    (case (case path of None \<Rightarrow> find_env_file fs environ None | Some p \<Rightarrow> Some p) of
       None \<Rightarrow> ok ([], environ)
     | Some p \<Rightarrow>
         if \<not> fs_isfile fs p then ok ([], environ)
         else (case parse_env_file fs p of
             Inl e \<Rightarrow> raise e ([], environ)
           | Inr settings \<Rightarrow> for_each apply_setting settings ([], environ)))"

section \<open>The environment wins\<close>

lemma parsed_distinct: "parse_env_file fs p = Inr settings \<Longrightarrow> distinct (dict_keys settings)"
proof -
  have "distinct (dict_keys d) \<Longrightarrow> distinct (dict_keys (fold parse_env_line ls d))" for ls d
    by (induction ls arbitrary: d) (auto simp: parse_env_line_def Let_def distinct_update)
  then show "parse_env_file fs p = Inr settings \<Longrightarrow> distinct (dict_keys settings)"
    by (auto simp: parse_env_file_def split: sum.splits)
qed

text \<open>What applying part of the settings leaves, whether it raised or not.\<close>

definition applied_to :: "(string, string) dict \<Rightarrow> loading \<Rightarrow> bool" where
  "applied_to environ l \<longleftrightarrow> map_of (snd l) = map_of (fst l) ++ map_of environ \<and>
    set (dict_keys (fst l)) \<inter> set (dict_keys environ) = {}"

lemma applied_to_start [simp]: "applied_to environ ([], environ)"
  by (simp add: applied_to_def)

lemma apply_setting_frame:
  assumes "applied_to environ l"
  shows "applied_to environ (fst (apply_setting kv l))"
proof -
  obtain k v a e where kv: "kv = (k, v)" and l: "l = (a, e)" by (metis surj_pair)
  have "k \<notin> set (dict_keys environ) \<and> map_of environ k = None" if "k \<notin> set (dict_keys e)"
  proof -
    have "map_of e k = None" using that by (simp add: map_of_eq_None_iff)
    with assms have "map_of environ k = None" by (auto simp: applied_to_def l map_add_def split: option.splits)
    then show ?thesis by (simp add: map_of_eq_None_iff)
  qed
  then show ?thesis
    using assms
    by (auto simp: kv l apply_setting_def set_environ_def applied_to_def raise_def ok_def then_do_def map_outcome_def
        update_conv' dom_update map_add_def fun_eq_iff split: option.splits)
qed

lemma apply_settings_done:
  assumes "for_each apply_setting settings (applied, environ) = ok (applied', environ')"
    and "distinct (dict_keys settings)" and "set (dict_keys applied) \<inter> set (dict_keys settings) = {}"
  shows "applied' = applied @ filter (\<lambda>kv. fst kv \<notin> set (dict_keys environ)) settings"
  using assms
proof (induction settings arbitrary: applied environ)
  case (Cons kv settings)
  obtain k v where kv: "kv = (k, v)" by fastforce
  show ?case
  proof (cases "k \<in> set (dict_keys environ)")
    case True
    then have "apply_setting kv (applied, environ) = ok (applied, environ)" by (simp add: kv apply_setting_def)
    with Cons True show ?thesis by (simp add: kv)
  next
    case False
    obtain u where u: "apply_setting kv (applied, environ) = ok u" "for_each apply_setting settings u = ok (applied', environ')"
      using Cons.prems(1) by (auto simp: then_do_eq_ok)
    then have "u = (AList.update k v applied, AList.update k v environ)"
      using False by (auto simp: kv apply_setting_def set_environ_def then_do_def map_outcome_def raise_def ok_def split: if_splits)
    moreover have "AList.update k v applied = applied @ [(k, v)]" using Cons.prems(3) by (intro update_new) (auto simp: kv map_of_eq_None_iff)
    moreover have "filter (\<lambda>kv. fst kv \<notin> set (dict_keys (AList.update k v environ))) settings =
        filter (\<lambda>kv. fst kv \<notin> set (dict_keys environ)) settings"
      using Cons.prems(2) by (intro filter_cong) (auto simp: kv dom_update image_iff)
    ultimately show ?thesis
      using Cons.IH [of "applied @ [(k, v)]" "AList.update k v environ"] u Cons.prems False by (auto simp: kv)
  qed
qed (simp add: ok_def)

text \<open>
  Loading a file never changes a variable that was set, also where it raises half way: the
  environment is what was applied, overridden by the variables it had. A load that ends has applied
  exactly the settings of the file whose names were not set, in the order of the file.
\<close>

theorem environment_always_wins:
  assumes "load_env_file fs path environ = ((applied, environ'), e)"
  shows "map_of environ' = map_of applied ++ map_of environ \<and>
    set (dict_keys applied) \<inter> set (dict_keys environ) = {} \<and>
    (\<forall>p settings. e = None \<longrightarrow> (case path of None \<Rightarrow> find_env_file fs environ None | Some p \<Rightarrow> Some p) = Some p \<longrightarrow>
      fs_isfile fs p \<longrightarrow> parse_env_file fs p = Inr settings \<longrightarrow>
      applied = filter (\<lambda>kv. fst kv \<notin> set (dict_keys environ)) settings)"
proof -
  have frame: "applied_to environ (fst (for_each apply_setting settings ([], environ)))" for settings
    by (rule for_each_inv) (simp_all add: apply_setting_frame)
  have "applied_to environ (applied, environ')"
    using assms frame
    by (auto simp: load_env_file_def ok_def raise_def split: option.splits if_splits sum.splits) (metis fst_conv)+
  moreover have "applied = filter (\<lambda>kv. fst kv \<notin> set (dict_keys environ)) settings"
    if "e = None" "(case path of None \<Rightarrow> find_env_file fs environ None | Some p \<Rightarrow> Some p) = Some p"
      "fs_isfile fs p" "parse_env_file fs p = Inr settings" for p settings
  proof -
    have "for_each apply_setting settings ([], environ) = ok (applied, environ')"
      using assms that by (simp add: load_env_file_def ok_def)
    from apply_settings_done [OF this parsed_distinct [OF that(4)]] show ?thesis by simp
  qed
  ultimately show ?thesis by (simp add: applied_to_def)
qed

section \<open>Written settings are read back\<close>

text \<open>A setting as one writes it: the name, and the value between double quotes.\<close>

definition double_quote :: char where
  "double_quote = CHR 0x22"

definition setting_line :: "string \<times> string \<Rightarrow> string" where
  "setting_line kv = fst kv @ CHR ''='' # double_quote # snd kv @ [double_quote]"

definition settings_text :: "(string, string) dict \<Rightarrow> string" where
  "settings_text settings = concat (map (\<lambda>kv. setting_line kv @ [newline]) settings)"

definition plain_name :: "string \<Rightarrow> bool" where
  "plain_name k \<longleftrightarrow> k \<noteq> [] \<and> hd k \<noteq> CHR ''#'' \<and> CHR ''='' \<notin> set k \<and> list_all (\<lambda>c. \<not> is_space c) k"

definition one_line :: "string \<Rightarrow> bool" where
  "one_line v \<longleftrightarrow> newline \<notin> set v \<and> carriage_return \<notin> set v"

lemma newline_chars [simp]: "is_space newline" "is_space carriage_return" "carriage_return \<noteq> newline"
    "newline \<noteq> carriage_return" "\<not> is_space double_quote" "is_quote double_quote"
    "double_quote \<noteq> newline" "double_quote \<noteq> carriage_return"
  by (simp_all add: is_space_def newline_def carriage_return_def double_quote_def is_quote_def)

lemma universal_idle: "carriage_return \<notin> set s \<Longrightarrow> universal_newlines s = s"
  by (induction s rule: universal_newlines.induct) auto

lemma setting_one_line:
  assumes "plain_name (fst kv)" and "one_line (snd kv)"
  shows "newline \<notin> set (setting_line kv)" and "carriage_return \<notin> set (setting_line kv)"
  using assms by (auto simp: setting_line_def plain_name_def one_line_def list_all_iff newline_def carriage_return_def
      double_quote_def is_space_def)

lemma file_lines_settings:
  assumes "\<forall>kv \<in> set settings. plain_name (fst kv) \<and> one_line (snd kv)"
  shows "file_lines (settings_text settings) = map (\<lambda>kv. setting_line kv @ [newline]) settings"
proof -
  have "carriage_return \<notin> set (settings_text settings)"
    using assms setting_one_line(2) by (auto simp: settings_text_def)
  moreover have "split_on newline (settings_text settings) = map setting_line settings @ [[]]"
    using assms by (induction settings) (simp_all add: settings_text_def split_on_append setting_one_line)
  ultimately show ?thesis by (simp add: file_lines_def universal_idle Let_def comp_def)
qed

lemma parse_quoted: "parse_env_value (double_quote # v @ [double_quote]) = v"
proof -
  have "strip (double_quote # v @ [double_quote]) = double_quote # v @ [double_quote]" by (intro strip_by_idle) simp
  then show ?thesis by (simp add: parse_env_value_def Let_def)
qed

lemma parse_setting:
  assumes "plain_name k"
  shows "parse_env_line (setting_line (k, v) @ [newline]) settings = AList.update k v settings"
proof -
  let ?line = "setting_line (k, v)"
  have k: "k \<noteq> []" "hd k \<noteq> CHR ''#''" "CHR ''='' \<notin> set k" "\<forall>c \<in> set k. \<not> is_space c"
    using assms by (auto simp: plain_name_def list_all_iff)
  have "strip ([] @ ?line @ [newline]) = strip ?line" by (rule strip_padded) simp_all
  also have "strip ?line = ?line" using k by (intro strip_by_idle) (simp add: setting_line_def)
  finally have strip: "strip (?line @ [newline]) = ?line" by simp
  have "take 7 ?line \<noteq> ''export ''"
  proof
    assume e: "take 7 ?line = ''export ''"
    have "CHR '' '' \<in> set (take 7 k)" if "7 \<le> length k" using that e by (simp add: setting_line_def)
    moreover have "CHR '' '' \<notin> set (take 7 k)" using k(4) by (auto simp: is_space_def dest!: in_set_takeD)
    ultimately have "length k < 7" by linarith
    then have "CHR ''='' \<in> set (take 7 ?line)" by (simp add: setting_line_def take_Cons')
    with e show False by simp
  qed
  moreover have "takeWhile (\<lambda>c. c \<noteq> CHR ''='') (k @ x) = k @ takeWhile (\<lambda>c. c \<noteq> CHR ''='') x"
    and "dropWhile (\<lambda>c. c \<noteq> CHR ''='') (k @ x) = dropWhile (\<lambda>c. c \<noteq> CHR ''='') x" for x
    by (rule takeWhile_append2, use k(3) in blast) (rule dropWhile_append2, use k(3) in blast)
  moreover have "strip k = k" using k(1,4) by (intro strip_by_idle) simp
  ultimately show ?thesis
    unfolding parse_env_line_def strip Let_def using k(1,2) by (simp add: parse_quoted setting_line_def)
qed

text \<open>
  C39. Settings written one a line as \<open>NAME="value"\<close> are read back as they are, in their order,
  whatever the values hold but a line end: quotes, hashes, equals signs and spaces at the ends.
\<close>

theorem written_settings_are_read_back:
  assumes "fs_text fs p = Inr (settings_text settings)" and "distinct (dict_keys settings)"
    and "\<forall>kv \<in> set settings. plain_name (fst kv) \<and> one_line (snd kv)"
  shows "parse_env_file fs p = Inr settings"
proof -
  have "fold parse_env_line (map (\<lambda>kv. setting_line kv @ [newline]) s) d = d @ s"
    if "\<forall>kv \<in> set s. plain_name (fst kv)" "distinct (dict_keys (d @ s))" for s d
    using that
  proof (induction s arbitrary: d)
    case (Cons kv s)
    obtain k v where kv: "kv = (k, v)" by fastforce
    have "AList.update k v d = d @ [(k, v)]" using Cons.prems(2) by (intro update_new) (auto simp: kv map_of_eq_None_iff)
    with Cons show ?case by (simp add: kv parse_setting)
  qed simp
  with assms show ?thesis by (simp add: parse_env_file_def file_lines_settings)
qed

text \<open>
  A quoted value before a comment keeps its quotes, for the text no longer ends with one; the comment
  is cut as that of an unquoted value. The sample line of the module's own documentation is such a line.
\<close>

lemma cut_comment_from:
  assumes "CHR ''#'' \<notin> set w" and "list_all is_space pad" and "pad \<noteq> []"
  shows "cut_comment free (w @ pad @ CHR ''#'' # t) = w @ pad"
proof -
  have hash: "\<not> is_space (CHR ''#'')" by (simp add: is_space_def)
  have "cut_comment f (pad @ CHR ''#'' # t) = pad" if "pad \<noteq> [] \<or> f" for f
    using assms(2) that
  proof (induction pad arbitrary: f)
    case (Cons x pad)
    with hash have "x \<noteq> CHR ''#''" by auto
    with Cons show ?case by simp
  qed simp
  with assms(1,3) show ?thesis by (induction w arbitrary: free) auto
qed

theorem commented_value_keeps_its_quotes:
  assumes "CHR ''#'' \<notin> set v" and "list_all is_space pad" and "pad \<noteq> []"
    and "c \<noteq> []" and "\<not> is_space (last c)" and "last c \<noteq> double_quote"
  shows "parse_env_value (double_quote # v @ double_quote # pad @ CHR ''#'' # c) = double_quote # v @ [double_quote]"
proof -
  let ?q = "double_quote # v @ [double_quote]"
  have idle: "strip (?q @ pad @ CHR ''#'' # c) = ?q @ pad @ CHR ''#'' # c"
    using assms(4,5) by (intro strip_by_idle) simp
  have "CHR ''#'' \<notin> set ?q" using assms(1) by (simp add: double_quote_def)
  then have cut: "cut_comment True (?q @ pad @ CHR ''#'' # c) = ?q @ pad" using assms(2,3) by (rule cut_comment_from)
  have "strip ([] @ ?q @ pad) = strip ?q" using assms(2) by (intro strip_padded) simp_all
  also have "\<dots> = ?q" by (intro strip_by_idle) simp
  finally have "strip (?q @ pad) = ?q" by simp
  then have "parse_env_value (?q @ pad @ CHR ''#'' # c) = ?q"
    unfolding parse_env_value_def idle cut Let_def using assms(4,6) by simp
  then show ?thesis by simp
qed

section \<open>The nearest file is found\<close>

definition dir_path :: "string \<Rightarrow> string list \<Rightarrow> string" where
  "dir_path start names = start @ join_by [slash] names"

definition path_names :: "string list \<Rightarrow> bool" where
  "path_names names \<longleftrightarrow> (\<forall>n \<in> set names. n \<noteq> [] \<and> slash \<notin> set n)"

definition roots :: "string set" where
  "roots = {[slash], [slash, slash]}"

lemma join_by_snoc: "join_by s (xs @ [x]) = (if xs = [] then x else join_by s xs @ s @ x)"
  by (induction s xs rule: join_by.induct) auto

lemma join_by_last:
  assumes "path_names names" and "names \<noteq> []"
  shows "join_by [slash] names \<noteq> [] \<and> last (join_by [slash] names) \<noteq> slash"
proof -
  have "last names \<noteq> [] \<and> slash \<notin> set (last names)" using assms by (simp add: path_names_def)
  moreover from this have "last (last names) \<noteq> slash" by (metis last_in_set)
  ultimately show ?thesis
    using assms(2) join_by_snoc [of "[slash]" "butlast names" "last names"] by (auto split: if_splits)
qed

lemma dirname_parts:
  assumes "slash \<notin> set n" and "h = [] \<or> last h = slash"
  shows "dirname (h @ n) = (if \<exists>c \<in> set h. c \<noteq> slash then rev (dropWhile (\<lambda>c. c = slash) (rev h)) else h)"
proof -
  have "dropWhile (\<lambda>c. c \<noteq> slash) (rev n @ rev h) = dropWhile (\<lambda>c. c \<noteq> slash) (rev h)"
    by (rule dropWhile_append2) (use assms(1) in auto)
  also have "\<dots> = rev h" using assms(2) by (cases h rule: rev_cases) simp_all
  finally show ?thesis by (simp only: dirname_def rev_append rev_rev_ident Let_def)
qed

lemma dirname_root: "start \<in> roots \<Longrightarrow> dirname (dir_path start []) = dir_path start []"
  using dirname_parts [of "[]" start] by (auto simp: roots_def dir_path_def)

lemma dirname_dir_path:
  assumes "start \<in> roots" and "path_names (names @ [n])"
  shows "dirname (dir_path start (names @ [n])) = dir_path start names"
proof (cases "names = []")
  case True
  then show ?thesis
    using dirname_parts [of n start] assms by (auto simp: path_names_def roots_def dir_path_def)
next
  case False
  let ?d = "start @ join_by [slash] names"
  have d: "?d \<noteq> []" "last ?d \<noteq> slash" using join_by_last [of names] False assms by (auto simp: path_names_def)
  then have "\<exists>c \<in> set (?d @ [slash]). c \<noteq> slash" by (metis Un_iff last_in_set set_append)
  moreover have "dropWhile (\<lambda>c. c = slash) (rev (?d @ [slash])) = rev ?d"
    using d by (cases ?d rule: rev_cases) simp_all
  ultimately have "dirname ((?d @ [slash]) @ n) = ?d"
    using dirname_parts [of n "?d @ [slash]"] assms(2) by (simp add: path_names_def)
  then show ?thesis using False by (simp add: dir_path_def join_by_snoc)
qed

text \<open>The files the search may find, nearest first.\<close>

definition env_candidates :: "string \<Rightarrow> string list \<Rightarrow> string list" where
  "env_candidates start names =
    map (\<lambda>n. path_join (dir_path start (take n names)) env_filename) (rev [0..<Suc (length names)])"

lemma env_candidates_snoc:
  "env_candidates start (names @ [n]) = path_join (dir_path start (names @ [n])) env_filename # env_candidates start names"
  by (simp add: env_candidates_def)

lemma find_up_eq:
  assumes "start \<in> roots" and "path_names names"
  shows "find_up isfile (dir_path start names) = find isfile (env_candidates start names)"
  using assms(2)
proof (induction names rule: rev_induct)
  case Nil
  then show ?case
    using dirname_root [OF assms(1)] by (subst find_up.simps) (simp add: env_candidates_def Let_def)
next
  case (snoc n names)
  have "dir_path start names \<noteq> dir_path start (names @ [n])"
    using snoc.prems by (auto simp: dir_path_def join_by_snoc path_names_def)
  moreover have "path_names names" using snoc.prems by (simp add: path_names_def)
  ultimately show ?case
    using snoc.IH dirname_dir_path [OF assms(1) snoc.prems]
    by (subst find_up.simps) (simp add: env_candidates_snoc Let_def)
qed

lemma norm_steps_names:
  "path_names parts \<Longrightarrow> \<forall>p \<in> set ps. slash \<notin> set p \<Longrightarrow> path_names (fold (norm_step rooted) ps parts)"
proof (induction ps arbitrary: parts)
  case (Cons p ps)
  from Cons.prems have "path_names (norm_step rooted p parts)"
    unfolding norm_step_def path_names_def by (auto dest: in_set_butlastD)
  with Cons show ?case by simp
qed simp

lemma normpath_absolute:
  assumes "p \<noteq> []" and "hd p = slash"
  obtains start names where "start \<in> roots" and "path_names names" and "normpath p = dir_path start names"
proof -
  obtain q where p: "p = slash # q" using assms by (cases p) auto
  have "leading_slashes p \<in> roots"
  proof (cases "takeWhile (\<lambda>c. c = slash) q")
    case (Cons x xs)
    then have "x = slash" by (metis list.set_intros(1) set_takeWhileD)
    with Cons show ?thesis by (simp add: leading_slashes_def Let_def p roots_def)
  qed (simp add: leading_slashes_def Let_def p roots_def)
  moreover have "path_names (fold (norm_step (leading_slashes p \<noteq> [])) (split_on slash p) [])"
    by (rule norm_steps_names) (auto simp: path_names_def dest: split_on_pieces)
  moreover from calculation(1) have "leading_slashes p \<noteq> []" by (auto simp: roots_def)
  ultimately show ?thesis using that assms(1) by (simp add: normpath_def dir_path_def Let_def)
qed

text \<open>
  Unless another file is named, the file loaded is the one nearest to where the search starts: the
  first file among the candidates of the directory and its parents up to the root, and none if none
  of them is there. The search ends at the root of every file system.
\<close>

theorem nearest_env_file_is_found:
  assumes "fs_cwd fs \<noteq> []" and "hd (fs_cwd fs) = slash"
    and "map_of environ ''VMTRADER_ENV_FILE'' = None \<or> map_of environ ''VMTRADER_ENV_FILE'' = Some []"
  shows "\<exists>start names. start \<in> roots \<and> path_names names \<and>
    abspath fs (case start_dir of None \<Rightarrow> fs_cwd fs | Some d \<Rightarrow> d) = dir_path start names \<and>
    find_env_file fs environ start_dir = find (fs_isfile fs) (env_candidates start names)"
proof -
  let ?s = "case start_dir of None \<Rightarrow> fs_cwd fs | Some d \<Rightarrow> d"
  let ?p = "if ?s \<noteq> [] \<and> hd ?s = slash then ?s else path_join (fs_cwd fs) ?s"
  have "path_join (fs_cwd fs) d \<noteq> [] \<and> hd (path_join (fs_cwd fs) d) = slash" for d
    using assms(1,2) by (auto simp: path_join_def)
  then have "?p \<noteq> [] \<and> hd ?p = slash" by simp
  then obtain start names where n: "start \<in> roots" "path_names names" "abspath fs ?s = dir_path start names"
    using normpath_absolute [of ?p] unfolding abspath_def by blast
  have "find_env_file fs environ start_dir = find_up (fs_isfile fs) (abspath fs ?s)"
    unfolding find_env_file_def using assms(3) by (elim disjE) (simp_all only: option.case simp_thms if_False)
  with n find_up_eq [OF n(1,2)] show ?thesis by metis
qed

definition demo_settings :: "(string, string) dict" where
  "demo_settings = [(''DIR'', '' /data # old ''), (''NAME'', ''a=b'')]"

definition demo_files :: file_system where
  "demo_files = \<lparr>fs_isfile = (\<lambda>p. p = ''/srv/.env''), fs_cwd = ''/srv/run'',
     fs_text = (\<lambda>p. Inr (settings_text demo_settings))\<rparr>"

theorem written_settings_are_read_back_witness:
  "parse_env_file demo_files ''/srv/.env'' = Inr [(''DIR'', '' /data # old ''), (''NAME'', ''a=b'')]"
proof -
  have "\<forall>kv \<in> set demo_settings. plain_name (fst kv) \<and> one_line (snd kv)"
    by (simp add: demo_settings_def plain_name_def one_line_def is_space_def newline_def carriage_return_def)
  then show ?thesis
    using written_settings_are_read_back [of demo_files "''/srv/.env''" demo_settings]
    by (simp add: demo_files_def demo_settings_def)
qed

theorem nearest_env_file_is_found_witness:
  "find_env_file demo_files [] None = Some ''/srv/.env'' \<and>
   (\<exists>start names. start \<in> roots \<and> find_env_file demo_files [] None = find (fs_isfile demo_files) (env_candidates start names))"
proof -
  have "find_env_file demo_files [] None = Some ''/srv/.env''" unfolding demo_files_def by code_simp
  moreover have "fs_cwd demo_files \<noteq> [] \<and> hd (fs_cwd demo_files) = slash" by (simp add: demo_files_def slash_def)
  ultimately show ?thesis using nearest_env_file_is_found [of demo_files "[]" None] by fastforce
qed

end
