(* ===== verification/Strategies.thy ===== *)
theory Strategies
  imports Signals
begin

text \<open>
  The alpha models of the examples, which are the strategies the library is documented by:
  \<^verbatim>\<open>examples/sma_crossover.py\<close> holds what trends upwards, \<^verbatim>\<open>examples/momentum_taa.py\<close> the assets
  that rose most. Both read the signals of \<open>Signals\<close> and answer the weights the construction model
  takes. The signal named \<^verbatim>\<open>sma\<close> is a moving average, that named \<^verbatim>\<open>momentum\<close> a momentum.
\<close>

section \<open>Reading the signals\<close>

text \<open>\<^verbatim>\<open>self.signals[name]\<close>\<close>

definition signal_of :: "signals_collection \<Rightarrow> string \<Rightarrow> exn + price_signal" where
  "signal_of c name = (case map_of (sc_signals c) name of None \<Rightarrow> Inl KeyError | Some s \<Rightarrow> Inr s)"

text \<open>\<^verbatim>\<open>>\<close> of floats: it is false where one side is not a number.\<close>

definition nan_greater :: "nan_rat \<Rightarrow> nan_rat \<Rightarrow> bool" where
  "nan_greater x y = (case (x, y) of (Some a, Some b) \<Rightarrow> b < a | _ \<Rightarrow> False)"

text \<open>\<^verbatim>\<open>weights[asset] = w\<close> for each asset of a list.\<close>

definition put_weights :: "rat \<Rightarrow> symbol list \<Rightarrow> weights \<Rightarrow> weights" where
  "put_weights w assets ws = fold (\<lambda>a. AList.update a w) assets ws"

section \<open>The moving-average crossover\<close>

record crossover_model =
  cm_signals :: signals_collection
  cm_short_lookback :: int
  cm_long_lookback :: int
  cm_universe :: asset_universe

definition trends :: "crossover_model \<Rightarrow> symbol \<Rightarrow> exn + bool" where
  "trends m asset =
    and_then (signal_of (cm_signals m) ''sma'') (\<lambda>s.
    and_then (sma_value s asset (cm_short_lookback m)) (\<lambda>short.
    and_then (sma_value s asset (cm_long_lookback m)) (\<lambda>long. Inr (nan_greater short long))))"

fun trending_among :: "crossover_model \<Rightarrow> symbol list \<Rightarrow> exn + symbol list" where
  "trending_among m [] = Inr []"
| "trending_among m (a # as) =
     and_then (trends m a) (\<lambda>t. and_then (trending_among m as) (\<lambda>rest. Inr (if t then a # rest else rest)))"

definition trending_assets :: "crossover_model \<Rightarrow> timestamp \<Rightarrow> exn + symbol list" where
  "trending_assets m dt = trending_among m (get_assets (cm_universe m) dt)"

definition crossover_signals :: "crossover_model \<Rightarrow> timestamp \<Rightarrow> weights \<Rightarrow> exn + weights" where
  "crossover_signals m dt ws =
    and_then (trending_assets m dt) (\<lambda>trending.
      Inr (if trending = [] then ws else put_weights (1 / of_nat (length trending)) trending ws))"

definition sma_crossover :: "crossover_model \<Rightarrow> alpha_model" where
  "sma_crossover m dt =
    (let ws = constant_weights 0 (get_assets (cm_universe m) dt) in
     if sc_warmup (cm_signals m) \<ge> cm_long_lookback m then crossover_signals m dt ws else Inr ws)"

section \<open>The strongest momenta\<close>

record momentum_model =
  mm_signals :: signals_collection
  mm_lookback :: int
  mm_top_n :: int
  mm_universe :: asset_universe

fun momenta_of :: "bool \<Rightarrow> price_signal \<Rightarrow> int \<Rightarrow> symbol list \<Rightarrow> (symbol, rat) dict \<Rightarrow> exn + (symbol, rat) dict" where
  "momenta_of pads s lookback [] momenta = Inr momenta"
| "momenta_of pads s lookback (a # as) momenta =
     and_then (momentum_value pads s a lookback) (\<lambda>v. momenta_of pads s lookback as (AList.update a v momenta))"

text \<open>\<^verbatim>\<open>xs[:n]\<close>\<close>

definition slice_to :: "int \<Rightarrow> 'a list \<Rightarrow> 'a list" where
  "slice_to n xs = (if 0 \<le> n then take (nat n) xs else take (length xs - nat (- n)) xs)"

text \<open>\<^verbatim>\<open>sorted(..., reverse=True)\<close> keeps the order of equal momenta.\<close>

definition highest_momentum_asset :: "bool \<Rightarrow> momentum_model \<Rightarrow> exn + symbol list" where
  "highest_momentum_asset pads m =
    and_then (signal_of (mm_signals m) ''momentum'') (\<lambda>s.
    and_then (momenta_of pads s (mm_lookback m) (sg_assets s) []) (\<lambda>momenta.
      Inr (slice_to (mm_top_n m) (map fst (sort_key (\<lambda>(a, v). - v) momenta)))))"

definition momentum_signals :: "bool \<Rightarrow> momentum_model \<Rightarrow> weights \<Rightarrow> exn + weights" where
  "momentum_signals pads m ws =
    and_then (highest_momentum_asset pads m) (\<lambda>top. Inr (put_weights (1 / of_int (mm_top_n m)) top ws))"

definition top_n_momentum :: "bool \<Rightarrow> momentum_model \<Rightarrow> alpha_model" where
  "top_n_momentum pads m dt =
    (let ws = constant_weights 0 (get_assets (mm_universe m) dt) in
     if sc_warmup (mm_signals m) \<ge> mm_lookback m then momentum_signals pads m ws else Inr ws)"

section \<open>Weights put on some of the assets\<close>

lemma constant_weights_zero:
  assumes "distinct as"
  shows "constant_weights w as = map (\<lambda>a. (a, w)) as"
  using assms by (simp add: constant_weights_def distinct_remdups_id)

lemma put_weights_map: "map_of (put_weights w as ws) k = (if k \<in> set as then Some w else map_of ws k)"
  unfolding put_weights_def by (induction as arbitrary: ws) auto

lemma put_weights_keys: "set as \<subseteq> set (dict_keys ws) \<Longrightarrow> dict_keys (put_weights w as ws) = dict_keys ws"
proof (induction as arbitrary: ws)
  case (Cons a as)
  then obtain v where "map_of ws a = Some v" by (cases "map_of ws a") (auto simp: map_of_eq_None_iff)
  then have same: "dict_keys (AList.update a w ws) = dict_keys ws" by (rule dict_keys_update)
  then have "set as \<subseteq> set (dict_keys (AList.update a w ws))" using Cons.prems by (metis list.set_intros(2) subset_iff)
  from Cons.IH [OF this] same show ?case by (simp add: put_weights_def)
qed (simp add: put_weights_def)

lemma put_weights_sum:
  assumes "wf_dict ws" and "distinct as" and "\<forall>a \<in> set as. map_of ws a = Some 0"
  shows "dict_sum (\<lambda>x. x) (put_weights w as ws) = dict_sum (\<lambda>x. x) ws + of_nat (length as) * w"
  using assms
proof (induction as arbitrary: ws)
  case (Cons a as)
  have "dict_sum (\<lambda>x. x) (AList.update a w ws) = dict_sum (\<lambda>x. x) ws + w"
    using dict_sum_update [OF Cons.prems(1), of "\<lambda>x. x" a w] Cons.prems(3) by simp
  moreover have "\<forall>b \<in> set as. map_of (AList.update a w ws) b = Some 0" using Cons.prems by auto
  ultimately show ?case using Cons.IH [of "AList.update a w ws"] Cons.prems by (simp add: put_weights_def algebra_simps)
qed (simp add: put_weights_def)

text \<open>Both models put one weight on the assets \<open>held\<close> and leave the others at zero.\<close>

definition spread :: "rat \<Rightarrow> symbol list \<Rightarrow> symbol list \<Rightarrow> weights \<Rightarrow> bool" where
  "spread w held assets ws \<longleftrightarrow> dict_keys ws = assets \<and>
    (\<forall>a \<in> set assets. map_of ws a = Some (if a \<in> set held then w else 0)) \<and>
    dict_sum (\<lambda>x. x) ws = of_nat (length held) * w"

lemma zero_weights_sum: "dict_sum (\<lambda>x. x) (map (\<lambda>a. (a, 0 :: rat)) as) = 0"
  by (induction as) simp_all

lemma zero_weights_map: "a \<in> set as \<Longrightarrow> map_of (map (\<lambda>a. (a, 0 :: rat)) as) a = Some 0"
  by (induction as) auto

lemma put_weights_spread:
  assumes "distinct assets" and "distinct held" and "set held \<subseteq> set assets"
  shows "spread w held assets (put_weights w held (constant_weights 0 assets))"
proof -
  let ?z = "map (\<lambda>a. (a, 0 :: rat)) assets"
  have z: "wf_dict ?z" "dict_keys ?z = assets" using assms(1) by (simp_all add: wf_dict_def comp_def)
  have "\<forall>a \<in> set held. map_of ?z a = Some 0" using assms(3) by (intro ballI zero_weights_map) (rule subsetD)
  then have "dict_sum (\<lambda>x. x) (put_weights w held ?z) = of_nat (length held) * w"
    using put_weights_sum [OF z(1) assms(2)] by (simp add: zero_weights_sum)
  moreover have "dict_keys (put_weights w held ?z) = assets" using put_weights_keys [of held ?z w] assms(3) z(2) by simp
  ultimately show ?thesis
    by (simp add: spread_def constant_weights_zero [OF assms(1)] put_weights_map zero_weights_map)
qed

section \<open>What the strategies hold\<close>

lemma trending_among_ok:
  assumes "signal_of (cm_signals m) ''sma'' = Inr s"
    and "\<forall>a \<in> set as. sma_value s a (cm_short_lookback m) = Inr (x a) \<and> sma_value s a (cm_long_lookback m) = Inr (y a)"
  shows "trending_among m as = Inr (filter (\<lambda>a. nan_greater (x a) (y a)) as)"
  using assms(2) by (induction as) (simp_all add: trends_def assms(1))

text \<open>
  Once the signals are warm, the crossover is invested in equal parts in exactly the assets of the
  universe whose short average is above the long one, and in cash if there is none.
\<close>

theorem crossover_holds_what_trends:
  assumes "signal_of (cm_signals m) ''sma'' = Inr s" and "cm_long_lookback m \<le> sc_warmup (cm_signals m)"
    and "distinct (get_assets (cm_universe m) dt)"
    and "\<forall>a \<in> set (get_assets (cm_universe m) dt).
      sma_value s a (cm_short_lookback m) = Inr (x a) \<and> sma_value s a (cm_long_lookback m) = Inr (y a)"
  shows "\<exists>ws. sma_crossover m dt = Inr ws \<and>
    (let held = filter (\<lambda>a. nan_greater (x a) (y a)) (get_assets (cm_universe m) dt) in
     spread (1 / of_nat (length held)) held (get_assets (cm_universe m) dt) ws \<and>
     dict_sum (\<lambda>v. v) ws = (if held = [] then 0 else 1))"
proof -
  let ?as = "get_assets (cm_universe m) dt"
  define held where "held = filter (\<lambda>a. nan_greater (x a) (y a)) ?as"
  let ?ws = "put_weights (1 / of_nat (length held)) held (constant_weights 0 ?as)"
  have "spread (1 / of_nat (length held)) held ?as ?ws"
    using assms(3) by (intro put_weights_spread) (auto simp: held_def)
  moreover from this have "dict_sum (\<lambda>v. v) ?ws = (if held = [] then 0 else 1)" by (simp add: spread_def)
  moreover have "put_weights w [] ws = ws" for w ws by (simp add: put_weights_def)
  then have "sma_crossover m dt = Inr ?ws"
    using trending_among_ok [OF assms(1,4)] assms(2)
    by (simp add: sma_crossover_def crossover_signals_def trending_assets_def Let_def held_def [symmetric])
  ultimately show ?thesis unfolding held_def [symmetric] Let_def by blast
qed

lemma momenta_of_ok:
  assumes "\<forall>a \<in> set as. momentum_value pads s a lookback = Inr (v a)" and "distinct (dict_keys d @ as)"
  shows "momenta_of pads s lookback as d = Inr (d @ map (\<lambda>a. (a, v a)) as)"
  using assms
proof (induction as arbitrary: d)
  case (Cons a as)
  have "AList.update a (v a) d = d @ [(a, v a)]" using Cons.prems(2) by (intro update_new) (auto simp: map_of_eq_None_iff)
  with Cons show ?case by simp
qed simp

text \<open>The first of a sorted list are not above the rest.\<close>

lemma take_sorted_key:
  assumes "x \<in> set (take n (sort_key f xs))" and "y \<in> set (drop n (sort_key f xs))"
  shows "f x \<le> f y"
proof -
  have "sorted (map f (take n (sort_key f xs) @ drop n (sort_key f xs)))" by simp
  with assms show ?thesis unfolding map_append sorted_append by simp
qed

text \<open>
  C38. Once the signals are warm, the momentum strategy puts the weight \<open>1 / N\<close> on \<open>N\<close> assets, or on all
  where there are fewer, none of which rose less than an asset it leaves out, and nothing on the
  others; with \<open>N\<close> assets or more it is fully invested.
\<close>

theorem momentum_holds_the_best:
  assumes "signal_of (mm_signals m) ''momentum'' = Inr s" and "mm_lookback m \<le> sc_warmup (mm_signals m)"
    and "0 < mm_top_n m" and "distinct (sg_assets s)" and "distinct (get_assets (mm_universe m) dt)"
    and "set (sg_assets s) \<subseteq> set (get_assets (mm_universe m) dt)"
    and "\<forall>a \<in> set (sg_assets s). momentum_value pads s a (mm_lookback m) = Inr (v a)"
  shows "\<exists>ws held. top_n_momentum pads m dt = Inr ws \<and>
    spread (1 / of_int (mm_top_n m)) held (get_assets (mm_universe m) dt) ws \<and>
    distinct held \<and> set held \<subseteq> set (sg_assets s) \<and>
    length held = min (nat (mm_top_n m)) (length (sg_assets s)) \<and>
    (\<forall>a \<in> set held. \<forall>b \<in> set (sg_assets s) - set held. v b \<le> v a) \<and>
    (nat (mm_top_n m) \<le> length (sg_assets s) \<longrightarrow> dict_sum (\<lambda>x. x) ws = 1)"
proof -
  let ?n = "nat (mm_top_n m)"
  define ranked where "ranked = sort_key (\<lambda>(a, v). - v) (map (\<lambda>a. (a, v a)) (sg_assets s))"
  define held where "held = map fst (take ?n ranked)"
  let ?ws = "put_weights (1 / of_int (mm_top_n m)) held (constant_weights 0 (get_assets (mm_universe m) dt))"
  have ranked: "mset ranked = mset (map (\<lambda>a. (a, v a)) (sg_assets s))" by (simp add: ranked_def)
  have len: "length ranked = length (sg_assets s)" by (simp add: ranked_def)
  have elem: "(a, u) \<in> set ranked \<longleftrightarrow> a \<in> set (sg_assets s) \<and> u = v a" for a u
    by (auto simp: ranked_def)
  have "mset (map fst ranked) = mset (sg_assets s)"
    using arg_cong [OF ranked, of "image_mset fst"] by (simp add: comp_def image_mset.compositionality)
  then have dist: "distinct (map fst ranked)" "set (map fst ranked) = set (sg_assets s)"
    using assms(4) by (metis mset_eq_imp_distinct_iff, metis mset_eq_setD)
  then have held: "distinct held" "set held \<subseteq> set (sg_assets s)"
    unfolding held_def take_map [symmetric] by (simp_all add: set_take_subset [THEN subset_trans])
  have "momenta_of pads s (mm_lookback m) (sg_assets s) [] = Inr (map (\<lambda>a. (a, v a)) (sg_assets s))"
    using momenta_of_ok [of "sg_assets s" pads s "mm_lookback m" v "[]"] assms(4,7) by simp
  then have "top_n_momentum pads m dt = Inr ?ws"
    using assms(1,2,3) by (simp add: top_n_momentum_def momentum_signals_def highest_momentum_asset_def slice_to_def
        held_def take_map ranked_def Let_def)
  moreover have "spread (1 / of_int (mm_top_n m)) held (get_assets (mm_universe m) dt) ?ws"
    using held assms(5,6) by (intro put_weights_spread) auto
  moreover have size: "length held = min ?n (length (sg_assets s))" by (simp add: held_def len min.commute)
  moreover have "v b \<le> v a" if a: "a \<in> set held" and b: "b \<in> set (sg_assets s) - set held" for a b
  proof -
    obtain u where "(a, u) \<in> set (take ?n ranked)" using a by (auto simp: held_def)
    moreover from this have "u = v a" using elem by (blast dest: in_set_takeD)
    ultimately have "(a, v a) \<in> set (take ?n ranked)" by simp
    moreover have "(b, v b) \<in> set (drop ?n ranked)"
    proof -
      have "(b, v b) \<in> set (take ?n ranked @ drop ?n ranked)" using b elem by simp
      moreover have "(b, v b) \<notin> set (take ?n ranked)" using b by (force simp: held_def)
      ultimately show ?thesis by (simp del: append_take_drop_id)
    qed
    ultimately show ?thesis using take_sorted_key [of "(a, v a)" ?n "\<lambda>(a, v). - v" _ "(b, v b)"] by (simp add: ranked_def)
  qed
  moreover have "dict_sum (\<lambda>x. x) ?ws = 1" if "?n \<le> length (sg_assets s)"
    using that size assms(3) calculation(2) by (simp add: spread_def)
  ultimately show ?thesis using held by blast
qed

section \<open>A concrete strategy\<close>

definition demo_momenta :: price_signal where
  "demo_momenta = \<lparr>sg_kind = MomentumSignal, sg_universe = StaticUniverse [''A'', ''B'', ''C''],
     sg_buffers = \<lparr>pb_assets = [''A'', ''B'', ''C''], pb_lookbacks = [2],
       pb_prices = [(''A_2'', \<lparr>dq_maxlen = 2, dq_items = [Some 10, Some 12]\<rparr>),
         (''B_2'', \<lparr>dq_maxlen = 2, dq_items = [Some 10, Some 8]\<rparr>),
         (''C_2'', \<lparr>dq_maxlen = 2, dq_items = [Some 10, Some 15]\<rparr>)]\<rparr>\<rparr>"

definition demo_strategy :: momentum_model where
  "demo_strategy = \<lparr>mm_signals = \<lparr>sc_signals = [(''momentum'', demo_momenta)], sc_warmup = 1\<rparr>,
     mm_lookback = 1, mm_top_n = 2, mm_universe = StaticUniverse [''A'', ''B'', ''C'']\<rparr>"

lemma demo_keys: "asset_lookback_key [c] 2 = [c, CHR ''_'', CHR ''2'']"
proof -
  have "int_str 2 = ''2''" by code_simp
  then show ?thesis by (simp add: asset_lookback_key_def)
qed

lemma demo_momentum_values:
  "momentum_value True demo_momenta ''A'' 1 = Inr (1 / 5)"
  "momentum_value True demo_momenta ''B'' 1 = Inr (- 1 / 5)"
  "momentum_value True demo_momenta ''C'' 1 = Inr (1 / 2)"
  by (simp_all add: momentum_value_def window_def demo_momenta_def stored_lookback_def demo_keys pct_change_def
      cumulative_return_def)

theorem momentum_holds_the_best_witness:
  "\<exists>ws held. top_n_momentum True demo_strategy 0 = Inr ws \<and> spread (1 / 2) held [''A'', ''B'', ''C''] ws \<and>
    length held = 2 \<and> ''B'' \<notin> set held"
proof -
  let ?v = "\<lambda>a. if a = ''A'' then 1 / 5 else if a = ''B'' then - 1 / 5 else (1 / 2 :: rat)"
  have "signal_of (mm_signals demo_strategy) ''momentum'' = Inr demo_momenta"
    "mm_lookback demo_strategy \<le> sc_warmup (mm_signals demo_strategy)" "0 < mm_top_n demo_strategy"
    "distinct (sg_assets demo_momenta)" "distinct (get_assets (mm_universe demo_strategy) 0)"
    "set (sg_assets demo_momenta) \<subseteq> set (get_assets (mm_universe demo_strategy) 0)"
    by (simp_all add: demo_strategy_def signal_of_def demo_momenta_def sg_assets_def)
  moreover have "\<forall>a \<in> set (sg_assets demo_momenta). momentum_value True demo_momenta a (mm_lookback demo_strategy) = Inr (?v a)"
    using demo_momentum_values by (simp add: demo_strategy_def) (simp add: demo_momenta_def sg_assets_def)
  ultimately obtain ws held where h: "top_n_momentum True demo_strategy 0 = Inr ws" "spread (1 / 2) held [''A'', ''B'', ''C''] ws"
      "distinct held" "set held \<subseteq> {''A'', ''B'', ''C''}" "length held = 2"
      "\<forall>a \<in> set held. \<forall>b \<in> {''A'', ''B'', ''C''} - set held. ?v b \<le> ?v a"
    using momentum_holds_the_best [of demo_strategy demo_momenta 0 True ?v]
    by (auto simp: demo_strategy_def demo_momenta_def sg_assets_def)
  have "''B'' \<notin> set held"
  proof
    assume b: "''B'' \<in> set held"
    have "''A'' \<in> set held"
      using bspec [OF bspec [OF h(6) b], of "''A''"] by (cases "''A'' \<in> set held") simp_all
    moreover have "''C'' \<in> set held"
      using bspec [OF bspec [OF h(6) b], of "''C''"] by (cases "''C'' \<in> set held") simp_all
    ultimately have "{''A'', ''B'', ''C''} \<subseteq> set held" using b by simp
    then have "card {''A'', ''B'', ''C''} \<le> card (set held)" by (intro card_mono) simp_all
    with h(3,5) show False by (simp add: distinct_card)
  qed
  with h show ?thesis by blast
qed

end
