(* ===== verification/Civil_Days.thy ===== *)
theory Civil_Days
  imports Calendar Chart_Dates
begin

text \<open>
  Dates and days: the number of a date counted from the epoch, as the calendar of \<open>Calendar\<close> numbers
  days, and the text of a day. The lemmas show that later dates have higher numbers, so that dates may be
  compared as text, as triples or as numbers.
\<close>

definition first_of_month :: "nat \<Rightarrow> nat \<Rightarrow> int" where
  "first_of_month y m = jan_first (int y) + sum_list (map (\<lambda>k. int (days_in_month y k)) [1..<m])"

fun day_number :: "ymd \<Rightarrow> int" where
  "day_number (y, m, d) = first_of_month y m + int d - 1"

definition civil_date :: "int \<Rightarrow> ymd" where
  "civil_date n =
    (let (y, m) = civil_month n in (nat y, nat m, nat (n - first_of_month (nat y) (nat m) + 1)))"

definition day_text :: "int \<Rightarrow> string" where
  "day_text n = strftime (civil_date n)"

definition date_text :: "timestamp \<Rightarrow> string" where
  "date_text dt = day_text (date_of dt)"

section \<open>Later dates have higher numbers\<close>

lemma div_step:
  assumes "0 < c"
  shows "int y div int c - (int y - 1) div int c = (if y mod c = 0 then 1 else 0)"
proof -
  have y: "int y = int c * (int y div int c) + int (y mod c)" by (simp only: zmod_int mult_div_mod_eq)
  have small: "int (y mod c) < int c" using assms by simp
  have step: "(int y - 1) div int c = q" if "int y - 1 = int c * q + r" "0 \<le> r" "r < int c" for q r
    using that by (intro int_div_pos_eq)
  show ?thesis
  proof (cases "y mod c = 0")
    case True
    then show ?thesis using step [of "int y div int c - 1" "int c - 1"] y assms by (simp add: algebra_simps)
  next
    case False
    then show ?thesis using step [of "int y div int c" "int (y mod c) - 1"] y small by simp
  qed
qed

lemma div_step_numeral: "int y div numeral n - (int y - 1) div numeral n = (if y mod numeral n = 0 then 1 else 0)"
  by (rule div_step [of "numeral n", unfolded of_nat_numeral]) (rule zero_less_numeral)

lemma regroup:
  fixes p q :: int
  assumes "p = 365 * (y + 1 - 1970) + a' - b' + c' - 477" and "q = 365 * (y - 1970) + a - b + c - 477"
    and "a' - a = i" and "b' - b = j" and "c' - c = k"
  shows "p = q + (365 + i - j + k)"
  unfolding assms(1,2) assms(3-5) [symmetric] by (simp add: algebra_simps)

lemma jan_first_step: "jan_first (int (y + 1)) = jan_first (int y) + (if leap_year y then 366 else 365)"
proof -
  have "y mod 100 = 0" if "y mod 400 = 0"
    using that dvd_trans [of 100 400 y] by (simp add: mod_eq_0_iff_dvd)
  moreover have "y mod 4 = 0" if "y mod 100 = 0"
    using that dvd_trans [of 4 100 y] by (simp add: mod_eq_0_iff_dvd)
  ultimately have leap: "(if leap_year y then 366 else 365) =
      365 + (if y mod 4 = 0 then 1 else 0) - (if y mod 100 = 0 then 1 else 0) + (if y mod 400 = 0 then 1 else 0 :: int)"
    unfolding leap_year_def by presburger
  have next_year: "jan_first (int y + 1) = 365 * (int y + 1 - 1970) + int y div 4 - int y div 100 + int y div 400 - 477"
    unfolding jan_first_def add_diff_cancel_right' by (rule refl)
  have "jan_first (int y + 1) = jan_first (int y) + (365 + (if y mod 4 = 0 then 1 else 0) -
      (if y mod 100 = 0 then 1 else 0) + (if y mod 400 = 0 then 1 else 0))"
    by (rule regroup [OF next_year jan_first_def div_step_numeral div_step_numeral div_step_numeral])
  then show ?thesis unfolding leap of_nat_add of_nat_1 .
qed

lemma first_of_month_step: "1 \<le> m \<Longrightarrow> first_of_month y (m + 1) = first_of_month y m + int (days_in_month y m)"
  by (simp add: first_of_month_def)

lemma first_of_next_year: "first_of_month (y + 1) 1 = first_of_month y 13"
proof -
  have "[1..<13] = [1, 2, 3, 4, 5, 6, 7, 8, 9, 10, 11, 12 :: nat]" by code_simp
  then show ?thesis
    using jan_first_step [of y] by (simp add: first_of_month_def days_in_month_def del: upt_rec_numeral)
qed

lemma first_of_month_mono: "1 \<le> m \<Longrightarrow> m \<le> n \<Longrightarrow> first_of_month y m \<le> first_of_month y n"
proof (induction n)
  case (Suc n)
  show ?case
  proof (cases "m = Suc n")
    case False
    with Suc show ?thesis using first_of_month_step [of n y] by simp
  qed simp
qed simp

lemma day_in_month:
  assumes "real_date (y, m, d)"
  shows "first_of_month y m \<le> day_number (y, m, d)" and "day_number (y, m, d) < first_of_month y (m + 1)"
  using assms first_of_month_step [of m y] by auto

lemma first_of_year_mono: "y \<le> z \<Longrightarrow> first_of_month y 1 \<le> first_of_month z 1"
proof (induction z)
  case (Suc z)
  show ?case
  proof (cases "y = Suc z")
    case False
    with Suc show ?thesis using first_of_next_year [of z] first_of_month_mono [of 1 13 z] by simp
  qed simp
qed simp

lemma day_number_less:
  assumes a: "real_date a" and b: "real_date b" and less: "date_key a < date_key b"
  shows "day_number a < day_number b"
proof -
  obtain y m d where x: "a = (y, m, d)" by (cases a)
  obtain z n e where w: "b = (z, n, e)" by (cases b)
  have r: "1 \<le> m" "m \<le> 12" "1 \<le> d" "d \<le> 31" "1 \<le> n" "n \<le> 12" "1 \<le> e" "e \<le> 31"
    using a b days_in_month_bounds(2) [of y m] days_in_month_bounds(2) [of z n] by (auto simp: x w)
  have "y < z \<or> y = z \<and> m < n \<or> y = z \<and> m = n \<and> d < e"
  proof -
    consider "y < z" | "z < y" | "y = z" by linarith
    then show ?thesis
    proof cases
      case 2
      then have "z * 10000 + 10000 \<le> y * 10000" by simp
      with less r show ?thesis by (simp add: x w)
    next
      case 3
      consider "m < n" | "n < m" | "m = n" by linarith
      then show ?thesis
      proof cases
        case 2
        then have "n * 100 + 100 \<le> m * 100" by simp
        with less r \<open>y = z\<close> show ?thesis by (simp add: x w)
      qed (use less \<open>y = z\<close> in \<open>simp_all add: x w\<close>)
    qed simp
  qed
  then consider "y < z" | "y = z" "m < n" | "y = z" "m = n" "d < e" by blast
  then show ?thesis
  proof cases
    case 1
    have "first_of_month y (m + 1) \<le> first_of_month y 13" using r by (intro first_of_month_mono) simp_all
    also have "\<dots> = first_of_month (y + 1) 1" by (rule first_of_next_year [symmetric])
    also have "\<dots> \<le> first_of_month z 1" using 1 by (intro first_of_year_mono) simp
    also have "\<dots> \<le> first_of_month z n" using r by (intro first_of_month_mono) simp_all
    finally show ?thesis using day_in_month [of y m d] day_in_month [of z n e] a b unfolding x w by linarith
  next
    case 2
    have "first_of_month y (m + 1) \<le> first_of_month z n" unfolding 2(1) using r 2 by (intro first_of_month_mono) simp_all
    then show ?thesis using day_in_month [of y m d] day_in_month [of z n e] a b unfolding x w by linarith
  next
    case 3
    then show ?thesis by (simp add: x w)
  qed
qed

lemma strftime_inject:
  assumes "chart_date a" and "chart_date b" and "strftime a = strftime b"
  shows "a = b"
proof -
  have "Inr a = (Inr b :: exn + ymd)"
    unfolding strptime_strftime [OF assms(1), symmetric] strptime_strftime [OF assms(2), symmetric] assms(3) by (rule refl)
  then show ?thesis by (rule Inr_inject)
qed

text \<open>The three orders of dates are one.\<close>

lemma date_orders:
  assumes "chart_date a" and "chart_date b"
  shows "strftime a < strftime b \<longleftrightarrow> day_number a < day_number b"
    and "strftime a = strftime b \<longleftrightarrow> day_number a = day_number b"
proof -
  have real: "real_date a" "real_date b" using assms by (metis chart_date.elims(2))+
  have eq: "a = b" if "date_key a = date_key b"
  proof -
    have "strftime a = strftime b"
      using strftime_less [OF assms] strftime_less [OF assms(2) assms(1)] that by (metis less_irrefl linorder_neq_iff)
    then show ?thesis by (rule strftime_inject [OF assms])
  qed
  have key: "date_key a < date_key b \<longleftrightarrow> day_number a < day_number b"
  proof (cases "date_key a" "date_key b" rule: linorder_cases)
    case less
    then show ?thesis using day_number_less [OF real] by blast
  next
    case equal
    then have "a = b" by (rule eq)
    then show ?thesis by simp
  next
    case greater
    then show ?thesis using day_number_less [OF real(2,1)] by (meson less_asym)
  qed
  then show "strftime a < strftime b \<longleftrightarrow> day_number a < day_number b" using strftime_less [OF assms] by simp
  have "a = b" if "day_number a = day_number b"
  proof (rule eq)
    have "\<not> date_key a < date_key b" "\<not> date_key b < date_key a"
      using day_number_less [OF real] day_number_less [OF real(2,1)] that by linarith+
    then show "date_key a = date_key b" by linarith
  qed
  then show "strftime a = strftime b \<longleftrightarrow> day_number a = day_number b"
    using strftime_inject [OF assms] by blast
qed

end
