(* ===== verification/Bar_Sources.thy ===== *)
theory Bar_Sources
  imports Data_Handler Signals Civil_Days
begin

text \<open>
  Where bars come from: the constructors of \<^verbatim>\<open>vmtrader/data/daily_bar_memory.py\<close> and
  \<^verbatim>\<open>daily_bar_csv.py\<close> on top of \<^verbatim>\<open>daily_bar.py\<close>, and the table of past closes as the handlers of
  the backtest (\<^verbatim>\<open>daily_bar.py\<close>, \<^verbatim>\<open>backtest_data_handler.py\<close>) and of the live plane
  (\<^verbatim>\<open>live_data_handler.py\<close>) answer it; a launch warms its signals from the latter. A frame of pandas is the text of its columns and its rows; a
  time is kept as pandas keeps it, as the instant where the index has a zone and as the wall clock
  where it has none, so that giving a naive index the zone UTC, or converting to UTC, changes the
  zone only. The rows of one frame have different times. Reading a CSV file is a parameter.
\<close>

section \<open>Frames\<close>

datatype index_kind = NotDates | Naive | Aware string

record price_table =
  pt_index :: index_kind
  pt_columns :: "string list"
  pt_rows :: "(timestamp \<times> (string, nan_rat) dict) list"

definition row_cell :: "string \<Rightarrow> (string, nan_rat) dict \<Rightarrow> nan_rat" where
  "row_cell column row = (case map_of row column of None \<Rightarrow> None | Some v \<Rightarrow> v)"

definition sort_index :: "price_table \<Rightarrow> price_table" where
  "sort_index t = t\<lparr>pt_rows := sort_key fst (pt_rows t)\<rparr>"

definition as_bars :: "price_table \<Rightarrow> bar_frame" where
  "as_bars t =
    \<lparr>has_adj_close = ''Adj Close'' \<in> set (pt_columns t),
     frame_bars = map (\<lambda>(ts, row). \<lparr>bar_ts = ts, bar_open = row_cell ''Open'' row,
       bar_close = row_cell ''Close'' row, bar_adj_close = row_cell ''Adj Close'' row\<rparr>) (pt_rows t)\<rparr>"

section \<open>The daily bar source\<close>

text \<open>\<^verbatim>\<open>_convert_bar_frame_into_bid_ask_df\<close>: the selection of a column that is not there raises.\<close>

definition convert_table :: "bool \<Rightarrow> price_table \<Rightarrow> exn + quote_rows" where
  "convert_table adjust_prices t =
    (if adjust_prices \<and> ''Adj Close'' \<notin> set (pt_columns t) then Inl ValueError
     else if ''Open'' \<notin> set (pt_columns t) \<or> ''Close'' \<notin> set (pt_columns t) then Inl KeyError
     else convert_bar_frame adjust_prices (as_bars t))"

record bar_source =
  bs_adjust_prices :: bool
  bs_bar_frames :: "(symbol, price_table) dict"
  bs_quotes :: "(symbol, quote_rows) dict"

text \<open>A loop that builds a dictionary from another, and may raise.\<close>

fun map_frames :: "('a \<Rightarrow> exn + 'b) \<Rightarrow> (symbol, 'a) dict \<Rightarrow> (symbol, 'b) dict \<Rightarrow> exn + (symbol, 'b) dict" where
  "map_frames f [] built = Inr built"
| "map_frames f ((a, t) # rest) built = and_then (f t) (\<lambda>u. map_frames f rest (AList.update a u built))"

definition new_bar_source :: "(symbol, price_table) dict \<Rightarrow> bool \<Rightarrow> exn + bar_source" where
  "new_bar_source frames adjust_prices =
    and_then (map_frames (convert_table adjust_prices) frames []) (\<lambda>quotes.
      Inr \<lparr>bs_adjust_prices = adjust_prices, bs_bar_frames = frames, bs_quotes = quotes\<rparr>)"

section \<open>Bars in memory\<close>

definition required_columns :: "bool \<Rightarrow> string list" where
  "required_columns adjust_prices = [''Open'', ''Close''] @ (if adjust_prices then [''Adj Close''] else [])"

definition prepare_bar_frame :: "bool \<Rightarrow> price_table \<Rightarrow> exn + price_table" where
  "prepare_bar_frame adjust_prices t =
    (if pt_index t = NotDates then Inl ValueError
     else let missing = filter (\<lambda>c. c \<notin> set (pt_columns t)) (required_columns adjust_prices) in
       if missing \<noteq> [] then Inl ValueError
       else Inr ((sort_index t)\<lparr>pt_index := Aware ''UTC''\<rparr>))"

definition in_memory_source :: "(symbol, price_table) dict \<Rightarrow> bool \<Rightarrow> exn + bar_source" where
  "in_memory_source frames adjust_prices =
    and_then (map_frames (prepare_bar_frame adjust_prices) frames []) (\<lambda>prepared.
      new_bar_source prepared adjust_prices)"

section \<open>CSV files\<close>

text \<open>\<^verbatim>\<open>str.endswith\<close>, and \<^verbatim>\<open>str.replace(old, '')\<close>, which drops every occurrence.\<close>

definition ends_with :: "string \<Rightarrow> string \<Rightarrow> bool" where
  "ends_with suf s \<longleftrightarrow> length suf \<le> length s \<and> drop (length s - length suf) s = suf"

function drop_all :: "string \<Rightarrow> string \<Rightarrow> string" where
  "drop_all old s =
    (if old = [] \<or> s = [] then s
     else if take (length old) s = old then drop_all old (drop (length old) s)
     else hd s # drop_all old (tl s))"
  by auto

termination
  by (relation "measure (\<lambda>(old, s). length s)") auto

declare drop_all.simps [simp del]

text \<open>The directory: its listing, and what reading a file indexed by the column \<^verbatim>\<open>Date\<close> answers.\<close>

record csv_directory =
  cd_files :: "string list"
  cd_read :: "string \<Rightarrow> exn + price_table"

definition asset_csv_files :: "csv_directory \<Rightarrow> string list" where
  "asset_csv_files d = filter (ends_with ''.csv'') (cd_files d)"

definition symbol_from_filename :: "string \<Rightarrow> symbol" where
  "symbol_from_filename csv_file = ''EQ:'' @ drop_all ''.csv'' csv_file"

text \<open>\<^verbatim>\<open>tz_localize\<close> raises on an index that has a zone, and an index of no dates has no such method.\<close>

definition localize_utc :: "price_table \<Rightarrow> exn + price_table" where
  "localize_utc t =
    (case pt_index t of
       NotDates \<Rightarrow> Inl AttributeError
     | Naive \<Rightarrow> Inr (t\<lparr>pt_index := Aware ''UTC''\<rparr>)
     | Aware z \<Rightarrow> Inl TypeError)"

definition load_csv_into_df :: "csv_directory \<Rightarrow> string \<Rightarrow> exn + price_table" where
  "load_csv_into_df d csv_file = and_then (cd_read d csv_file) (\<lambda>t. localize_utc (sort_index t))"

fun load_csvs :: "csv_directory \<Rightarrow> string list \<Rightarrow> (symbol, price_table) dict \<Rightarrow> exn + (symbol, price_table) dict" where
  "load_csvs d [] frames = Inr frames"
| "load_csvs d (f # fs) frames =
     and_then (load_csv_into_df d f) (\<lambda>t. load_csvs d fs (AList.update (symbol_from_filename f) t frames))"

definition load_csvs_into_dfs :: "csv_directory \<Rightarrow> string list option \<Rightarrow> exn + (symbol, price_table) dict" where
  "load_csvs_into_dfs d csv_symbols =
    load_csvs d (case csv_symbols of Some ss \<Rightarrow> map (\<lambda>s. s @ ''.csv'') ss | None \<Rightarrow> asset_csv_files d) []"

definition csv_source :: "csv_directory \<Rightarrow> bool \<Rightarrow> string list option \<Rightarrow> exn + bar_source" where
  "csv_source d adjust_prices csv_symbols =
    and_then (load_csvs_into_dfs d csv_symbols) (\<lambda>frames. new_bar_source frames adjust_prices)"

section \<open>Past closes\<close>

text \<open>
  Columns of values at times, put side by side: the rows are the times of any of them, in order
  (\<^verbatim>\<open>pd.concat(axis=1)\<close> of sorted columns, \<^verbatim>\<open>pd.DataFrame(series).sort_index()\<close>).
\<close>

type_synonym close_columns = "(symbol \<times> (timestamp, nan_rat) dict) list"

definition cell_at :: "(timestamp, nan_rat) dict \<Rightarrow> timestamp \<Rightarrow> nan_rat" where
  "cell_at column t = (case map_of column t of None \<Rightarrow> None | Some v \<Rightarrow> v)"

definition joined_times :: "close_columns \<Rightarrow> timestamp list" where
  "joined_times columns = sort (remdups (concat (map (\<lambda>(a, column). dict_keys column) columns)))"

definition closes_at :: "close_columns \<Rightarrow> timestamp list \<Rightarrow> closes_frame" where
  "closes_at columns ts = map (\<lambda>(a, column). (a, map (cell_at column) ts)) columns"

fun close_series :: "bar_source \<Rightarrow> string \<Rightarrow> symbol list \<Rightarrow> exn + close_columns" where
  "close_series src close_column [] = Inr []"
| "close_series src close_column (a # as) =
     (case map_of (bs_bar_frames src) a of
        None \<Rightarrow> close_series src close_column as
      | Some t \<Rightarrow>
          if close_column \<notin> set (pt_columns t) then Inl ValueError
          else and_then (close_series src close_column as) (\<lambda>rest.
            Inr ((a, map (\<lambda>(ts, row). (ts, row_cell close_column row)) (pt_rows t)) # rest)))"

text \<open>\<^verbatim>\<open>dropna(how='all')\<close> and \<^verbatim>\<open>loc[start_dt:end_dt]\<close>, both ends included.\<close>

definition kept_times :: "close_columns \<Rightarrow> timestamp \<Rightarrow> timestamp \<Rightarrow> timestamp list" where
  "kept_times columns start_dt end_dt =
    filter (\<lambda>t. start_dt \<le> t \<and> t \<le> end_dt \<and> (\<exists>(a, column) \<in> set columns. cell_at column t \<noteq> None)) (joined_times columns)"

text \<open>
  The ends of a range are compared with the index of the table: a time without a zone with an index
  that has one, and the other way round, raises \<^verbatim>\<open>TypeError\<close>.
\<close>

definition comparable :: "index_kind \<Rightarrow> stamp \<Rightarrow> bool" where
  "comparable k dt = (case k of
     NotDates \<Rightarrow> False
   | index_kind.Naive \<Rightarrow> (case dt of stamp.Naive t \<Rightarrow> True | stamp.Aware t \<Rightarrow> False)
   | index_kind.Aware z \<Rightarrow> (case dt of stamp.Naive t \<Rightarrow> False | stamp.Aware t \<Rightarrow> True))"

definition time_in :: "stamp \<Rightarrow> timestamp" where
  "time_in dt = (case dt of stamp.Naive t \<Rightarrow> t | stamp.Aware t \<Rightarrow> t)"

definition range_comparable :: "bar_source \<Rightarrow> symbol list \<Rightarrow> stamp \<Rightarrow> stamp \<Rightarrow> bool" where
  "range_comparable src assets start_dt end_dt = list_all (\<lambda>a. case map_of (bs_bar_frames src) a of
     None \<Rightarrow> True | Some t \<Rightarrow> comparable (pt_index t) start_dt \<and> comparable (pt_index t) end_dt) assets"

definition historical_closes :: "bar_source \<Rightarrow> stamp \<Rightarrow> stamp \<Rightarrow> symbol list \<Rightarrow> bool \<Rightarrow> exn + closes_frame" where
  "historical_closes src start_dt end_dt assets adjusted =
    and_then (close_series src (if adjusted then ''Adj Close'' else ''Close'') assets) (\<lambda>columns.
      if columns = [] then Inl ValueError
      else if \<not> range_comparable src assets start_dt end_dt then Inl TypeError
      else Inr (closes_at columns (kept_times columns (time_in start_dt) (time_in end_dt))))"

text \<open>The backtest's handler answers with the table of its first source, or raises what that raises.\<close>

definition backtest_history :: "bar_source list \<Rightarrow> stamp \<Rightarrow> stamp \<Rightarrow> symbol list \<Rightarrow> bool \<Rightarrow> exn + closes_frame option" where
  "backtest_history data_sources start_dt end_dt assets adjusted =
    (case data_sources of
       [] \<Rightarrow> Inr None
     | src # _ \<Rightarrow> and_then (historical_closes src start_dt end_dt assets adjusted) (\<lambda>f. Inr (Some f)))"

section \<open>Past closes of the live plane\<close>

text \<open>The venue's client: closes as pairs of a date's text and a price.\<close>

type_synonym close_client = "symbol \<Rightarrow> string \<Rightarrow> string \<Rightarrow> bool \<Rightarrow> exn + (string \<times> rat) list"

fun dated_closes :: "(string \<times> rat) list \<Rightarrow> (timestamp, nan_rat) dict \<Rightarrow> exn + (timestamp, nan_rat) dict" where
  "dated_closes [] column = Inr column"
| "dated_closes ((date, close) # rest) column =
     and_then (strptime date) (\<lambda>d. dated_closes rest (AList.update (day_number d * ns_per_day) (Some close) column))"

text \<open>\<^verbatim>\<open>except Exception\<close> leaves an asset out; only an interrupt gets through.\<close>

fun live_series :: "close_client \<Rightarrow> string \<Rightarrow> string \<Rightarrow> bool \<Rightarrow> symbol list \<Rightarrow> close_columns \<Rightarrow> exn + close_columns" where
  "live_series client start until adjusted [] series = Inr series"
| "live_series client start until adjusted (a # as) series =
     (case client a start until adjusted of
        Inl e \<Rightarrow> if e = Interrupted then Inl e else live_series client start until adjusted as series
      | Inr closes \<Rightarrow>
          if closes = [] then live_series client start until adjusted as series
          else and_then (dated_closes closes []) (\<lambda>column.
            live_series client start until adjusted as (AList.update a column series)))"

definition live_history :: "close_client \<Rightarrow> history_of" where
  "live_history client start_dt end_dt asset_symbols adjusted =
    and_then (live_series client (date_text start_dt) (date_text end_dt) adjusted asset_symbols []) (\<lambda>series.
      Inr (Some (if series = [] then [] else closes_at series (joined_times series))))"

section \<open>Checked bars convert\<close>

lemma map_frames_keys:
  "map_frames f frames built = Inr out \<Longrightarrow> set (dict_keys out) = set (dict_keys frames) \<union> set (dict_keys built)"
proof (induction f frames built rule: map_frames.induct)
  case (2 f a t rest built)
  then obtain u where u: "f t = Inr u" "map_frames f rest (AList.update a u built) = Inr out" by (auto simp: and_then_eq_Inr)
  from 2(1) [OF u(2)] show ?case by (simp add: dom_update)
qed simp

lemma map_frames_total:
  "\<forall>t \<in> snd ` set frames. \<exists>u. f t = Inr u \<Longrightarrow> \<exists>out. map_frames f frames built = Inr out"
  by (induction f frames built rule: map_frames.induct) auto

lemma map_frames_all:
  "map_frames f frames built = Inr out \<Longrightarrow> (\<And>t u. f t = Inr u \<Longrightarrow> P u) \<Longrightarrow> \<forall>u \<in> snd ` set built. P u \<Longrightarrow>
    \<forall>u \<in> snd ` set out. P u"
proof (induction f frames built rule: map_frames.induct)
  case (2 f a t rest built)
  then obtain u where u: "f t = Inr u" "map_frames f rest (AList.update a u built) = Inr out"
    by (auto simp: and_then_eq_Inr)
  have "snd ` set (AList.update a u built) \<subseteq> insert u (snd ` set built)"
    by (induction built) auto
  then have "\<forall>v \<in> snd ` set (AList.update a u built). P v" 
    using 2(3) [OF u(1)] 2(4) by (metis insert_iff subsetD)
  from 2(1) [OF u(2) 2(3) this] show ?case .
qed simp

lemma convert_prepared:
  assumes "prepare_bar_frame adjust t = Inr u"
  shows "\<exists>q. convert_table adjust u = Inr q"
  using assms
  by (auto simp: prepare_bar_frame_def required_columns_def convert_table_def convert_bar_frame_def as_bars_def
      sort_index_def Let_def filter_empty_conv split: if_splits)

text \<open>
  The checks of the in-memory source are enough: frames that pass them always give a source, with the
  quotes of every asset, and a frame that cannot be converted is refused with an error of its value.
\<close>

theorem checked_bars_give_a_source:
  "(\<exists>src. in_memory_source frames adjust = Inr src \<and> set (dict_keys (bs_quotes src)) = set (dict_keys frames)) \<or>
    in_memory_source frames adjust = Inl ValueError"
proof (cases "map_frames (prepare_bar_frame adjust) frames []")
  case (Inl e)
  have "map_frames (prepare_bar_frame adjust) fs built = Inl e \<Longrightarrow> e = ValueError" for fs built
    by (induction "prepare_bar_frame adjust" fs built rule: map_frames.induct)
      (auto simp: prepare_bar_frame_def and_then_def Let_def split: sum.splits if_splits)
  with Inl show ?thesis by (auto simp: in_memory_source_def)
next
  case (Inr prepared)
  have "\<forall>t \<in> snd ` set prepared. \<exists>q. convert_table adjust t = Inr q"
    by (rule map_frames_all [OF Inr, where P = "\<lambda>t. \<exists>q. convert_table adjust t = Inr q"]) (auto intro: convert_prepared)
  then obtain quotes where "map_frames (convert_table adjust) prepared [] = Inr quotes"
    using map_frames_total by blast
  then show ?thesis
    using map_frames_keys [OF Inr] map_frames_keys [of "convert_table adjust" prepared "[]" quotes]
    by (simp add: in_memory_source_def Inr new_bar_source_def)
qed

section \<open>The table of the backtest's handler\<close>

lemma load_csvs_zoned:
  "load_csvs d fs frames = Inr out \<Longrightarrow> \<forall>t \<in> snd ` set frames. pt_index t = index_kind.Aware ''UTC'' \<Longrightarrow>
    \<forall>t \<in> snd ` set out. pt_index t = index_kind.Aware ''UTC''"
proof (induction d fs frames rule: load_csvs.induct)
  case (2 d f fs frames)
  from 2(2) obtain t where t: "load_csv_into_df d f = Inr t"
      "load_csvs d fs (AList.update (symbol_from_filename f) t frames) = Inr out" by (auto simp: and_then_eq_Inr)
  obtain u where "localize_utc u = Inr t" using t(1) by (auto simp: load_csv_into_df_def and_then_eq_Inr)
  then have "pt_index t = index_kind.Aware ''UTC''"
    by (cases "pt_index u") (auto simp: localize_utc_def)
  moreover have "snd ` set (AList.update (symbol_from_filename f) t frames) \<subseteq> insert t (snd ` set frames)"
    by (induction frames) auto
  ultimately have "\<forall>u \<in> snd ` set (AList.update (symbol_from_filename f) t frames). pt_index u = index_kind.Aware ''UTC''"
    using 2(3) by blast
  from 2(1) [OF t(2) this] show ?case .
qed simp

lemma built_source_zoned:
  assumes "in_memory_source frames adjust = Inr src \<or> csv_source d adjust csv_symbols = Inr src"
  shows "\<forall>t \<in> snd ` set (bs_bar_frames src). pt_index t = index_kind.Aware ''UTC''"
  using assms
proof
  assume "in_memory_source frames adjust = Inr src"
  then have "map_frames (prepare_bar_frame adjust) frames [] = Inr (bs_bar_frames src)"
    by (auto simp: in_memory_source_def new_bar_source_def and_then_eq_Inr)
  then show ?thesis
    by (rule map_frames_all [where P = "\<lambda>t. pt_index t = index_kind.Aware ''UTC''"])
      (auto simp: prepare_bar_frame_def Let_def split: if_splits)
next
  assume "csv_source d adjust csv_symbols = Inr src"
  then have "load_csvs_into_dfs d csv_symbols = Inr (bs_bar_frames src)"
    by (auto simp: csv_source_def new_bar_source_def and_then_eq_Inr)
  then show ?thesis unfolding load_csvs_into_dfs_def by (rule load_csvs_zoned) simp
qed

text \<open>
  A source built from bars in memory or from CSV files answers for a range only if both its ends have
  a zone: asked with a clock that has none (as a launch's default clock), it raises.
\<close>

theorem past_closes_want_a_zone:
  assumes "in_memory_source frames adjust = Inr src \<or> csv_source d adjust csv_symbols = Inr src"
    and "historical_closes src start_dt end_dt assets adjusted = Inr f"
  shows "\<exists>s e. start_dt = stamp.Aware s \<and> end_dt = stamp.Aware e"
proof -
  obtain columns where c: "close_series src (if adjusted then ''Adj Close'' else ''Close'') assets = Inr columns"
      "columns \<noteq> []" "range_comparable src assets start_dt end_dt"
    using assms(2) by (auto simp: historical_closes_def and_then_eq_Inr split: if_splits)
  have "\<exists>a \<in> set assets. map_of (bs_bar_frames src) a \<noteq> None"
  proof (rule ccontr)
    assume "\<not> ?thesis"
    then have "close_series src column assets = Inr []" for column by (induction assets) auto
    with c show False by auto
  qed
  then obtain a t where a: "a \<in> set assets" "map_of (bs_bar_frames src) a = Some t" by auto
  then have "pt_index t = index_kind.Aware ''UTC''" using built_source_zoned [OF assms(1)] by (force dest: map_of_SomeD)
  moreover have "comparable (pt_index t) start_dt \<and> comparable (pt_index t) end_dt"
    using c(3) a by (auto simp: range_comparable_def list_all_iff)
  ultimately show ?thesis by (auto simp: comparable_def split: stamp.splits)
qed

text \<open>
  The table is asked of the first source only, while a price is asked of one source after the other;
  and a source that carries none of the assets raises, where the interface has it leave them out.
\<close>

theorem history_is_asked_of_one_source:
  "backtest_history (src # others) = backtest_history [src] \<and>
   ((\<forall>a \<in> set assets. map_of (bs_bar_frames src) a = None) \<longrightarrow>
     backtest_history (src # others) start_dt end_dt assets adjusted = Inl ValueError)"
proof -
  have "(\<forall>a \<in> set assets. map_of (bs_bar_frames src) a = None) \<Longrightarrow> close_series src column assets = Inr []" for column
    by (induction assets) auto
  then show ?thesis by (auto simp: backtest_history_def historical_closes_def fun_eq_iff)
qed

section \<open>The table of the live plane\<close>

text \<open>What a frame says of an asset: its closes that are there.\<close>

definition seen_closes :: "closes_frame \<Rightarrow> symbol \<Rightarrow> nan_rat list" where
  "seen_closes f a = (case map_of f a of None \<Rightarrow> [] | Some xs \<Rightarrow> filter (\<lambda>x. x \<noteq> None) xs)"

lemma closes_at_map: "map_of (closes_at columns ts) a = map_option (\<lambda>column. map (cell_at column) ts) (map_of columns a)"
  unfolding closes_at_def by (rule map_of_map_snd)

lemma map_of_graph: "map_of (map (\<lambda>a. (a, f a)) (filter P xs)) a = (if a \<in> set xs \<and> P a then Some (f a) else None)"
  by (induction xs) auto

lemma joined_times_order: "sorted (joined_times columns)" "distinct (joined_times columns)"
  by (simp_all add: joined_times_def)

lemma cell_in_joined: "(a, column) \<in> set columns \<Longrightarrow> cell_at column t = Some v \<Longrightarrow> t \<in> set (joined_times columns)"
  by (force simp: joined_times_def cell_at_def split: option.splits dest: map_of_SomeD)

lemma same_closes:
  assumes "sorted ts" and "distinct ts" and "sorted us" and "distinct us"
    and "\<And>t v. t \<in> set ts \<and> cell_at f t = Some v \<longleftrightarrow> t \<in> set us \<and> cell_at g t = Some v"
  shows "filter (\<lambda>x. x \<noteq> None) (map (cell_at f) ts) = filter (\<lambda>x. x \<noteq> None) (map (cell_at g) us)"
proof -
  have "set (filter (\<lambda>t. cell_at f t \<noteq> None) ts) = set (filter (\<lambda>t. cell_at g t \<noteq> None) us)"
    using assms(5) by fastforce
  then have eq: "filter (\<lambda>t. cell_at f t \<noteq> None) ts = filter (\<lambda>t. cell_at g t \<noteq> None) us"
    using assms(1-4) by (intro sorted_distinct_set_unique) (simp_all add: sorted_wrt_filter)
  have "map (cell_at f) (filter (\<lambda>t. cell_at f t \<noteq> None) ts) = map (cell_at g) (filter (\<lambda>t. cell_at f t \<noteq> None) ts)"
  proof (intro map_cong refl)
    fix t assume "t \<in> set (filter (\<lambda>t. cell_at f t \<noteq> None) ts)"
    then obtain v where "t \<in> set ts \<and> cell_at f t = Some v" by auto
    moreover from this have "cell_at g t = Some v" using assms(5) by blast
    ultimately show "cell_at f t = cell_at g t" by simp
  qed
  with eq show ?thesis by (simp add: filter_map comp_def)
qed

definition client_column :: "close_client \<Rightarrow> timestamp \<Rightarrow> timestamp \<Rightarrow> bool \<Rightarrow> symbol \<Rightarrow> (timestamp, nan_rat) dict" where
  "client_column client start_dt end_dt adjusted a =
    (case client a (date_text start_dt) (date_text end_dt) adjusted of
       Inl e \<Rightarrow> [] | Inr closes \<Rightarrow> (case dated_closes closes [] of Inl e \<Rightarrow> [] | Inr column \<Rightarrow> column))"

definition client_answers :: "close_client \<Rightarrow> timestamp \<Rightarrow> timestamp \<Rightarrow> bool \<Rightarrow> symbol \<Rightarrow> bool" where
  "client_answers client start_dt end_dt adjusted a =
    (case client a (date_text start_dt) (date_text end_dt) adjusted of
       Inl e \<Rightarrow> e \<noteq> Interrupted | Inr closes \<Rightarrow> \<not> isl (dated_closes closes []))"

lemma dated_closes_ne: "dated_closes closes column = Inr out \<Longrightarrow> out = [] \<longleftrightarrow> closes = [] \<and> column = []"
proof (induction closes column rule: dated_closes.induct)
  case (2 date close rest column)
  then obtain d where d: "strptime date = Inr d"
    "dated_closes rest (AList.update (day_number d * ns_per_day) (Some close) column) = Inr out" by (auto simp: and_then_eq_Inr)
  have "AList.update (day_number d * ns_per_day) (Some close) column \<noteq> []" by (cases column) auto
  with 2(1) [OF d(2)] show ?case by simp
qed auto

definition live_columns :: "close_client \<Rightarrow> timestamp \<Rightarrow> timestamp \<Rightarrow> bool \<Rightarrow> symbol list \<Rightarrow> close_columns" where
  "live_columns client start_dt end_dt adjusted as = map (\<lambda>a. (a, client_column client start_dt end_dt adjusted a))
    (filter (\<lambda>a. client_column client start_dt end_dt adjusted a \<noteq> []) as)"

lemma live_series_ok:
  assumes "\<forall>a \<in> set as. client_answers client start_dt end_dt adjusted a" and "distinct (dict_keys series @ as)"
  shows "live_series client (date_text start_dt) (date_text end_dt) adjusted as series =
    Inr (series @ live_columns client start_dt end_dt adjusted as)"
  using assms
proof (induction as arbitrary: series)
  case (Cons a as)
  show ?case
  proof (cases "client a (date_text start_dt) (date_text end_dt) adjusted")
    case (Inl e)
    with Cons show ?thesis by (simp add: client_answers_def client_column_def live_columns_def)
  next
    case (Inr closes)
    with Cons.prems obtain column where column: "dated_closes closes [] = Inr column"
      by (auto simp: client_answers_def isl_def split: sum.splits) (metis sum.exhaust_sel)
    then have cc: "client_column client start_dt end_dt adjusted a = column" by (simp add: client_column_def Inr)
    show ?thesis
    proof (cases "closes = []")
      case True
      with Cons Inr cc column show ?thesis by (simp add: live_columns_def)
    next
      case False
      then have "column \<noteq> []" using dated_closes_ne [OF column] by simp
      moreover have "AList.update a column series = series @ [(a, column)]"
        using Cons.prems(2) by (intro update_new) (auto simp: map_of_eq_None_iff)
      ultimately show ?thesis using Cons.IH [of "series @ [(a, column)]"] Cons.prems Inr False column cc by (simp add: live_columns_def)
    qed
  qed
qed (simp add: live_columns_def)

lemma dated_closes_cells:
  "dated_closes closes column = Inr out \<Longrightarrow> \<forall>x \<in> snd ` set column. x \<noteq> None \<Longrightarrow> \<forall>x \<in> snd ` set out. x \<noteq> None"
proof (induction closes column rule: dated_closes.induct)
  case (2 date close rest column)
  then obtain d where d: "strptime date = Inr d"
    "dated_closes rest (AList.update (day_number d * ns_per_day) (Some close) column) = Inr out" by (auto simp: and_then_eq_Inr)
  have "snd ` set (AList.update k v column) \<subseteq> insert v (snd ` set column)" for k v
    by (induction column) auto
  then have "\<forall>x \<in> snd ` set (AList.update (day_number d * ns_per_day) (Some close) column). x \<noteq> None"
    using 2(3) by (metis insert_iff option.distinct(1) subsetD)
  from 2(1) [OF d(2) this] show ?case .
qed simp

lemma dated_closes_distinct: "dated_closes closes column = Inr out \<Longrightarrow> wf_dict column \<Longrightarrow> wf_dict out"
proof (induction closes column rule: dated_closes.induct)
  case (2 date close rest column)
  then obtain d where d: "strptime date = Inr d"
    "dated_closes rest (AList.update (day_number d * ns_per_day) (Some close) column) = Inr out" by (auto simp: and_then_eq_Inr)
  from 2(1) [OF d(2)] 2(3) show ?case by (simp add: distinct_update)
qed simp

text \<open>
  Side by side the assets do not disturb each other: what a launch sees of an asset are the closes the
  venue answered for it, in the order of their dates, whatever the dates of the other assets and
  whichever of them failed.
\<close>

theorem live_history_shows_each_asset_its_closes:
  assumes "\<forall>a \<in> set as. client_answers client start_dt end_dt adjusted a" and "distinct as" and "a \<in> set as"
  shows "\<exists>f. live_history client start_dt end_dt as adjusted = Inr (Some f) \<and>
    seen_closes f a = map snd (sort_key fst (client_column client start_dt end_dt adjusted a))"
proof -
  let ?cc = "client_column client start_dt end_dt adjusted a"
  let ?series = "live_columns client start_dt end_dt adjusted as"
  let ?f = "if ?series = [] then [] else closes_at ?series (joined_times ?series)"
  have run: "live_history client start_dt end_dt as adjusted = Inr (Some ?f)"
    using live_series_ok [of as client start_dt end_dt adjusted "[]"] assms(1,2) by (simp add: live_history_def)
  have cc: "wf_dict ?cc \<and> (\<forall>x \<in> snd ` set ?cc. x \<noteq> None)"
  proof (cases "client a (date_text start_dt) (date_text end_dt) adjusted")
    case (Inr closes)
    then show ?thesis
      using dated_closes_cells [of closes "[]"] dated_closes_distinct [of closes "[]"]
      by (cases "dated_closes closes []") (simp_all add: client_column_def)
  qed (simp add: client_column_def)
  have own: "map snd (sort_key fst ?cc) = filter (\<lambda>x. x \<noteq> None) (map (cell_at ?cc) (map fst (sort_key fst ?cc)))"
  proof -
    have "map (cell_at ?cc) (map fst (sort_key fst ?cc)) = map snd (sort_key fst ?cc)"
      using cc by (auto simp: cell_at_def wf_dict_def map_of_is_SomeI)
    moreover have "filter (\<lambda>x. x \<noteq> None) (map snd (sort_key fst ?cc)) = map snd (sort_key fst ?cc)"
      using cc by (auto simp: filter_id_conv)
    ultimately show ?thesis by (simp only:)
  qed
  have "map_of ?series a = (if ?cc = [] then None else Some ?cc)"
    using assms(3) by (simp add: live_columns_def map_of_graph)
  then have "seen_closes ?f a = filter (\<lambda>x. x \<noteq> None) (map (cell_at ?cc) (joined_times ?series))"
    by (auto simp: seen_closes_def closes_at_map cell_at_def joined_times_def)
  also have "\<dots> = filter (\<lambda>x. x \<noteq> None) (map (cell_at ?cc) (map fst (sort_key fst ?cc)))"
  proof (rule same_closes [OF joined_times_order])
    show "sorted (map fst (sort_key fst ?cc))" "distinct (map fst (sort_key fst ?cc))"
      using cc by (simp_all add: wf_dict_def distinct_map)
    fix t v
    have "t \<in> set (joined_times ?series)" if "cell_at ?cc t = Some v"
      using that assms(3) by (intro cell_in_joined [of a ?cc]) (auto simp: live_columns_def cell_at_def)
    moreover have "t \<in> set (map fst (sort_key fst ?cc))" if "cell_at ?cc t = Some v"
      using that by (force simp: cell_at_def split: option.splits dest: map_of_SomeD)
    ultimately show "t \<in> set (joined_times ?series) \<and> cell_at ?cc t = Some v \<longleftrightarrow>
        t \<in> set (map fst (sort_key fst ?cc)) \<and> cell_at ?cc t = Some v" by blast
  qed
  finally show ?thesis using run own by simp
qed

section \<open>The prices of the live plane\<close>

text \<open>The four accessors of \<^verbatim>\<open>live_data_handler.py\<close>: every side of the quote is the mark.\<close>

definition live_latest_bid :: "world \<Rightarrow> timestamp \<Rightarrow> symbol \<Rightarrow> lbroker \<Rightarrow> (exn + rat) \<times> lbroker" where
  "live_latest_bid w dt a b = get_mark w a b"

definition live_latest_ask :: "world \<Rightarrow> timestamp \<Rightarrow> symbol \<Rightarrow> lbroker \<Rightarrow> (exn + rat) \<times> lbroker" where
  "live_latest_ask w dt a b = get_mark w a b"

definition live_latest_bid_ask :: "world \<Rightarrow> timestamp \<Rightarrow> symbol \<Rightarrow> lbroker \<Rightarrow> (exn + rat \<times> rat) \<times> lbroker" where
  "live_latest_bid_ask w dt a b =
    (case get_mark w a b of (Inl e, b) \<Rightarrow> (Inl e, b) | (Inr price, b) \<Rightarrow> (Inr (price, price), b))"

definition live_latest_mid :: "world \<Rightarrow> timestamp \<Rightarrow> symbol \<Rightarrow> lbroker \<Rightarrow> (exn + rat) \<times> lbroker" where
  "live_latest_mid w dt a b = get_mark w a b"

text \<open>Until the cache is cleared an asset has one price, whichever side is asked and whenever.\<close>

lemma one_price_a_cycle:
  assumes "live_latest_bid w dt a b = (Inr p, c)"
  shows "live_latest_ask w dt' a c = (Inr p, c)" and "live_latest_mid w dt' a c = (Inr p, c)"
    and "live_latest_bid_ask w dt' a c = (Inr (p, p), c)"
proof -
  have "map_of (lb_marks c) a = Some p"
    using assms by (auto simp: live_latest_bid_def get_mark_def split: option.splits sum.splits if_splits)
  then have "get_mark w a c = (Inr p, c)" by (simp add: get_mark_def)
  then show "live_latest_ask w dt' a c = (Inr p, c)" "live_latest_mid w dt' a c = (Inr p, c)"
    "live_latest_bid_ask w dt' a c = (Inr (p, p), c)"
    by (simp_all add: live_latest_ask_def live_latest_mid_def live_latest_bid_ask_def)
qed

end
