(* ===== verification/Holidays.thy ===== *)
theory Holidays
  imports Civil_Days Kis_Gateway
begin

text \<open>
  \<^verbatim>\<open>scripts/fetch_holidays.py\<close>: the calendar of a venue, asked for day by day and written to a file,
  and \<^verbatim>\<open>exchange/krx_exchange.py\<close> reading it (\<^verbatim>\<open>load_holidays\<close>, \<^verbatim>\<open>holiday_file_covers\<close>). The venue is
  a function from the number of questions asked so far and the date asked for to its rows. Dates are
  day numbers; in the file they stand as their ISO text, which is written and read back one to one. The
  private home of the SDK, its authentication and its throttle are left out.
\<close>

section \<open>Fetching\<close>

type_synonym calendar_service = "nat \<Rightarrow> string \<Rightarrow> exn + kis_row list"

record fetching =
  ft_seen :: "string list"
  ft_holidays :: "int list"
  ft_open_days :: nat

text \<open>\<^verbatim>\<open>str(row.get(field, '')).strip()\<close>\<close>

definition row_text :: "kis_row \<Rightarrow> string \<Rightarrow> exn + string" where
  "row_text row key =
    (case row of
       None \<Rightarrow> Inl AttributeError
     | Some d \<Rightarrow> Inr (case map_of d key of None \<Rightarrow> '''' | Some f \<Rightarrow> strip (str_of f)))"

definition fetch_row :: "int \<Rightarrow> kis_row \<Rightarrow> fetching \<times> int \<Rightarrow> exn + fetching \<times> int" where
  "fetch_row end_day row st =
    (case st of (f, latest) \<Rightarrow>
     and_then (row_text row ''bass_dt'') (\<lambda>text.
       if text = [] \<or> text \<in> set (ft_seen f) then Inr (f, latest)
       else and_then (strptime text) (\<lambda>date.
         let day = day_number date in
         if end_day < day then Inr (f, latest)
         else and_then (row_text row ''opnd_yn'') (\<lambda>opened.
           let f = f\<lparr>ft_seen := ft_seen f @ [text]\<rparr> in
           Inr (if opened = ''Y'' \<or> opened = ''y'' then f\<lparr>ft_open_days := ft_open_days f + 1\<rparr>
                else f\<lparr>ft_holidays := ft_holidays f @ [day]\<rparr>, max latest day)))))"

fun fetch_rows :: "int \<Rightarrow> kis_row list \<Rightarrow> fetching \<times> int \<Rightarrow> exn + fetching \<times> int" where
  "fetch_rows end_day [] st = Inr st"
| "fetch_rows end_day (row # rows) st = and_then (fetch_row end_day row st) (fetch_rows end_day rows)"

function fetch_days :: "calendar_service \<Rightarrow> int \<Rightarrow> nat \<Rightarrow> int \<Rightarrow> fetching \<Rightarrow> exn + fetching" where
  "fetch_days service end_day n cursor f =
    (if end_day < cursor then Inr f
     else (case service n (day_text cursor) of
         Inl e \<Rightarrow> Inl e
       | Inr rows \<Rightarrow>
           if rows = [] then Inr f
           else (case fetch_rows end_day rows (f, cursor) of
               Inl e \<Rightarrow> Inl e
             | Inr (f, latest) \<Rightarrow>
                 if latest \<le> cursor then Inr f else fetch_days service end_day (n + 1) (latest + 1) f)))"
  by auto

termination
  by (relation "measure (\<lambda>(service, end_day, n, cursor, f). nat (end_day + 1 - cursor))") auto

declare fetch_days.simps [simp del]

section \<open>The file\<close>

record calendar_file =
  cf_source :: string
  cf_start :: int
  cf_end :: int
  cf_open_days :: nat
  cf_holidays :: "int list"

definition fetch_calendar :: "calendar_service \<Rightarrow> string \<Rightarrow> int \<Rightarrow> int \<Rightarrow> exn + calendar_file" where
  "fetch_calendar service svr days begin_day =
    and_then (env_dv_for svr) (\<lambda>_.
    and_then (fetch_days service (begin_day + days) 0 begin_day \<lparr>ft_seen = [], ft_holidays = [], ft_open_days = 0\<rparr>) (\<lambda>f.
      if ft_seen f = [] then Inl RuntimeError
      else let covered = sort (ft_seen f) in
        and_then (strptime (hd covered)) (\<lambda>start.
        and_then (strptime (last covered)) (\<lambda>final.
          Inr \<lparr>cf_source = ''KIS chk_holiday ('' @ svr @ '')'', cf_start = day_number start, cf_end = day_number final,
            cf_open_days = ft_open_days f, cf_holidays = sort (ft_holidays f)\<rparr>))))"

definition load_holidays :: "calendar_file \<Rightarrow> int list" where
  "load_holidays c = remdups (cf_holidays c)"

definition holiday_file_covers :: "calendar_file \<Rightarrow> int \<Rightarrow> bool" where
  "holiday_file_covers c d = holiday_range_covers (Some (cf_start c)) (Some (cf_end c)) d"

section \<open>A venue that answers truly\<close>

text \<open>
  Rows for the days from \<open>d\<close> on, one a day, each with its date and whether the venue opens on it.
\<close>

definition day_row :: "(int \<Rightarrow> bool) \<Rightarrow> int \<Rightarrow> kis_row \<Rightarrow> bool" where
  "day_row opens d row \<longleftrightarrow>
    (\<exists>x. chart_date x \<and> day_number x = d \<and> row_text row ''bass_dt'' = Inr (strftime x)) \<and>
    (\<exists>opened. row_text row ''opnd_yn'' = Inr opened \<and> (opened = ''Y'' \<or> opened = ''y'' \<longleftrightarrow> opens d))"

fun lists_days :: "(int \<Rightarrow> bool) \<Rightarrow> int \<Rightarrow> kis_row list \<Rightarrow> bool" where
  "lists_days opens d [] = True"
| "lists_days opens d (row # rows) = (day_row opens d row \<and> lists_days opens (d + 1) rows)"

definition text_of_day :: "int \<Rightarrow> string \<Rightarrow> bool" where
  "text_of_day d t \<longleftrightarrow> (\<exists>x. chart_date x \<and> day_number x = d \<and> t = strftime x)"

text \<open>What has been fetched when the days from \<open>b\<close> to \<open>m\<close> were examined.\<close>

definition fetched :: "(int \<Rightarrow> bool) \<Rightarrow> int \<Rightarrow> int \<Rightarrow> fetching \<Rightarrow> bool" where
  "fetched opens b m f \<longleftrightarrow> list_all2 text_of_day [b..m] (ft_seen f) \<and>
    ft_holidays f = filter (\<lambda>d. \<not> opens d) [b..m] \<and> ft_open_days f = length (filter opens [b..m])"

lemma text_of_day_less: "text_of_day d s \<Longrightarrow> text_of_day e t \<Longrightarrow> s < t \<longleftrightarrow> d < e"
  using date_orders(1) by (auto simp: text_of_day_def)

lemma text_of_day_eq: "text_of_day d s \<Longrightarrow> text_of_day e t \<Longrightarrow> s = t \<longleftrightarrow> d = e"
  using date_orders(2) by (auto simp: text_of_day_def)

lemma text_of_day_read: "text_of_day d t \<Longrightarrow> t \<noteq> [] \<and> (\<exists>x. strptime t = Inr x \<and> day_number x = d)"
  using strptime_strftime strftime_digits(1) by (fastforce simp: text_of_day_def)

lemma day_row_text: "day_row opens d row \<Longrightarrow> \<exists>t. row_text row ''bass_dt'' = Inr t \<and> text_of_day d t"
  by (auto simp: day_row_def text_of_day_def)

text \<open>A day past the end of the range is passed over.\<close>

lemma fetch_row_late:
  assumes "day_row opens d row" and "end_day < d"
  shows "fetch_row end_day row st = Inr st"
proof -
  obtain t x where "row_text row ''bass_dt'' = Inr t" "strptime t = Inr x" "day_number x = d"
    using day_row_text [OF assms(1)] text_of_day_read by blast
  then show ?thesis using assms(2) by (cases st) (simp add: fetch_row_def Let_def)
qed

lemma fetch_rows_late: "lists_days opens d rows \<Longrightarrow> end_day < d \<Longrightarrow> fetch_rows end_day rows st = Inr st"
  by (induction rows arbitrary: d) (auto simp: fetch_row_late)

lemma fetched_nth:
  assumes "fetched opens b m f" and "k < length (ft_seen f)"
  shows "text_of_day ([b..m] ! k) (ft_seen f ! k)" and "k < length [b..m]"
proof -
  have all: "list_all2 text_of_day [b..m] (ft_seen f)" using assms(1) by (simp only: fetched_def)
  show "text_of_day ([b..m] ! k) (ft_seen f ! k)" using list_all2_nthD2 [OF all assms(2)] .
  show "k < length [b..m]" using list_all2_lengthD [OF all] assms(2) by (simp only:)
qed

lemma fetch_row_day:
  assumes row: "day_row opens d row" and "d \<le> end_day" and "b \<le> d" and f: "fetched opens b (d - 1) f"
  shows "\<exists>g. fetch_row end_day row (f, latest) = Inr (g, max latest d) \<and> fetched opens b d g"
proof -
  obtain t where t: "row_text row ''bass_dt'' = Inr t" "text_of_day d t" using day_row_text [OF row] by blast
  obtain x where x: "t \<noteq> []" "strptime t = Inr x" "day_number x = d" using text_of_day_read [OF t(2)] by blast
  obtain opened where o: "row_text row ''opnd_yn'' = Inr opened" "opened = ''Y'' \<or> opened = ''y'' \<longleftrightarrow> opens d"
    using row by (auto simp: day_row_def)
  have "t \<notin> set (ft_seen f)"
  proof
    assume "t \<in> set (ft_seen f)"
    then obtain k where k: "k < length (ft_seen f)" "ft_seen f ! k = t" by (auto simp: in_set_conv_nth)
    have "[b..d - 1] ! k \<in> set [b..d - 1]" using fetched_nth(2) [OF f k(1)] by (rule nth_mem)
    with text_of_day_eq [OF t(2) fetched_nth(1) [OF f k(1)]] k(2) show False by simp
  qed
  moreover have "[b..d] = [b..d - 1] @ [d]" using assms(3) upto_rec2 by simp
  ultimately show ?thesis
    using t x o f assms(2) by (auto simp: fetch_row_def fetched_def Let_def list_all2_appendI)
qed

lemma fetch_rows_days:
  assumes "lists_days opens d rows" and "b \<le> d" and "d - 1 \<le> end_day" and "d - 1 \<le> latest" and "fetched opens b (d - 1) f"
  shows "\<exists>g. fetch_rows end_day rows (f, latest) = Inr (g, max latest (min end_day (d + int (length rows) - 1))) \<and>
    fetched opens b (min end_day (d + int (length rows) - 1)) g"
  using assms
proof (induction rows arbitrary: d f latest)
  case Nil
  then show ?case by (simp add: min_absorb2 max_absorb1)
next
  case (Cons row rows)
  show ?case
  proof (cases "d \<le> end_day")
    case True
    then obtain g where g: "fetch_row end_day row (f, latest) = Inr (g, max latest d)" "fetched opens b d g"
      using fetch_row_day [of opens d row end_day b f latest] Cons.prems by auto
    have "\<exists>h. fetch_rows end_day rows (g, max latest d) = Inr (h, max (max latest d) (min end_day (d + 1 + int (length rows) - 1))) \<and>
        fetched opens b (min end_day (d + 1 + int (length rows) - 1)) h"
      using Cons.prems g(2) True by (intro Cons.IH) auto
    moreover have "max (max latest d) (min end_day (d + 1 + int (length rows) - 1)) =
        max latest (min end_day (d + int (length (row # rows)) - 1))"
      using True by (simp add: max_def min_def)
    ultimately show ?thesis using g(1) by (simp add: algebra_simps)
  next
    case False
    then have "fetch_rows end_day (row # rows) (f, latest) = Inr (f, latest)"
      using fetch_rows_late [OF Cons.prems(1)] by simp
    moreover have "min end_day (d + int (length (row # rows)) - 1) = d - 1" using False Cons.prems(3) by simp
    ultimately show ?thesis using Cons.prems(4,5) by (simp add: max_absorb1)
  qed
qed

text \<open>Each question is answered with the day asked for and, before the end, at least the next.\<close>

definition answers_truly :: "calendar_service \<Rightarrow> (int \<Rightarrow> bool) \<Rightarrow> int \<Rightarrow> int \<Rightarrow> bool" where
  "answers_truly service opens b e \<longleftrightarrow>
    (\<forall>n c. b \<le> c \<longrightarrow> c \<le> e \<longrightarrow> (\<exists>rows. service n (day_text c) = Inr rows \<and> rows \<noteq> [] \<and> lists_days opens c rows \<and>
      (c < e \<longrightarrow> 2 \<le> length rows)))"

lemma fetch_days_all:
  assumes "answers_truly service opens b e" and "b \<le> c" and "c - 1 \<le> e" and "fetched opens b (c - 1) f"
  shows "\<exists>g. fetch_days service e n c f = Inr g \<and> fetched opens b e g"
  using assms
proof (induction "nat (e + 1 - c)" arbitrary: c f n rule: less_induct)
  case less
  show ?case
  proof (cases "e < c")
    case True
    with less.prems show ?thesis by (subst fetch_days.simps) (simp add: order_antisym_conv)
  next
    case False
    then obtain rows where rows: "service n (day_text c) = Inr rows" "rows \<noteq> []" "lists_days opens c rows" "c < e \<longrightarrow> 2 \<le> length rows"
      using less.prems(1,2) by (auto simp: answers_truly_def not_less)
    define m where "m = min e (c + int (length rows) - 1)"
    have m: "c \<le> m" "m \<le> e" using False rows(2) unfolding m_def by (cases rows; auto)+
    obtain g where g: "fetch_rows e rows (f, c) = Inr (g, max c m)" "fetched opens b m g"
      using fetch_rows_days [OF rows(3) less.prems(2,3) _ less.prems(4), of c] by (auto simp: m_def)
    have run: "fetch_days service e n c f = (if m \<le> c then Inr g else fetch_days service e (n + 1) (m + 1) g)"
      by (subst fetch_days.simps) (use False rows(1,2) g(1) m in \<open>simp add: max_absorb2\<close>)
    show ?thesis
    proof (cases "m \<le> c")
      case True
      then have "m = e" using m rows(4) False by (auto simp: m_def min_def split: if_splits)
      with run True g(2) show ?thesis by simp
    next
      case False
      have "\<exists>h. fetch_days service e (n + 1) (m + 1) g = Inr h \<and> fetched opens b e h"
        using False less.prems(1,2) g(2) m by (intro less.hyps) auto
      with run False show ?thesis by simp
    qed
  qed
qed

lemma fetched_order:
  assumes "fetched opens b e f"
  shows "sorted (ft_seen f)"
  unfolding sorted_iff_nth_mono_less
proof (intro allI impI)
  fix i j assume ij: "i < j" "j < length (ft_seen f)"
  have len: "length (ft_seen f) = length [b..e]" using assms by (simp add: fetched_def list_all2_conv_all_nth)
  have "[b..e] ! i < [b..e] ! j" using ij len by simp
  then show "ft_seen f ! i \<le> ft_seen f ! j"
    using text_of_day_less [OF fetched_nth(1) [OF assms, of i] fetched_nth(1) [OF assms ij(2)]] ij by simp
qed

lemma fetched_ends:
  assumes "fetched opens b e f" and "b \<le> e"
  shows "ft_seen f \<noteq> []" and "\<exists>x. strptime (hd (sort (ft_seen f))) = Inr x \<and> day_number x = b"
    and "\<exists>x. strptime (last (sort (ft_seen f))) = Inr x \<and> day_number x = e"
proof -
  have len: "length (ft_seen f) = length [b..e]" using assms(1) by (simp add: fetched_def list_all2_conv_all_nth)
  then have ne: "0 < length (ft_seen f)" using assms(2) by simp
  then show "ft_seen f \<noteq> []" by simp
  have s: "sort (ft_seen f) = ft_seen f" using fetched_order [OF assms(1)] by (rule sorted_sort_id)
  have "text_of_day b (hd (ft_seen f))"
    using fetched_nth(1) [OF assms(1) ne] assms(2) \<open>ft_seen f \<noteq> []\<close> by (simp add: hd_conv_nth)
  then show "\<exists>x. strptime (hd (sort (ft_seen f))) = Inr x \<and> day_number x = b"
    unfolding s by (blast dest: text_of_day_read)
  have "[b..e] ! (length (ft_seen f) - 1) = e" using len assms(2) by simp
  then have "text_of_day e (last (ft_seen f))"
    using fetched_nth(1) [OF assms(1), of "length (ft_seen f) - 1"] ne by (simp add: last_conv_nth)
  then show "\<exists>x. strptime (last (sort (ft_seen f))) = Inr x \<and> day_number x = e"
    unfolding s by (blast dest: text_of_day_read)
qed

lemma fetch_calendar_ok:
  assumes "env_dv_for svr = Inr env" and "0 \<le> days" and "answers_truly service opens b (b + days)"
  shows "fetch_calendar service svr days b = Inr \<lparr>cf_source = ''KIS chk_holiday ('' @ svr @ '')'', cf_start = b, cf_end = b + days,
    cf_open_days = length (filter opens [b..b + days]), cf_holidays = filter (\<lambda>d. \<not> opens d) [b..b + days]\<rparr>"
proof -
  let ?f0 = "\<lparr>ft_seen = [], ft_holidays = [], ft_open_days = 0\<rparr>"
  have "fetched opens b (b - 1) ?f0" by (simp add: fetched_def)
  then obtain f where f: "fetch_days service (b + days) 0 b ?f0 = Inr f" "fetched opens b (b + days) f"
    using fetch_days_all [OF assms(3), of b ?f0 0] assms(2) by auto
  have "sort (ft_holidays f) = filter (\<lambda>d. \<not> opens d) [b..b + days]"
    using f(2) by (simp add: fetched_def sorted_wrt_filter sorted_sort_id)
  then show ?thesis
    using f fetched_ends [OF f(2)] assms(1,2) by (auto simp: fetch_calendar_def Let_def fetched_def)
qed

text \<open>
  C40. If the venue answers truly, the file covers exactly the days asked for, counts its open days, and an
  exchange built from it trades on a covered day exactly where the venue opens on it and it is no weekend.
\<close>

theorem fetched_calendar_tells_the_truth:
  assumes "env_dv_for svr = Inr env" and "0 \<le> days" and "answers_truly service opens b (b + days)"
  shows "\<exists>c. fetch_calendar service svr days b = Inr c \<and>
    (\<forall>d. holiday_file_covers c d \<longleftrightarrow> b \<le> d \<and> d \<le> b + days) \<and>
    cf_open_days c = length (filter opens [b..b + days]) \<and>
    (\<forall>d t tz. 0 \<le> t \<longrightarrow> t < ns_per_day \<longrightarrow> holiday_file_covers c d \<longrightarrow>
      krx_is_trading_day tz (init_krx (Some (load_holidays c)) None None) (Naive (combine d t)) =
        (weekday d \<le> 4 \<and> opens d))"
proof (intro exI conjI allI impI)
  let ?c = "\<lparr>cf_source = ''KIS chk_holiday ('' @ svr @ '')'', cf_start = b, cf_end = b + days,
    cf_open_days = length (filter opens [b..b + days]), cf_holidays = filter (\<lambda>d. \<not> opens d) [b..b + days]\<rparr>"
  show "fetch_calendar service svr days b = Inr ?c" by (rule fetch_calendar_ok [OF assms])
  show covers: "holiday_file_covers ?c d \<longleftrightarrow> b \<le> d \<and> d \<le> b + days" for d
    by (simp add: holiday_file_covers_def holiday_range_covers_def)
  show "cf_open_days ?c = length (filter opens [b..b + days])" by simp
  fix d t tz assume t: "0 \<le> t" "t < ns_per_day" and d: "holiday_file_covers ?c d"
  have "date_of (combine d t) = d" using t by (simp add: date_of_def combine_def)
  moreover have "d \<in> set (load_holidays ?c) \<longleftrightarrow> \<not> opens d" using d covers by (simp add: load_holidays_def)
  ultimately show "krx_is_trading_day tz (init_krx (Some (load_holidays ?c)) None None) (Naive (combine d t)) =
      (weekday d \<le> 4 \<and> opens d)"
    by (auto simp: krx_is_trading_day_def init_krx_def Let_def)
qed

text \<open>A service over two days, open on the second only.\<close>

definition demo_row :: "string \<Rightarrow> string \<Rightarrow> kis_row" where
  "demo_row date opened = Some [(''bass_dt'', Text date), (''opnd_yn'', Text opened)]"

definition demo_service :: calendar_service where
  "demo_service n date = Inr (if date = ''19700101'' then [demo_row ''19700101'' ''N'', demo_row ''19700102'' ''Y'']
     else [demo_row ''19700102'' ''Y''])"

lemma demo_dates:
  "strftime (1970, 1, 1) = ''19700101''" "strftime (1970, 1, 2) = ''19700102''"
  "day_text 0 = ''19700101''" "day_text 1 = ''19700102''" "strip ''19700101'' = ''19700101''" "strip ''19700102'' = ''19700102''"
  "strip ''N'' = ''N''" "strip ''Y'' = ''Y''" "day_number (1970, 1, 1) = 0" "day_number (1970, 1, 2) = 1"
  by code_simp+

lemma demo_day_row:
  "day_row (\<lambda>d. d = 1) 0 (demo_row ''19700101'' ''N'')" "day_row (\<lambda>d. d = 1) 1 (demo_row ''19700102'' ''Y'')"
proof -
  have chart: "chart_date (1970, 1, 1)" "chart_date (1970, 1, 2)" by (simp_all add: days_in_month_def)
  show "day_row (\<lambda>d. d = 1) 0 (demo_row ''19700101'' ''N'')"
    unfolding day_row_def using chart(1) demo_dates
    by (intro conjI exI [of _ "(1970, 1, 1)"] exI [of _ "''N''"]) (simp_all add: demo_row_def row_text_def str_of_def)
  show "day_row (\<lambda>d. d = 1) 1 (demo_row ''19700102'' ''Y'')"
    unfolding day_row_def using chart(2) demo_dates
    by (intro conjI exI [of _ "(1970, 1, 2)"] exI [of _ "''Y''"]) (simp_all add: demo_row_def row_text_def str_of_def)
qed

theorem fetched_calendar_tells_the_truth_witness:
  "\<exists>c. fetch_calendar demo_service ''prod'' 1 0 = Inr c \<and> cf_open_days c = 1 \<and> holiday_file_covers c 1 \<and>
    \<not> krx_is_trading_day id (init_krx (Some (load_holidays c)) None None) (Naive (combine 0 0)) \<and>
    krx_is_trading_day id (init_krx (Some (load_holidays c)) None None) (Naive (combine 1 0))"
proof -
  have truly: "answers_truly demo_service (\<lambda>d. d = 1) 0 (0 + 1)"
    unfolding answers_truly_def
  proof (intro allI impI)
    fix n and c :: int assume "0 \<le> c" "c \<le> 0 + 1"
    then consider "c = 0" | "c = 1" by linarith
    then show "\<exists>rows. demo_service n (day_text c) = Inr rows \<and> rows \<noteq> [] \<and> lists_days (\<lambda>d. d = 1) c rows \<and> (c < 0 + 1 \<longrightarrow> 2 \<le> length rows)"
      using demo_day_row by cases (simp_all add: demo_service_def demo_dates)
  qed
  have env: "env_dv_for ''prod'' = Inr ''real''" by (simp add: env_dv_for_def)
  have "(0 :: int) \<le> 1" by simp
  from fetched_calendar_tells_the_truth [OF env this truly]
  obtain c where c: "fetch_calendar demo_service ''prod'' 1 0 = Inr c \<and>
      (\<forall>d. holiday_file_covers c d \<longleftrightarrow> 0 \<le> d \<and> d \<le> 0 + 1) \<and> cf_open_days c = length (filter (\<lambda>d. d = 1) [0..0 + 1]) \<and>
      (\<forall>d t tz. 0 \<le> t \<longrightarrow> t < ns_per_day \<longrightarrow> holiday_file_covers c d \<longrightarrow>
        krx_is_trading_day tz (init_krx (Some (load_holidays c)) None None) (Naive (combine d t)) = (weekday d \<le> 4 \<and> d = 1))" ..
  have "weekday 1 \<le> 4" by (simp add: weekday_def)
  moreover have "[0..0 + 1] = [0, 1 :: int]" by (simp add: upto.simps)
  ultimately show ?thesis using c by (intro exI [of _ c]) simp
qed

text \<open>
  A day the venue left out between two days it reported is covered by the file and no holiday in it: the
  exchange takes it for a trading day, though nobody examined it.
\<close>

theorem gap_is_a_trading_day:
  "\<exists>service c. fetch_calendar service ''prod'' 2 0 = Inr c \<and>
    (\<forall>n date rows. service n date = Inr rows \<longrightarrow> (\<forall>row \<in> set rows. row_text row ''bass_dt'' \<noteq> Inr (day_text 1))) \<and>
    holiday_file_covers c 1 \<and> krx_is_trading_day id (init_krx (Some (load_holidays c)) None None) (Naive (combine 1 0))"
proof -
  define service :: calendar_service where
    "service n date = (if date = ''19700101'' then Inr [demo_row ''19700101'' ''N'', demo_row ''19700103'' ''N''] else Inr [])" for n date
  have texts: "strip ''19700103'' = ''19700103''" "strptime ''19700101'' = Inr (1970, 1, 1)" "strptime ''19700103'' = Inr (1970, 1, 3)"
    "day_number (1970, 1, 3) = 2" "sort [''19700101'', ''19700103''] = [''19700101'', ''19700103'']" by code_simp+
  have "fetch_days service 2 0 0 \<lparr>ft_seen = [], ft_holidays = [], ft_open_days = 0\<rparr> =
      Inr \<lparr>ft_seen = [''19700101'', ''19700103''], ft_holidays = [0, 2], ft_open_days = 0\<rparr>"
    using texts demo_dates
    by (simp add: fetch_days.simps service_def demo_row_def fetch_row_def row_text_def str_of_def Let_def)
  then have "fetch_calendar service ''prod'' 2 0 = Inr \<lparr>cf_source = ''KIS chk_holiday (prod)'', cf_start = 0, cf_end = 2,
      cf_open_days = 0, cf_holidays = [0, 2]\<rparr>"
    using texts demo_dates by (simp add: fetch_calendar_def env_dv_for_def)
  moreover have "\<forall>n date rows. service n date = Inr rows \<longrightarrow> (\<forall>row \<in> set rows. row_text row ''bass_dt'' \<noteq> Inr (day_text 1))"
    using texts demo_dates by (auto simp: service_def demo_row_def row_text_def str_of_def)
  ultimately show ?thesis
    by (intro exI [of _ service] exI [of _ "\<lparr>cf_source = ''KIS chk_holiday (prod)'', cf_start = 0, cf_end = 2,
        cf_open_days = 0, cf_holidays = [0, 2]\<rparr>"])
      (simp add: holiday_file_covers_def holiday_range_covers_def krx_is_trading_day_def init_krx_def load_holidays_def
        weekday_def date_of_def combine_def Let_def)
qed

end
