(* ===== verification/Spec2Isabelle.thy ===== *)
theory Spec2Isabelle
  imports Prelude Py_Text Fee_Model Portfolio Data_Handler Simulated_Broker Portfolio_Construction
    Trading_System Messaging Actors Live_Ledger Live_Guard Live_Broker Live_Orders Live_Books
    Live_Collect Live_Settle Live_Reconcile Live_Session Kis_Parse Signals
    Overnight Backtest Chart_Dates Kis_Gateway Kis_Charts
    Worker Performance Report Promotion Env_File Strategies Bar_Sources Holidays
begin

text \<open>
  \<^bold>\<open>vm-quant-trader\<close> is a Python library that turns a strategy's target weights into orders
  and books their fills, against a simulated market (backtest) or a live venue. This
  development models its core.

  \<^bold>\<open>How the program works.\<close> A trading system (\<^verbatim>\<open>vmtrader/system/qts.py\<close>) is called on the
  rebalance dates. Its construction model (\<^verbatim>\<open>portcon/pcm.py\<close>) asks the alpha, risk and
  optimiser models for weights, an order sizer turns weights into integer quantities from the
  broker's equity and the data handler's prices, and the differences to what is held become
  market orders. The execution handler submits them to the broker one by one and lets it update.
  The broker (\<^verbatim>\<open>broker/simulated_broker.py\<close>) queues orders, fills them while the exchange is
  open at the bid or the ask, charges a fee model and books a transaction with the portfolio,
  which keeps cash, an event trail and, per symbol, a position with running averages. A backtest
  (\<^verbatim>\<open>trading/backtest.py\<close>) drives all of this with the events of a simulated clock. In a live
  session the decision runs in a strategy executor and the orders in a broker actor, with a
  mailbox and a barrier between them (\<^verbatim>\<open>messaging\<close>, \<^verbatim>\<open>broker/actor.py\<close>,
  \<^verbatim>\<open>alpha_model/base_strategy_executor.py\<close>, \<^verbatim>\<open>trading/live.py\<close>).

  \<^bold>\<open>Theories.\<close> In the order of their imports, all paths under \<^verbatim>\<open>vmtrader/\<close>:
  \<^item> \<open>Prelude\<close>: Python exceptions and values (\<open>exn\<close>, \<open>outcome\<close>, NaN, rounding, insertion-ordered
    dictionaries), loops that may raise, and their lemmas.
  \<^item> \<open>Py_Text\<close>: the methods of \<^verbatim>\<open>str\<close> the parsers use.
  \<^item> \<open>Fee_Model\<close>: \<^verbatim>\<open>broker/fee_model/*.py\<close>, one definition per method of each subclass.
  \<^item> \<open>Position\<close>: \<^verbatim>\<open>broker/transaction/transaction.py\<close>, \<^verbatim>\<open>broker/portfolio/position.py\<close>.
  \<^item> \<open>Portfolio\<close>: \<^verbatim>\<open>portfolio.py\<close>, \<^verbatim>\<open>position_handler.py\<close>, \<^verbatim>\<open>portfolio_event.py\<close>.
  \<^item> \<open>Calendar\<close>: \<^verbatim>\<open>exchange/*.py\<close>, \<^verbatim>\<open>simulation/*.py\<close>, \<^verbatim>\<open>system/rebalance/*.py\<close>.
  \<^item> \<open>Data_Handler\<close>: \<^verbatim>\<open>data/daily_bar.py\<close>, \<^verbatim>\<open>data/backtest_data_handler.py\<close>.
  \<^item> \<open>Simulated_Broker\<close>: \<^verbatim>\<open>execution/order.py\<close>, \<^verbatim>\<open>broker/simulated_broker.py\<close>.
  \<^item> \<open>Portfolio_Construction\<close>: \<^verbatim>\<open>asset/universe\<close>, \<^verbatim>\<open>alpha_model\<close>, \<^verbatim>\<open>portcon\<close>.
  \<^item> \<open>Trading_System\<close>: \<^verbatim>\<open>messaging/command.py\<close>, \<^verbatim>\<open>execution/execution_handler.py\<close>,
    \<^verbatim>\<open>system/qts.py\<close>.
  \<^item> \<open>Messaging\<close>: \<^verbatim>\<open>messaging/*.py\<close>.
  \<^item> \<open>Actors\<close>: the two actors and the barrier.
  \<^item> \<open>Live_Ledger\<close>, \<open>Live_Guard\<close>: \<^verbatim>\<open>broker/live/ledger.py\<close>, \<^verbatim>\<open>broker/live/guards.py\<close>.
  \<^item> \<open>Live_Broker\<close>: \<^verbatim>\<open>broker/live_broker.py\<close> with the data of \<^verbatim>\<open>broker/live/client.py\<close> and the
    marks of \<^verbatim>\<open>data/live_data_handler.py\<close>; \<open>Live_Orders\<close>, \<open>Live_Books\<close>, \<open>Live_Collect\<close> and
    \<open>Live_Settle\<close> hold what is proved of submission, booking, collecting and settlement.
  \<^item> \<open>Live_Reconcile\<close>: \<^verbatim>\<open>broker/live/reconcile.py\<close>, and what a restart does to an account.
  \<^item> \<open>Live_Session\<close>: \<^verbatim>\<open>trading/live.py\<close>, the launches, over all of the above.
  \<^item> \<open>Kis_Parse\<close>: \<^verbatim>\<open>broker/kis/parse.py\<close>, from the venue's rows of text to the values the live
    broker takes.
  \<^item> \<open>Signals\<close>: \<^verbatim>\<open>signals/*.py\<close>, the rolling signals, their updates and the warm-up of a launch.
  \<^item> \<open>Overnight\<close>: what is proved of decisions taken while the market is closed.
  \<^item> \<open>Backtest\<close>: \<^verbatim>\<open>trading/backtest.py\<close>, construction and run of a whole backtest over all of the above.
  \<^item> \<open>Chart_Dates\<close>, \<open>Kis_Gateway\<close>, \<open>Kis_Charts\<close>: \<^verbatim>\<open>scripts/kis_gateway.py\<close> (beside \<^verbatim>\<open>vmtrader/\<close>), the
    client the live broker is given: its dates, its throttle, retries and requests, and what the paging
    of the price history amounts to.
  \<^item> \<open>Worker\<close>: \<^verbatim>\<open>broker/live/worker.py\<close>, the queue and the thread that polls fills, as a step relation.
  \<^item> \<open>Civil_Years\<close>: the day a year begins, the year of a day and the month it lies in.
  \<^item> \<open>Performance\<close>, \<open>Report\<close>: \<^verbatim>\<open>statistics/performance.py\<close>, and the figures of \<^verbatim>\<open>json_statistics.py\<close> and
    \<^verbatim>\<open>tearsheet.py\<close>.
  \<^item> \<open>Promotion\<close>: \<^verbatim>\<open>scripts/promotion_check.py\<close> (beside \<^verbatim>\<open>vmtrader/\<close>), the criteria a ledger is
    judged by before real money, and what of them a launch makes true by itself.
  \<^item> \<open>Env_File\<close>: \<^verbatim>\<open>env_file.py\<close>, the settings file: where it is found, how it is read, what it changes.
  \<^item> \<open>Strategies\<close>: the alpha models of \<^verbatim>\<open>examples/sma_crossover.py\<close> and \<^verbatim>\<open>examples/momentum_taa.py\<close>
    (beside \<^verbatim>\<open>vmtrader/\<close>) over the signals.
  \<^item> \<open>Bar_Sources\<close>: \<^verbatim>\<open>data/daily_bar_memory.py\<close>, \<^verbatim>\<open>data/daily_bar_csv.py\<close>, and the past closes
    of both planes (\<^verbatim>\<open>daily_bar.py\<close>, \<^verbatim>\<open>live_data_handler.py\<close>).
  \<^item> \<open>Civil_Days\<close>: a date, its day number and its text, which all stand in one order.
  \<^item> \<open>Holidays\<close>: \<^verbatim>\<open>scripts/fetch_holidays.py\<close> (beside \<^verbatim>\<open>vmtrader/\<close>), the calendar file of a venue, and
    the exchange built from it.

  \<^bold>\<open>State.\<close> An object is a record whose fields are the attributes, in the source's order; a
  method is a definition that takes the object and returns an \<open>outcome\<close>, the object as the method
  leaves it together with the exception it raised, if any, so that a method that raises half way
  leaves the half-done object behind. A dictionary is an association list in insertion order.
  Prices, quantities and amounts of money are exact rationals (\<open>rat\<close>) where Python computes with
  floats; the rounding the code asks for (\<^verbatim>\<open>round\<close>, \<^verbatim>\<open>floor\<close>, \<^verbatim>\<open>int\<close>) is written out, the rounding of
  float arithmetic itself is not modelled, and prices are finite: where pandas divides by a close of zero
  and carries an infinity on, the model has a missing price. A missing price is \<open>None\<close>, for NaN. Integers are
  unbounded, as Python's are. A timestamp is an integer number of nanoseconds since the epoch, a day its
  quotient by \<open>ns_per_day\<close>.

  \<^bold>\<open>What the lemmas show.\<close> Each theory first gives the invariant of its state (\<open>pf_wf\<close>,
  \<open>wf_sim_broker\<close>, \<open>wf_mailbox\<close>) with a preservation lemma per operation, then the effect
  of each operation on the quantities of interest, then its properties. The locales state what one
  component needs of another (a venue's hours, a fee schedule, a quote feed, a message channel)
  and are interpreted on the provider's definitions in the provider's theory.

  \<^bold>\<open>The live plane.\<close> Venue, clock and file system are a \<open>world\<close>: a function from the number of
  questions asked so far to the answer, which the theorems quantify over, so the outside may
  answer differently at every question. Each question counts up \<open>lb_asked\<close>. Settlement loops
  until nothing is open, the deadline, or the kill switch; the loop is a \<open>partial_function\<close>, a call
  that never returns is \<open>None\<close>, and that it returns is the theorem \<open>settlement_returns\<close>. It needs that no
  answer about an order is an exit: \<open>Interrupted\<close> is an exception the handlers for ordinary ones do not
  name, which ends the thread it is raised on, and the barrier waits for a dead poller
  (\<open>exit_in_the_poller_blocks_settlement\<close>; \<open>dead_thread_never_drains\<close> on the worker itself). That a venue gives
  each order a new number (\<open>new_numbers\<close>) is its own promise, which the code relies on. Below the broker stands the
  gateway, whose SDK is a \<open>kit\<close> of functions on a state of its own that answers, raises and takes time
  as it likes; a page loop has the code's ten rounds, a retry its three attempts.

  \<^bold>\<open>Not modelled.\<close> Plots and the writing of report files; the command-line
  scripts other than the gateway, the promotion check and the fetch of holidays; reading CSV files; SQLite, threads and sockets as such, whose
  atomic operations are steps here; logging, printing and text for people. User-written alpha and
  risk models, the time-zone library, the vendor's SDK and the venue are parameters.
\<close>

end
